(* ===== verification/Prelude.thy ===== *)
theory Prelude
  imports Main "HOL-Library.Word" "HOL-Library.Multiset" "HOL-Library.Log_Nat"
begin

text \<open>
  Shared vocabulary of the development: the Go types and error convention the components use,
  the wrap-around of 64-bit arithmetic, the rounding of \<^verbatim>\<open>float64(int64)\<close>, and the lemma
  collections and list lemmas the component theories share.
\<close>

section \<open>Lemma collections\<close>

named_theorems inv_intros \<open>operations that keep an invariant, one lemma per operation\<close>
named_theorems fault_free_simps \<open>results of the operations when no outside call fails\<close>
named_theorems frame_simps \<open>fields an operation does not change\<close>

section \<open>Go values\<close>

type_synonym byte = "8 word"

text \<open>A Go \<^verbatim>\<open>error\<close> is its text: the handlers look into it (\<^verbatim>\<open>contains(err.Error(), ...)\<close>), so
  the text is part of the behaviour.  \<^verbatim>\<open>(T, error)\<close> is a sum, \<open>Inl\<close> the error.\<close>

type_synonym go_error = string
type_synonym 'a result = "go_error + 'a"

definition is_ok :: "'e + 'a \<Rightarrow> bool" where
  "is_ok r = (case r of Inl _ \<Rightarrow> False | Inr _ \<Rightarrow> True)"

lemma is_ok_simps [simp]: "is_ok (Inr a)" "\<not> is_ok (Inl e)"
  by (simp_all add: is_ok_def)

lemma is_okE: "is_ok r \<Longrightarrow> (\<And>a. r = Inr a \<Longrightarrow> P) \<Longrightarrow> P"
  by (cases r) (auto simp: is_ok_def)

text \<open>\<^verbatim>\<open>fmt.Errorf("prefix: %w", err)\<close>.\<close>

definition wrapf :: "string \<Rightarrow> go_error \<Rightarrow> go_error" where
  "wrapf p e = p @ '': '' @ e"

text \<open>\<^verbatim>\<open>int64\<close> arithmetic is written on \<open>int\<close> with the wrap-around applied to each result.\<close>

definition i64 :: "int \<Rightarrow> int" where
  "i64 x = (x + 2 ^ 63) mod 2 ^ 64 - 2 ^ 63"

definition in_i64 :: "int \<Rightarrow> bool" where
  "in_i64 x \<longleftrightarrow> - (2 ^ 63) \<le> x \<and> x < 2 ^ 63"

lemma i64_id [simp]: "in_i64 x \<Longrightarrow> i64 x = x"
  by (simp add: i64_def in_i64_def)

lemma in_i64_i64 [simp]: "in_i64 (i64 x)"
  by (simp add: i64_def in_i64_def)

lemma in_i64I: "- 9223372036854775808 \<le> x \<Longrightarrow> x < 9223372036854775808 \<Longrightarrow> in_i64 x"
  by (simp add: in_i64_def)

lemma in_i64_between: "0 \<le> x \<Longrightarrow> x \<le> y \<Longrightarrow> in_i64 y \<Longrightarrow> in_i64 x"
  by (simp add: in_i64_def)

text \<open>\<^verbatim>\<open>int32\<close> counters (the \<^verbatim>\<open>atomic.AddInt32\<close> statistics and the chunk index on the wire).\<close>

definition i32 :: "int \<Rightarrow> int" where
  "i32 x = (x + 2 ^ 31) mod 2 ^ 32 - 2 ^ 31"

lemma i32_id [simp]: "- 2147483648 \<le> x \<Longrightarrow> x < 2147483648 \<Longrightarrow> i32 x = x"
  by (simp add: i32_def)

section \<open>float64(int64)\<close>

text \<open>
  Conversion to \<^verbatim>\<open>float64\<close> keeps 53 significant bits, rounding half to even.  The result is an
  integer again (the program only converts integers), so the rounding is integer arithmetic.
\<close>

definition div_half_even :: "int \<Rightarrow> int \<Rightarrow> int" where
  "div_half_even a d =
     (let q = a div d; r = a mod d in
      if 2 * r < d then q else if d < 2 * r then q + 1 else if even q then q else q + 1)"

definition f64_of_int :: "int \<Rightarrow> int" where
  "f64_of_int x =
     (if \<bar>x\<bar> \<le> 2 ^ 53 then x
      else let s = 2 ^ nat (bitlen \<bar>x\<bar> - 53) in sgn x * (div_half_even \<bar>x\<bar> s * s))"

lemma f64_of_int_exact [simp]: "\<bar>x\<bar> \<le> 2 ^ 53 \<Longrightarrow> f64_of_int x = x"
  by (simp add: f64_of_int_def)

text \<open>Go's integer division truncates towards zero.\<close>

definition go_div :: "int \<Rightarrow> int \<Rightarrow> int" where
  "go_div a b = sgn a * sgn b * (\<bar>a\<bar> div \<bar>b\<bar>)"

definition go_mod :: "int \<Rightarrow> int \<Rightarrow> int" where
  "go_mod a b = a - go_div a b * b"

lemma go_div_nonneg [simp]: "0 \<le> a \<Longrightarrow> 0 < b \<Longrightarrow> go_div a b = a div b"
  by (cases "a = 0") (auto simp: go_div_def)

lemma go_mod_nonneg [simp]: "0 \<le> a \<Longrightarrow> 0 < b \<Longrightarrow> go_mod a b = a mod b"
  by (simp add: go_mod_def minus_div_mult_eq_mod)

section \<open>Generic lemmas\<close>

lemma concat_map_singleton [simp]: "concat (map (\<lambda>x. [f x]) xs) = map f xs"
  by (induction xs) auto

lemma concat_concat_map: "concat (concat (map f xs)) = concat (map (\<lambda>x. concat (f x)) xs)"
  by (induction xs) auto

lemma i32_i32 [simp]: "i32 (i32 a + b) = i32 (a + b)"
  by (simp add: i32_def mod_simps algebra_simps)

lemma i32_i32' [simp]: "i32 (b + i32 a) = i32 (b + a)"
  by (simp add: i32_def mod_simps algebra_simps)

lemma map_filter_id: "(\<And>x. x \<in> set xs \<Longrightarrow> P x) \<Longrightarrow> filter P xs = xs"
  by (induction xs) auto

lemma sum_list_filter_split:
  "sum_list (map f (filter P xs)) + sum_list (map f (filter (\<lambda>x. \<not> P x) xs)) = sum_list (map f xs)"
  for f :: "'a \<Rightarrow> 'b::comm_monoid_add"
  by (induction xs) (auto simp: ac_simps)

lemma length_filter_mono: "(\<And>x. x \<in> set xs \<Longrightarrow> P x \<Longrightarrow> Q x) \<Longrightarrow> length (filter P xs) \<le> length (filter Q xs)"
  by (induction xs) (auto intro: le_SucI)

lemma length_filter_map_comp: "length (filter P (map f xs)) = length (filter (P \<circ> f) xs)"
  by (induction xs) auto

lemma sorted_key_unique:
  "\<lbrakk>sorted (map k xs); sorted (map k ys); mset xs = mset ys; distinct (map k xs)\<rbrakk> \<Longrightarrow> xs = ys"
proof (induction xs arbitrary: ys)
  case Nil
  then show ?case by simp
next
  case (Cons x xs)
  then obtain y ys' where ys: "ys = y # ys'" by (cases ys) auto
  have sets: "insert x (set xs) = insert y (set ys')"
    using Cons.prems(3) ys by (metis list.simps(15) mset_eq_setD)
  have y: "y = x \<or> y \<in> set xs" and x: "x = y \<or> x \<in> set ys'"
    using sets by blast+
  from y have "k x \<le> k y" using Cons.prems(1) by auto
  moreover from x have "k y \<le> k x" using Cons.prems(2) by (auto simp: ys)
  ultimately have "k x = k y" by (rule antisym)
  with y Cons.prems(4) have "x = y" by force
  moreover have "xs = ys'"
    using Cons.prems ys \<open>x = y\<close> by (intro Cons.IH) simp_all
  ultimately show ?case using ys by simp
qed

end
