(* ===== verification/StreamIO.thy ===== *)
theory StreamIO
  imports Prelude
begin

text \<open>
  Go's byte streams as the program uses them.  An \<^verbatim>\<open>io.Reader\<close> is what its \<^verbatim>\<open>Read\<close> calls return
  one after the other: non-empty frames, then end of file (\<open>rd_err = None\<close>) or an error.
  \<^verbatim>\<open>io.ReadAll\<close> and \<^verbatim>\<open>io.Copy\<close> consume it, \<^verbatim>\<open>io.MultiReader\<close> chains readers, \<^verbatim>\<open>io.ReadFull\<close> fills a
  buffer from one.
\<close>

record reader =
  rd_frames :: "byte list list"
  rd_err :: "go_error option"

definition reader_of :: "byte list \<Rightarrow> reader" where
  "reader_of bs = \<lparr>rd_frames = (if bs = [] then [] else [bs]), rd_err = None\<rparr>"

definition rd_content :: "reader \<Rightarrow> byte list" where
  "rd_content r = concat (rd_frames r)"

lemma rd_reader_of [simp]: "rd_content (reader_of bs) = bs" "rd_err (reader_of bs) = None"
  by (simp_all add: rd_content_def reader_of_def)

definition read_all :: "reader \<Rightarrow> byte list result" where
  "read_all r = (case rd_err r of None \<Rightarrow> Inr (rd_content r) | Some err \<Rightarrow> Inl err)"

lemma read_all_reader_of [simp]: "read_all (reader_of bs) = Inr bs"
  by (simp add: read_all_def)

lemma read_all_Inr_iff: "read_all r = Inr d \<longleftrightarrow> rd_err r = None \<and> d = rd_content r"
  by (auto simp: read_all_def split: option.splits)

text \<open>\<^verbatim>\<open>io.MultiReader\<close>: the readers one after the other; an error ends the stream.\<close>

fun multi_reader :: "reader list \<Rightarrow> reader" where
  "multi_reader [] = \<lparr>rd_frames = [], rd_err = None\<rparr>"
| "multi_reader (r # rs) =
     (case rd_err r of
        Some err \<Rightarrow> r
      | None \<Rightarrow> let m = multi_reader rs in \<lparr>rd_frames = rd_frames r @ rd_frames m, rd_err = rd_err m\<rparr>)"

lemma multi_reader_ok:
  "(\<And>r. r \<in> set rs \<Longrightarrow> rd_err r = None) \<Longrightarrow>
   rd_err (multi_reader rs) = None \<and> rd_content (multi_reader rs) = concat (map rd_content rs)"
  by (induction rs) (auto simp: Let_def rd_content_def)

text \<open>
  \<^verbatim>\<open>io.ReadFull(r, buf)\<close> with a buffer of \<open>n\<close> bytes: the bytes read, how it ended, and the reader
  afterwards.  A read that ends early reports \<^verbatim>\<open>io.EOF\<close> when it got nothing,
  \<^verbatim>\<open>io.ErrUnexpectedEOF\<close> when it got something, or the reader's error.
\<close>

datatype full_status = FullOk | FullEOF | FullUnexpectedEOF | FullErr go_error

definition read_full :: "nat \<Rightarrow> reader \<Rightarrow> byte list \<times> full_status \<times> reader" where
  "read_full n r =
     (let d = rd_content r in
      if n \<le> length d then
        (take n d, FullOk, r\<lparr>rd_frames := (if drop n d = [] then [] else [drop n d])\<rparr>)
      else
        (d,
         (case rd_err r of Some err \<Rightarrow> FullErr err
          | None \<Rightarrow> if d = [] then FullEOF else FullUnexpectedEOF),
         r\<lparr>rd_frames := []\<rparr>))"

lemma read_full_content:
  "read_full n r = (bs, st, r') \<Longrightarrow> bs @ rd_content r' = rd_content r \<and> rd_err r' = rd_err r"
  by (auto simp: read_full_def rd_content_def Let_def split: if_splits)

lemma read_full_length: "read_full n r = (bs, st, r') \<Longrightarrow> length bs \<le> n"
  by (auto simp: read_full_def Let_def split: if_splits)

end
