(* ===== verification/Fingerprint.thy ===== *)
theory Fingerprint
  imports StreamIO
begin

text \<open>
  Chunk fingerprints: \<^verbatim>\<open>internal/chunking/fingerprint.go\<close>.  The code hashes a chunk with the
  standard library's \<^verbatim>\<open>crypto/sha256\<close> and prints the digest in lower-case hexadecimal
  with \<^verbatim>\<open>encoding/hex\<close>.  Both are written out here (FIPS 180-4 over 32-bit words), so
  that a digest is a value the kernel can compute and not an uninterpreted symbol; the
  consistent-hash ring uses the first four bytes of the same digest.
\<close>

unbundle bit_operations_syntax

section \<open>SHA-256\<close>

type_synonym w32 = "32 word"

definition sha_k :: "w32 list" where
  "sha_k =
    [1116352408, 1899447441, 3049323471, 3921009573, 961987163, 1508970993, 2453635748, 2870763221,
     3624381080, 310598401, 607225278, 1426881987, 1925078388, 2162078206, 2614888103, 3248222580,
     3835390401, 4022224774, 264347078, 604807628, 770255983, 1249150122, 1555081692, 1996064986,
     2554220882, 2821834349, 2952996808, 3210313671, 3336571891, 3584528711, 113926993, 338241895,
     666307205, 773529912, 1294757372, 1396182291, 1695183700, 1986661051, 2177026350, 2456956037,
     2730485921, 2820302411, 3259730800, 3345764771, 3516065817, 3600352804, 4094571909, 275423344,
     430227734, 506948616, 659060556, 883997877, 958139571, 1322822218, 1537002063, 1747873779,
     1955562222, 2024104815, 2227730452, 2361852424, 2428436474, 2756734187, 3204031479, 3329325298]"

definition rotr32 :: "nat \<Rightarrow> w32 \<Rightarrow> w32" where
  "rotr32 n x = drop_bit n x OR push_bit (32 - n) x"

definition sigma_s0 :: "w32 \<Rightarrow> w32" where
  "sigma_s0 x = (rotr32 7 x XOR rotr32 18 x) XOR drop_bit 3 x"

definition sigma_s1 :: "w32 \<Rightarrow> w32" where
  "sigma_s1 x = (rotr32 17 x XOR rotr32 19 x) XOR drop_bit 10 x"

definition sigma_b0 :: "w32 \<Rightarrow> w32" where
  "sigma_b0 x = (rotr32 2 x XOR rotr32 13 x) XOR rotr32 22 x"

definition sigma_b1 :: "w32 \<Rightarrow> w32" where
  "sigma_b1 x = (rotr32 6 x XOR rotr32 11 x) XOR rotr32 25 x"

definition sha_ch :: "w32 \<Rightarrow> w32 \<Rightarrow> w32 \<Rightarrow> w32" where
  "sha_ch x y z = (x AND y) XOR (NOT x AND z)"

definition sha_maj :: "w32 \<Rightarrow> w32 \<Rightarrow> w32 \<Rightarrow> w32" where
  "sha_maj x y z = ((x AND y) XOR (x AND z)) XOR (y AND z)"

datatype sha_state = Sha w32 w32 w32 w32 w32 w32 w32 w32

definition sha_init :: sha_state where
  "sha_init = Sha 1779033703 3144134277 1013904242 2773480762 1359893119 2600822924 528734635 1541459225"

fun sha_round :: "w32 \<times> w32 \<Rightarrow> sha_state \<Rightarrow> sha_state" where
  "sha_round (k, w) (Sha a b c d e f g h) =
     (let t1 = h + sigma_b1 e + sha_ch e f g + k + w;
          t2 = sigma_b0 a + sha_maj a b c
      in Sha (t1 + t2) a b c (d + t1) e f g)"

fun sha_add :: "sha_state \<Rightarrow> sha_state \<Rightarrow> sha_state" where
  "sha_add (Sha a b c d e f g h) (Sha a' b' c' d' e' f' g' h') =
     Sha (a + a') (b + b') (c + c') (d + d') (e + e') (f + f') (g + g') (h + h')"

text \<open>The message schedule: the sixteen words of the block, then 48 more, each computed from a
  sliding window of the sixteen before it.\<close>

fun sha_schedule :: "nat \<Rightarrow> w32 list \<Rightarrow> w32 list" where
  "sha_schedule 0 ws = ws"
| "sha_schedule (Suc n) (w0 # w1 # ws) =
     w0 # sha_schedule n (w1 # ws @ [sigma_s1 (ws ! 12) + ws ! 7 + sigma_s0 w1 + w0])"
| "sha_schedule (Suc n) ws = ws"

definition sha_compress :: "sha_state \<Rightarrow> w32 list \<Rightarrow> sha_state" where
  "sha_compress s ws = sha_add s (fold sha_round (zip sha_k (sha_schedule 48 ws)) s)"

fun be_words :: "byte list \<Rightarrow> w32 list" where
  "be_words (a # b # c # d # bs) =
     ((push_bit 24 (ucast a) OR push_bit 16 (ucast b)) OR (push_bit 8 (ucast c) OR ucast d)) # be_words bs"
| "be_words _ = []"

definition be_bytes :: "w32 \<Rightarrow> byte list" where
  "be_bytes w = [ucast (drop_bit 24 w), ucast (drop_bit 16 w), ucast (drop_bit 8 w), ucast w]"

definition sha_pad :: "byte list \<Rightarrow> byte list" where
  "sha_pad m =
     (let bits = 8 * word_of_nat (length m) :: 64 word in
      m @ 0x80 # replicate ((119 - length m mod 64) mod 64) 0 @
      be_bytes (ucast (drop_bit 32 bits)) @ be_bytes (ucast bits))"

function sha_blocks :: "sha_state \<Rightarrow> w32 list \<Rightarrow> sha_state" where
  "sha_blocks s ws = (if ws = [] then s else sha_blocks (sha_compress s (take 16 ws)) (drop 16 ws))"
  by pat_completeness auto
termination by (relation "measure (\<lambda>(s, ws). length ws)") auto

declare sha_blocks.simps [simp del]

fun sha_bytes :: "sha_state \<Rightarrow> byte list" where
  "sha_bytes (Sha a b c d e f g h) = concat (map be_bytes [a, b, c, d, e, f, g, h])"

definition sha256_Sum256 :: "byte list \<Rightarrow> byte list" where
  "sha256_Sum256 m = sha_bytes (sha_blocks sha_init (be_words (sha_pad m)))"

lemma length_sha256 [simp]: "length (sha256_Sum256 m) = 32"
proof -
  obtain a b c d e f g h where "sha_blocks sha_init (be_words (sha_pad m)) = Sha a b c d e f g h"
    by (cases "sha_blocks sha_init (be_words (sha_pad m))")
  then show ?thesis by (simp add: sha256_Sum256_def be_bytes_def)
qed

section \<open>Hexadecimal\<close>

definition hex_digit :: "nat \<Rightarrow> char" where
  "hex_digit n = (if n < 10 then char_of (48 + n) else char_of (87 + n))"

definition hex_byte :: "byte \<Rightarrow> string" where
  "hex_byte b = [hex_digit (unat b div 16), hex_digit (unat b mod 16)]"

text \<open>\<^verbatim>\<open>hex.EncodeToString\<close>.\<close>

definition hex_EncodeToString :: "byte list \<Rightarrow> string" where
  "hex_EncodeToString bs = concat (map hex_byte bs)"

lemma hex_digit_inj: "m < 16 \<Longrightarrow> n < 16 \<Longrightarrow> hex_digit m = hex_digit n \<Longrightarrow> m = n"
proof -
  assume a: "m < 16" "n < 16" "hex_digit m = hex_digit n"
  then have "(of_char (hex_digit m) :: nat) = of_char (hex_digit n)" by simp
  with a(1,2) show ?thesis by (simp add: hex_digit_def split: if_splits)
qed

lemma hex_byte_inj: "hex_byte a = hex_byte b \<Longrightarrow> a = b"
proof -
  assume eq: "hex_byte a = hex_byte b"
  have l: "unat a < 256" "unat b < 256"
    using unsigned_less [of a] unsigned_less [of b] by simp_all
  have "hex_digit (unat a div 16) = hex_digit (unat b div 16)"
    and "hex_digit (unat a mod 16) = hex_digit (unat b mod 16)"
    using eq by (simp_all add: hex_byte_def)
  then have "unat a div 16 = unat b div 16" "unat a mod 16 = unat b mod 16"
    using l by (auto intro: hex_digit_inj)
  then have "unat a = unat b" by (metis div_mult_mod_eq)
  then show ?thesis by (rule unsigned_word_eqI)
qed

lemma length_hex_EncodeToString [simp]: "length (hex_EncodeToString bs) = 2 * length bs"
  by (induction bs) (auto simp: hex_EncodeToString_def hex_byte_def)

text \<open>Hexadecimal text determines the bytes.\<close>

lemma hex_EncodeToString_inj: "hex_EncodeToString a = hex_EncodeToString b \<Longrightarrow> a = b"
proof (induction a arbitrary: b)
  case Nil
  then show ?case by (cases b) (auto simp: hex_EncodeToString_def hex_byte_def)
next
  case (Cons x a)
  then obtain y b' where b: "b = y # b'"
    by (cases b) (auto simp: hex_EncodeToString_def hex_byte_def)
  with Cons.prems have "hex_byte x = hex_byte y" "hex_EncodeToString a = hex_EncodeToString b'"
    by (auto simp: hex_EncodeToString_def hex_byte_def)
  with Cons.IH b show ?case by (auto dest: hex_byte_inj)
qed

section \<open>The fingerprint functions\<close>

definition SHA256Hash :: "byte list \<Rightarrow> string" where
  "SHA256Hash data = hex_EncodeToString (sha256_Sum256 data)"

lemma length_SHA256Hash [simp]: "length (SHA256Hash d) = 64"
  by (simp add: SHA256Hash_def)

text \<open>Equal fingerprints mean equal digests: the hexadecimal text loses nothing.\<close>

lemma SHA256Hash_eq_iff: "SHA256Hash a = SHA256Hash b \<longleftrightarrow> sha256_Sum256 a = sha256_Sum256 b"
  by (auto simp: SHA256Hash_def dest: hex_EncodeToString_inj)

text \<open>
  \<^verbatim>\<open>SHA256Stream\<close> returns the digest of everything read and the number of bytes, or the reader's
  error; \<^verbatim>\<open>FileChecksum\<close> keeps the digest.
\<close>

definition SHA256Stream :: "reader \<Rightarrow> (string \<times> int) result" where
  "SHA256Stream r =
     (case read_all r of
        Inl err \<Rightarrow> Inl err
      | Inr data \<Rightarrow> Inr (hex_EncodeToString (sha256_Sum256 data), int (length data)))"

definition FileChecksum :: "reader \<Rightarrow> string result" where
  "FileChecksum r = (case SHA256Stream r of Inl err \<Rightarrow> Inl err | Inr (digest, n) \<Rightarrow> Inr digest)"

text \<open>
  Fingerprints are collision-free on a set of contents: what content addressing relies on.  No
  proof of this exists for SHA-256 on all inputs; the theorems that need it carry it as a
  hypothesis about the contents at hand.
\<close>

definition collision_free :: "byte list set \<Rightarrow> bool" where
  "collision_free U \<longleftrightarrow> inj_on SHA256Hash U"

lemma collision_freeD:
  "collision_free U \<Longrightarrow> a \<in> U \<Longrightarrow> b \<in> U \<Longrightarrow> SHA256Hash a = SHA256Hash b \<Longrightarrow> a = b"
  by (auto simp: collision_free_def dest: inj_onD)

lemma collision_free_singleton [simp]: "collision_free {d}"
  by (simp add: collision_free_def)

lemma collision_free_mono: "collision_free U \<Longrightarrow> V \<subseteq> U \<Longrightarrow> collision_free V"
  by (auto simp: collision_free_def intro: inj_on_subset)

end
