(* ===== verification/GoText.thy ===== *)
theory GoText
  imports Prelude
begin

text \<open>
  The text operations of the Go standard library the program uses, over byte strings: decimal
  printing and parsing (\<^verbatim>\<open>strconv.Itoa\<close>, \<^verbatim>\<open>strconv.ParseInt(s, 10, 64)\<close>, \<^verbatim>\<open>strconv.Atoi\<close>),
  \<^verbatim>\<open>strings.HasPrefix\<close>, \<^verbatim>\<open>TrimRight\<close>, \<^verbatim>\<open>ToLower\<close>, \<^verbatim>\<open>EqualFold\<close> and \<^verbatim>\<open>SplitN(s, " ", 2)\<close>, with the
  round trip between printing and parsing.
\<close>

section \<open>Decimal printing\<close>

definition digit_char :: "nat \<Rightarrow> char" where
  "digit_char d = char_of (48 + d)"

fun nat_digits :: "nat \<Rightarrow> string" where
  "nat_digits n = (if n < 10 then [digit_char n] else nat_digits (n div 10) @ [digit_char (n mod 10)])"

declare nat_digits.simps [simp del]

definition itoa :: "int \<Rightarrow> string" where
  "itoa n = (if n < 0 then CHR ''-'' # nat_digits (nat (- n)) else nat_digits (nat n))"

text \<open>\<^verbatim>\<open>fmt.Sprintf("%05d", n)\<close> for a non-negative \<open>n\<close>: at least \<open>w\<close> digits, zeros in front.\<close>

definition pad_int :: "nat \<Rightarrow> nat \<Rightarrow> string" where
  "pad_int w n = (let s = nat_digits n in replicate (w - length s) CHR ''0'' @ s)"

section \<open>Decimal parsing\<close>

datatype num_error = ErrSyntax | ErrRange

definition is_digit :: "char \<Rightarrow> bool" where
  "is_digit c \<longleftrightarrow> 48 \<le> (of_char c :: nat) \<and> (of_char c :: nat) \<le> 57"

definition digit_val :: "char \<Rightarrow> nat" where
  "digit_val c = of_char c - 48"

text \<open>
  The loop of \<^verbatim>\<open>strconv.ParseUint\<close> in base 10 with 64 bits: digit by digit, a bad digit is a syntax
  error, and the first step that leaves 64 bits stops with the largest value and a range error
  (later characters are not looked at).
\<close>

fun parse_uint_loop :: "nat \<Rightarrow> string \<Rightarrow> num_error + nat" where
  "parse_uint_loop n [] = Inr n"
| "parse_uint_loop n (c # cs) =
     (if \<not> is_digit c then Inl ErrSyntax
      else if 2 ^ 64 \<le> n * 10 + digit_val c then Inl ErrRange
      else parse_uint_loop (n * 10 + digit_val c) cs)"

definition parse_uint :: "string \<Rightarrow> num_error + nat" where
  "parse_uint s = (if s = [] then Inl ErrSyntax else parse_uint_loop 0 s)"

text \<open>\<^verbatim>\<open>strconv.ParseInt(s, 10, 64)\<close>: the value is meaningful beside an \<^verbatim>\<open>ErrRange\<close> (the nearest
  bound), and 0 beside an \<^verbatim>\<open>ErrSyntax\<close>; callers that ignore the error use that value.\<close>

definition parse_int :: "string \<Rightarrow> int \<times> num_error option" where
  "parse_int s =
     (if s = [] then (0, Some ErrSyntax)
      else
        let neg = (hd s = CHR ''-'');
            t = (if hd s = CHR ''+'' \<or> neg then tl s else s)
        in case parse_uint t of
             Inl ErrSyntax \<Rightarrow> (0, Some ErrSyntax)
           | Inl ErrRange \<Rightarrow> (if neg then - (2 ^ 63) else 2 ^ 63 - 1, Some ErrRange)
           | Inr un \<Rightarrow>
               if \<not> neg \<and> 2 ^ 63 \<le> un then (2 ^ 63 - 1, Some ErrRange)
               else if neg \<and> 2 ^ 63 < un then (- (2 ^ 63), Some ErrRange)
               else (if neg then - int un else int un, None))"

text \<open>\<^verbatim>\<open>strconv.Atoi\<close> on a 64-bit platform.\<close>

definition atoi :: "string \<Rightarrow> int \<times> num_error option" where
  "atoi s = parse_int s"

lemma is_digit_digit_char [simp]: "d < 10 \<Longrightarrow> is_digit (digit_char d)"
  by (simp add: is_digit_def digit_char_def)

lemma digit_val_digit_char [simp]: "d < 10 \<Longrightarrow> digit_val (digit_char d) = d"
  by (simp add: digit_val_def digit_char_def)

lemma nat_digits_nonempty [simp]: "nat_digits n \<noteq> []"
  by (subst nat_digits.simps) simp

lemma nat_digits_are_digits: "c \<in> set (nat_digits n) \<Longrightarrow> is_digit c"
proof (induction n rule: nat_digits.induct)
  case (1 n)
  then show ?case
    by (cases "n < 10") (auto simp: nat_digits.simps [of n])
qed

lemma parse_uint_loop_append:
  "parse_uint_loop n s = Inr m \<Longrightarrow> parse_uint_loop n (s @ t) = parse_uint_loop m t"
  by (induction s arbitrary: n) (auto split: if_splits)

lemma parse_uint_loop_digits: "n < 2 ^ 64 \<Longrightarrow> parse_uint_loop 0 (nat_digits n) = Inr n"
proof (induction n rule: nat_digits.induct)
  case (1 n)
  show ?case
  proof (cases "n < 10")
    case True
    then show ?thesis by (simp add: nat_digits.simps [of n])
  next
    case False
    have "parse_uint_loop 0 (nat_digits (n div 10)) = Inr (n div 10)"
      using False "1.prems" by (intro "1.IH") auto
    moreover have "(n div 10) * 10 + n mod 10 = n" by simp
    ultimately show ?thesis
      using False "1.prems" by (simp add: nat_digits.simps [of n] parse_uint_loop_append)
  qed
qed

lemma digits_head: "nat_digits n = c # cs \<Longrightarrow> c \<noteq> CHR ''-'' \<and> c \<noteq> CHR ''+''"
  using nat_digits_are_digits [of c n] by (auto simp: is_digit_def)

lemma parse_int_itoa: "in_i64 n \<Longrightarrow> parse_int (itoa n) = (n, None)"
proof -
  assume n: "in_i64 n"
  obtain c cs where d: "nat_digits (nat n) = c # cs" by (cases "nat_digits (nat n)") auto
  show "parse_int (itoa n) = (n, None)"
  proof (cases "n < 0")
    case True
    with n have "parse_uint_loop 0 (nat_digits (nat (- n))) = Inr (nat (- n))"
      by (intro parse_uint_loop_digits) (auto simp: in_i64_def)
    with True n show ?thesis
      by (auto simp: itoa_def parse_int_def parse_uint_def Let_def in_i64_def)
  next
    case False
    with n have "parse_uint_loop 0 (nat_digits (nat n)) = Inr (nat n)"
      by (intro parse_uint_loop_digits) (auto simp: in_i64_def)
    with False n d digits_head [OF d] show ?thesis
      by (auto simp: itoa_def parse_int_def parse_uint_def Let_def in_i64_def)
  qed
qed

lemma parse_int_in_i64: "in_i64 (fst (parse_int s))"
  by (auto simp: parse_int_def in_i64_def Let_def split: sum.splits num_error.splits)

text \<open>Printing is injective, padded or not; numbers that fit the field keep its width.\<close>

lemma nat_digits_inj: "nat_digits m = nat_digits n \<Longrightarrow> m < 2 ^ 64 \<Longrightarrow> n < 2 ^ 64 \<Longrightarrow> m = n"
  by (metis parse_uint_loop_digits sum.inject(2))

lemma parse_uint_loop_zeros: "parse_uint_loop 0 (replicate k CHR ''0'' @ s) = parse_uint_loop 0 s"
  by (induction k) (auto simp: is_digit_def digit_val_def)

lemma pad_int_inj: "pad_int w m = pad_int w n \<Longrightarrow> m < 2 ^ 64 \<Longrightarrow> n < 2 ^ 64 \<Longrightarrow> m = n"
  by (metis pad_int_def parse_uint_loop_digits parse_uint_loop_zeros sum.inject(2))

lemma itoa_inj: "in_i64 m \<Longrightarrow> in_i64 n \<Longrightarrow> itoa m = itoa n \<Longrightarrow> m = n"
  by (metis parse_int_itoa prod.inject)

section \<open>String helpers\<close>

definition has_prefix :: "string \<Rightarrow> string \<Rightarrow> bool" where
  "has_prefix s p \<longleftrightarrow> length p \<le> length s \<and> take (length p) s = p"

lemma has_prefix_iff: "has_prefix s p \<longleftrightarrow> (\<exists>r. s = p @ r)"
  by (auto simp: has_prefix_def) (metis append_take_drop_id)

text \<open>\<^verbatim>\<open>strings.TrimRight(s, "/")\<close>.\<close>

definition trim_right :: "char \<Rightarrow> string \<Rightarrow> string" where
  "trim_right c s = rev (dropWhile (\<lambda>x. x = c) (rev s))"

lemma trim_right_last: "trim_right c s \<noteq> [] \<Longrightarrow> last (trim_right c s) \<noteq> c"
  using hd_dropWhile [of "\<lambda>x. x = c" "rev s"] by (simp add: trim_right_def last_rev)

definition to_lower_char :: "char \<Rightarrow> char" where
  "to_lower_char c =
     (if 65 \<le> (of_char c :: nat) \<and> (of_char c :: nat) \<le> 90 then char_of ((of_char c :: nat) + 32) else c)"

text \<open>\<^verbatim>\<open>strings.ToLower\<close> and \<^verbatim>\<open>EqualFold\<close>, on ASCII letters.\<close>

definition to_lower :: "string \<Rightarrow> string" where
  "to_lower s = map to_lower_char s"

definition equal_fold :: "string \<Rightarrow> string \<Rightarrow> bool" where
  "equal_fold s t \<longleftrightarrow> to_lower s = to_lower t"

text \<open>\<^verbatim>\<open>strings.SplitN(s, " ", 2)\<close>: cut at the first space.\<close>

definition split_n2 :: "char \<Rightarrow> string \<Rightarrow> string list" where
  "split_n2 c s =
     (case dropWhile (\<lambda>x. x \<noteq> c) s of
        [] \<Rightarrow> [s]
      | _ # r \<Rightarrow> [takeWhile (\<lambda>x. x \<noteq> c) s, r])"

lemma split_n2_hit:
  assumes "c \<notin> set a"
  shows "split_n2 c (a @ c # b) = [a, b]"
proof -
  have "\<And>x. x \<in> set a \<Longrightarrow> x \<noteq> c" using assms by blast
  then show ?thesis
    by (simp add: split_n2_def takeWhile_append2 dropWhile_append2)
qed

lemma split_n2_length2:
  assumes "split_n2 c s = [a, b]"
  shows "s = a @ c # b \<and> c \<notin> set a"
proof -
  let ?P = "\<lambda>x. x \<noteq> c"
  obtain d r where d: "dropWhile ?P s = d # r"
    using assms by (cases "dropWhile ?P s") (auto simp: split_n2_def)
  then have "d = c" using hd_dropWhile [of ?P s] by simp
  moreover have "s = takeWhile ?P s @ d # r" using takeWhile_dropWhile_id [of ?P s] d by simp
  moreover have "c \<notin> set (takeWhile ?P s)" using set_takeWhileD [of c ?P s] by blast
  ultimately show ?thesis using assms d by (auto simp: split_n2_def)
qed

text \<open>\<^verbatim>\<open>strings.TrimSpace\<close>, on ASCII white space.\<close>

definition is_space :: "char \<Rightarrow> bool" where
  "is_space c \<longleftrightarrow> (of_char c :: nat) = 32 \<or> (9 \<le> (of_char c :: nat) \<and> (of_char c :: nat) \<le> 13)"

definition trim_space :: "string \<Rightarrow> string" where
  "trim_space s = rev (dropWhile is_space (rev (dropWhile is_space s)))"

end
