(* ===== verification/HashRing.thy ===== *)
theory HashRing
  imports Fingerprint GoText "HOL-Library.AList"
begin

text \<open>
  The consistent hash ring: \<^verbatim>\<open>internal/replication/hashring.go\<close>.  The points of the ring are the hashes
  of \<^verbatim>\<open>"<node id>:<i>"\<close>; a key belongs to the healthy nodes met first when the ring is walked from the
  key's hash upwards and round.  The node map is an association list, whose order is the map's
  iteration order.  \<^verbatim>\<open>sort.Slice\<close> is not stable, so the operations that rebuild the ring take the
  sorting function as an argument, and the theorems hold for every one that sorts.
\<close>

section \<open>Data\<close>

record ring_node =
  rn_id :: string
  rn_name :: string
  rn_endpoint :: string
  rn_weight :: int
  rn_status :: string

record virtual_node =
  vn_hash :: w32
  vn_node :: string

record ring =
  r_vnodes :: "virtual_node list"
  r_nodes :: "(string \<times> ring_node) list"
  r_per_node :: int

definition bytes_of :: "string \<Rightarrow> byte list" where
  "bytes_of s = map of_char s"

definition hashKey :: "string \<Rightarrow> w32" where
  "hashKey key = hd (be_words (take 4 (sha256_Sum256 (bytes_of key))))"

section \<open>Building the ring\<close>

text \<open>The share of a node; a weight that is not positive counts as 100.\<close>

definition num_vnodes :: "int \<Rightarrow> ring_node \<Rightarrow> nat" where
  "num_vnodes per_node n =
     (let weight = (if rn_weight n \<le> 0 then 100 else rn_weight n) in
      nat (go_div (i64 (per_node * weight)) 100))"

definition node_points :: "int \<Rightarrow> ring_node \<Rightarrow> virtual_node list" where
  "node_points per_node n =
     map (\<lambda>i. \<lparr>vn_hash = hashKey (rn_id n @ '':'' @ itoa (int i)), vn_node = rn_id n\<rparr>) [0..<num_vnodes per_node n]"

definition all_points :: "int \<Rightarrow> (string \<times> ring_node) list \<Rightarrow> virtual_node list" where
  "all_points per_node nodes = concat (map (\<lambda>(_, n). node_points per_node n) nodes)"

type_synonym sorter = "virtual_node list \<Rightarrow> virtual_node list"

definition sorts :: "sorter \<Rightarrow> bool" where
  "sorts srt \<longleftrightarrow> (\<forall>vs. mset (srt vs) = mset vs \<and> sorted (map vn_hash (srt vs)))"

definition rebuild :: "sorter \<Rightarrow> ring \<Rightarrow> ring" where
  "rebuild srt r = r\<lparr>r_vnodes := srt (all_points (r_per_node r) (r_nodes r))\<rparr>"

definition NewRing :: "sorter \<Rightarrow> ring_node list \<Rightarrow> int \<Rightarrow> ring" where
  "NewRing srt nodes per_node =
     rebuild srt \<lparr>r_vnodes = [], r_nodes = fold (\<lambda>n. AList.update (rn_id n) n) nodes [], r_per_node = per_node\<rparr>"

definition AddNode :: "sorter \<Rightarrow> ring_node \<Rightarrow> ring \<Rightarrow> ring" where
  "AddNode srt node r = rebuild srt (r\<lparr>r_nodes := AList.update (rn_id node) node (r_nodes r)\<rparr>)"

definition RemoveNode :: "sorter \<Rightarrow> string \<Rightarrow> ring \<Rightarrow> ring" where
  "RemoveNode srt nodeID r = rebuild srt (r\<lparr>r_nodes := AList.delete nodeID (r_nodes r)\<rparr>)"

definition UpdateNodeStatus :: "string \<Rightarrow> string \<Rightarrow> ring \<Rightarrow> ring" where
  "UpdateNodeStatus nodeID status r =
     (case map_of (r_nodes r) nodeID of
        None \<Rightarrow> r
      | Some node \<Rightarrow> r\<lparr>r_nodes := AList.update nodeID (node\<lparr>rn_status := status\<rparr>) (r_nodes r)\<rparr>)"

definition NodeCount :: "ring \<Rightarrow> int" where
  "NodeCount r = int (length (r_nodes r))"

definition GetAllNodes :: "ring \<Rightarrow> ring_node list" where
  "GetAllNodes r = map snd (r_nodes r)"

section \<open>Lookup\<close>

text \<open>\<^verbatim>\<open>sort.Search\<close>: the least index in \<open>[i, j)\<close> where \<open>P\<close> holds, by bisection.\<close>

function bsearch :: "(nat \<Rightarrow> bool) \<Rightarrow> nat \<Rightarrow> nat \<Rightarrow> nat" where
  "bsearch P i j =
     (if i < j then (let h = (i + j) div 2 in if P h then bsearch P i h else bsearch P (Suc h) j) else i)"
  by auto
termination by (relation "measure (\<lambda>(P, i, j). j - i)") auto

declare bsearch.simps [simp del]

definition ring_search :: "virtual_node list \<Rightarrow> w32 \<Rightarrow> nat" where
  "ring_search vs h =
     (let idx = bsearch (\<lambda>i. h \<le> vn_hash (vs ! i)) 0 (length vs) in if length vs \<le> idx then 0 else idx)"

text \<open>
  The walk: \<open>k\<close> virtual nodes from index \<open>i\<close> on, round the ring, until \<open>n\<close> nodes are found.  A node id
  without an entry reads as the zero \<^verbatim>\<open>Node\<close>, which is not healthy.
\<close>

fun walk :: "(string \<times> ring_node) list \<Rightarrow> virtual_node list \<Rightarrow> nat \<Rightarrow> nat \<Rightarrow> string set \<Rightarrow> nat \<Rightarrow> ring_node list" where
  "walk nodes vs i 0 seen n = []"
| "walk nodes vs i (Suc k) seen n =
     (if n = 0 then []
      else
        (let vn = vs ! (i mod length vs) in
         if vn_node vn \<in> seen then walk nodes vs (Suc i) k seen n
         else
           (case map_of nodes (vn_node vn) of
              None \<Rightarrow> walk nodes vs (Suc i) k seen n
            | Some node \<Rightarrow>
                if rn_status node \<noteq> ''healthy'' then walk nodes vs (Suc i) k seen n
                else node # walk nodes vs (Suc i) k (insert (vn_node vn) seen) (n - 1))))"

definition GetNodes :: "ring \<Rightarrow> string \<Rightarrow> int \<Rightarrow> ring_node list" where
  "GetNodes r key cnt =
     (if r_vnodes r = [] then []
      else walk (r_nodes r) (r_vnodes r) (ring_search (r_vnodes r) (hashKey key)) (length (r_vnodes r)) {} (nat cnt))"

section \<open>The search finds the first point\<close>

lemma bsearch_bounds: "i \<le> j \<Longrightarrow> i \<le> bsearch P i j \<and> bsearch P i j \<le> j"
proof (induction "j - i" arbitrary: i j rule: less_induct)
  case less
  show ?case
  proof (cases "i < j")
    case True
    let ?h = "(i + j) div 2"
    have h: "i \<le> ?h" "?h < j" using True by auto
    have "bsearch P i j = (if P ?h then bsearch P i ?h else bsearch P (Suc ?h) j)"
      using True by (subst bsearch.simps) (simp add: Let_def)
    moreover have "i \<le> bsearch P i ?h \<and> bsearch P i ?h \<le> ?h" using h by (intro less.hyps) auto
    moreover have "Suc ?h \<le> bsearch P (Suc ?h) j \<and> bsearch P (Suc ?h) j \<le> j" using h by (intro less.hyps) auto
    ultimately show ?thesis using h by auto
  qed (use less.prems in \<open>simp add: bsearch.simps\<close>)
qed

text \<open>The search on a predicate that stays true once it is: everything before fails, the index itself holds.\<close>

lemma bsearch_least:
  assumes mono: "\<And>a b. a \<le> b \<Longrightarrow> b < j0 \<Longrightarrow> P a \<Longrightarrow> P b"
  shows "i \<le> j \<Longrightarrow> j \<le> j0 \<Longrightarrow>
    (\<forall>k. i \<le> k \<longrightarrow> k < bsearch P i j \<longrightarrow> \<not> P k) \<and> (bsearch P i j < j \<longrightarrow> P (bsearch P i j))"
proof (induction "j - i" arbitrary: i j rule: less_induct)
  case less
  show ?case
  proof (cases "i < j")
    case True
    let ?h = "(i + j) div 2"
    have h: "i \<le> ?h" "?h < j" using True by auto
    show ?thesis
    proof (cases "P ?h")
      case P: True
      have step: "bsearch P i j = bsearch P i ?h" using True P by (subst bsearch.simps) (simp add: Let_def)
      have IH: "(\<forall>k. i \<le> k \<longrightarrow> k < bsearch P i ?h \<longrightarrow> \<not> P k) \<and> (bsearch P i ?h < ?h \<longrightarrow> P (bsearch P i ?h))"
        using h less.prems by (intro less.hyps) auto
      have "bsearch P i ?h \<le> ?h" using bsearch_bounds [OF h(1)] by blast
      then have "P (bsearch P i ?h)" using IH P by (cases "bsearch P i ?h = ?h") auto
      then show ?thesis using IH step by simp
    next
      case P: False
      have step: "bsearch P i j = bsearch P (Suc ?h) j" using True P by (subst bsearch.simps) (simp add: Let_def)
      have IH: "(\<forall>k. Suc ?h \<le> k \<longrightarrow> k < bsearch P (Suc ?h) j \<longrightarrow> \<not> P k) \<and>
          (bsearch P (Suc ?h) j < j \<longrightarrow> P (bsearch P (Suc ?h) j))"
        using h less.prems by (intro less.hyps) auto
      have "\<not> P k" if "k \<le> ?h" for k using mono [OF that, of] P h less.prems by auto
      then show ?thesis using IH step by (metis Suc_leI linorder_not_le)
    qed
  qed (use less.prems in \<open>simp add: bsearch.simps\<close>)
qed

text \<open>On a sorted ring the search splits it into the points below the hash and the others.\<close>

abbreviation "below h \<equiv> (\<lambda>v. vn_hash v < h)"

lemma ring_search_split:
  assumes "sorted (map vn_hash vs)" "vs \<noteq> []"
  shows "rotate (ring_search vs h) vs = dropWhile (below h) vs @ takeWhile (below h) vs" "ring_search vs h < length vs"
proof -
  let ?P = "\<lambda>i. h \<le> vn_hash (vs ! i)" and ?idx = "bsearch (\<lambda>i. h \<le> vn_hash (vs ! i)) 0 (length vs)"
  have mono: "?P b" if "a \<le> b" "b < length vs" "?P a" for a b
    using sorted_nth_mono [OF assms(1), of a b] that by auto
  have least: "\<forall>k < ?idx. \<not> ?P k" "?idx < length vs \<longrightarrow> ?P ?idx"
    using bsearch_least [of "length vs" ?P 0 "length vs"] mono by auto
  have le: "?idx \<le> length vs" using bsearch_bounds [of 0 "length vs" ?P] by simp
  have tk: "takeWhile (below h) vs = take ?idx vs"
    by (rule takeWhile_eq_take_P_nth) (use least le in auto)
  have dr: "dropWhile (below h) vs = drop ?idx vs"
    using tk takeWhile_dropWhile_id [of "below h" vs] append_take_drop_id [of ?idx vs] by (metis same_append_eq)
  show "ring_search vs h < length vs" using assms(2) by (simp add: ring_search_def Let_def)
  show "rotate (ring_search vs h) vs = dropWhile (below h) vs @ takeWhile (below h) vs"
    using le by (cases "?idx = length vs") (simp_all add: ring_search_def Let_def tk dr rotate_drop_take)
qed

section \<open>The order of preference\<close>

text \<open>What the walk would return if it were asked for all nodes, over the list of points it passes.\<close>

fun preference :: "(string \<times> ring_node) list \<Rightarrow> virtual_node list \<Rightarrow> string set \<Rightarrow> ring_node list" where
  "preference nodes [] seen = []"
| "preference nodes (vn # vs) seen =
     (if vn_node vn \<in> seen then preference nodes vs seen
      else
        (case map_of nodes (vn_node vn) of
           None \<Rightarrow> preference nodes vs seen
         | Some node \<Rightarrow>
             if rn_status node \<noteq> ''healthy'' then preference nodes vs seen
             else node # preference nodes vs (insert (vn_node vn) seen)))"

lemma walk_preference:
  "walk nodes vs i k seen n = take n (preference nodes (map (\<lambda>j. vs ! (j mod length vs)) [i..<i + k]) seen)"
proof (induction nodes vs i k seen n rule: walk.induct)
  case (2 nodes vs i k seen n)
  have "[i..<i + Suc k] = i # [Suc i..<Suc i + k]" by (simp add: upt_conv_Cons)
  then show ?case using 2 by (cases n) (auto simp: Let_def split: option.splits)
qed simp

definition ring_order :: "ring \<Rightarrow> string \<Rightarrow> ring_node list" where
  "ring_order r key =
     preference (r_nodes r) (dropWhile (below (hashKey key)) (r_vnodes r) @ takeWhile (below (hashKey key)) (r_vnodes r)) {}"

lemma GetNodes_order:
  assumes "sorted (map vn_hash (r_vnodes r))" shows "GetNodes r key cnt = take (nat cnt) (ring_order r key)"
proof (cases "r_vnodes r = []")
  case False
  let ?vs = "r_vnodes r" and ?i = "ring_search (r_vnodes r) (hashKey key)"
  note sp = ring_search_split [OF assms False, of "hashKey key"]
  have "map (\<lambda>j. ?vs ! (j mod length ?vs)) [?i..<?i + length ?vs] = rotate ?i ?vs"
    by (rule nth_equalityI) (use sp(2) in \<open>auto simp: nth_rotate\<close>)
  then show ?thesis using False by (simp add: GetNodes_def walk_preference ring_order_def sp(1))
qed (simp add: GetNodes_def ring_order_def)

lemma preference_set:
  "set (preference nodes vs seen) =
     {n. rn_status n = ''healthy'' \<and> (\<exists>v \<in> set vs. vn_node v \<notin> seen \<and> map_of nodes (vn_node v) = Some n)}"
proof (induction nodes vs seen rule: preference.induct)
  case (2 nodes vn vs seen)
  show ?case
    using 2 by (cases "map_of nodes (vn_node vn)") (auto, metis option.inject)
qed simp

definition nodes_ok :: "(string \<times> ring_node) list \<Rightarrow> bool" where
  "nodes_ok nodes \<longleftrightarrow> distinct (map fst nodes) \<and> (\<forall>(k, n) \<in> set nodes. rn_id n = k)"

lemma nodes_ok_id: "nodes_ok nodes \<Longrightarrow> map_of nodes k = Some n \<Longrightarrow> rn_id n = k"
  by (auto simp: nodes_ok_def dest!: map_of_SomeD)

lemma preference_distinct:
  "nodes_ok nodes \<Longrightarrow> distinct (map rn_id (preference nodes vs seen)) \<and> rn_id ` set (preference nodes vs seen) \<inter> seen = {}"
proof (induction nodes vs seen rule: preference.induct)
  case (2 nodes vn vs seen)
  then show ?case
    using nodes_ok_id [OF "2.prems", of "vn_node vn"] by (auto split: option.splits)
qed simp

text \<open>Without a node the others keep their order.\<close>

lemma preference_without:
  assumes "nodes_ok nodes"
    and other: "\<And>k. k \<noteq> x \<Longrightarrow> map_of nodes' k = map_of nodes k"
    and gone: "\<And>n. map_of nodes' x = Some n \<Longrightarrow> rn_status n \<noteq> ''healthy''"
  shows "seen - {x} = seen' - {x} \<Longrightarrow>
    preference nodes' vs seen' = filter (\<lambda>n. rn_id n \<noteq> x) (preference nodes vs seen)"
proof (induction vs arbitrary: seen seen')
  case (Cons v vs)
  show ?case
  proof (cases "vn_node v = x")
    case True
    have "preference nodes' (v # vs) seen' = preference nodes' vs seen'"
      using True gone by (auto split: option.splits)
    moreover have "filter (\<lambda>n. rn_id n \<noteq> x) (preference nodes (v # vs) seen) = preference nodes' vs seen'"
      using Cons.IH [of seen seen'] Cons.IH [of "insert x seen" seen'] Cons.prems True nodes_ok_id [OF assms(1), of x]
      by (auto split: option.splits)
    ultimately show ?thesis by simp
  next
    case False
    have mem: "vn_node v \<in> seen' \<longleftrightarrow> vn_node v \<in> seen" using Cons.prems False by blast
    have ins: "insert (vn_node v) seen - {x} = insert (vn_node v) seen' - {x}" using Cons.prems by blast
    show ?thesis
      using Cons.IH [OF Cons.prems] Cons.IH [OF ins] mem other [OF False] False nodes_ok_id [OF assms(1), of "vn_node v"]
      by (auto split: option.splits)
  qed
qed simp

lemma preference_drop_points:
  "(\<And>v. v \<in> set vs \<Longrightarrow> \<not> P v \<Longrightarrow> map_of nodes (vn_node v) = None) \<Longrightarrow>
   preference nodes (filter P vs) seen = preference nodes vs seen"
  by (induction vs arbitrary: seen) (auto split: option.splits)

section \<open>The invariant\<close>

text \<open>
  The map's keys are the ids of its nodes, and the points are those of its nodes, in the order of
  their hashes.
\<close>

definition ring_ok :: "ring \<Rightarrow> bool" where
  "ring_ok r \<longleftrightarrow> nodes_ok (r_nodes r) \<and> sorted (map vn_hash (r_vnodes r)) \<and>
     mset (r_vnodes r) = mset (all_points (r_per_node r) (r_nodes r))"

lemma set_AList_update: "p \<in> set (AList.update k v al) \<Longrightarrow> p = (k, v) \<or> p \<in> set al"
  by (induction al) (auto split: if_splits)

lemma nodes_ok_update: "nodes_ok nodes \<Longrightarrow> nodes_ok (AList.update (rn_id n) n nodes)"
  by (auto simp: nodes_ok_def AList.distinct_update dest!: set_AList_update)

lemma nodes_ok_delete: "nodes_ok nodes \<Longrightarrow> nodes_ok (AList.delete k nodes)"
  unfolding nodes_ok_def by (rule conjI) (simp add: AList.distinct_delete, auto simp: AList.delete_eq)

lemma rebuild_ok: "sorts srt \<Longrightarrow> nodes_ok (r_nodes r) \<Longrightarrow> ring_ok (rebuild srt r)"
  by (simp add: ring_ok_def rebuild_def sorts_def)

lemma NewRing_ok:
  assumes "sorts srt" shows "ring_ok (NewRing srt nodes k)"
proof -
  have "nodes_ok (fold (\<lambda>n. AList.update (rn_id n) n) nodes acc)" if "nodes_ok acc" for acc
    using that by (induction nodes arbitrary: acc) (auto intro: nodes_ok_update)
  from this [of "[]"] show ?thesis using assms by (simp add: NewRing_def nodes_ok_def rebuild_ok)
qed

lemma AddNode_ok: "sorts srt \<Longrightarrow> ring_ok r \<Longrightarrow> ring_ok (AddNode srt n r)"
  by (simp add: AddNode_def ring_ok_def [of r] rebuild_ok nodes_ok_update)

lemma RemoveNode_ok: "sorts srt \<Longrightarrow> ring_ok r \<Longrightarrow> ring_ok (RemoveNode srt k r)"
  by (simp add: RemoveNode_def ring_ok_def [of r] rebuild_ok nodes_ok_delete)

text \<open>A status change keeps the nodes' ids and weights, and so their points.\<close>

lemma all_points_update:
  assumes "distinct (map fst nodes)" "map_of nodes k = Some n" "node_points p m = node_points p n"
  shows "all_points p (AList.update k m nodes) = all_points p nodes"
  using assms by (induction nodes) (auto simp: all_points_def)

lemma UpdateNodeStatus_ok:
  assumes "ring_ok r" shows "ring_ok (UpdateNodeStatus k st r)"
proof (cases "map_of (r_nodes r) k")
  case (Some n)
  have ok: "nodes_ok (r_nodes r)" using assms by (simp add: ring_ok_def)
  have id: "rn_id n = k" by (rule nodes_ok_id [OF ok Some])
  have "all_points (r_per_node r) (AList.update k (n\<lparr>rn_status := st\<rparr>) (r_nodes r)) = all_points (r_per_node r) (r_nodes r)"
    by (rule all_points_update [OF _ Some])
      (use ok in \<open>simp_all add: nodes_ok_def node_points_def num_vnodes_def\<close>)
  moreover have "nodes_ok (AList.update k (n\<lparr>rn_status := st\<rparr>) (r_nodes r))"
    using nodes_ok_update [OF ok, of "n\<lparr>rn_status := st\<rparr>"] id by simp
  ultimately show ?thesis using assms Some by (simp add: UpdateNodeStatus_def ring_ok_def)
qed (use assms in \<open>simp add: UpdateNodeStatus_def\<close>)

lemma ring_points: "ring_ok r \<Longrightarrow> v \<in> set (r_vnodes r) \<longleftrightarrow> v \<in> set (all_points (r_per_node r) (r_nodes r))"
  unfolding ring_ok_def by (metis set_mset_mset)

lemma ring_order_set:
  assumes "ring_ok r"
  shows "set (ring_order r key) = {n. rn_status n = ''healthy'' \<and> 0 < num_vnodes (r_per_node r) n \<and> n \<in> snd ` set (r_nodes r)}"
proof -
  let ?N = "r_nodes r" and ?vs = "r_vnodes r"
  have ok: "nodes_ok ?N" using assms by (simp add: ring_ok_def)
  have mo: "map_of ?N (rn_id n) = Some n \<longleftrightarrow> n \<in> snd ` set ?N" for n
  proof
    assume "n \<in> snd ` set ?N"
    then obtain k where "(k, n) \<in> set ?N" by force
    then show "map_of ?N (rn_id n) = Some n" using ok by (auto simp: nodes_ok_def)
  qed (force dest: map_of_SomeD)
  have "set (dropWhile P ?vs @ takeWhile P ?vs) = set ?vs" for P
    by (metis set_append sup_commute takeWhile_dropWhile_id)
  then have "set (ring_order r key) = {n. rn_status n = ''healthy'' \<and> (\<exists>v \<in> set ?vs. map_of ?N (vn_node v) = Some n)}"
    by (simp add: ring_order_def preference_set)
  moreover have "(\<exists>v \<in> set ?vs. map_of ?N (vn_node v) = Some n) \<longleftrightarrow> 0 < num_vnodes (r_per_node r) n \<and> n \<in> snd ` set ?N" for n
  proof
    assume "\<exists>v \<in> set ?vs. map_of ?N (vn_node v) = Some n"
    then obtain v where v: "v \<in> set (all_points (r_per_node r) ?N)" "map_of ?N (vn_node v) = Some n"
      using ring_points [OF assms] by blast
    then obtain k m where m: "(k, m) \<in> set ?N" "v \<in> set (node_points (r_per_node r) m)" by (auto simp: all_points_def)
    then have "vn_node v = rn_id m" "0 < num_vnodes (r_per_node r) m" by (auto simp: node_points_def)
    moreover from this have "m = n" using v(2) mo [of m] m(1) by force
    ultimately show "0 < num_vnodes (r_per_node r) n \<and> n \<in> snd ` set ?N" using m(1) by force
  next
    assume n: "0 < num_vnodes (r_per_node r) n \<and> n \<in> snd ` set ?N"
    then obtain k where k: "(k, n) \<in> set ?N" by force
    let ?v = "\<lparr>vn_hash = hashKey (rn_id n @ '':'' @ itoa (int 0)), vn_node = rn_id n\<rparr>"
    have "?v \<in> set (node_points (r_per_node r) n)" unfolding node_points_def using n by force
    then have "?v \<in> set (all_points (r_per_node r) ?N)" using k by (force simp: all_points_def)
    then have "?v \<in> set ?vs" using ring_points [OF assms] by blast
    moreover have "map_of ?N (vn_node ?v) = Some n" using mo [of n] n by simp
    ultimately show "\<exists>v \<in> set ?vs. map_of ?N (vn_node v) = Some n" by blast
  qed
  ultimately show ?thesis by blast
qed

lemma ring_order_distinct: "ring_ok r \<Longrightarrow> distinct (map rn_id (ring_order r key))"
  unfolding ring_order_def using preference_distinct by (simp add: ring_ok_def)

text \<open>When points of the same hash are the same, the sorted list of given points is unique.\<close>

lemma sorted_points_unique:
  assumes "mset vs = mset vs'" "sorted (map vn_hash vs)" "sorted (map vn_hash vs')" "inj_on vn_hash (set vs)"
  shows "vs' = vs"
proof -
  have "mset (map vn_hash vs') = mset (map vn_hash vs)" using assms(1) by simp
  then have eq: "map vn_hash vs' = map vn_hash vs"
    using assms(2,3) by (metis properties_for_sort)
  have "set vs' = set vs" using assms(1) by (metis set_mset_mset)
  show ?thesis
  proof (rule nth_equalityI)
    show "length vs' = length vs" using assms(1) by (metis size_mset)
    fix i assume i: "i < length vs'"
    then have "vn_hash (vs' ! i) = vn_hash (vs ! i)" using arg_cong [OF eq, of "\<lambda>xs. xs ! i"] \<open>length vs' = length vs\<close> by simp
    moreover have "vs' ! i \<in> set vs" using i \<open>set vs' = set vs\<close> nth_mem by blast
    moreover have "vs ! i \<in> set vs" using i \<open>length vs' = length vs\<close> by simp
    ultimately show "vs' ! i = vs ! i" using assms(4) by (auto dest: inj_onD)
  qed
qed

lemma sorted_filter_map: "sorted (map f xs) \<Longrightarrow> sorted (map f (filter P xs))"
  by (induction xs) auto

lemma takeWhile_dropWhile_filter:
  assumes "sorted (map vn_hash vs)"
  shows "takeWhile (below h) (filter P vs) = filter P (takeWhile (below h) vs)"
    "dropWhile (below h) (filter P vs) = filter P (dropWhile (below h) vs)"
proof -
  have "takeWhile (below h) (filter P vs) = filter P (takeWhile (below h) vs) \<and>
        dropWhile (below h) (filter P vs) = filter P (dropWhile (below h) vs)"
    using assms
  proof (induction vs)
    case (Cons v vs)
    show ?case
    proof (cases "below h v")
      case False
      then have "\<not> below h x" if "x \<in> set vs" for x using Cons.prems that by auto
      then have "takeWhile (below h) (filter P vs) = []" "dropWhile (below h) (filter P vs) = filter P vs"
        by (auto simp: takeWhile_eq_Nil_iff dropWhile_eq_self_iff hd_in_set dest: hd_in_set)
      with False show ?thesis by simp
    qed (use Cons in auto)
  qed simp
  then show "takeWhile (below h) (filter P vs) = filter P (takeWhile (below h) vs)"
    "dropWhile (below h) (filter P vs) = filter P (dropWhile (below h) vs)" by auto
qed

text \<open>Removing a node takes its points off the ring.\<close>

lemma RemoveNode_points:
  assumes ok: "ring_ok r" and srt: "sorts srt" and dist: "inj_on vn_hash (set (r_vnodes r))"
  shows "r_vnodes (RemoveNode srt k r) = filter (\<lambda>v. vn_node v \<noteq> k) (r_vnodes r)"
proof (rule sorted_points_unique)
  have nok: "nodes_ok (r_nodes r)" using ok by (simp add: ring_ok_def)
  have pts: "all_points p (AList.delete k nodes) = filter (\<lambda>v. vn_node v \<noteq> k) (all_points p nodes)"
    if "nodes_ok nodes" for p and nodes :: "(string \<times> ring_node) list"
    using that
  proof (induction nodes)
    case (Cons x nodes)
    obtain k' n where x: "x = (k', n)" by force
    have "rn_id n = k'" "nodes_ok nodes" using Cons.prems x by (auto simp: nodes_ok_def)
    then show ?case
      using Cons.IH x by (auto simp: all_points_def AList.delete_eq node_points_def filter_empty_conv)
  qed (simp add: all_points_def)
  have "mset (r_vnodes (RemoveNode srt k r)) = mset (all_points (r_per_node r) (AList.delete k (r_nodes r)))"
    using srt by (simp add: RemoveNode_def rebuild_def sorts_def)
  also have "\<dots> = mset (filter (\<lambda>v. vn_node v \<noteq> k) (r_vnodes r))"
    using ok by (simp add: pts [OF nok] ring_ok_def)
  finally show "mset (filter (\<lambda>v. vn_node v \<noteq> k) (r_vnodes r)) = mset (r_vnodes (RemoveNode srt k r))" by simp
  show "sorted (map vn_hash (filter (\<lambda>v. vn_node v \<noteq> k) (r_vnodes r)))"
    using ok by (intro sorted_filter_map) (simp add: ring_ok_def)
  show "sorted (map vn_hash (r_vnodes (RemoveNode srt k r)))"
    using RemoveNode_ok [OF srt ok, of k] by (simp add: ring_ok_def)
  show "inj_on vn_hash (set (filter (\<lambda>v. vn_node v \<noteq> k) (r_vnodes r)))"
    using dist by (auto intro: inj_on_subset)
qed

lemma RemoveNode_order:
  assumes ok: "ring_ok r" and "sorts srt" "inj_on vn_hash (set (r_vnodes r))"
  shows "ring_order (RemoveNode srt k r) key = filter (\<lambda>n. rn_id n \<noteq> k) (ring_order r key)"
proof -
  let ?vs = "r_vnodes r" and ?N' = "AList.delete k (r_nodes r)" and ?P = "\<lambda>v. vn_node v \<noteq> k"
  let ?walk = "dropWhile (below (hashKey key)) ?vs @ takeWhile (below (hashKey key)) ?vs"
  have nok: "nodes_ok (r_nodes r)" "sorted (map vn_hash ?vs)" using ok by (simp_all add: ring_ok_def)
  have gone: "map_of ?N' x = (if x = k then None else map_of (r_nodes r) x)" for x
    by (simp add: AList.delete_conv')
  have "ring_order (RemoveNode srt k r) key = preference ?N' (filter ?P ?walk) {}"
    by (simp add: ring_order_def RemoveNode_points [OF assms] takeWhile_dropWhile_filter [OF nok(2)])
      (simp add: RemoveNode_def rebuild_def)
  also have "\<dots> = preference ?N' ?walk {}"
    by (rule preference_drop_points) (simp add: gone)
  also have "\<dots> = filter (\<lambda>n. rn_id n \<noteq> k) (preference (r_nodes r) ?walk {})"
    by (rule preference_without [OF nok(1)]) (simp_all add: gone)
  finally show ?thesis by (simp add: ring_order_def)
qed

lemma UpdateNodeStatus_order:
  assumes ok: "ring_ok r" and st: "st \<noteq> ''healthy''"
  shows "ring_order (UpdateNodeStatus k st r) key = filter (\<lambda>n. rn_id n \<noteq> k) (ring_order r key)"
proof -
  have nok: "nodes_ok (r_nodes r)" using ok by (simp add: ring_ok_def)
  have vs: "r_vnodes (UpdateNodeStatus k st r) = r_vnodes r"
    by (simp add: UpdateNodeStatus_def split: option.splits)
  show ?thesis
    unfolding ring_order_def vs
    by (rule preference_without [OF nok])
      (auto simp: UpdateNodeStatus_def AList.update_conv' st split: option.splits if_splits)
qed

section \<open>Properties\<close>

text \<open>
  C14: building the ring, adding and removing a node and changing a status keep the ring's
  invariant: one entry per node id, and exactly the points of the entries, in the order of their
  hashes; every sorting function will do.
\<close>

theorem ring_invariant:
  assumes "sorts srt"
  shows "ring_ok (NewRing srt nodes per_node) \<and>
    (ring_ok r \<longrightarrow> ring_ok (AddNode srt n r) \<and> ring_ok (RemoveNode srt k r) \<and> ring_ok (UpdateNodeStatus k st r))"
  using assms by (simp add: NewRing_ok AddNode_ok RemoveNode_ok UpdateNodeStatus_ok)

lemma sorts_sort_key [simp]: "sorts (sort_key vn_hash)"
  by (simp add: sorts_def)

text \<open>
  C12: the bisection with the walk modulo the length of the ring gives the reference order: the
  healthy owners of the points not below the key's hash, then of those below, each at its first point.
\<close>

theorem GetNodes_reference:
  assumes "ring_ok r"
  shows "GetNodes r key cnt =
    take (nat cnt)
      (preference (r_nodes r)
         (filter (\<lambda>v. hashKey key \<le> vn_hash v) (r_vnodes r) @ filter (\<lambda>v. vn_hash v < hashKey key) (r_vnodes r)) {})"
proof -
  have sorted: "sorted (map vn_hash (r_vnodes r))" using assms by (simp add: ring_ok_def)
  have "filter (below h) vs = takeWhile (below h) vs \<and> filter (\<lambda>v. h \<le> vn_hash v) vs = dropWhile (below h) vs"
    if "sorted (map vn_hash vs)" for h vs
    using that
  proof (induction vs)
    case (Cons v vs)
    show ?case
    proof (cases "below h v")
      case False
      then have "filter (below h) vs = []" "filter (\<lambda>v. h \<le> vn_hash v) vs = vs"
        using Cons.prems by (auto simp: filter_empty_conv filter_id_conv)
      with False show ?thesis by auto
    qed (use Cons in auto)
  qed simp
  from this [OF sorted, of "hashKey key"] show ?thesis
    by (simp add: GetNodes_order [OF sorted] ring_order_def)
qed

lemma GetNodes_distinct: "ring_ok r \<Longrightarrow> distinct (map rn_id (GetNodes r key cnt))"
  using GetNodes_order [of r key cnt] ring_order_distinct [of r key]
  by (simp add: ring_ok_def take_map [symmetric])

lemma GetNodes_live:
  assumes "ring_ok r" "n \<in> set (GetNodes r key cnt)" shows "rn_status n = ''healthy'' \<and> n \<in> set (GetAllNodes r)"
proof -
  have "n \<in> set (ring_order r key)"
    using assms in_set_takeD [of n "nat cnt" "ring_order r key"] by (simp add: ring_ok_def GetNodes_order)
  then show ?thesis unfolding ring_order_set [OF assms(1)] by (simp add: GetAllNodes_def)
qed

lemma GetNodes_length:
  assumes "ring_ok r"
  shows "length (GetNodes r key cnt) =
    min (nat cnt) (length (filter (\<lambda>n. rn_status n = ''healthy'' \<and> 0 < num_vnodes (r_per_node r) n) (GetAllNodes r)))"
proof -
  have sorted: "sorted (map vn_hash (r_vnodes r))" and nok: "nodes_ok (r_nodes r)"
    using assms by (simp_all add: ring_ok_def)
  let ?live = "filter (\<lambda>n. rn_status n = ''healthy'' \<and> 0 < num_vnodes (r_per_node r) n) (GetAllNodes r)"
  have dist: "distinct (ring_order r key)" using ring_order_distinct [OF assms] by (simp add: distinct_map)
  have set: "set (ring_order r key) = set ?live" using ring_order_set [OF assms, of key] by (auto simp: GetAllNodes_def)
  have "map rn_id (GetAllNodes r) = map fst (r_nodes r)" using nok by (auto simp: GetAllNodes_def nodes_ok_def)
  then have "distinct (map rn_id (GetAllNodes r))" using nok by (simp add: nodes_ok_def)
  then have live: "distinct ?live" by (simp add: distinct_map)
  from distinct_card [OF dist] distinct_card [OF live] set have "length (ring_order r key) = length ?live" by simp
  moreover have "length (GetNodes r key cnt) = min (nat cnt) (length (ring_order r key))"
    unfolding GetNodes_order [OF sorted] by (simp only: length_take min.commute)
  ultimately show ?thesis by (simp only:)
qed

text \<open>
  A lookup returns different nodes, all of them healthy nodes of the ring, as many as asked for
  or, when there are fewer, all healthy nodes that have a point on the ring.
\<close>

theorem GetNodes_placement:
  assumes "ring_ok r"
  shows "distinct (map rn_id (GetNodes r key cnt)) \<and>
    (\<forall>n \<in> set (GetNodes r key cnt). rn_status n = ''healthy'' \<and> n \<in> set (GetAllNodes r)) \<and>
    length (GetNodes r key cnt) =
      min (nat cnt) (length (filter (\<lambda>n. rn_status n = ''healthy'' \<and> 0 < num_vnodes (r_per_node r) n) (GetAllNodes r)))"
  using GetNodes_distinct [OF assms] GetNodes_live [OF assms] GetNodes_length [OF assms] by blast

lemma GetNodes_all: "ring_ok r \<Longrightarrow> GetNodes r key (NodeCount r) = ring_order r key"
proof -
  assume ok: "ring_ok r"
  then have sorted: "sorted (map vn_hash (r_vnodes r))" by (simp add: ring_ok_def)
  have "set (ring_order r key) \<subseteq> snd ` set (r_nodes r)" using ring_order_set [OF ok, of key] by auto
  then have "card (set (ring_order r key)) \<le> length (r_nodes r)"
    by (metis card_length card_mono finite_set length_map list.set_map order_trans)
  then have "length (ring_order r key) \<le> length (r_nodes r)"
    using ring_order_distinct [OF ok, of key] by (simp add: distinct_card distinct_map)
  then show ?thesis by (simp add: GetNodes_order [OF sorted] NodeCount_def)
qed

text \<open>
  C11: consistent hashing: when a node is removed and no two nodes share a point, every key keeps
  the other nodes of its order, in that order; only the share of the removed node moves.
\<close>

theorem RemoveNode_minimal:
  assumes "ring_ok r" "sorts srt" "inj_on vn_hash (set (r_vnodes r))"
  shows "GetNodes (RemoveNode srt k r) key cnt =
    take (nat cnt) (filter (\<lambda>n. rn_id n \<noteq> k) (GetNodes r key (NodeCount r)))"
proof -
  have "sorted (map vn_hash (r_vnodes (RemoveNode srt k r)))"
    using RemoveNode_ok [OF assms(2,1), of k] by (simp add: ring_ok_def)
  then show ?thesis
    by (simp add: GetNodes_order RemoveNode_order [OF assms] GetNodes_all [OF assms(1)])
qed

text \<open>
  C13: failover: a node whose status is no longer healthy is passed over at once, and every key
  keeps the other nodes of its order.
\<close>

theorem UpdateNodeStatus_failover:
  assumes "ring_ok r" "st \<noteq> ''healthy''"
  shows "GetNodes (UpdateNodeStatus k st r) key cnt =
    take (nat cnt) (filter (\<lambda>n. rn_id n \<noteq> k) (GetNodes r key (NodeCount r)))"
proof -
  have "sorted (map vn_hash (r_vnodes (UpdateNodeStatus k st r)))"
    using UpdateNodeStatus_ok [OF assms(1), of k st] by (simp add: ring_ok_def)
  then show ?thesis
    by (simp add: GetNodes_order UpdateNodeStatus_order [OF assms] GetNodes_all [OF assms(1)])
qed

text \<open>A ring of two nodes, of which one is too light to have a point.\<close>

definition demo_node :: "string \<Rightarrow> int \<Rightarrow> ring_node" where
  "demo_node k weight = \<lparr>rn_id = k, rn_name = k, rn_endpoint = [], rn_weight = weight, rn_status = ''healthy''\<rparr>"

definition demo_ring :: ring where
  "demo_ring = NewRing (sort_key vn_hash) [demo_node ''a'' 200, demo_node ''b'' 50] 1"

lemma demo_node_simps [simp]: "rn_id (demo_node k weight) = k" "rn_status (demo_node k weight) = ''healthy''"
  by (simp_all add: demo_node_def)

lemma demo_ring_ok [simp]: "ring_ok demo_ring"
  by (simp add: demo_ring_def NewRing_ok)

lemma demo_ring_nodes: "r_nodes demo_ring = [(''a'', demo_node ''a'' 200), (''b'', demo_node ''b'' 50)]" "r_per_node demo_ring = 1"
  by (simp_all add: demo_ring_def NewRing_def rebuild_def demo_node_def)

lemma demo_vnodes: "num_vnodes 1 (demo_node ''a'' 200) = 2" "num_vnodes 1 (demo_node ''b'' 50) = 0"
  by (simp_all add: num_vnodes_def demo_node_def go_div_def i64_def)

lemma demo_ring_inj: "inj_on vn_hash (set (r_vnodes demo_ring))"
proof (rule inj_onI)
  have a: "vn_node v = ''a''" if "v \<in> set (r_vnodes demo_ring)" for v
    using that by (auto simp: ring_points all_points_def demo_ring_nodes node_points_def demo_vnodes)
  fix v w assume "v \<in> set (r_vnodes demo_ring)" "w \<in> set (r_vnodes demo_ring)" "vn_hash v = vn_hash w"
  then show "v = w" using a [of v] a [of w] by simp
qed

lemma demo_order: "ring_order demo_ring key = [demo_node ''a'' 200]"
proof -
  have "set (ring_order demo_ring key) = {demo_node ''a'' 200}"
    unfolding ring_order_set [OF demo_ring_ok]
    by (auto simp: demo_ring_nodes demo_vnodes)
  moreover have "distinct (ring_order demo_ring key)"
    using ring_order_distinct [OF demo_ring_ok, of key] by (simp add: distinct_map)
  ultimately have "length (ring_order demo_ring key) = 1" by (metis card_1_singleton_iff distinct_card One_nat_def)
  then show ?thesis using \<open>set (ring_order demo_ring key) = {demo_node ''a'' 200}\<close> by (auto simp: length_Suc_conv)
qed

lemma ring_invariant_witness:
  "ring_ok (NewRing (sort_key vn_hash) [demo_node ''a'' 200] 1) \<and>
   ring_ok (RemoveNode (sort_key vn_hash) ''a'' demo_ring)"
  using ring_invariant [OF sorts_sort_key, of "[demo_node ''a'' 200]" 1 demo_ring] by simp

lemma GetNodes_reference_witness:
  "ring_ok demo_ring \<and> GetNodes demo_ring ''k'' 3 = take 3
     (preference (r_nodes demo_ring)
        (filter (\<lambda>v. hashKey ''k'' \<le> vn_hash v) (r_vnodes demo_ring) @
         filter (\<lambda>v. vn_hash v < hashKey ''k'') (r_vnodes demo_ring)) {})"
  using GetNodes_reference [OF demo_ring_ok, of "''k''" 3] by simp

lemma GetNodes_placement_witness:
  "length (GetNodes demo_ring ''k'' 3) = 1 \<and> list_all (\<lambda>n. rn_status n = ''healthy'') (GetNodes demo_ring ''k'' 3)"
  using GetNodes_placement [OF demo_ring_ok, of "''k''" 3] by (simp add: list_all_iff GetAllNodes_def demo_ring_nodes demo_vnodes)

lemma RemoveNode_minimal_witness:
  "GetNodes (RemoveNode (sort_key vn_hash) ''b'' demo_ring) ''k'' 2 = [demo_node ''a'' 200]"
  using RemoveNode_minimal [OF demo_ring_ok sorts_sort_key demo_ring_inj, of "''b''" "''k''" 2]
  by (simp add: GetNodes_all demo_order)

lemma UpdateNodeStatus_failover_witness:
  "GetNodes (UpdateNodeStatus ''a'' ''offline'' demo_ring) ''k'' 2 = []"
  using UpdateNodeStatus_failover [OF demo_ring_ok, of "''offline''" "''a''" "''k''" 2]
  by (simp add: GetNodes_all demo_order)

end
