(* ===== verification/World.thy ===== *)
theory World
  imports StreamIO
begin

text \<open>
  The state the services share and the way they reach it: the PostgreSQL tables (row types of
  \<^verbatim>\<open>internal/metadata/repository.go\<close>, \<^verbatim>\<open>pkg/models/models.go\<close> and the columns of \<^verbatim>\<open>migrations/\<close> the code
  reads), the Redis keys, the MinIO buckets and the Kafka log, with \<open>ext\<close>, the frame of every call
  that leaves the program.
\<close>

section \<open>Rows\<close>

record file_row =
  f_id :: string
  f_user :: string
  f_parent :: "string option"
  f_name :: string
  f_is_dir :: bool
  f_size :: int
  f_mime :: "string option"
  f_checksum :: "string option"
  f_version :: int
  f_status :: string
  f_created :: int
  f_updated :: int

record chunk_row =
  c_id :: string
  c_hash :: string
  c_size :: int
  c_refs :: int
  c_nodes :: "string list"
  c_bucket :: string
  c_key :: string
  c_status :: string
  c_created :: int

record file_chunk_row =
  fc_file :: string
  fc_chunk :: string
  fc_index :: int
  fc_offset :: int

record user_row =
  u_id :: string
  u_email :: string
  u_password :: string
  u_display :: string
  u_role :: string
  u_quota :: int
  u_used :: int
  u_active :: bool

record node_row =
  n_id :: string
  n_name :: string
  n_endpoint :: string
  n_weight :: int
  n_status :: string
  n_heartbeat :: int

text \<open>The status strings of \<^verbatim>\<open>pkg/models/models.go\<close>.\<close>

abbreviation "FileStatusActive \<equiv> ''active''"
abbreviation "FileStatusDeleted \<equiv> ''deleted''"
abbreviation "FileStatusSuperseded \<equiv> ''superseded''"
abbreviation "ChunkStatusActive \<equiv> ''active''"
abbreviation "ChunkStatusPendingGC \<equiv> ''pending_gc''"
abbreviation "NodeStatusHealthy \<equiv> ''healthy''"
abbreviation "NodeStatusDegraded \<equiv> ''degraded''"
abbreviation "NodeStatusOffline \<equiv> ''offline''"

section \<open>Documents\<close>

record manifest_entry =
  me_hash :: string
  me_size :: int
  me_index :: int
  me_offset :: int

record multipart_session =
  ms_upload_id :: string
  ms_user :: string
  ms_file_name :: string
  ms_mime :: string
  ms_created :: int

record part_info =
  p_num :: int
  p_size :: int
  p_key :: string

text \<open>
  A JSON text is kept as the Go value it encodes; \<open>JText\<close> is text that encodes none of them
  (decoding it is an error).
\<close>

datatype jdoc =
    JFile file_row
  | JManifest "manifest_entry list"
  | JSession multipart_session
  | JPart part_info
  | JText string

datatype rval = RStr jdoc | RHash "(string \<times> jdoc) list" | RZset "(string \<times> int) list"

text \<open>A Redis entry: its value and the time it expires, if it does.\<close>

type_synonym rentry = "rval \<times> int option"

section \<open>Events\<close>

record chunk_created_event =
  cc_hash :: string
  cc_size :: int
  cc_bucket :: string
  cc_object_key :: string
  cc_user :: string
  cc_file :: string

record file_deleted_event =
  fd_file :: string
  fd_user :: string
  fd_hashes :: "string list"
  fd_size :: int

record chunk_deleted_event =
  cd_hash :: string
  cd_size :: int

record node_health_event =
  nh_node :: string
  nh_name :: string
  nh_old :: string
  nh_new :: string
  nh_endpoint :: string
  nh_latency :: int

datatype payload =
    PChunkCreated chunk_created_event
  | PFileDeleted file_deleted_event
  | PChunkDeleted chunk_deleted_event
  | PNodeHealth node_health_event
  | PRaw string

record envelope =
  ev_type :: string
  ev_time :: int
  ev_trace :: string
  ev_payload :: payload

datatype kvalue = KJson envelope | KRaw string

record message =
  m_topic :: string
  m_key :: string
  m_value :: kvalue
  m_headers :: "(string \<times> string) list"

section \<open>The environment\<close>

text \<open>
  Every SQL statement, Redis command, object-store request, gRPC send and Kafka write can fail.
  An environment fixes, for the \<open>n\<close>-th such call of a run, whether it is carried out (\<open>Done\<close>), is
  refused without effect (\<open>Refused\<close>), or is carried out but reported as an error (\<open>Lost\<close>: the
  acknowledgement does not arrive).  It also supplies what the \<open>n\<close>-th call takes from outside: a
  UUID, the time (in microseconds), whether the request's context is done by then, after how many rows the
  connection breaks while a result is read (\<^verbatim>\<open>rows.Next()\<close> then just ends), the header pairs the
  trace propagator sets, and the way an opened
  object stream is delivered by its reads.  A theorem about all environments is a theorem about all
  failures; in a \<open>fault_free\<close> one nothing fails and every stream delivers its object.
\<close>

datatype outcome = Done | Refused go_error | Lost go_error

record env =
  outcome_at :: "nat \<Rightarrow> outcome"
  uuid_at :: "nat \<Rightarrow> string"
  now_at :: "nat \<Rightarrow> int"
  ctx_done :: "nat \<Rightarrow> bool"
  rows_at :: "nat \<Rightarrow> nat option"
  trace_at :: "nat \<Rightarrow> (string \<times> string) list"
  read_at :: "nat \<Rightarrow> byte list \<Rightarrow> reader"

definition fault_free :: "env \<Rightarrow> bool" where
  "fault_free e \<longleftrightarrow>
     (\<forall>n. outcome_at e n = Done \<and> \<not> ctx_done e n \<and> rows_at e n = None \<and>
          (\<forall>d. rd_content (read_at e n d) = d \<and> rd_err (read_at e n d) = None))"

lemma fault_freeD [simp]:
  "fault_free e \<Longrightarrow> outcome_at e n = Done"
  "fault_free e \<Longrightarrow> \<not> ctx_done e n"
  "fault_free e \<Longrightarrow> rows_at e n = None"
  "fault_free e \<Longrightarrow> rd_content (read_at e n d) = d"
  "fault_free e \<Longrightarrow> rd_err (read_at e n d) = None"
  by (simp_all add: fault_free_def)

definition rows :: "env \<Rightarrow> nat \<Rightarrow> 'a list \<Rightarrow> 'a list" where
  "rows e n xs = (case rows_at e n of None \<Rightarrow> xs | Some k \<Rightarrow> take k xs)"

lemma rows_fault_free [simp]: "fault_free e \<Longrightarrow> rows e n xs = xs"
  by (simp add: rows_def)

lemma set_rows: "set (rows e n xs) \<subseteq> set xs"
  by (auto simp: rows_def split: option.splits dest: in_set_takeD)

text \<open>An object stream that ends without an error has delivered the whole object.\<close>

definition sound_reads :: "env \<Rightarrow> bool" where
  "sound_reads e \<longleftrightarrow> (\<forall>n d. rd_err (read_at e n d) = None \<longrightarrow> rd_content (read_at e n d) = d)"

lemma fault_free_sound [simp]: "fault_free e \<Longrightarrow> sound_reads e"
  by (simp add: sound_reads_def)

text \<open>A concrete one, for evaluation.\<close>

definition quiet_env :: env where
  "quiet_env =
     \<lparr>outcome_at = (\<lambda>_. Done), uuid_at = (\<lambda>n. replicate n CHR ''u''), now_at = int,
      ctx_done = (\<lambda>_. False), rows_at = (\<lambda>_. None), trace_at = (\<lambda>_. []), read_at = (\<lambda>_. reader_of)\<rparr>"

lemma quiet_env_simps [simp]:
  "outcome_at quiet_env n = Done" "uuid_at quiet_env n = replicate n CHR ''u''"
  "now_at quiet_env n = int n" "ctx_done quiet_env n = False" "rows_at quiet_env n = None" "read_at quiet_env n = reader_of"
  by (simp_all add: quiet_env_def)

lemma rows_quiet [simp]: "rows quiet_env n xs = xs"
  by (simp add: rows_def quiet_env_def)

lemma fault_free_quiet [simp]: "fault_free quiet_env"
  by (simp add: fault_free_def)

section \<open>The world\<close>

record world =
  calls :: nat
  users :: "user_row list"
  files :: "file_row list"
  chunks :: "chunk_row list"
  file_chunks :: "file_chunk_row list"
  storage_nodes :: "node_row list"
  redis :: "string \<Rightarrow> rentry option"
  objects :: "string \<times> string \<Rightarrow> byte list option"
  topics :: "message list"

definition empty_world :: world where
  "empty_world =
     \<lparr>calls = 0, users = [], files = [], chunks = [], file_chunks = [], storage_nodes = [],
      redis = Map.empty, objects = Map.empty, topics = []\<rparr>"

text \<open>
  One call to an outside service: it takes a number, and the environment decides whether it is
  carried out, refused, or carried out with its answer lost.
\<close>

definition ext :: "env \<Rightarrow> (world \<Rightarrow> 'a result \<times> world) \<Rightarrow> world \<Rightarrow> 'a result \<times> world" where
  "ext e f w =
     (let w1 = w\<lparr>calls := Suc (calls w)\<rparr> in
      case outcome_at e (calls w) of
        Done \<Rightarrow> f w1
      | Refused msg \<Rightarrow> (Inl msg, w1)
      | Lost msg \<Rightarrow> (Inl msg, snd (f w1)))"

text \<open>A predicate that does not look at the call counter and that the effect keeps is kept by the
  call, whatever happens to it.\<close>

definition ignores_calls :: "(world \<Rightarrow> bool) \<Rightarrow> bool" where
  "ignores_calls P \<longleftrightarrow> (\<forall>w n. P (w\<lparr>calls := n\<rparr>) = P w)"

lemma ignores_callsD [simp]: "ignores_calls P \<Longrightarrow> P (w\<lparr>calls := n\<rparr>) = P w"
  by (simp add: ignores_calls_def)

lemma ext_keeps:
  assumes "ignores_calls P" "P w" "\<And>v. P v \<Longrightarrow> P (snd (f v))"
  shows "P (snd (ext e f w))"
  using assms by (auto simp: ext_def Let_def split: outcome.splits)

lemma ext_frame:
  assumes "\<And>v n. g (v\<lparr>calls := n\<rparr>) = g v" "\<And>v. g (snd (f v)) = g v"
  shows "g (snd (ext e f w)) = g w"
  using assms by (auto simp: ext_def Let_def split: outcome.splits)

lemma ext_fault_free: "fault_free e \<Longrightarrow> ext e f w = f (w\<lparr>calls := Suc (calls w)\<rparr>)"
  by (simp add: ext_def)

text \<open>A call that answers was carried out.\<close>

lemma ext_InrD: "ext e f w = (Inr a, w') \<Longrightarrow> f (w\<lparr>calls := Suc (calls w)\<rparr>) = (Inr a, w')"
  by (auto simp: ext_def Let_def split: outcome.splits)

text \<open>The result of a call is the effect's, or the state before or after it beside an error.\<close>

lemma ext_cases:
  obtains "ext e f w = f (w\<lparr>calls := Suc (calls w)\<rparr>)"
  | m where "ext e f w = (Inl m, w\<lparr>calls := Suc (calls w)\<rparr>)"
  | m where "ext e f w = (Inl m, snd (f (w\<lparr>calls := Suc (calls w)\<rparr>)))"
  by (cases "outcome_at e (calls w)") (auto simp: ext_def)

text \<open>
  The durable part of the world: tables and objects.  Cache operations and event publishing leave
  it alone, and the integrity invariants speak about it only.
\<close>

definition tables :: "world \<Rightarrow>
    user_row list \<times> file_row list \<times> chunk_row list \<times> file_chunk_row list \<times> node_row list" where
  "tables w = (users w, files w, chunks w, file_chunks w, storage_nodes w)"

definition durable :: "world \<Rightarrow>
    (user_row list \<times> file_row list \<times> chunk_row list \<times> file_chunk_row list \<times> node_row list) \<times>
    (string \<times> string \<Rightarrow> byte list option)" where
  "durable w = (tables w, objects w)"

lemma tables_upd [simp]:
  "tables (w\<lparr>calls := n\<rparr>) = tables w"
  "tables (w\<lparr>redis := r\<rparr>) = tables w"
  "tables (w\<lparr>topics := t\<rparr>) = tables w"
  "tables (w\<lparr>objects := ob\<rparr>) = tables w"
  by (simp_all add: tables_def)

lemma durable_upd [simp]:
  "durable (w\<lparr>calls := n\<rparr>) = durable w"
  "durable (w\<lparr>redis := r\<rparr>) = durable w"
  "durable (w\<lparr>topics := t\<rparr>) = durable w"
  by (simp_all add: durable_def)

lemma durable_eqD:
  assumes "durable w = durable v"
  shows "users w = users v" "files w = files v" "chunks w = chunks v"
    "file_chunks w = file_chunks v" "storage_nodes w = storage_nodes v" "objects w = objects v"
    "tables w = tables v"
  using assms by (auto simp: durable_def tables_def)

lemma tables_eqD:
  assumes "tables w = tables v"
  shows "users w = users v" "files w = files v" "chunks w = chunks v"
    "file_chunks w = file_chunks v" "storage_nodes w = storage_nodes v"
  using assms by (auto simp: tables_def)

lemma ext_durable:
  "(\<And>v. durable (snd (f v)) = durable v) \<Longrightarrow> durable (snd (ext e f w)) = durable w"
  by (rule ext_frame) simp_all

lemma ext_tables:
  "(\<And>v. tables (snd (f v)) = tables v) \<Longrightarrow> tables (snd (ext e f w)) = tables w"
  by (rule ext_frame) simp_all

end
