(* ===== verification/ObjectStore.thy ===== *)
theory ObjectStore
  imports World Fingerprint
begin

text \<open>
  Object storage: \<^verbatim>\<open>internal/storage/store.go\<close>.  The interface \<^verbatim>\<open>ObjectStore\<close> is the locale
  \<open>object_store\<close>; \<^verbatim>\<open>MinIOStore\<close> is its implementation over the buckets of the world.
\<close>

section \<open>Object keys\<close>

text \<open>\<^verbatim>\<open>chunkKey\<close>: two levels of directories from the first four characters.\<close>

definition chunkKey :: "string \<Rightarrow> string" where
  "chunkKey hash =
     (if length hash < 4 then hash
      else take 2 hash @ ''/'' @ take 2 (drop 2 hash) @ ''/'' @ hash)"

lemma chunkKey_suffix: "4 \<le> length h \<Longrightarrow> drop 6 (chunkKey h) = h"
  by (simp add: chunkKey_def)

lemma length_chunkKey: "length (chunkKey h) = (if length h < 4 then length h else length h + 6)"
  by (simp add: chunkKey_def)

text \<open>Different names have different keys.\<close>

lemma chunkKey_inj: "chunkKey h = chunkKey h' \<Longrightarrow> h = h'"
proof -
  assume eq: "chunkKey h = chunkKey h'"
  then have "length (chunkKey h) = length (chunkKey h')" by simp
  then consider "length h < 4" "length h' < 4" | "4 \<le> length h" "4 \<le> length h'"
    by (auto simp: length_chunkKey split: if_splits)
  then show "h = h'"
  proof cases
    case 1
    with eq show ?thesis by (simp add: chunkKey_def)
  next
    case 2
    with eq show ?thesis by (metis chunkKey_suffix)
  qed
qed

section \<open>MinIOStore\<close>

text \<open>
  The error texts cut the name with \<^verbatim>\<open>hash[:12]\<close>, which panics on a shorter name: such a call
  ends in the error \<open>go_panic\<close>.
\<close>

definition go_panic :: go_error where
  "go_panic = ''panic: runtime error: slice bounds out of range''"

definition err12 :: "string \<Rightarrow> string \<Rightarrow> go_error \<Rightarrow> go_error" where
  "err12 what hash err = (if length hash < 12 then go_panic else wrapf (what @ take 12 hash) err)"

record minio_store = st_bucket :: string

definition PutChunk :: "env \<Rightarrow> minio_store \<Rightarrow> string \<Rightarrow> byte list \<Rightarrow> world \<Rightarrow> unit result \<times> world" where
  "PutChunk e s hash data w =
     (case ext e (\<lambda>v. (Inr (), v\<lparr>objects := (objects v)((st_bucket s, chunkKey hash) \<mapsto> data)\<rparr>)) w of
        (Inl err, w') \<Rightarrow> (Inl (err12 ''failed to upload chunk '' hash err), w')
      | (Inr _, w') \<Rightarrow> (Inr (), w'))"

text \<open>\<^verbatim>\<open>GetChunk\<close>: \<^verbatim>\<open>GetObject\<close> opens lazily, the request is the \<^verbatim>\<open>Stat\<close> behind it.\<close>

definition GetChunk :: "env \<Rightarrow> minio_store \<Rightarrow> string \<Rightarrow> world \<Rightarrow> (byte list \<times> int) result \<times> world" where
  "GetChunk e s hash w =
     (case ext e (\<lambda>v. (case objects v (st_bucket s, chunkKey hash) of
                          None \<Rightarrow> (Inl ''The specified key does not exist.'', v)
                        | Some data \<Rightarrow> (Inr data, v))) w of
        (Inl err, w') \<Rightarrow> (Inl (err12 ''failed to stat chunk '' hash err), w')
      | (Inr data, w') \<Rightarrow> (Inr (data, int (length data)), w'))"

text \<open>\<^verbatim>\<open>RemoveObject\<close> of a missing key succeeds.\<close>

definition DeleteChunk :: "env \<Rightarrow> minio_store \<Rightarrow> string \<Rightarrow> world \<Rightarrow> unit result \<times> world" where
  "DeleteChunk e s hash w =
     (case ext e (\<lambda>v. (Inr (), v\<lparr>objects := (objects v)((st_bucket s, chunkKey hash) := None)\<rparr>)) w of
        (Inl err, w') \<Rightarrow> (Inl (err12 ''failed to delete chunk '' hash err), w')
      | (Inr _, w') \<Rightarrow> (Inr (), w'))"

text \<open>\<^verbatim>\<open>ChunkExists\<close>: the \<^verbatim>\<open>NoSuchKey\<close> answer means no, any other error is an error.\<close>

definition ChunkExists :: "env \<Rightarrow> minio_store \<Rightarrow> string \<Rightarrow> world \<Rightarrow> bool result \<times> world" where
  "ChunkExists e s hash w =
     (case ext e (\<lambda>v. (Inr (objects v (st_bucket s, chunkKey hash) \<noteq> None), v)) w of
        (Inl err, w') \<Rightarrow> (Inl (err12 ''failed to check chunk '' hash err), w')
      | (Inr ex, w') \<Rightarrow> (Inr ex, w'))"

definition HealthCheck :: "env \<Rightarrow> minio_store \<Rightarrow> world \<Rightarrow> unit result \<times> world" where
  "HealthCheck e s w = ext e (\<lambda>v. (Inr (), v)) w"

section \<open>What a store promises\<close>

text \<open>
  The contract the chunk service relies on, stated on what the store holds under a name
  (\<open>holds\<close>): a successful put is visible, other names and everything but the store are left alone,
  a failed put has happened or not, a delete can only remove its own name, reads change nothing
  and answer what is held.
\<close>

locale object_store =
  fixes put :: "string \<Rightarrow> byte list \<Rightarrow> 'w \<Rightarrow> unit result \<times> 'w"
    and get :: "string \<Rightarrow> 'w \<Rightarrow> (byte list \<times> int) result \<times> 'w"
    and del :: "string \<Rightarrow> 'w \<Rightarrow> unit result \<times> 'w"
    and exists :: "string \<Rightarrow> 'w \<Rightarrow> bool result \<times> 'w"
    and holds :: "'w \<Rightarrow> string \<Rightarrow> byte list option"
  assumes put_ok: "put h d w = (Inr (), w') \<Longrightarrow> holds w' = (holds w)(h \<mapsto> d)"
    and put_any: "holds (snd (put h d w)) = holds w \<or> holds (snd (put h d w)) = (holds w)(h \<mapsto> d)"
    and del_ok: "del h w = (Inr (), w') \<Longrightarrow> holds w' = (holds w)(h := None)"
    and del_any: "holds (snd (del h w)) = holds w \<or> holds (snd (del h w)) = (holds w)(h := None)"
    and get_ok: "get h w = (Inr (d, n), w') \<Longrightarrow> holds w h = Some d \<and> n = int (length d)"
    and get_frame: "holds (snd (get h w)) = holds w"
    and exists_ok: "exists h w = (Inr b, w') \<Longrightarrow> b = (holds w h \<noteq> None)"
    and exists_frame: "holds (snd (exists h w)) = holds w"
begin

text \<open>
  Every object satisfies \<open>P\<close>: putting an object that satisfies it, deleting and reading keep this,
  failures included.
\<close>

definition all_objects :: "(string \<Rightarrow> byte list \<Rightarrow> bool) \<Rightarrow> 'w \<Rightarrow> bool" where
  "all_objects P w \<longleftrightarrow> (\<forall>h d. holds w h = Some d \<longrightarrow> P h d)"

lemma put_all: "all_objects P w \<Longrightarrow> P h d \<Longrightarrow> all_objects P (snd (put h d w))"
  using put_any [of h d w] by (auto simp: all_objects_def split: if_splits)

lemma del_all: "all_objects P w \<Longrightarrow> all_objects P (snd (del h w))"
  using del_any [of h w] by (auto simp: all_objects_def split: if_splits)

lemma get_all: "all_objects P w \<Longrightarrow> all_objects P (snd (get h w))"
  by (simp add: all_objects_def get_frame)

lemma exists_all: "all_objects P w \<Longrightarrow> all_objects P (snd (exists h w))"
  by (simp add: all_objects_def exists_frame)

text \<open>What is put is what is got, as long as only other names are touched in between.\<close>

lemma put_get:
  assumes "put h d w = (Inr (), w1)" "get h w1 = (Inr (d', n), w2)"
  shows "d' = d \<and> n = int (length d)"
  using put_ok [OF assms(1)] get_ok [OF assms(2)] by simp

lemma put_exists:
  assumes "put h d w = (Inr (), w1)" "exists h w1 = (Inr b, w2)"
  shows "b"
  using put_ok [OF assms(1)] exists_ok [OF assms(2)] by simp

lemma put_keeps_held: "holds w h' \<noteq> None \<Longrightarrow> holds (snd (put h d w)) h' \<noteq> None"
  using put_any [of h d w] by auto

end

text \<open>What a bucket of the world holds under a name, and the MinIO store as an implementation.\<close>

definition stored :: "minio_store \<Rightarrow> world \<Rightarrow> string \<Rightarrow> byte list option" where
  "stored s w h = objects w (st_bucket s, chunkKey h)"

lemma stored_calls [simp]: "stored s (w\<lparr>calls := n\<rparr>) = stored s w"
  by (simp add: stored_def fun_eq_iff)

lemma stored_upd:
  "objects w' = (objects w)((st_bucket s, chunkKey h) := x) \<Longrightarrow> stored s w' = (stored s w)(h := x)"
  by (auto simp: stored_def fun_eq_iff dest: chunkKey_inj)

interpretation minio: object_store "PutChunk e s" "GetChunk e s" "DeleteChunk e s" "ChunkExists e s" "stored s"
proof (unfold_locales, goal_cases)
  case (1 h d w w')
  then show ?case
    by (auto simp: PutChunk_def dest!: ext_InrD intro: stored_upd split: prod.splits sum.splits)
next
  case (2 h d w)
  show ?case
    by (cases "outcome_at e (calls w)") (auto simp: PutChunk_def ext_def intro: stored_upd)
next
  case (3 h w w')
  then show ?case
    by (auto simp: DeleteChunk_def dest!: ext_InrD intro: stored_upd split: prod.splits sum.splits)
next
  case (4 h w)
  show ?case
    by (cases "outcome_at e (calls w)") (auto simp: DeleteChunk_def ext_def intro: stored_upd)
next
  case (5 h w d n w')
  then show ?case
    by (auto simp: GetChunk_def stored_def dest!: ext_InrD split: prod.splits sum.splits option.splits)
next
  case (6 h w)
  show ?case
    by (auto simp: GetChunk_def ext_def Let_def stored_def split: prod.splits sum.splits option.splits outcome.splits)
next
  case (7 h w b w')
  then show ?case
    by (auto simp: ChunkExists_def stored_def dest!: ext_InrD split: prod.splits sum.splits)
next
  case (8 h w)
  show ?case
    by (auto simp: ChunkExists_def ext_def Let_def split: prod.splits sum.splits outcome.splits)
qed

text \<open>
  A content-addressed store: every object's key is the fingerprint of its content.  \<open>U\<close> bounds the
  contents that occur, for the assumption that no two of them collide.
\<close>

definition store_ok :: "byte list set \<Rightarrow> minio_store \<Rightarrow> world \<Rightarrow> bool" where
  "store_ok U s = minio.all_objects s (\<lambda>h d. d \<in> U \<and> SHA256Hash d = h)"

lemma store_okD: "store_ok U s w \<Longrightarrow> stored s w h = Some d \<Longrightarrow> d \<in> U \<and> SHA256Hash d = h"
  by (simp add: store_ok_def minio.all_objects_def)

lemma store_ok_cong: "stored s w = stored s v \<Longrightarrow> store_ok U s w = store_ok U s v"
  by (simp add: store_ok_def minio.all_objects_def)

text \<open>Without collisions the object under a content's fingerprint is that content.\<close>

lemma store_ok_content:
  assumes "store_ok U s w" "collision_free U" "d \<in> U" "stored s w (SHA256Hash d) \<noteq> None"
  shows "stored s w (SHA256Hash d) = Some d"
proof -
  obtain d' where d': "stored s w (SHA256Hash d) = Some d'" using assms(4) by auto
  then have "d' \<in> U" "SHA256Hash d' = SHA256Hash d" using store_okD [OF assms(1)] by auto
  with assms(2,3) d' show ?thesis by (metis collision_freeD)
qed

end
