(* ===== verification/Database.thy ===== *)
theory Database
  imports World ObjectStore GoText "HOL-Library.List_Lexorder" "HOL-Library.Char_ord" "HOL-Library.Product_Lexorder"
begin

text \<open>
  The PostgreSQL repository: \<^verbatim>\<open>internal/metadata/repository.go\<close>, \<^verbatim>\<open>folders.go\<close>, \<^verbatim>\<open>versioning.go\<close>,
  \<^verbatim>\<open>search.go\<close>.  Each statement is modelled by its effect on the tables, with the constraints of
  \<^verbatim>\<open>migrations/\<close> it can violate: foreign keys, primary keys, the unique keys (where a \<^verbatim>\<open>NULL\<close>
  parent is distinct from every other) and the integer ranges.  Rows are read in table order where
  the statement gives none.  A recursive query walks the table level by level and does not return
  when the walk does not end.
\<close>

section \<open>Statements\<close>

definition with_err :: "string \<Rightarrow> 'a result \<times> world \<Rightarrow> 'a result \<times> world" where
  "with_err p x = (case x of (Inl err, w) \<Rightarrow> (Inl (wrapf p err), w) | (Inr a, w) \<Rightarrow> (Inr a, w))"

lemma with_err_snd [simp]: "snd (with_err p x) = snd x"
  by (auto simp: with_err_def split: prod.splits sum.splits)

lemma with_err_Inr [simp]: "with_err p x = (Inr a, w) \<longleftrightarrow> x = (Inr a, w)"
  by (auto simp: with_err_def split: prod.splits sum.splits)

lemma with_err_Inr' [simp]: "with_err p (Inr a, w) = (Inr a, w)"
  by (simp add: with_err_def)

text \<open>\<^verbatim>\<open>tag.RowsAffected() == 0\<close> is an error.\<close>

definition affected :: "go_error \<Rightarrow> int result \<times> world \<Rightarrow> unit result \<times> world" where
  "affected msg x =
     (case x of (Inl err, w) \<Rightarrow> (Inl err, w) | (Inr n, w) \<Rightarrow> if n = 0 then (Inl msg, w) else (Inr (), w))"

lemma affected_snd [simp]: "snd (affected msg x) = snd x"
  by (auto simp: affected_def split: prod.splits sum.splits)

lemma affected_Inr: "affected msg x = (Inr u, w) \<longleftrightarrow> (\<exists>n. x = (Inr n, w) \<and> n \<noteq> 0)"
  by (auto simp: affected_def split: prod.splits sum.splits if_splits)

text \<open>A read: the rows of a result come through \<open>rows\<close>.\<close>

definition query :: "env \<Rightarrow> (world \<Rightarrow> 'a) \<Rightarrow> world \<Rightarrow> 'a result \<times> world" where
  "query e f = ext e (\<lambda>v. (Inr (f v), v))"

lemma query_durable [simp]: "durable (snd (query e f w)) = durable w"
  unfolding query_def by (rule ext_durable) simp

lemma query_redis [simp]: "redis (snd (query e f w)) = redis w"
  unfolding query_def by (rule ext_frame) simp_all

lemma query_topics [simp]: "topics (snd (query e f w)) = topics w"
  unfolding query_def by (rule ext_frame) simp_all

lemma query_InrD: "query e f w = (Inr a, w') \<Longrightarrow> a = f (w\<lparr>calls := Suc (calls w)\<rparr>) \<and> w' = w\<lparr>calls := Suc (calls w)\<rparr>"
  by (auto simp: query_def dest: ext_InrD)

lemma query_fault_free [simp]:
  "fault_free e \<Longrightarrow> query e f w = (Inr (f (w\<lparr>calls := Suc (calls w)\<rparr>)), w\<lparr>calls := Suc (calls w)\<rparr>)"
  by (simp add: query_def ext_fault_free)

fun first_row :: "('a \<Rightarrow> bool) \<Rightarrow> 'a list \<Rightarrow> 'a option" where
  "first_row P [] = None"
| "first_row P (x # xs) = (if P x then Some x else first_row P xs)"

lemma first_row_Some: "first_row P xs = Some x \<Longrightarrow> x \<in> set xs \<and> P x"
  by (induction xs) (auto split: if_splits)

lemma first_row_None: "first_row P xs = None \<longleftrightarrow> (\<forall>x \<in> set xs. \<not> P x)"
  by (induction xs) auto

section \<open>Files\<close>

record create_file_params =
  cf_user :: string
  cf_name :: string
  cf_size :: int
  cf_mime :: string
  cf_checksum :: string

text \<open>
  \<^verbatim>\<open>INSERT INTO files\<close>: the owner and the parent exist, the key
  \<^verbatim>\<open>(user_id, parent_id, name, version)\<close> is free unless the parent is \<^verbatim>\<open>NULL\<close>, the id is new.
\<close>

definition insert_file :: "env \<Rightarrow> file_row \<Rightarrow> world \<Rightarrow> file_row result \<times> world" where
  "insert_file e row =
     ext e (\<lambda>v.
       let f = row\<lparr>f_id := uuid_at e (calls v), f_created := now_at e (calls v), f_updated := now_at e (calls v)\<rparr> in
       if \<not> list_ex (\<lambda>u. u_id u = f_user f) (users v) then (Inl ''violates foreign key constraint'', v)
       else if \<not> (case f_parent f of None \<Rightarrow> True | Some p \<Rightarrow> list_ex (\<lambda>g. f_id g = p) (files v))
       then (Inl ''violates foreign key constraint'', v)
       else if f_parent f \<noteq> None \<and>
               list_ex (\<lambda>g. f_user g = f_user f \<and> f_parent g = f_parent f \<and> f_name g = f_name f \<and>
                            f_version g = f_version f) (files v)
       then (Inl ''duplicate key value violates unique constraint'', v)
       else if list_ex (\<lambda>g. f_id g = f_id f) (files v)
       then (Inl ''duplicate key value violates unique constraint'', v)
       else (Inr f, v\<lparr>files := files v @ [f]\<rparr>))"

definition new_row :: "string \<Rightarrow> string option \<Rightarrow> string \<Rightarrow> int \<Rightarrow> file_row" where
  "new_row user parent name version =
     \<lparr>f_id = [], f_user = user, f_parent = parent, f_name = name, f_is_dir = False, f_size = 0,
      f_mime = None, f_checksum = None, f_version = version, f_status = FileStatusActive,
      f_created = 0, f_updated = 0\<rparr>"

definition CreateFile :: "env \<Rightarrow> create_file_params \<Rightarrow> world \<Rightarrow> file_row result \<times> world" where
  "CreateFile e p w =
     with_err ''create file''
       (insert_file e ((new_row (cf_user p) None (cf_name p) 1)
          \<lparr>f_size := cf_size p, f_mime := Some (cf_mime p), f_checksum := Some (cf_checksum p)\<rparr>) w)"

definition GetFileByID :: "env \<Rightarrow> string \<Rightarrow> string \<Rightarrow> world \<Rightarrow> file_row option result \<times> world" where
  "GetFileByID e userID fileID w =
     with_err ''get file''
       (query e (\<lambda>v. first_row (\<lambda>f. f_id f = fileID \<and> f_user f = userID \<and> f_status f = FileStatusActive) (files v)) w)"

record list_options =
  lo_page :: int
  lo_page_size :: int
  lo_status :: string

text \<open>\<^verbatim>\<open>LIMIT\<close> and \<^verbatim>\<open>OFFSET\<close> of page \<open>page\<close>; the offset is computed in 64 bits.\<close>

definition page_of :: "env \<Rightarrow> int \<Rightarrow> int \<Rightarrow> (world \<Rightarrow> 'a list) \<Rightarrow> world \<Rightarrow> 'a list result \<times> world" where
  "page_of e page page_size f =
     ext e (\<lambda>v. (let offset = i64 (i64 (page - 1) * page_size) in
                 if offset < 0 then (Inl ''OFFSET must not be negative'', v)
                 else (Inr (rows e (calls v) (take (nat page_size) (drop (nat offset) (f v)))), v)))"

definition default_to :: "int \<Rightarrow> int \<Rightarrow> int" where
  "default_to d x = (if x \<le> 0 then d else x)"

definition ListFilesByUser :: "env \<Rightarrow> string \<Rightarrow> list_options \<Rightarrow> world \<Rightarrow> (file_row list \<times> int) result \<times> world" where
  "ListFilesByUser e userID opts w =
     (let page_size = default_to 20 (lo_page_size opts);
          page = default_to 1 (lo_page opts);
          status = (if lo_status opts \<noteq> [] then lo_status opts else FileStatusActive);
          sel = (\<lambda>v. filter (\<lambda>f. f_user f = userID \<and> f_status f = status) (files v))
      in
      case with_err ''count files'' (query e (\<lambda>v. int (length (sel v))) w) of
        (Inl err, w1) \<Rightarrow> (Inl err, w1)
      | (Inr cnt, w1) \<Rightarrow>
          (case with_err ''list files'' (page_of e page page_size (\<lambda>v. sort_key (\<lambda>f. - f_updated f) (sel v)) w1) of
             (Inl err, w2) \<Rightarrow> (Inl err, w2)
           | (Inr fs, w2) \<Rightarrow> (Inr (fs, cnt), w2)))"

text \<open>\<^verbatim>\<open>UPDATE files\<close>: the rows a condition selects, and how many they are.\<close>

definition update_files ::
  "env \<Rightarrow> (file_row \<Rightarrow> bool) \<Rightarrow> (file_row \<Rightarrow> file_row) \<Rightarrow> world \<Rightarrow> int result \<times> world" where
  "update_files e P g =
     ext e (\<lambda>v. (Inr (int (length (filter P (files v)))),
                 v\<lparr>files := map (\<lambda>f. if P f then (g f)\<lparr>f_updated := now_at e (calls v)\<rparr> else f) (files v)\<rparr>))"

definition SoftDeleteFile :: "env \<Rightarrow> string \<Rightarrow> string \<Rightarrow> world \<Rightarrow> unit result \<times> world" where
  "SoftDeleteFile e userID fileID w =
     affected ''file not found or already deleted''
       (with_err ''soft delete file''
          (update_files e (\<lambda>f. f_id f = fileID \<and> f_user f = userID \<and> f_status f = FileStatusActive)
             (\<lambda>f. f\<lparr>f_status := FileStatusDeleted\<rparr>) w))"

section \<open>Chunks\<close>

definition chunkObjectKey :: "string \<Rightarrow> string" where
  "chunkObjectKey hash =
     (if length hash < 4 then hash else take 2 hash @ ''/'' @ take 2 (drop 2 hash) @ ''/'' @ hash)"

abbreviation "max_integer \<equiv> (2147483647::int)"

definition new_chunk :: "env \<Rightarrow> string \<Rightarrow> int \<Rightarrow> nat \<Rightarrow> chunk_row" where
  "new_chunk e hash sz n =
     \<lparr>c_id = uuid_at e n, c_hash = hash, c_size = sz, c_refs = 1, c_nodes = [], c_bucket = ''chunks'',
      c_key = chunkObjectKey hash, c_status = ChunkStatusActive, c_created = now_at e n\<rparr>"

lemma new_chunk_simps [simp]:
  "c_id (new_chunk e h n k) = uuid_at e k" "c_hash (new_chunk e h n k) = h" "c_refs (new_chunk e h n k) = 1"
  "c_size (new_chunk e h n k) = n"
  by (simp_all add: new_chunk_def)

text \<open>
  \<^verbatim>\<open>UpsertChunk\<close>: a new row with one reference, or one reference more; an existing row keeps its
  status.
\<close>

definition UpsertChunk :: "env \<Rightarrow> string \<Rightarrow> int \<Rightarrow> world \<Rightarrow> chunk_row result \<times> world" where
  "UpsertChunk e hash sz w =
     with_err ''upsert chunk''
       (ext e (\<lambda>v.
          case first_row (\<lambda>c. c_hash c = hash) (chunks v) of
            Some c \<Rightarrow>
              if c_refs c + 1 > max_integer then (Inl ''integer out of range'', v)
              else (Inr (c\<lparr>c_refs := c_refs c + 1\<rparr>),
                    v\<lparr>chunks := map (\<lambda>d. if c_hash d = hash then d\<lparr>c_refs := c_refs d + 1\<rparr> else d) (chunks v)\<rparr>)
          | None \<Rightarrow>
              (let c = new_chunk e hash sz (calls v) in
               if list_ex (\<lambda>d. c_id d = c_id c) (chunks v)
               then (Inl ''duplicate key value violates unique constraint'', v)
               else (Inr c, v\<lparr>chunks := chunks v @ [c]\<rparr>))) w)"

definition GetChunksByHashes :: "env \<Rightarrow> string list \<Rightarrow> world \<Rightarrow> (string \<Rightarrow> chunk_row option) result \<times> world" where
  "GetChunksByHashes e hashes w =
     with_err ''get chunks by hashes''
       (query e (\<lambda>v. map_of (rev (map (\<lambda>c. (c_hash c, c))
           (rows e (calls v) (filter (\<lambda>c. c_hash c \<in> set hashes) (chunks v)))))) w)"

definition IncrementRefCount :: "env \<Rightarrow> string \<Rightarrow> world \<Rightarrow> unit result \<times> world" where
  "IncrementRefCount e hash =
     ext e (\<lambda>v.
       if list_ex (\<lambda>c. c_hash c = hash \<and> c_refs c + 1 > max_integer) (chunks v)
       then (Inl ''integer out of range'', v)
       else (Inr (), v\<lparr>chunks := map (\<lambda>c. if c_hash c = hash then c\<lparr>c_refs := c_refs c + 1\<rparr> else c) (chunks v)\<rparr>))"

text \<open>
  \<^verbatim>\<open>DecrementRefCounts\<close>: every row whose hash occurs in the list and that has references loses one,
  however often its hash occurs.
\<close>

definition decrementable :: "string list \<Rightarrow> chunk_row \<Rightarrow> bool" where
  "decrementable hashes c \<longleftrightarrow> c_hash c \<in> set hashes \<and> 0 < c_refs c"

definition DecrementRefCounts :: "env \<Rightarrow> string list \<Rightarrow> world \<Rightarrow> string list result \<times> world" where
  "DecrementRefCounts e hashes w =
     with_err ''decrement ref counts''
       (ext e (\<lambda>v.
          let hit = filter (decrementable hashes) (chunks v) in
          (Inr (map c_hash (filter (\<lambda>c. c_refs c - 1 = 0) (rows e (calls v) hit))),
           v\<lparr>chunks := map (\<lambda>c. if decrementable hashes c then c\<lparr>c_refs := c_refs c - 1\<rparr> else c) (chunks v)\<rparr>)) w)"

section \<open>Manifests\<close>

text \<open>
  \<^verbatim>\<open>SaveManifest\<close> sends its statements as one batch, which PostgreSQL runs as one transaction: all of
  them or none.  An entry whose chunk has no row inserts nothing and is no error.
\<close>

fun batch_insert :: "string \<Rightarrow> chunk_row list \<Rightarrow> manifest_entry list \<Rightarrow> file_chunk_row list \<Rightarrow> file_chunk_row list option" where
  "batch_insert fid cs [] fcs = Some fcs"
| "batch_insert fid cs (m # ms) fcs =
     (case first_row (\<lambda>c. c_hash c = me_hash m) cs of
        None \<Rightarrow> batch_insert fid cs ms fcs
      | Some c \<Rightarrow>
          if list_ex (\<lambda>r. fc_file r = fid \<and> fc_index r = me_index m) fcs then None
          else batch_insert fid cs ms
                 (fcs @ [\<lparr>fc_file = fid, fc_chunk = c_id c, fc_index = me_index m, fc_offset = me_offset m\<rparr>]))"

definition SaveManifest :: "env \<Rightarrow> string \<Rightarrow> manifest_entry list \<Rightarrow> world \<Rightarrow> unit result \<times> world" where
  "SaveManifest e fileID entries w =
     (if entries = [] then (Inr (), w)
      else with_err ''insert manifest entry''
        (ext e (\<lambda>v.
           if \<not> list_ex (\<lambda>f. f_id f = fileID) (files v) \<and>
              list_ex (\<lambda>m. list_ex (\<lambda>c. c_hash c = me_hash m) (chunks v)) entries
           then (Inl ''violates foreign key constraint'', v)
           else
             (case batch_insert fileID (chunks v) entries (file_chunks v) of
                None \<Rightarrow> (Inl ''duplicate key value violates unique constraint'', v)
              | Some fcs \<Rightarrow> (Inr (), v\<lparr>file_chunks := fcs\<rparr>))) w))"

text \<open>\<^verbatim>\<open>GetManifest\<close>: the join with \<^verbatim>\<open>chunks\<close>, in the order of the indices.\<close>

definition chunk_entries :: "chunk_row list \<Rightarrow> file_chunk_row \<Rightarrow> manifest_entry list" where
  "chunk_entries cs r =
     map (\<lambda>c. \<lparr>me_hash = c_hash c, me_size = c_size c, me_index = fc_index r, me_offset = fc_offset r\<rparr>)
       (filter (\<lambda>c. c_id c = fc_chunk r) cs)"

definition manifest_rows :: "chunk_row list \<Rightarrow> file_chunk_row list \<Rightarrow> string \<Rightarrow> manifest_entry list" where
  "manifest_rows cs fcs fid =
     sort_key me_index (concat (map (chunk_entries cs) (filter (\<lambda>r. fc_file r = fid) fcs)))"

definition GetManifest :: "env \<Rightarrow> string \<Rightarrow> world \<Rightarrow> manifest_entry list result \<times> world" where
  "GetManifest e fileID w =
     with_err ''get manifest''
       (query e (\<lambda>v. rows e (calls v) (manifest_rows (chunks v) (file_chunks v) fileID)) w)"

section \<open>Quota\<close>

definition GetStorageUsage :: "env \<Rightarrow> string \<Rightarrow> world \<Rightarrow> (int \<times> int) result \<times> world" where
  "GetStorageUsage e userID w =
     with_err ''get storage usage''
       (ext e (\<lambda>v. (case first_row (\<lambda>u. u_id u = userID) (users v) of
                       None \<Rightarrow> (Inl ''no rows in result set'', v)
                     | Some u \<Rightarrow> (Inr (u_used u, u_quota u), v))) w)"

definition UpdateStorageUsed :: "env \<Rightarrow> string \<Rightarrow> int \<Rightarrow> world \<Rightarrow> unit result \<times> world" where
  "UpdateStorageUsed e userID delta =
     ext e (\<lambda>v.
       if list_ex (\<lambda>u. u_id u = userID \<and> \<not> in_i64 (u_used u + delta)) (users v)
       then (Inl ''bigint out of range'', v)
       else (Inr (), v\<lparr>users := map (\<lambda>u. if u_id u = userID then u\<lparr>u_used := u_used u + delta\<rparr> else u) (users v)\<rparr>))"

section \<open>Versions\<close>

definition kept_status :: "string \<Rightarrow> bool" where
  "kept_status s \<longleftrightarrow> s = FileStatusActive \<or> s = FileStatusSuperseded"

text \<open>All kept rows of a name under a parent, newest version first.\<close>

definition version_rows :: "string \<Rightarrow> string option \<Rightarrow> string \<Rightarrow> file_row list \<Rightarrow> file_row list" where
  "version_rows userID parentID name fs =
     sort_key (\<lambda>f. - f_version f)
       (filter (\<lambda>f. f_user f = userID \<and> f_name f = name \<and> f_parent f = parentID \<and> kept_status (f_status f)) fs)"

definition GetLatestFileByName :: "env \<Rightarrow> string \<Rightarrow> string option \<Rightarrow> string \<Rightarrow> world \<Rightarrow> file_row option result \<times> world" where
  "GetLatestFileByName e userID parentID name w =
     with_err ''get latest file by name''
       (query e (\<lambda>v. first_row (\<lambda>_. True) (version_rows userID parentID name (files v))) w)"

definition ListFileVersions :: "env \<Rightarrow> string \<Rightarrow> string \<Rightarrow> string option \<Rightarrow> world \<Rightarrow> file_row list result \<times> world" where
  "ListFileVersions e userID fileName parentID w =
     with_err ''list file versions''
       (query e (\<lambda>v. rows e (calls v) (version_rows userID parentID fileName (files v))) w)"

definition UpdateFileStatus :: "env \<Rightarrow> string \<Rightarrow> string \<Rightarrow> world \<Rightarrow> unit result \<times> world" where
  "UpdateFileStatus e fileID status w =
     affected (wrapf ''file not found'' fileID)
       (with_err ''update file status'' (update_files e (\<lambda>f. f_id f = fileID) (\<lambda>f. f\<lparr>f_status := status\<rparr>) w))"

definition CreateFileWithVersion ::
  "env \<Rightarrow> create_file_params \<Rightarrow> string option \<Rightarrow> int \<Rightarrow> world \<Rightarrow> file_row result \<times> world" where
  "CreateFileWithVersion e p parentID version w =
     with_err ''create file with version''
       (insert_file e ((new_row (cf_user p) parentID (cf_name p) version)
          \<lparr>f_size := cf_size p, f_mime := Some (cf_mime p), f_checksum := Some (cf_checksum p)\<rparr>) w)"

definition GetFileVersion :: "env \<Rightarrow> string \<Rightarrow> string \<Rightarrow> int \<Rightarrow> world \<Rightarrow> file_row option result \<times> world" where
  "GetFileVersion e userID fileID version w =
     (case with_err ''get file name''
             (query e (\<lambda>v. first_row (\<lambda>f. f_id f = fileID \<and> f_user f = userID) (files v)) w) of
        (Inl err, w1) \<Rightarrow> (Inl err, w1)
      | (Inr None, w1) \<Rightarrow> (Inr None, w1)
      | (Inr (Some g), w1) \<Rightarrow>
          with_err ''get file version''
            (query e (\<lambda>v. first_row (\<lambda>f. f_user f = userID \<and> f_name f = f_name g \<and> f_parent f = f_parent g \<and>
                                        f_version f = version \<and> kept_status (f_status f)) (files v)) w1))"

section \<open>Folders\<close>

definition CreateDirectory :: "env \<Rightarrow> string \<Rightarrow> string \<Rightarrow> string option \<Rightarrow> world \<Rightarrow> file_row result \<times> world" where
  "CreateDirectory e userID name parentID w =
     with_err ''create directory''
       (insert_file e ((new_row userID parentID name 1)\<lparr>f_is_dir := True\<rparr>) w)"

text \<open>Directories first, then by name.\<close>

definition GetFolderContents ::
  "env \<Rightarrow> string \<Rightarrow> string option \<Rightarrow> list_options \<Rightarrow> world \<Rightarrow> (file_row list \<times> int) result \<times> world" where
  "GetFolderContents e userID folderID opts w =
     (let page_size = default_to 50 (lo_page_size opts);
          page = default_to 1 (lo_page opts);
          sel = (\<lambda>v. filter (\<lambda>f. f_user f = userID \<and> f_parent f = folderID \<and> f_status f = FileStatusActive) (files v))
      in
      case with_err ''count folder contents'' (query e (\<lambda>v. int (length (sel v))) w) of
        (Inl err, w1) \<Rightarrow> (Inl err, w1)
      | (Inr cnt, w1) \<Rightarrow>
          (case with_err ''list folder contents''
                  (page_of e page page_size (\<lambda>v. sort_key (\<lambda>f. (\<not> f_is_dir f, f_name f)) (sel v)) w1) of
             (Inl err, w2) \<Rightarrow> (Inl err, w2)
           | (Inr fs, w2) \<Rightarrow> (Inr (fs, cnt), w2)))"

definition VerifyFolderOwnership :: "env \<Rightarrow> string \<Rightarrow> string \<Rightarrow> world \<Rightarrow> file_row option result \<times> world" where
  "VerifyFolderOwnership e userID folderID w =
     with_err ''verify folder''
       (query e (\<lambda>v. first_row (\<lambda>f. f_id f = folderID \<and> f_user f = userID \<and> f_is_dir f \<and>
                                   f_status f = FileStatusActive) (files v)) w)"

text \<open>\<^verbatim>\<open>MoveFile\<close>: the foreign key only asks that the new parent exists.\<close>

definition move_stmt :: "env \<Rightarrow> string \<Rightarrow> string \<Rightarrow> string option \<Rightarrow> world \<Rightarrow> int result \<times> world" where
  "move_stmt e userID fileID newParentID =
     (let P = (\<lambda>f. f_id f = fileID \<and> f_user f = userID \<and> f_status f = FileStatusActive) in
      ext e (\<lambda>v.
        if list_ex P (files v) \<and>
           \<not> (case newParentID of None \<Rightarrow> True | Some p \<Rightarrow> list_ex (\<lambda>g. f_id g = p) (files v))
        then (Inl ''violates foreign key constraint'', v)
        else if newParentID \<noteq> None \<and>
           list_ex (\<lambda>f. P f \<and> list_ex (\<lambda>g. f_id g \<noteq> f_id f \<and> f_user g = f_user f \<and>
              f_parent g = newParentID \<and> f_name g = f_name f \<and> f_version g = f_version f) (files v)) (files v)
        then (Inl ''duplicate key value violates unique constraint'', v)
        else (Inr (int (length (filter P (files v)))),
              v\<lparr>files := map (\<lambda>f. if P f then f\<lparr>f_parent := newParentID, f_updated := now_at e (calls v)\<rparr> else f) (files v)\<rparr>)))"

definition MoveFile :: "env \<Rightarrow> string \<Rightarrow> string \<Rightarrow> string option \<Rightarrow> world \<Rightarrow> unit result \<times> world" where
  "MoveFile e userID fileID newParentID w =
     affected ''file not found or not owned by user''
       (with_err ''move file'' (move_stmt e userID fileID newParentID w))"

text \<open>
  The recursive queries.  \<^verbatim>\<open>IsDescendant\<close> walks from a row to its parent, level by level, until the
  row it looks for appears; the rows are produced on demand, so it stops there.  \<open>None\<close> is a walk
  that does not end.
\<close>

definition parents_of :: "file_row list \<Rightarrow> file_row list \<Rightarrow> file_row list" where
  "parents_of fs level = concat (map (\<lambda>a. filter (\<lambda>f. Some (f_id f) = f_parent a) fs) level)"

partial_function (option) ancestors :: "file_row list \<Rightarrow> string \<Rightarrow> file_row list \<Rightarrow> bool option" where
  "ancestors fs target level =
     (if level = [] then Some False
      else if list_ex (\<lambda>a. f_id a = target) level then Some True
      else ancestors fs target (parents_of fs level))"

definition IsDescendant :: "env \<Rightarrow> string \<Rightarrow> string \<Rightarrow> world \<Rightarrow> (bool result \<times> world) option" where
  "IsDescendant e potentialChild potentialParent w =
     (case with_err ''check descendant'' (query e files w) of
        (Inl err, w1) \<Rightarrow> Some (Inl err, w1)
      | (Inr fs, w1) \<Rightarrow>
          map_option (\<lambda>b. (Inr b, w1)) (ancestors fs potentialParent (filter (\<lambda>f. f_id f = potentialChild) fs)))"

definition children_of :: "file_row list \<Rightarrow> string list \<Rightarrow> file_row list" where
  "children_of fs ids =
     concat (map (\<lambda>i. filter (\<lambda>f. f_parent f = Some i \<and> f_status f = FileStatusActive) fs) ids)"

partial_function (option) descendants :: "file_row list \<Rightarrow> file_row list \<Rightarrow> file_row list option" where
  "descendants fs level =
     (if level = [] then Some []
      else Option.bind (descendants fs (children_of fs (map f_id level))) (\<lambda>below. Some (level @ below)))"

definition GetAllDescendantFileIDs :: "env \<Rightarrow> string \<Rightarrow> world \<Rightarrow> (string list result \<times> world) option" where
  "GetAllDescendantFileIDs e folderID w =
     (case with_err ''get descendant files'' (query e files w) of
        (Inl err, w1) \<Rightarrow> Some (Inl err, w1)
      | (Inr fs, w1) \<Rightarrow>
          map_option (\<lambda>tree. (Inr (rows e (calls w1) (map f_id (filter (\<lambda>f. \<not> f_is_dir f) tree))), w1))
            (descendants fs (children_of fs [folderID])))"

section \<open>Search\<close>

record search_query =
  sq_query :: string
  sq_mime :: string
  sq_min :: "int option"
  sq_max :: "int option"
  sq_after :: "int option"
  sq_before :: "int option"
  sq_page :: int
  sq_page_size :: int

text \<open>\<^verbatim>\<open>LIKE\<close>: \<^verbatim>\<open>%\<close> is any text, \<^verbatim>\<open>_\<close> one character, the backslash quotes the next.\<close>

fun like :: "string \<Rightarrow> string \<Rightarrow> bool" where
  "like [] s = (s = [])"
| "like (p # ps) s =
     (if p = CHR ''%'' then like ps s \<or> (case s of [] \<Rightarrow> False | c # cs \<Rightarrow> like (p # ps) cs)
      else if p = CHR ''_'' then (case s of [] \<Rightarrow> False | c # cs \<Rightarrow> like ps cs)
      else if p = CHR 0x5C then
        (case ps of [] \<Rightarrow> False | q # qs \<Rightarrow> (case s of [] \<Rightarrow> False | c # cs \<Rightarrow> c = q \<and> like qs cs))
      else (case s of [] \<Rightarrow> False | c # cs \<Rightarrow> c = p \<and> like ps cs))"

definition ilike :: "string \<Rightarrow> string \<Rightarrow> bool" where
  "ilike pattern s = like (to_lower pattern) (to_lower s)"

definition search_match :: "string \<Rightarrow> search_query \<Rightarrow> file_row \<Rightarrow> bool" where
  "search_match userID q f \<longleftrightarrow>
     f_user f = userID \<and> f_status f = FileStatusActive \<and> \<not> f_is_dir f \<and>
     (sq_query q \<noteq> [] \<longrightarrow> ilike (''%'' @ sq_query q @ ''%'') (f_name f)) \<and>
     (sq_mime q \<noteq> [] \<longrightarrow> f_mime f = Some (sq_mime q)) \<and>
     (case sq_min q of None \<Rightarrow> True | Some m \<Rightarrow> m \<le> f_size f) \<and>
     (case sq_max q of None \<Rightarrow> True | Some m \<Rightarrow> f_size f \<le> m) \<and>
     (case sq_after q of None \<Rightarrow> True | Some t \<Rightarrow> t \<le> f_created f) \<and>
     (case sq_before q of None \<Rightarrow> True | Some t \<Rightarrow> f_created f \<le> t)"

text \<open>\<^verbatim>\<open>SearchFiles\<close> writes its defaults back into the query, which its caller reads.\<close>

definition SearchFiles ::
  "env \<Rightarrow> string \<Rightarrow> search_query \<Rightarrow> world \<Rightarrow> (file_row list \<times> int) result \<times> search_query \<times> world" where
  "SearchFiles e userID q0 w =
     (let q = q0\<lparr>sq_page_size := default_to 20 (sq_page_size q0), sq_page := default_to 1 (sq_page q0)\<rparr>;
          sel = (\<lambda>v. filter (search_match userID q) (files v))
      in
      case with_err ''search count'' (query e (\<lambda>v. int (length (sel v))) w) of
        (Inl err, w1) \<Rightarrow> (Inl err, q, w1)
      | (Inr cnt, w1) \<Rightarrow>
          (case with_err ''search query''
                  (page_of e (sq_page q) (sq_page_size q) (\<lambda>v. sort_key (\<lambda>f. - f_created f) (sel v)) w1) of
             (Inl err, w2) \<Rightarrow> (Inl err, q, w2)
           | (Inr fs, w2) \<Rightarrow> (Inr (fs, cnt), q, w2)))"

end
