(* ===== verification/Events.thy ===== *)
theory Events
  imports World
begin

text \<open>
  The event log: \<^verbatim>\<open>internal/events/\<close>.  The topics and the envelope (\<^verbatim>\<open>topics.go\<close>), the producer
  (\<^verbatim>\<open>producer.go\<close>), the header carrier of the trace context (\<^verbatim>\<open>tracing.go\<close>, as an instance of the
  interface \<^verbatim>\<open>TextMapCarrier\<close>) and the consumer loop (\<^verbatim>\<open>consumer.go\<close>).
\<close>

section \<open>Topics and envelopes\<close>

definition TopicChunksCreated :: string where "TopicChunksCreated = ''dfms.chunks.created''"
definition TopicChunksDeleted :: string where "TopicChunksDeleted = ''dfms.chunks.deleted''"
definition TopicFilesDeleted :: string where "TopicFilesDeleted = ''dfms.files.deleted''"
definition TopicNodesHealth :: string where "TopicNodesHealth = ''dfms.nodes.health''"

lemmas topic_defs = TopicChunksCreated_def TopicChunksDeleted_def TopicFilesDeleted_def TopicNodesHealth_def

definition producer_topics :: "string list" where
  "producer_topics = [TopicChunksCreated, TopicChunksDeleted, TopicFilesDeleted, TopicNodesHealth]"

definition NewEnvelope :: "int \<Rightarrow> string \<Rightarrow> string \<Rightarrow> payload \<Rightarrow> envelope" where
  "NewEnvelope now eventType traceID p =
     \<lparr>ev_type = eventType, ev_time = now, ev_trace = traceID, ev_payload = p\<rparr>"

section \<open>The header carrier\<close>

type_synonym headers = "(string \<times> string) list"

fun carrier_Get :: "string \<Rightarrow> headers \<Rightarrow> string" where
  "carrier_Get key [] = []"
| "carrier_Get key ((k, v) # hs) = (if k = key then v else carrier_Get key hs)"

text \<open>\<^verbatim>\<open>Set\<close> overwrites the first header of that name, or appends one.\<close>

fun carrier_Set :: "string \<Rightarrow> string \<Rightarrow> headers \<Rightarrow> headers" where
  "carrier_Set key value [] = [(key, value)]"
| "carrier_Set key value ((k, v) # hs) =
     (if k = key then (k, value) # hs else (k, v) # carrier_Set key value hs)"

definition carrier_Keys :: "headers \<Rightarrow> string list" where
  "carrier_Keys hs = map fst hs"

text \<open>
  What the propagator needs of a carrier: a value set is got back, other keys keep theirs, and the
  keys listed are the keys set.
\<close>

locale text_map_carrier =
  fixes get :: "string \<Rightarrow> 'c \<Rightarrow> string"
    and put :: "string \<Rightarrow> string \<Rightarrow> 'c \<Rightarrow> 'c"
    and keys :: "'c \<Rightarrow> string list"
  assumes get_put: "get k (put k v c) = v"
    and get_put_other: "k' \<noteq> k \<Longrightarrow> get k' (put k v c) = get k' c"
    and keys_put: "set (keys (put k v c)) = insert k (set (keys c))"
    and keys_put_distinct: "distinct (keys c) \<Longrightarrow> distinct (keys (put k v c))"
begin

text \<open>\<^verbatim>\<open>Inject\<close> sets the pairs of the context one after the other.\<close>

definition inject :: "(string \<times> string) list \<Rightarrow> 'c \<Rightarrow> 'c" where
  "inject kvs c = fold (\<lambda>(k, v). put k v) kvs c"

lemma inject_Nil [simp]: "inject [] c = c"
  by (simp add: inject_def)

lemma inject_other: "k \<notin> fst ` set kvs \<Longrightarrow> get k (inject kvs c) = get k c"
proof (induction kvs arbitrary: c)
  case (Cons kv kvs)
  obtain k1 v1 where kv: "kv = (k1, v1)" by force
  with Cons.prems have "k \<noteq> k1" "k \<notin> fst ` set kvs" by auto
  with Cons.IH [of "put k1 v1 c"] show ?case
    by (simp add: inject_def kv get_put_other)
qed simp

text \<open>What is injected is extracted, for distinct keys.\<close>

lemma inject_get:
  "distinct (map fst kvs) \<Longrightarrow> (k, v) \<in> set kvs \<Longrightarrow> get k (inject kvs c) = v"
proof (induction kvs arbitrary: c)
  case (Cons kv kvs)
  obtain k1 v1 where kv: "kv = (k1, v1)" by force
  have step: "inject (kv # kvs) c = inject kvs (put k1 v1 c)" by (simp add: inject_def kv)
  show ?case
  proof (cases "(k, v) = (k1, v1)")
    case True
    with Cons.prems kv have "k \<notin> fst ` set kvs" by auto
    with True show ?thesis by (simp add: step inject_other get_put)
  next
    case False
    with Cons.prems kv have "distinct (map fst kvs)" "(k, v) \<in> set kvs" by auto
    then show ?thesis by (simp add: step Cons.IH)
  qed
qed simp

lemma inject_keys: "set (keys (inject kvs c)) = set (keys c) \<union> fst ` set kvs"
  by (induction kvs arbitrary: c) (auto simp: inject_def keys_put)

end

lemma carrier_Set_keys: "map fst (carrier_Set k v c) = (if k \<in> fst ` set c then map fst c else map fst c @ [k])"
  by (induction k v c rule: carrier_Set.induct) auto

interpretation kafka_carrier: text_map_carrier carrier_Get carrier_Set carrier_Keys
proof (unfold_locales, goal_cases)
  case (1 k v c)
  show ?case by (induction c) auto
next
  case (2 k' k v c)
  then show ?case by (induction c) auto
next
  case (3 k v c)
  show ?case by (auto simp: carrier_Keys_def carrier_Set_keys)
next
  case (4 c k v)
  then show ?case by (auto simp: carrier_Keys_def carrier_Set_keys)
qed

section \<open>The producer\<close>

definition Publish :: "env \<Rightarrow> string \<Rightarrow> string \<Rightarrow> string \<Rightarrow> payload \<Rightarrow> world \<Rightarrow> unit result \<times> world" where
  "Publish e topic partitionKey traceID p w =
     (if topic \<notin> set producer_topics then (Inl (wrapf ''unknown topic'' topic), w)
      else
        (let envl = NewEnvelope (now_at e (calls w)) topic traceID p;
             msg = \<lparr>m_topic = topic, m_key = partitionKey, m_value = KJson envl,
                    m_headers = fold (\<lambda>(k, v). carrier_Set k v) (trace_at e (calls w)) []\<rparr>
         in
         case ext e (\<lambda>v. (Inr (), v\<lparr>topics := topics v @ [msg]\<rparr>)) w of
           (Inl err, w1) \<Rightarrow> (Inl (wrapf (''publish to '' @ topic) err), w1)
         | (Inr _, w1) \<Rightarrow> (Inr (), w1)))"

lemma Publish_durable [simp]: "durable (snd (Publish e t k tr p w)) = durable w"
proof -
  have "durable (snd (ext e (\<lambda>v. (Inr () :: unit result, v\<lparr>topics := topics v @ [msg]\<rparr>)) w)) = durable w" for msg
    by (rule ext_durable) simp
  then show ?thesis
    by (simp add: Publish_def Let_def case_prod_beta split: sum.splits)
qed

lemma Publish_redis [simp]: "redis (snd (Publish e t k tr p w)) = redis w"
proof -
  have "redis (snd (ext e (\<lambda>v. (Inr () :: unit result, v\<lparr>topics := topics v @ [msg]\<rparr>)) w)) = redis w" for msg
    by (rule ext_frame) simp_all
  then show ?thesis
    by (simp add: Publish_def Let_def case_prod_beta split: sum.splits)
qed

text \<open>The log only grows.\<close>

lemma Publish_log: "\<exists>new. topics (snd (Publish e t k tr p w)) = topics w @ new"
  by (cases "outcome_at e (calls w)") (auto simp: Publish_def Let_def ext_def)

text \<open>\<^verbatim>\<open>Close\<close> closes every writer and reports the first error.\<close>

fun Producer_Close :: "(string \<times> go_error option) list \<Rightarrow> go_error option" where
  "Producer_Close [] = None"
| "Producer_Close ((topic, None) # ws) = Producer_Close ws"
| "Producer_Close ((topic, Some err) # ws) = Some (wrapf (''close writer for '' @ topic) err)"

section \<open>The consumer\<close>

text \<open>
  \<^verbatim>\<open>Subscribe\<close> over what \<^verbatim>\<open>FetchMessage\<close> returns: messages with their offsets, or errors; the end of
  the list is the context's end.  The result is the list of offsets committed, in order.
\<close>

datatype fetch = Fetched nat message | FetchErr go_error

fun subscribe_loop ::
  "env \<Rightarrow> (message \<Rightarrow> world \<Rightarrow> unit result \<times> world) \<Rightarrow> fetch list \<Rightarrow> world \<Rightarrow> nat list \<times> world" where
  "subscribe_loop e handler [] w = ([], w)"
| "subscribe_loop e handler (FetchErr err # fs) w =
     (if ctx_done e (calls w) then ([], w) else subscribe_loop e handler fs w)"
| "subscribe_loop e handler (Fetched off msg # fs) w =
     (case handler msg w of
        (Inl err, w1) \<Rightarrow> subscribe_loop e handler fs w1
      | (Inr _, w1) \<Rightarrow>
          (let done = (case outcome_at e (calls w1) of Refused _ \<Rightarrow> [] | _ \<Rightarrow> [off]) in
           case ext e (\<lambda>v. (Inr () :: unit result, v)) w1 of
             (_, w2) \<Rightarrow>
               (case subscribe_loop e handler fs w2 of (offs, w3) \<Rightarrow> (done @ offs, w3))))"

text \<open>An invariant of the handler is one of the consumer.\<close>

lemma subscribe_invariant:
  assumes "\<And>msg w. P w \<Longrightarrow> P (snd (handler msg w))" "ignores_calls P" "P w"
  shows "P (snd (subscribe_loop e handler fs w))"
  using assms(3)
proof (induction fs arbitrary: w)
  case (Cons f fs)
  show ?case
  proof (cases f)
    case (Fetched off msg)
    obtain r w1 where h: "handler msg w = (r, w1)" by force
    have p1: "P w1" using assms(1) [OF Cons.prems, of msg] h by simp
    have p2: "P (snd (ext e (\<lambda>v. (Inr () :: unit result, v)) w1))"
      by (rule ext_keeps [OF assms(2) p1]) simp
    show ?thesis
      using Cons.IH [OF p1] Cons.IH [OF p2]
      by (cases r) (simp_all add: Fetched h case_prod_beta Let_def)
  next
    case (FetchErr err)
    then show ?thesis using Cons by simp
  qed
qed simp

text \<open>A committed offset belongs to a message the handler accepted.\<close>

lemma subscribe_committed:
  "off \<in> set (fst (subscribe_loop e handler fs w)) \<Longrightarrow>
   \<exists>msg w1 w2. Fetched off msg \<in> set fs \<and> handler msg w1 = (Inr (), w2)"
proof (induction fs arbitrary: w)
  case (Cons f fs)
  show ?case
  proof (cases f)
    case (Fetched o' msg)
    obtain r w1 where h: "handler msg w = (r, w1)" by force
    show ?thesis
    proof (cases r)
      case (Inl err)
      with Cons.prems Fetched h have "off \<in> set (fst (subscribe_loop e handler fs w1))" by simp
      with Cons.IH [of w1] show ?thesis using Fetched by auto
    next
      case (Inr u)
      let ?w2 = "snd (ext e (\<lambda>v. (Inr () :: unit result, v)) w1)"
      have "off = o' \<or> off \<in> set (fst (subscribe_loop e handler fs ?w2))"
        using Cons.prems Fetched h Inr by (simp add: case_prod_beta Let_def split: outcome.splits)
      then show ?thesis
      proof
        assume "off = o'"
        with Fetched h Inr show ?thesis by auto
      next
        assume "off \<in> set (fst (subscribe_loop e handler fs ?w2))"
        with Cons.IH [of ?w2] show ?thesis using Fetched by auto
      qed
    qed
  next
    case (FetchErr err)
    then show ?thesis using Cons by (auto split: if_splits)
  qed
qed simp

end
