(* ===== verification/Replication.thy ===== *)
theory Replication
  imports HashRing Database Events ObjectStore
begin

text \<open>
  The replication manager (\<^verbatim>\<open>internal/replication/manager.go\<close>) and the health monitor
  (\<^verbatim>\<open>internal/health/monitor.go\<close>).  The manager places a new chunk on the nodes its hash ring prefers
  and, when a node goes offline, takes the node off the chunks it held and announces them again; the
  monitor probes the nodes and announces every change of a status.
\<close>

section \<open>Decoding\<close>

text \<open>
  \<^verbatim>\<open>json.Unmarshal\<close> into another event type fills the fields of the same name and leaves the others
  zero.  Text that is no JSON is an error.
\<close>

definition decode_created :: "payload \<Rightarrow> chunk_created_event option" where
  "decode_created p =
     (case p of
        PChunkCreated ev \<Rightarrow> Some ev
      | PChunkDeleted ev \<Rightarrow> Some \<lparr>cc_hash = cd_hash ev, cc_size = cd_size ev, cc_bucket = [], cc_object_key = [],
                                    cc_user = [], cc_file = []\<rparr>
      | PFileDeleted ev \<Rightarrow> Some \<lparr>cc_hash = [], cc_size = 0, cc_bucket = [], cc_object_key = [],
                                   cc_user = fd_user ev, cc_file = fd_file ev\<rparr>
      | PNodeHealth ev \<Rightarrow> Some \<lparr>cc_hash = [], cc_size = 0, cc_bucket = [], cc_object_key = [], cc_user = [], cc_file = []\<rparr>
      | PRaw _ \<Rightarrow> None)"

definition decode_health :: "payload \<Rightarrow> node_health_event option" where
  "decode_health p =
     (case p of
        PNodeHealth ev \<Rightarrow> Some ev
      | PRaw _ \<Rightarrow> None
      | _ \<Rightarrow> Some \<lparr>nh_node = [], nh_name = [], nh_old = [], nh_new = [], nh_endpoint = [], nh_latency = 0\<rparr>)"

section \<open>The manager\<close>

record manager =
  mg_store :: minio_store
  mg_factor :: int

definition set_placement :: "env \<Rightarrow> string \<Rightarrow> string list \<Rightarrow> world \<Rightarrow> unit result \<times> world" where
  "set_placement e hash nodes =
     ext e (\<lambda>v. (Inr (), v\<lparr>chunks := map (\<lambda>c. if c_hash c = hash then c\<lparr>c_nodes := nodes\<rparr> else c) (chunks v)\<rparr>))"

text \<open>
  \<^verbatim>\<open>HandleChunkCreated\<close>.  \<open>arrive\<close> is the order in which the workers append the nodes' ids.  A hash of
  fewer than twelve bytes panics in the log line.
\<close>

definition HandleChunkCreated ::
  "env \<Rightarrow> manager \<Rightarrow> ring \<Rightarrow> (string list \<Rightarrow> string list) \<Rightarrow> message \<Rightarrow> world \<Rightarrow> unit result \<times> world" where
  "HandleChunkCreated e m r arrive msg w =
     (case m_value msg of
        KRaw _ \<Rightarrow> (Inr (), w)
      | KJson envl \<Rightarrow>
          (case decode_created (ev_payload envl) of
             None \<Rightarrow> (Inr (), w)
           | Some ev \<Rightarrow>
               if length (cc_hash ev) < 12 then (Inl go_panic, w)
               else
                 (let targets = GetNodes r (cc_hash ev) (mg_factor m) in
                  if targets = [] then (Inl ''no healthy nodes for replication'', w)
                  else
                    (case ChunkExists e (mg_store m) (cc_hash ev) w of
                       (Inr True, w1) \<Rightarrow>
                         (let placed = arrive (map rn_id targets) in
                          if placed = [] then (Inr (), w1)
                          else
                            (case set_placement e (cc_hash ev) placed w1 of
                               (Inl err, w2) \<Rightarrow> (Inl (wrapf ''update placement'' err), w2)
                             | (Inr _, w2) \<Rightarrow> (Inr (), w2)))
                     | (_, w1) \<Rightarrow> (Inl (wrapf ''primary chunk missing'' (take 12 (cc_hash ev))), w1)))))"

definition drop_placement :: "env \<Rightarrow> string \<Rightarrow> string \<Rightarrow> world \<Rightarrow> unit result \<times> world" where
  "drop_placement e node hash =
     ext e (\<lambda>v. (Inr (), v\<lparr>chunks := map (\<lambda>c. if c_hash c = hash then c\<lparr>c_nodes := removeAll node (c_nodes c)\<rparr> else c) (chunks v)\<rparr>))"

fun replicate_loop :: "env \<Rightarrow> string \<Rightarrow> string \<Rightarrow> (string \<times> int) list \<Rightarrow> world \<Rightarrow> world" where
  "replicate_loop e node trace [] w = w"
| "replicate_loop e node trace ((hash, sz) # cs) w =
     replicate_loop e node trace cs
       (snd (Publish e TopicChunksCreated hash trace
          (PChunkCreated \<lparr>cc_hash = hash, cc_size = sz, cc_bucket = ''chunks'', cc_object_key = [], cc_user = [], cc_file = []\<rparr>)
          (snd (drop_placement e node hash w))))"

definition chunks_on :: "string \<Rightarrow> chunk_row list \<Rightarrow> (string \<times> int) list" where
  "chunks_on node cs =
     map (\<lambda>c. (c_hash c, c_size c)) (filter (\<lambda>c. node \<in> set (c_nodes c) \<and> c_status c = ChunkStatusActive) cs)"

definition HandleNodeHealthChanged :: "env \<Rightarrow> message \<Rightarrow> ring \<times> world \<Rightarrow> unit result \<times> ring \<times> world" where
  "HandleNodeHealthChanged e msg = (\<lambda>(r, w).
     (case m_value msg of
        KRaw _ \<Rightarrow> (Inr (), r, w)
      | KJson envl \<Rightarrow>
          (case decode_health (ev_payload envl) of
             None \<Rightarrow> (Inr (), r, w)
           | Some ev \<Rightarrow>
               (let r1 = UpdateNodeStatus (nh_node ev) (nh_new ev) r in
                if nh_new ev \<noteq> NodeStatusOffline then (Inr (), r1, w)
                else
                  (case query e (\<lambda>v. rows e (calls v) (chunks_on (nh_node ev) (chunks v))) w of
                     (Inl err, w1) \<Rightarrow> (Inl (wrapf ''query chunks on failed node'' err), r1, w1)
                   | (Inr cs, w1) \<Rightarrow> (Inr (), r1, replicate_loop e (nh_node ev) (ev_trace envl) cs w1))))))"

definition node_of_row :: "node_row \<Rightarrow> ring_node" where
  "node_of_row n =
     \<lparr>rn_id = n_id n, rn_name = n_name n, rn_endpoint = n_endpoint n, rn_weight = n_weight n, rn_status = n_status n\<rparr>"

definition LoadNodesFromDB :: "env \<Rightarrow> world \<Rightarrow> ring_node list result \<times> world" where
  "LoadNodesFromDB e w =
     with_err ''query storage nodes''
       (query e (\<lambda>v. rows e (calls v) (map node_of_row (sort_key n_name (storage_nodes v)))) w)"

section \<open>The monitor\<close>

text \<open>
  A probe: the client of the node's endpoint (\<open>connect\<close>, which fails for an endpoint the library
  rejects), the bucket, a small object written and opened again, and the clean-up, whose result does
  not matter.  The objects are those of the node's own server, which is not the store of the chunks.
\<close>

abbreviation "remote e \<equiv> ext e (\<lambda>v. (Inr () :: unit result, v))"

definition probe_write :: "env \<Rightarrow> world \<Rightarrow> string \<times> world" where
  "probe_write e w =
     (case remote e w of
        (Inl _, w1) \<Rightarrow> (NodeStatusDegraded, w1)
      | (Inr _, w1) \<Rightarrow>
          (case remote e w1 of
             (r, w2) \<Rightarrow> ((if is_ok r then NodeStatusHealthy else NodeStatusDegraded), snd (remote e w2))))"

definition probe :: "env \<Rightarrow> (string \<Rightarrow> go_error option) \<Rightarrow> node_row \<Rightarrow> world \<Rightarrow> string \<times> world" where
  "probe e connect node w =
     (if connect (n_endpoint node) \<noteq> None then (NodeStatusOffline, w)
      else
        (case remote e w of
           (Inl _, w1) \<Rightarrow> (NodeStatusOffline, w1)
         | (Inr _, w1) \<Rightarrow> probe_write e w1))"

definition update_node :: "env \<Rightarrow> string \<Rightarrow> string \<Rightarrow> world \<Rightarrow> unit result \<times> world" where
  "update_node e node status =
     ext e (\<lambda>v. (Inr (), v\<lparr>storage_nodes := map (\<lambda>n. if n_id n = node
        then n\<lparr>n_status := status, n_heartbeat := now_at e (calls v)\<rparr> else n) (storage_nodes v)\<rparr>))"

definition checkNode :: "env \<Rightarrow> (string \<Rightarrow> go_error option) \<Rightarrow> node_row \<Rightarrow> world \<Rightarrow> world" where
  "checkNode e connect node w =
     (case probe e connect node w of
        (newStatus, w1) \<Rightarrow>
          (let latency = go_div (now_at e (calls w1) - now_at e (calls w)) 1000;
               w2 = snd (update_node e (n_id node) newStatus w1)
           in
           if newStatus \<noteq> n_status node then
             snd (Publish e TopicNodesHealth (n_id node) []
                    (PNodeHealth \<lparr>nh_node = n_id node, nh_name = n_name node, nh_old = n_status node, nh_new = newStatus,
                                   nh_endpoint = n_endpoint node, nh_latency = latency\<rparr>) w2)
           else w2))"

definition checkAllNodes :: "env \<Rightarrow> (string \<Rightarrow> go_error option) \<Rightarrow> world \<Rightarrow> world" where
  "checkAllNodes e connect w =
     (case query e (\<lambda>v. rows e (calls v) (storage_nodes v)) w of
        (Inl _, w1) \<Rightarrow> w1
      | (Inr nodes, w1) \<Rightarrow> fold (checkNode e connect) nodes w1)"

text \<open>\<^verbatim>\<open>Run\<close>: once at the start, then at every tick.\<close>

fun monitor_ticks :: "env \<Rightarrow> (string \<Rightarrow> go_error option) \<Rightarrow> nat \<Rightarrow> world \<Rightarrow> world" where
  "monitor_ticks e connect 0 w = w"
| "monitor_ticks e connect (Suc n) w =
     (if ctx_done e (calls w) then w else monitor_ticks e connect n (checkAllNodes e connect w))"

definition monitor_Run :: "env \<Rightarrow> (string \<Rightarrow> go_error option) \<Rightarrow> nat \<Rightarrow> world \<Rightarrow> world" where
  "monitor_Run e connect n w = monitor_ticks e connect n (checkAllNodes e connect w)"

section \<open>Placement\<close>

lemma set_placement_chunks:
  "set_placement e h ns w = (Inr (), w') \<Longrightarrow>
   chunks w' = map (\<lambda>c. if c_hash c = h then c\<lparr>c_nodes := ns\<rparr> else c) (chunks w)"
  by (auto simp: set_placement_def dest!: ext_InrD)

lemma ChunkExists_True:
  assumes "ChunkExists e s h w = (Inr True, w')" shows "stored s w h \<noteq> None \<and> chunks w' = chunks w"
proof -
  have "chunks (snd (ChunkExists e s h w)) = chunks w"
    by (cases "outcome_at e (calls w)") (simp_all add: ChunkExists_def ext_def Let_def)
  then show ?thesis using minio.exists_ok [OF assms] assms by simp
qed

text \<open>The run of a successful handling.\<close>

lemma HandleChunkCreated_cases:
  assumes "HandleChunkCreated e m r arrive msg w = (Inr (), w')"
    and "m_value msg = KJson envl" "decode_created (ev_payload envl) = Some ev"
  obtains w1 where "GetNodes r (cc_hash ev) (mg_factor m) \<noteq> []"
    "ChunkExists e (mg_store m) (cc_hash ev) w = (Inr True, w1)"
    "arrive (map rn_id (GetNodes r (cc_hash ev) (mg_factor m))) = [] \<or>
     set_placement e (cc_hash ev) (arrive (map rn_id (GetNodes r (cc_hash ev) (mg_factor m)))) w1 = (Inr (), w')"
proof -
  let ?targets = "GetNodes r (cc_hash ev) (mg_factor m)"
  obtain x w1 where x: "ChunkExists e (mg_store m) (cc_hash ev) w = (x, w1)" by force
  obtain y w2 where y: "set_placement e (cc_hash ev) (arrive (map rn_id ?targets)) w1 = (y, w2)" by force
  show ?thesis
    using assms(1) by (rule_tac that [of w1]; cases x; cases y)
      (auto simp: HandleChunkCreated_def assms(2,3) Let_def x y split: if_splits bool.splits)
qed


definition demo_manager :: manager where
  "demo_manager = \<lparr>mg_store = \<lparr>st_bucket = ''chunks''\<rparr>, mg_factor = 3\<rparr>"

definition demo_event :: message where
  "demo_event = \<lparr>m_topic = TopicChunksCreated, m_key = ''0123456789ab'',
     m_value = KJson (NewEnvelope 0 TopicChunksCreated [] (PChunkCreated \<lparr>cc_hash = ''0123456789ab'', cc_size = 1,
       cc_bucket = ''chunks'', cc_object_key = [], cc_user = [], cc_file = []\<rparr>)), m_headers = []\<rparr>"

definition demo_cluster :: world where
  "demo_cluster = empty_world\<lparr>chunks := [new_chunk quiet_env ''0123456789ab'' 1 0],
     objects := [(''chunks'', chunkKey ''0123456789ab'') \<mapsto> [7]]\<rparr>"


section \<open>The loss of a node\<close>

definition announcement :: "env \<Rightarrow> string \<Rightarrow> string \<times> int \<Rightarrow> message \<Rightarrow> bool" where
  "announcement e trace c msg \<longleftrightarrow>
     m_topic msg = TopicChunksCreated \<and> m_key msg = fst c \<and>
     (\<exists>envl. m_value msg = KJson envl \<and> ev_trace envl = trace \<and>
        ev_payload envl = PChunkCreated \<lparr>cc_hash = fst c, cc_size = snd c, cc_bucket = ''chunks'', cc_object_key = [],
          cc_user = [], cc_file = []\<rparr>)"

lemma replicate_loop_effect:
  assumes "fault_free e"
  shows "chunks (replicate_loop e node trace cs w) =
      map (\<lambda>c. if c_hash c \<in> fst ` set cs then c\<lparr>c_nodes := removeAll node (c_nodes c)\<rparr> else c) (chunks w) \<and>
    (\<exists>msgs. topics (replicate_loop e node trace cs w) = topics w @ msgs \<and> list_all2 (announcement e trace) cs msgs)"
proof (induction cs arbitrary: w)
  case (Cons c cs)
  obtain h n where c: "c = (h, n)" by force
  let ?w1 = "snd (drop_placement e node h w)"
  let ?p = "PChunkCreated \<lparr>cc_hash = h, cc_size = n, cc_bucket = ''chunks'', cc_object_key = [], cc_user = [], cc_file = []\<rparr>"
  let ?w2 = "snd (Publish e TopicChunksCreated h trace ?p ?w1)"
  have w1: "chunks ?w1 = map (\<lambda>c. if c_hash c = h then c\<lparr>c_nodes := removeAll node (c_nodes c)\<rparr> else c) (chunks w)"
    "topics ?w1 = topics w"
    by (simp_all add: drop_placement_def ext_fault_free [OF assms])
  have "chunks ?w2 = chunks ?w1"
    using durable_eqD(3) [of ?w2 ?w1] by simp
  moreover obtain msg where msg: "topics ?w2 = topics ?w1 @ [msg]" "announcement e trace c msg"
    using assms c by (simp add: Publish_def producer_topics_def ext_fault_free Let_def announcement_def NewEnvelope_def)
  moreover obtain msgs where msgs: "topics (replicate_loop e node trace cs ?w2) = topics ?w2 @ msgs"
    "list_all2 (announcement e trace) cs msgs" using Cons.IH [of ?w2] by blast
  moreover have "\<exists>ms. topics (replicate_loop e node trace (c # cs) w) = topics w @ ms \<and> list_all2 (announcement e trace) (c # cs) ms"
    by (rule exI [of _ "msg # msgs"]) (use msg msgs w1(2) c in simp)
  ultimately show ?case
    using Cons.IH [of ?w2] w1(1) c by simp
qed simp

text \<open>
  C16: when a node is reported offline and no statement fails, no active chunk lists the node any
  more, each chunk that did is announced again, in order and under the trace of the report, and the
  ring gives the node for no key from then on.
\<close>

theorem node_loss:
  assumes "fault_free e" "ring_ok r" "m_value msg = KJson envl" "ev_payload envl = PNodeHealth ev"
    and "nh_new ev = NodeStatusOffline"
    and "HandleNodeHealthChanged e msg (r, w) = (res, r', w')"
  shows "res = Inr () \<and>
    (\<forall>c \<in> set (chunks w'). c_status c = ChunkStatusActive \<longrightarrow> nh_node ev \<notin> set (c_nodes c)) \<and>
    (\<exists>msgs. topics w' = topics w @ msgs \<and>
       list_all2 (announcement e (ev_trace envl)) (chunks_on (nh_node ev) (chunks w)) msgs) \<and>
    (\<forall>key cnt. nh_node ev \<notin> rn_id ` set (GetNodes r' key cnt))"
proof -
  let ?cs = "chunks_on (nh_node ev) (chunks w)" and ?v = "w\<lparr>calls := Suc (calls w)\<rparr>"
  have run: "res = Inr ()" "r' = UpdateNodeStatus (nh_node ev) (nh_new ev) r"
    "w' = replicate_loop e (nh_node ev) (ev_trace envl) ?cs ?v"
    using assms(6) by (simp_all add: HandleNodeHealthChanged_def assms(3-5) decode_health_def Let_def assms(1))
  note eff = replicate_loop_effect [OF assms(1), of "nh_node ev" "ev_trace envl" ?cs ?v, folded run(3)]
  have "nh_node ev \<notin> set (c_nodes c)" if c: "c \<in> set (chunks w')" "c_status c = ChunkStatusActive" for c
  proof -
    have "c \<in> (\<lambda>d. if c_hash d \<in> fst ` set ?cs then d\<lparr>c_nodes := removeAll (nh_node ev) (c_nodes d)\<rparr> else d) ` set (chunks w)"
      using c(1) conjunct1 [OF eff] by simp
    then obtain d where d: "d \<in> set (chunks w)"
      "c = (if c_hash d \<in> fst ` set ?cs then d\<lparr>c_nodes := removeAll (nh_node ev) (c_nodes d)\<rparr> else d)"
      by (rule imageE)
    show ?thesis
    proof (cases "c_hash d \<in> fst ` set ?cs")
      case False
      then show ?thesis using d c(2) by (force simp: chunks_on_def)
    qed (use d in simp)
  qed
  moreover have "nh_node ev \<notin> rn_id ` set (GetNodes r' key cnt)" for key cnt
  proof -
    have "sorted (map vn_hash (r_vnodes r'))"
      using UpdateNodeStatus_ok [OF assms(2)] run(2) by (simp add: ring_ok_def)
    then have "set (GetNodes r' key cnt) \<subseteq> set (ring_order r' key)" by (simp add: GetNodes_order set_take_subset)
    also have "\<dots> = set (filter (\<lambda>n. rn_id n \<noteq> nh_node ev) (ring_order r key))"
      unfolding run(2) using assms(5) by (subst UpdateNodeStatus_order [OF assms(2)]) simp_all
    finally show ?thesis by auto
  qed
  moreover have "\<exists>msgs. topics w' = topics w @ msgs \<and> list_all2 (announcement e (ev_trace envl)) ?cs msgs"
    using conjunct2 [OF eff] by simp
  ultimately show ?thesis using run(1) by blast
qed

definition demo_report :: node_health_event where
  "demo_report = \<lparr>nh_node = ''a'', nh_name = ''a'', nh_old = NodeStatusHealthy, nh_new = NodeStatusOffline,
     nh_endpoint = [], nh_latency = 0\<rparr>"

lemma node_loss_witness:
  "\<exists>r' w'. HandleNodeHealthChanged quiet_env (demo_event\<lparr>m_value := KJson (NewEnvelope 0 TopicNodesHealth ''t'' (PNodeHealth demo_report))\<rparr>)
       (demo_ring, demo_cluster\<lparr>chunks := [(new_chunk quiet_env ''h'' 1 0)\<lparr>c_nodes := [''b'', ''a'']\<rparr>]\<rparr>) = (Inr (), r', w') \<and>
     filter (\<lambda>c. c_status c = ChunkStatusActive \<and> ''a'' \<in> set (c_nodes c)) (chunks w') = [] \<and> length (topics w') = 1"
proof -
  let ?msg = "demo_event\<lparr>m_value := KJson (NewEnvelope 0 TopicNodesHealth ''t'' (PNodeHealth demo_report))\<rparr>"
  let ?w = "demo_cluster\<lparr>chunks := [(new_chunk quiet_env ''h'' 1 0)\<lparr>c_nodes := [''b'', ''a'']\<rparr>]\<rparr>"
  obtain res r' w' where run: "HandleNodeHealthChanged quiet_env ?msg (demo_ring, ?w) = (res, r', w')"
    by (cases "HandleNodeHealthChanged quiet_env ?msg (demo_ring, ?w)") auto
  have "chunks_on ''a'' (chunks ?w) = [(''h'', 1)]" "topics ?w = []"
    by (simp_all add: chunks_on_def new_chunk_def demo_cluster_def empty_world_def)
  moreover have m: "m_value ?msg = KJson (NewEnvelope 0 TopicNodesHealth ''t'' (PNodeHealth demo_report))"
    "ev_payload (NewEnvelope 0 TopicNodesHealth ''t'' (PNodeHealth demo_report)) = PNodeHealth demo_report"
    "nh_new demo_report = NodeStatusOffline" "nh_node demo_report = ''a''"
    by (simp_all add: NewEnvelope_def demo_report_def)
  ultimately show ?thesis
    using node_loss [OF fault_free_quiet demo_ring_ok m(1,2,3) run] run by (auto simp: filter_empty_conv dest: list_all2_lengthD)
qed

section \<open>The verdict of a probe\<close>

lemma remote_eq:
  "remote e w = ((case outcome_at e (calls w) of Done \<Rightarrow> Inr () | Refused m \<Rightarrow> Inl m | Lost m \<Rightarrow> Inl m),
     w\<lparr>calls := Suc (calls w)\<rparr>)"
  by (simp add: ext_def split: outcome.splits)

text \<open>
  A probe calls a node healthy exactly when its endpoint is usable and the bucket, the write
  and the open succeed; offline when the endpoint or the bucket cannot be reached; degraded when only
  the write or the open fails.
\<close>

lemma probe_status:
  "fst (probe e connect node w) =
     (if connect (n_endpoint node) = None \<and> outcome_at e (calls w) = Done
      then if outcome_at e (Suc (calls w)) = Done \<and> outcome_at e (Suc (Suc (calls w))) = Done
        then NodeStatusHealthy else NodeStatusDegraded
      else NodeStatusOffline)"
  by (simp add: probe_def probe_write_def remote_eq split: outcome.splits)

lemma probe_frame:
  assumes "probe e connect node w = (st, w1)"
  shows "storage_nodes w1 = storage_nodes w \<and> topics w1 = topics w"
  using assms by (auto simp: probe_def probe_write_def remote_eq split: outcome.splits if_splits)

text \<open>
  After a check whose database statement and event go through, the node's row has the status
  the probe gave and no other row has changed, and an event is published exactly when the status
  differs from the one the row had; handling that event gives the ring the same status.
\<close>

theorem checkNode_reports:
  assumes "probe e connect node w = (st, w1)" "outcome_at e (calls w1) = Done" "outcome_at e (Suc (calls w1)) = Done"
  shows "storage_nodes (checkNode e connect node w) =
      map (\<lambda>n. if n_id n = n_id node then n\<lparr>n_status := st, n_heartbeat := now_at e (Suc (calls w1))\<rparr> else n) (storage_nodes w) \<and>
    (if st = n_status node then topics (checkNode e connect node w) = topics w
     else \<exists>msg. topics (checkNode e connect node w) = topics w @ [msg] \<and> m_topic msg = TopicNodesHealth \<and>
       (\<forall>e' r v. fst (snd (HandleNodeHealthChanged e' msg (r, v))) = UpdateNodeStatus (n_id node) st r))"
proof -
  note fr = probe_frame [OF assms(1)]
  have ring: "fst (snd (HandleNodeHealthChanged e' \<lparr>m_topic = t, m_key = k, m_value = KJson (NewEnvelope now t [] (PNodeHealth ev)),
      m_headers = hs\<rparr> (r, v))) = UpdateNodeStatus (nh_node ev) (nh_new ev) r" for e' t k now ev hs r v
    by (auto simp: HandleNodeHealthChanged_def NewEnvelope_def decode_health_def Let_def split: prod.splits sum.splits)
  show ?thesis
    using assms(2,3) fr
    by (simp add: checkNode_def assms(1) update_node_def Publish_def ext_def Let_def producer_topics_def ring)
qed

definition demo_row :: node_row where
  "demo_row = \<lparr>n_id = ''a'', n_name = ''a'', n_endpoint = ''minio:9000'', n_weight = 100, n_status = NodeStatusOffline,
     n_heartbeat = 0\<rparr>"

lemma checkNode_reports_witness:
  "map n_status (storage_nodes (checkNode quiet_env (\<lambda>_. None) demo_row (empty_world\<lparr>storage_nodes := [demo_row]\<rparr>))) =
     [NodeStatusHealthy] \<and>
   length (topics (checkNode quiet_env (\<lambda>_. None) demo_row (empty_world\<lparr>storage_nodes := [demo_row]\<rparr>))) = 1"
proof -
  let ?w = "empty_world\<lparr>storage_nodes := [demo_row]\<rparr>"
  obtain st w1 where p: "probe quiet_env (\<lambda>_. None) demo_row ?w = (st, w1)" by force
  have "st = NodeStatusHealthy" using probe_status [of quiet_env "\<lambda>_. None" demo_row ?w] p by simp
  then show ?thesis
    using checkNode_reports [OF p] by (auto simp: demo_row_def empty_world_def)
qed

end
