(* ===== verification/Chunking.thy ===== *)
theory Chunking
  imports Fingerprint GoText
begin

text \<open>
  Content-defined chunking: \<^verbatim>\<open>internal/chunking/cdc.go\<close>, the reassembly of
  \<^verbatim>\<open>internal/chunking/assembler.go\<close>, and the insertion sort \<^verbatim>\<open>sortChunks\<close> of
  \<^verbatim>\<open>internal/chunking/server.go\<close>.  The Rabin splitter itself is the package
  \<^verbatim>\<open>github.com/restic/chunker\<close>: what its \<^verbatim>\<open>Next\<close> returns is an argument of the model, and \<open>cdc_ok\<close>
  states what that package documents (consecutive non-empty pieces of the input, at most
  \<^verbatim>\<open>MaxSize\<close> bytes each and all but the last at least \<^verbatim>\<open>MinSize\<close>).
\<close>

section \<open>Configuration\<close>

record CDCConfig =
  MinSize :: int
  AvgSize :: int
  MaxSize :: int

definition DefaultConfig :: CDCConfig where
  "DefaultConfig = \<lparr>MinSize = 256 * 1024, AvgSize = 1 * 1024 * 1024, MaxSize = 4 * 1024 * 1024\<rparr>"

record Chunker =
  ch_config :: CDCConfig
  ch_pol :: int

text \<open>
  \<^verbatim>\<open>NewChunker\<close>: \<open>rp\<close> is what \<^verbatim>\<open>chunker.RandomPolynomial\<close> returns and \<open>seed_err\<close> the error of
  \<^verbatim>\<open>rand.Read\<close> in the fallback.  Both results are returned: after the fallback the chunker comes
  together with the first error.
\<close>

definition NewChunker :: "go_error + int \<Rightarrow> go_error option \<Rightarrow> CDCConfig \<Rightarrow> Chunker option \<times> go_error option" where
  "NewChunker rp seed_err cfg =
     (case rp of
        Inr pol \<Rightarrow> (Some \<lparr>ch_config = cfg, ch_pol = pol\<rparr>, None)
      | Inl err \<Rightarrow>
          (case seed_err of
             Some readErr \<Rightarrow> (None, Some readErr)
           | None \<Rightarrow> (Some \<lparr>ch_config = cfg, ch_pol = 0x3DA3358B4DC173\<rparr>, Some err)))"

section \<open>Split\<close>

record ChunkResult =
  cr_data :: "byte list"
  cr_size :: int
  cr_index :: int
  cr_hash :: string

datatype next_res = NChunk "byte list" | NFail go_error

text \<open>
  The goroutine of \<^verbatim>\<open>Split\<close> as the sequence it sends: \<open>cb i\<close> says the context is done when round
  \<open>i\<close> begins, \<open>ca i\<close> that the second select takes the cancelled branch, \<open>cerr\<close> is
  \<^verbatim>\<open>ctx.Err()\<close>; the list holds what \<^verbatim>\<open>Next\<close> returns, its end is \<^verbatim>\<open>io.EOF\<close>.
\<close>

fun split_loop ::
  "(nat \<Rightarrow> bool) \<Rightarrow> (nat \<Rightarrow> bool) \<Rightarrow> go_error \<Rightarrow> nat \<Rightarrow> next_res list \<Rightarrow> (go_error + ChunkResult) list" where
  "split_loop cb ca cerr index [] = (if cb index then [Inl cerr] else [])"
| "split_loop cb ca cerr index (NFail err # ns) = (if cb index then [Inl cerr] else [Inl err])"
| "split_loop cb ca cerr index (NChunk d # ns) =
     (if cb index then [Inl cerr]
      else if ca index then [Inl cerr]
      else Inr \<lparr>cr_data = d, cr_size = int (length d), cr_index = int index, cr_hash = SHA256Hash d\<rparr>
           # split_loop cb ca cerr (Suc index) ns)"

definition Split ::
  "(nat \<Rightarrow> bool) \<Rightarrow> (nat \<Rightarrow> bool) \<Rightarrow> go_error \<Rightarrow> next_res list \<Rightarrow> (go_error + ChunkResult) list" where
  "Split cb ca cerr ns = split_loop cb ca cerr 0 ns"

text \<open>What the splitter promises about one input.\<close>

definition cdc_ok :: "CDCConfig \<Rightarrow> (byte list \<Rightarrow> byte list list) \<Rightarrow> bool" where
  "cdc_ok cfg pieces \<longleftrightarrow>
     (\<forall>d. concat (pieces d) = d \<and>
          (\<forall>c \<in> set (pieces d). c \<noteq> [] \<and> int (length c) \<le> MaxSize cfg) \<and>
          (\<forall>c \<in> set (butlast (pieces d)). MinSize cfg \<le> int (length c)))"

lemma cdc_ok_concat: "cdc_ok cfg pieces \<Longrightarrow> concat (pieces d) = d"
  by (simp add: cdc_ok_def)

lemma cdc_ok_nonempty: "cdc_ok cfg pieces \<Longrightarrow> c \<in> set (pieces d) \<Longrightarrow> c \<noteq> []"
  by (auto simp: cdc_ok_def)

definition chunk_result :: "nat \<Rightarrow> byte list \<Rightarrow> ChunkResult" where
  "chunk_result i d =
     \<lparr>cr_data = d, cr_size = int (length d), cr_index = int i, cr_hash = SHA256Hash d\<rparr>"

fun number_chunks :: "nat \<Rightarrow> byte list list \<Rightarrow> ChunkResult list" where
  "number_chunks i [] = []"
| "number_chunks i (d # ds) = chunk_result i d # number_chunks (Suc i) ds"

lemma length_number_chunks [simp]: "length (number_chunks i ds) = length ds"
  by (induction ds arbitrary: i) auto

lemma nth_number_chunks: "k < length ds \<Longrightarrow> number_chunks i ds ! k = chunk_result (i + k) (ds ! k)"
proof (induction ds arbitrary: i k)
  case Nil
  then show ?case by simp
next
  case (Cons d ds)
  then show ?case by (cases k) auto
qed

lemma map_data_number_chunks [simp]: "map cr_data (number_chunks i ds) = ds"
  by (induction ds arbitrary: i) (auto simp: chunk_result_def)

text \<open>Without cancellation, \<^verbatim>\<open>Split\<close> sends one result per piece, numbered from 0.\<close>

lemma split_loop_ok:
  "split_loop (\<lambda>_. False) (\<lambda>_. False) cerr i (map NChunk ds) = map Inr (number_chunks i ds)"
  by (induction ds arbitrary: i) (auto simp: chunk_result_def)

text \<open>An error, if there is one, is the last thing sent, after a prefix of the pieces in order.\<close>

lemma split_loop_shape:
  "\<exists>k. \<exists>tail. split_loop cb ca cerr i ns = map Inr (number_chunks i (take k ds)) @ tail \<and>
     (tail = [] \<or> (\<exists>m. tail = [Inl m]))"
  if "ns = map NChunk ds @ rest" "rest = [] \<or> (\<exists>m. rest = [NFail m])"
  using that
proof (induction ds arbitrary: i ns)
  case Nil
  have "split_loop cb ca cerr i ns = [] \<or> (\<exists>m. split_loop cb ca cerr i ns = [Inl m])"
    using Nil by (cases "cb i") auto
  then show ?case by auto
next
  case (Cons d ds)
  let ?ns = "map NChunk ds @ rest"
  show ?case
  proof (cases "cb i \<or> ca i")
    case True
    with Cons.prems have "split_loop cb ca cerr i ns = [Inl cerr]" by auto
    then show ?thesis by (intro exI [of _ 0]) auto
  next
    case False
    obtain k tail where IH: "split_loop cb ca cerr (Suc i) ?ns = map Inr (number_chunks (Suc i) (take k ds)) @ tail"
      and t: "tail = [] \<or> (\<exists>m. tail = [Inl m])"
      using Cons.IH [of ?ns "Suc i"] Cons.prems(2) by blast
    have "split_loop cb ca cerr i ns = map Inr (number_chunks i (take (Suc k) (d # ds))) @ tail"
      using Cons.prems(1) False IH by (auto simp: chunk_result_def)
    with t show ?thesis by blast
  qed
qed

section \<open>Assemble\<close>

text \<open>
  \<^verbatim>\<open>Assemble\<close> copies the readers one after the other and closes every one of them exactly once.  The
  model returns the error (if any), what was written, and the indices closed, in order.  \<open>done i\<close>
  says the context is done before reader \<open>i\<close>; \<open>full i = Some (n, err)\<close> that the destination fails
  after \<open>n\<close> bytes of reader \<open>i\<close>.
\<close>

definition io_Copy :: "(nat \<times> go_error) option \<Rightarrow> reader \<Rightarrow> go_error option \<times> byte list" where
  "io_Copy full r =
     (case full of
        Some (n, err) \<Rightarrow>
          if n \<le> length (rd_content r) then (Some err, take n (rd_content r)) else (rd_err r, rd_content r)
      | None \<Rightarrow> (rd_err r, rd_content r))"

fun assemble_loop ::
  "(nat \<Rightarrow> bool) \<Rightarrow> (nat \<Rightarrow> (nat \<times> go_error) option) \<Rightarrow> go_error \<Rightarrow> nat \<Rightarrow> reader list \<Rightarrow>
   go_error option \<times> byte list \<times> nat list" where
  "assemble_loop done full cerr i [] = (None, [], [])"
| "assemble_loop done full cerr i (r # rs) =
     (if done i then (Some cerr, [], [i..<i + length (r # rs)])
      else
        (case io_Copy (full i) r of
           (Some err, out) \<Rightarrow>
             (Some (wrapf (''failed to read chunk '' @ itoa (int i)) err), out, i # [Suc i..<Suc i + length rs])
         | (None, out) \<Rightarrow>
             (case assemble_loop done full cerr (Suc i) rs of
                (e, rest, clsd) \<Rightarrow> (e, out @ rest, i # clsd))))"

definition Assemble ::
  "(nat \<Rightarrow> bool) \<Rightarrow> (nat \<Rightarrow> (nat \<times> go_error) option) \<Rightarrow> go_error \<Rightarrow> reader list \<Rightarrow>
   go_error option \<times> byte list \<times> nat list" where
  "Assemble done full cerr rs = assemble_loop done full cerr 0 rs"

lemma assemble_loop_closes: "snd (snd (assemble_loop done full cerr i rs)) = [i..<i + length rs]"
proof (induction rs arbitrary: i)
  case Nil
  then show ?case by simp
next
  case (Cons r rs)
  have "[i..<i + length (r # rs)] = i # [Suc i..<Suc i + length rs]"
    by (simp add: upt_conv_Cons del: upt_Suc)
  then show ?case
    using Cons.IH [of "Suc i"] by (auto split: option.splits prod.splits simp del: upt_Suc)
qed

lemma io_Copy_prefix:
  "io_Copy full r = (err, out) \<Longrightarrow> \<exists>s. rd_content r = out @ s \<and> (err = None \<longrightarrow> s = [])"
  by (auto simp: io_Copy_def split: option.splits if_splits prod.splits)
     (metis append_take_drop_id)

text \<open>What is written is a prefix of the readers' contents, all of it when there is no error.\<close>

lemma assemble_loop_prefix:
  "assemble_loop done full cerr i rs = (err, out, clsd) \<Longrightarrow>
   \<exists>s. concat (map rd_content rs) = out @ s \<and> (err = None \<longrightarrow> s = [])"
proof (induction rs arbitrary: i err out clsd)
  case Nil
  then show ?case by simp
next
  case (Cons r rs)
  obtain cerr' o1 where c: "io_Copy (full i) r = (cerr', o1)" by force
  obtain s1 where s1: "rd_content r = o1 @ s1" "cerr' = None \<longrightarrow> s1 = []"
    using io_Copy_prefix [OF c] by blast
  obtain e2 o2 c2 where r: "assemble_loop done full cerr (Suc i) rs = (e2, o2, c2)"
    by (cases "assemble_loop done full cerr (Suc i) rs") auto
  obtain s2 where s2: "concat (map rd_content rs) = o2 @ s2" "e2 = None \<longrightarrow> s2 = []"
    using Cons.IH [OF r] by blast
  show ?case
    using Cons.prems c r s1 s2 by (cases "done i"; cases cerr') auto
qed

lemma assemble_loop_ok:
  "(\<And>r. r \<in> set rs \<Longrightarrow> rd_err r = None) \<Longrightarrow>
   fst (assemble_loop (\<lambda>_. False) (\<lambda>_. None) cerr i rs) = None"
proof (induction rs arbitrary: i)
  case (Cons r rs)
  have "rd_err r = None" using Cons.prems by simp
  moreover have "fst (assemble_loop (\<lambda>_. False) (\<lambda>_. None) cerr (Suc i) rs) = None"
    by (rule Cons.IH) (simp add: Cons.prems)
  ultimately show ?case by (simp add: case_prod_beta io_Copy_def)
qed simp

section \<open>sortChunks\<close>

record ChunkInfo =
  ci_hash :: string
  ci_size :: int
  ci_index :: int
  ci_dup :: bool

definition swap_nth :: "'a list \<Rightarrow> nat \<Rightarrow> nat \<Rightarrow> 'a list" where
  "swap_nth xs i j = xs[i := xs ! j, j := xs ! i]"

text \<open>The inner loop: move entry \<open>j\<close> left while it is smaller than its neighbour.\<close>

fun sift :: "ChunkInfo list \<Rightarrow> nat \<Rightarrow> ChunkInfo list" where
  "sift cs 0 = cs"
| "sift cs (Suc j) =
     (if ci_index (cs ! Suc j) < ci_index (cs ! j) then sift (swap_nth cs (Suc j) j) j else cs)"

definition sortChunks :: "ChunkInfo list \<Rightarrow> ChunkInfo list" where
  "sortChunks cs = fold (\<lambda>i xs. sift xs i) [1..<length cs] cs"

lemma sift_prefix:
  "sift (pre @ x # post) (length pre) =
   (case rev pre of
      [] \<Rightarrow> x # post
    | y # ypre \<Rightarrow>
        if ci_index x < ci_index y then sift (rev ypre @ x # y # post) (length ypre)
        else pre @ x # post)"
proof (cases pre rule: rev_cases)
  case Nil
  then show ?thesis by simp
next
  case (snoc ys y)
  have "swap_nth ((ys @ [y]) @ x # post) (Suc (length ys)) (length ys) = ys @ x # y # post"
    by (simp add: swap_nth_def nth_append list_update_append)
  then show ?thesis by (simp add: snoc nth_append)
qed

definition sift_spec :: "ChunkInfo list \<Rightarrow> ChunkInfo \<Rightarrow> ChunkInfo list" where
  "sift_spec pre x =
     filter (\<lambda>y. ci_index y \<le> ci_index x) pre @ x # filter (\<lambda>y. ci_index x < ci_index y) pre"

lemma sift_sorted:
  "sorted (map ci_index pre) \<Longrightarrow> sift (pre @ x # post) (length pre) = sift_spec pre x @ post"
proof (induction pre arbitrary: post rule: rev_induct)
  case Nil
  then show ?case by (simp add: sift_spec_def)
next
  case (snoc y pre)
  then have le: "\<And>z. z \<in> set pre \<Longrightarrow> ci_index z \<le> ci_index y" and s: "sorted (map ci_index pre)"
    by (auto simp: sorted_append)
  show ?case
  proof (cases "ci_index x < ci_index y")
    case True
    have "sift ((pre @ [y]) @ x # post) (length (pre @ [y])) = sift (pre @ x # y # post) (length pre)"
      using True by (subst sift_prefix) simp
    also have "\<dots> = sift_spec pre x @ y # post"
      by (rule snoc.IH [OF s])
    finally show ?thesis using True by (simp add: sift_spec_def)
  next
    case False
    have "sift ((pre @ [y]) @ x # post) (length (pre @ [y])) = (pre @ [y]) @ x # post"
      using False by (subst sift_prefix) simp
    moreover have "filter (\<lambda>z. ci_index z \<le> ci_index x) (pre @ [y]) = pre @ [y]"
      using False le by (intro map_filter_id) force
    moreover have "filter (\<lambda>z. ci_index x < ci_index z) (pre @ [y]) = []"
      using False le by (force simp: filter_empty_conv)
    ultimately show ?thesis by (simp add: sift_spec_def)
  qed
qed

lemma sift_spec_sorted: "sorted (map ci_index pre) \<Longrightarrow> sorted (map ci_index (sift_spec pre x))"
  by (auto simp: sift_spec_def sorted_append sorted_wrt_map sorted_wrt_filter)

lemma sift_spec_mset: "mset (sift_spec pre x) = add_mset x (mset pre)"
  by (induction pre) (auto simp: sift_spec_def)

text \<open>After \<open>k\<close> rounds the first \<open>k\<close> entries are sorted and the rest is untouched.\<close>

lemma sort_rounds:
  "k \<le> length cs \<Longrightarrow>
   \<exists>pre. fold (\<lambda>i xs. sift xs i) [1..<k] cs = pre @ drop (max 1 k) cs \<and>
     mset pre = mset (take (max 1 k) cs) \<and> sorted (map ci_index pre)"
proof (induction k)
  case 0
  have "sorted (map ci_index (take 1 cs))" by (cases cs) auto
  then show ?case by (intro exI [of _ "take 1 cs"]) simp
next
  case (Suc k)
  show ?case
  proof (cases "k = 0")
    case True
    have "sorted (map ci_index (take 1 cs))" by (cases cs) auto
    with True show ?thesis by (intro exI [of _ "take 1 cs"]) simp
  next
    case False
    then obtain pre where pre: "fold (\<lambda>i xs. sift xs i) [1..<k] cs = pre @ drop k cs"
      "mset pre = mset (take k cs)" "sorted (map ci_index pre)"
      using Suc by (auto simp: max_def)
    have len: "length pre = k"
      using pre(2) Suc.prems by (metis length_take min.absorb2 size_mset Suc_leD)
    obtain x where x: "drop k cs = x # drop (Suc k) cs" "take (Suc k) cs = take k cs @ [x]"
      using Suc.prems by (metis Cons_nth_drop_Suc Suc_le_lessD take_Suc_conv_app_nth)
    have "fold (\<lambda>i xs. sift xs i) [1..<Suc k] cs = sift (pre @ drop k cs) k"
      using False pre(1) by simp
    also have "\<dots> = sift_spec pre x @ drop (Suc k) cs"
      using sift_sorted [OF pre(3), of x "drop (Suc k) cs"] len x by simp
    finally show ?thesis
      using pre x by (intro exI [of _ "sift_spec pre x"]) (simp add: sift_spec_sorted sift_spec_mset)
  qed
qed

lemma sortChunks_sorts:
  "sorted (map ci_index (sortChunks cs)) \<and> mset (sortChunks cs) = mset cs"
proof (cases cs)
  case Nil
  then show ?thesis by (simp add: sortChunks_def)
next
  case (Cons c cs')
  then show ?thesis
    using sort_rounds [of "length cs" cs] by (auto simp: sortChunks_def)
qed

text \<open>The arrival order of the workers does not show: distinct indices have one sorted order.\<close>

lemma sortChunks_unique:
  assumes "mset cs = mset ds" "sorted (map ci_index ds)" "distinct (map ci_index ds)"
  shows "sortChunks cs = ds"
proof -
  have "distinct (map ci_index (sortChunks cs))"
    using assms sortChunks_sorts [of cs] by (metis mset_eq_imp_distinct_iff mset_map)
  then show ?thesis
    using assms sortChunks_sorts [of cs] by (intro sorted_key_unique [of ci_index]) auto
qed

end
