(* ===== verification/ChunkServer.thy ===== *)
theory ChunkServer
  imports Chunking ObjectStore
begin

text \<open>
  The chunk service: \<^verbatim>\<open>internal/chunking/server.go\<close>.  An upload is a receive loop that feeds the
  splitter, a dispatch loop that hands each piece to a worker (four at most at a time), and the
  workers; which of them moves next is a schedule, so a theorem about all schedules is a theorem
  about all interleavings.  A download sends the objects of a manifest in frames.
\<close>

section \<open>Messages\<close>

record upload_metadata =
  um_file_name :: string
  um_user :: string
  um_mime :: string

datatype upload_msg = UMeta upload_metadata | UData "byte list" | UNone

record upload_response =
  ur_checksum :: string
  ur_total_size :: int
  ur_chunk_count :: int
  ur_new_chunks :: int
  ur_dedup_chunks :: int
  ur_chunks :: "ChunkInfo list"

text \<open>\<^verbatim>\<open>status.Errorf(code, ...)\<close> as the text of the resulting error.\<close>

definition rpc_status :: "string \<Rightarrow> string \<Rightarrow> go_error" where
  "rpc_status code msg = ''rpc error: code = '' @ code @ '' desc = '' @ msg"

section \<open>Receiving\<close>

text \<open>
  The receive goroutine: the bytes of the data messages go to the pipe and to the file hash, other
  messages are skipped; the sizes add up in an \<^verbatim>\<open>int64\<close>.
\<close>

fun recv_data :: "upload_msg list \<Rightarrow> byte list" where
  "recv_data [] = []"
| "recv_data (UData d # ms) = d @ recv_data ms"
| "recv_data (UMeta m # ms) = recv_data ms"
| "recv_data (UNone # ms) = recv_data ms"

fun recv_size :: "int \<Rightarrow> upload_msg list \<Rightarrow> int" where
  "recv_size n [] = n"
| "recv_size n (UData d # ms) = recv_size (i64 (n + int (length d))) ms"
| "recv_size n (UMeta m # ms) = recv_size n ms"
| "recv_size n (UNone # ms) = recv_size n ms"

lemma recv_size_eq:
  "0 \<le> n \<Longrightarrow> in_i64 (n + int (length (recv_data ms))) \<Longrightarrow> recv_size n ms = n + int (length (recv_data ms))"
proof (induction ms arbitrary: n rule: recv_data.induct)
  case (2 d ms)
  then have "in_i64 (n + int (length d))"
    by (intro in_i64_between [OF _ _ "2.prems"(2)]) auto
  then show ?case using 2 by (simp add: add.assoc)
qed auto

section \<open>Workers\<close>

text \<open>
  \<^verbatim>\<open>NewChunkServer\<close>: any error of \<^verbatim>\<open>NewChunker\<close>, the one that comes with the fallback chunker
  included, fails the start.
\<close>

record chunk_server =
  cs_store :: minio_store
  cs_chunker :: Chunker

definition NewChunkServer ::
  "go_error + int \<Rightarrow> go_error option \<Rightarrow> minio_store \<Rightarrow> CDCConfig \<Rightarrow> chunk_server result" where
  "NewChunkServer rp seed_err store cfg =
     (case NewChunker rp seed_err cfg of
        (_, Some err) \<Rightarrow> Inl (wrapf ''failed to create chunker'' err)
      | (Some c, None) \<Rightarrow> Inr \<lparr>cs_store = store, cs_chunker = c\<rparr>
      | (None, None) \<Rightarrow> Inl go_panic)"

text \<open>
  A worker and where it is: about to ask whether the object exists, about to put it, about to
  append its \<^verbatim>\<open>ChunkInfo\<close>, or finished (\<open>WDone False\<close> after a failed put).
\<close>

datatype phase = WExists | WPut | WAppend bool | WDone bool

record up_state =
  us_world :: world
  us_next :: "(go_error + ChunkResult) list"
  us_workers :: "(ChunkResult \<times> phase) list"
  us_chunks :: "ChunkInfo list"
  us_new :: int
  us_dedup :: int
  us_err :: "go_error option"

datatype sched = SLoop | SWorker nat

abbreviation "maxUploadWorkers \<equiv> (4::nat)"

definition running :: "up_state \<Rightarrow> nat" where
  "running st = length (filter (\<lambda>(r, ph). \<forall>b. ph \<noteq> WDone b) (us_workers st))"

definition chunk_info :: "ChunkResult \<Rightarrow> bool \<Rightarrow> ChunkInfo" where
  "chunk_info r dup =
     \<lparr>ci_hash = cr_hash r, ci_size = cr_size r, ci_index = i32 (cr_index r), ci_dup = dup\<rparr>"

text \<open>
  One step of a worker.  A failed existence check counts as a miss.  The first error stays.
\<close>

definition worker_step :: "env \<Rightarrow> minio_store \<Rightarrow> nat \<Rightarrow> up_state \<Rightarrow> up_state" where
  "worker_step e s i st =
     (case us_workers st ! i of
        (r, WExists) \<Rightarrow>
          (case ChunkExists e s (cr_hash r) (us_world st) of
             (Inr True, w) \<Rightarrow>
               st\<lparr>us_world := w, us_dedup := i32 (us_dedup st + 1),
                  us_workers := (us_workers st)[i := (r, WAppend True)]\<rparr>
           | (_, w) \<Rightarrow> st\<lparr>us_world := w, us_workers := (us_workers st)[i := (r, WPut)]\<rparr>)
      | (r, WPut) \<Rightarrow>
          (case PutChunk e s (cr_hash r) (cr_data r) (us_world st) of
             (Inl err, w) \<Rightarrow>
               st\<lparr>us_world := w,
                  us_err := (case us_err st of None \<Rightarrow> Some err | Some e0 \<Rightarrow> Some e0),
                  us_workers := (us_workers st)[i := (r, WDone False)]\<rparr>
           | (Inr _, w) \<Rightarrow>
               st\<lparr>us_world := w, us_new := i32 (us_new st + 1),
                  us_workers := (us_workers st)[i := (r, WAppend False)]\<rparr>)
      | (r, WAppend dup) \<Rightarrow>
          st\<lparr>us_chunks := us_chunks st @ [chunk_info r dup],
             us_workers := (us_workers st)[i := (r, WDone True)]\<rparr>
      | (r, WDone b) \<Rightarrow> st)"

text \<open>
  One step of the dispatch loop: an error result ends it, a piece waits for a free slot and then
  starts a worker.
\<close>

definition loop_step :: "up_state \<Rightarrow> up_state" where
  "loop_step st =
     (case us_next st of
        [] \<Rightarrow> st
      | Inl err # _ \<Rightarrow> st\<lparr>us_err := Some err, us_next := []\<rparr>
      | Inr r # rest \<Rightarrow>
          if running st < maxUploadWorkers
          then st\<lparr>us_next := rest, us_workers := us_workers st @ [(r, WExists)]\<rparr>
          else st)"

definition up_step :: "env \<Rightarrow> minio_store \<Rightarrow> sched \<Rightarrow> up_state \<Rightarrow> up_state" where
  "up_step e s a st =
     (case a of
        SLoop \<Rightarrow> loop_step st
      | SWorker i \<Rightarrow> if i < length (us_workers st) then worker_step e s i st else st)"

text \<open>
  \<^verbatim>\<open>wg.Wait()\<close>: after the given schedule the rest runs to completion, worker by worker.
\<close>

definition finish_all :: "nat \<Rightarrow> sched list" where
  "finish_all n = concat (map (\<lambda>i. replicate 3 (SWorker i)) [0..<n])"

definition drain :: "nat \<Rightarrow> sched list" where
  "drain n = concat (replicate n (finish_all n @ [SLoop])) @ finish_all n"

definition process_chunks ::
  "env \<Rightarrow> minio_store \<Rightarrow> sched list \<Rightarrow> (go_error + ChunkResult) list \<Rightarrow> world \<Rightarrow> up_state" where
  "process_chunks e s sch results w =
     fold (up_step e s) (sch @ drain (length results))
       \<lparr>us_world = w, us_next = results, us_workers = [], us_chunks = [], us_new = 0,
        us_dedup = 0, us_err = None\<rparr>"

section \<open>UploadFile\<close>

text \<open>
  What a run of \<^verbatim>\<open>UploadFile\<close> meets beside the object store: the messages of the stream and the
  error that ends it (\<open>None\<close>: end of file), when the splitter sees the context done, whether the
  receive goroutine is inside a pipe write when the splitter has stopped early (nobody reads the
  pipe any more), and the schedule.
\<close>

record upload_run =
  up_msgs :: "upload_msg list"
  up_recv_err :: "go_error option"
  up_cb :: "nat \<Rightarrow> bool"
  up_ca :: "nat \<Rightarrow> bool"
  up_blocked :: bool
  up_sched :: "sched list"

text \<open>
  \<^verbatim>\<open>UploadFile\<close>.  \<open>None\<close> is a run that never returns: it waits in \<^verbatim>\<open><-recvErrCh\<close> for a goroutine
  that waits in the pipe.
\<close>

definition UploadFile ::
  "env \<Rightarrow> minio_store \<Rightarrow> (byte list \<Rightarrow> byte list list) \<Rightarrow> upload_run \<Rightarrow> world \<Rightarrow>
   (upload_response result \<times> world) option" where
  "UploadFile e s pieces run w =
     (case up_msgs run of
        [] \<Rightarrow>
          Some (Inl (rpc_status ''InvalidArgument'' (''failed to receive metadata: '' @
                  (case up_recv_err run of None \<Rightarrow> ''EOF'' | Some err \<Rightarrow> err))), w)
      | UMeta meta # msgs \<Rightarrow>
          let content = recv_data msgs;
              results = Split (up_cb run) (up_ca run) ''context canceled'' (map NChunk (pieces content));
              st = process_chunks e s (up_sched run) results w;
              stopped = (\<exists>r \<in> set results. \<not> is_ok r)
          in
          if stopped \<and> up_blocked run then None
          else
            (case (case us_err st of
                     Some err \<Rightarrow> Some err
                   | None \<Rightarrow> up_recv_err run) of
               Some err \<Rightarrow> Some (Inl (rpc_status ''Internal'' (''upload failed: '' @ err)), us_world st)
             | None \<Rightarrow>
                 let chunks = sortChunks (us_chunks st) in
                 Some (Inr \<lparr>ur_checksum = SHA256Hash content,
                            ur_total_size = recv_size 0 msgs,
                            ur_chunk_count = i32 (int (length chunks)),
                            ur_new_chunks = us_new st,
                            ur_dedup_chunks = us_dedup st,
                            ur_chunks = chunks\<rparr>, us_world st))
      | _ # _ \<Rightarrow> Some (Inl (rpc_status ''InvalidArgument'' ''first message must contain metadata''), w))"

subsection \<open>Every interleaving\<close>

text \<open>
  What holds after every step: while no error has occurred the workers' pieces and the rest make up
  the splitter's results and no worker has failed; a worker past its put (or its hit) has its
  object in the store; the list holds exactly the finished workers' pieces; the counters are the
  numbers of misses and hits.
\<close>

definition undup :: "ChunkInfo \<Rightarrow> ChunkInfo" where
  "undup c = c\<lparr>ci_dup := False\<rparr>"

lemma undup_simps [simp]:
  "undup (chunk_info r b) = chunk_info r False" "ci_index (undup c) = ci_index c"
  "ci_hash (undup c) = ci_hash c" "ci_size (undup c) = ci_size c" "ci_dup (chunk_info r b) = b"
  by (simp_all add: undup_def chunk_info_def)

definition held_ok :: "minio_store \<Rightarrow> world \<Rightarrow> ChunkResult \<times> phase \<Rightarrow> bool" where
  "held_ok s w x \<longleftrightarrow>
     snd x = WExists \<or> snd x = WPut \<or> snd x = WDone False \<or> stored s w (cr_hash (fst x)) \<noteq> None"

definition up_inv :: "minio_store \<Rightarrow> (go_error + ChunkResult) list \<Rightarrow> up_state \<Rightarrow> bool" where
  "up_inv s results st \<longleftrightarrow>
     (us_err st = None \<longrightarrow>
        map (Inr \<circ> fst) (us_workers st) @ us_next st = results \<and>
        (\<forall>(r, ph) \<in> set (us_workers st). ph \<noteq> WDone False)) \<and>
     (\<forall>x \<in> set (us_workers st). held_ok s (us_world st) x) \<and>
     mset (map undup (us_chunks st)) =
       mset (map (\<lambda>x. chunk_info (fst x) False) (filter (\<lambda>x. snd x = WDone True) (us_workers st))) \<and>
     us_new st = i32 (int (length (filter (\<lambda>c. \<not> ci_dup c) (us_chunks st)) +
                           length (filter (\<lambda>x. snd x = WAppend False) (us_workers st)))) \<and>
     us_dedup st = i32 (int (length (filter ci_dup (us_chunks st)) +
                           length (filter (\<lambda>x. snd x = WAppend True) (us_workers st))))"

lemma up_inv_init:
  "up_inv s results \<lparr>us_world = w, us_next = results, us_workers = [], us_chunks = [], us_new = 0,
     us_dedup = 0, us_err = None\<rparr>"
  by (simp add: up_inv_def)

lemma loop_step_inv: "up_inv s results st \<Longrightarrow> up_inv s results (loop_step st)"
  by (auto simp: up_inv_def loop_step_def held_ok_def split: list.splits sum.splits)

lemma stored_after_exists:
  "ChunkExists e s h w = (r, w') \<Longrightarrow> stored s w' = stored s w"
  by (metis minio.exists_frame snd_conv)

lemma stored_after_put:
  "PutChunk e s h d w = (r, w') \<Longrightarrow> stored s w x \<noteq> None \<Longrightarrow> stored s w' x \<noteq> None"
  by (metis minio.put_keeps_held snd_conv)

lemma worker_step_inv:
  assumes inv: "up_inv s results st" and ws: "us_workers st = us @ (r, ph) # vs"
  shows "up_inv s results (worker_step e s (length us) st)"
proof (cases ph)
  case WExists
  obtain ex w where ex: "ChunkExists e s (cr_hash r) (us_world st) = (ex, w)" by force
  note same = stored_after_exists [OF ex]
  show ?thesis
  proof (cases "ex = Inr True")
    case True
    then have held: "stored s (us_world st) (cr_hash r) \<noteq> None"
      using minio.exists_ok [of e s "cr_hash r" "us_world st" True w] ex by simp
    have "worker_step e s (length us) st =
        st\<lparr>us_world := w, us_dedup := i32 (us_dedup st + 1), us_workers := us @ (r, WAppend True) # vs\<rparr>"
      using True ex ws WExists by (simp add: worker_step_def)
    then show ?thesis
      using inv held by (simp add: up_inv_def ws WExists held_ok_def same add.commute)
  next
    case False
    then have "worker_step e s (length us) st = st\<lparr>us_world := w, us_workers := us @ (r, WPut) # vs\<rparr>"
      using ex ws WExists by (auto simp: worker_step_def split: sum.splits bool.splits)
    then show ?thesis using inv by (simp add: up_inv_def ws WExists held_ok_def same)
  qed
next
  case WPut
  obtain p w where p: "PutChunk e s (cr_hash r) (cr_data r) (us_world st) = (p, w)" by force
  have keep: "\<forall>x \<in> A. held_ok s w x" if "\<forall>x \<in> A. held_ok s (us_world st) x" for A
    using that stored_after_put [OF p] by (auto simp: held_ok_def)
  have keep1: "held_ok s w x" if "held_ok s (us_world st) x" for x
    using keep [of "{x}"] that by simp
  show ?thesis
  proof (cases p)
    case (Inl err)
    then have "worker_step e s (length us) st =
        st\<lparr>us_world := w, us_err := Some (case us_err st of None \<Rightarrow> err | Some e0 \<Rightarrow> e0),
           us_workers := us @ (r, WDone False) # vs\<rparr>"
      using ws WPut p by (simp add: worker_step_def split: option.splits)
    then show ?thesis using inv by (auto simp: up_inv_def ws WPut held_ok_def [of _ _ "(r, _)"] intro: keep1)
  next
    case (Inr u)
    then have "stored s w (cr_hash r) \<noteq> None"
      using minio.put_ok [of e s "cr_hash r" "cr_data r" "us_world st" w] p by simp
    moreover have "worker_step e s (length us) st =
        st\<lparr>us_world := w, us_new := i32 (us_new st + 1), us_workers := us @ (r, WAppend False) # vs\<rparr>"
      using Inr ws WPut p by (simp add: worker_step_def)
    ultimately show ?thesis
      using inv by (auto simp: up_inv_def ws WPut add.commute held_ok_def [of _ _ "(r, _)"] intro: keep1)
  qed
next
  case (WAppend dup)
  then have "worker_step e s (length us) st =
      st\<lparr>us_chunks := us_chunks st @ [chunk_info r dup], us_workers := us @ (r, WDone True) # vs\<rparr>"
    using ws by (simp add: worker_step_def)
  then show ?thesis
    using inv by (cases dup) (simp_all add: up_inv_def ws WAppend held_ok_def)
next
  case (WDone b)
  then show ?thesis using inv ws by (simp add: worker_step_def)
qed

lemma up_step_inv: "up_inv s results st \<Longrightarrow> up_inv s results (up_step e s a st)"
proof (cases a)
  case (SWorker i)
  assume inv: "up_inv s results st"
  show ?thesis
  proof (cases "i < length (us_workers st)")
    case True
    obtain r ph where r: "us_workers st ! i = (r, ph)" by force
    have "us_workers st = take i (us_workers st) @ (r, ph) # drop (Suc i) (us_workers st)"
      using True r by (metis id_take_nth_drop)
    from worker_step_inv [OF inv this, of e] True show ?thesis
      by (simp add: SWorker up_step_def min_def)
  qed (use inv in \<open>simp add: SWorker up_step_def\<close>)
qed (simp add: up_step_def loop_step_inv)

lemma fold_inv:
  "(\<And>a st. P st \<Longrightarrow> P (f a st)) \<Longrightarrow> P st \<Longrightarrow> P (fold f as st)"
  by (induction as arbitrary: st) auto

subsection \<open>Every upload ends\<close>

fun rank :: "phase \<Rightarrow> nat" where
  "rank WExists = 3" | "rank WPut = 2" | "rank (WAppend b) = 1" | "rank (WDone b) = 0"

definition ranks :: "up_state \<Rightarrow> nat list" where
  "ranks st = map (\<lambda>(r, ph). rank ph) (us_workers st)"

lemma length_ranks [simp]: "length (ranks st) = length (us_workers st)"
  by (simp add: ranks_def)

lemma up_step_SLoop [simp]: "up_step e s SLoop st = loop_step st"
  by (simp add: up_step_def)

lemma worker_step_next [simp]: "us_next (worker_step e s i st) = us_next st"
  by (auto simp: worker_step_def Let_def split: prod.splits phase.splits sum.splits bool.splits)

lemma worker_step_workers:
  assumes w: "us_workers st ! i = (r, ph)"
  shows "\<exists>ph'. us_workers (worker_step e s i st) = (us_workers st)[i := (r, ph')] \<and> rank ph' \<le> rank ph - 1"
proof (cases ph)
  case (WDone b)
  then have "us_workers (worker_step e s i st) = (us_workers st)[i := (r, ph)]"
    using w by (simp add: worker_step_def) (metis list_update_id)
  then show ?thesis using WDone by (intro exI [of _ ph]) simp
qed (use w in \<open>auto simp: worker_step_def split: prod.splits sum.splits bool.splits
      intro: exI [of _ WPut] exI [of _ "WAppend True"] exI [of _ "WAppend False"] exI [of _ "WDone False"] exI [of _ "WDone True"]\<close>)

lemma worker_step_ranks:
  assumes "i < length (us_workers st)"
  shows "\<exists>k. ranks (worker_step e s i st) = (ranks st)[i := k] \<and> k \<le> ranks st ! i - 1"
proof -
  obtain r ph where w: "us_workers st ! i = (r, ph)" by force
  obtain ph' where ph': "us_workers (worker_step e s i st) = (us_workers st)[i := (r, ph')]"
    "rank ph' \<le> rank ph - 1" using worker_step_workers [OF w] by blast
  then show ?thesis
    using w assms by (intro exI [of _ "rank ph'"]) (simp add: ranks_def map_update)
qed

lemma SWorker_step:
  "length (us_workers (up_step e s (SWorker i) st)) = length (us_workers st) \<and>
   us_next (up_step e s (SWorker i) st) = us_next st \<and>
   (i < length (us_workers st) \<longrightarrow>
      (\<exists>k. ranks (up_step e s (SWorker i) st) = (ranks st)[i := k] \<and> k \<le> ranks st ! i - 1))"
  using worker_step_ranks [of i st e s]
  by (auto simp: up_step_def simp flip: length_ranks)

text \<open>The first \<open>n\<close> workers have finished.\<close>

definition finished_upto :: "nat \<Rightarrow> up_state \<Rightarrow> bool" where
  "finished_upto n st \<longleftrightarrow> (\<forall>j < n. j < length (us_workers st) \<longrightarrow> ranks st ! j = 0)"

lemma rank_le3: "rank ph \<le> 3"
  by (cases ph) auto

lemma finish_one:
  "finished_upto i st \<Longrightarrow>
   (let st' = fold (up_step e s) (replicate 3 (SWorker i)) st in
    finished_upto (Suc i) st' \<and> length (us_workers st') = length (us_workers st) \<and> us_next st' = us_next st)"
proof -
  assume fin: "finished_upto i st"
  let ?f = "up_step e s (SWorker i)"
  note step = SWorker_step [of e s i]
  show ?thesis
  proof (cases "i < length (us_workers st)")
    case False
    then show ?thesis using fin by (simp add: up_step_def finished_upto_def numeral_3_eq_3 less_Suc_eq)
  next
    case True
    obtain a b c where "ranks (?f st) = (ranks st)[i := a]" "a \<le> ranks st ! i - 1"
      "ranks (?f (?f st)) = (ranks (?f st))[i := b]" "b \<le> ranks (?f st) ! i - 1"
      "ranks (?f (?f (?f st))) = (ranks (?f (?f st)))[i := c]" "c \<le> ranks (?f (?f st)) ! i - 1"
      using True step by metis
    moreover have "ranks st ! i \<le> 3"
      using True by (auto simp: ranks_def rank_le3 split: prod.splits)
    ultimately have "ranks (?f (?f (?f st))) = (ranks st)[i := 0]"
      using True by simp
    then show ?thesis
      using fin step True by (simp add: Let_def numeral_3_eq_3 finished_upto_def nth_list_update less_Suc_eq)
  qed
qed

lemma finish_all_finishes:
  "let st' = fold (up_step e s) (finish_all n) st in
   finished_upto n st' \<and> length (us_workers st') = length (us_workers st) \<and> us_next st' = us_next st"
proof (induction n)
  case 0
  then show ?case by (simp add: finish_all_def finished_upto_def)
next
  case (Suc n)
  have "fold (up_step e s) (finish_all (Suc n)) st =
    fold (up_step e s) (replicate 3 (SWorker n)) (fold (up_step e s) (finish_all n) st)"
    by (simp add: finish_all_def)
  then show ?case
    using Suc.IH finish_one [of n "fold (up_step e s) (finish_all n) st" e s] by (simp add: Let_def)
qed

lemma running_zero:
  assumes "finished_upto n st" "length (us_workers st) \<le> n"
  shows "running st = 0"
proof -
  have "\<not> (\<forall>b. ph \<noteq> WDone b)" if mem: "(r, ph) \<in> set (us_workers st)" for r ph
  proof -
    obtain j where "j < length (us_workers st)" "us_workers st ! j = (r, ph)"
      using mem unfolding in_set_conv_nth by blast
    moreover from this have "ranks st ! j = 0"
      using assms by (simp add: finished_upto_def)
    ultimately have "rank ph = 0" by (simp add: ranks_def)
    then show ?thesis by (cases ph) auto
  qed
  then show ?thesis by (auto simp: running_def filter_empty_conv)
qed

lemma loop_step_moves:
  assumes "running st = 0"
  shows "length (us_next (loop_step st)) \<le> length (us_next st) - 1"
  using assms by (auto simp: loop_step_def split: list.splits sum.splits)

lemma up_step_size:
  "length (us_workers st) + length (us_next st) \<le> n \<Longrightarrow>
   length (us_workers (up_step e s a st)) + length (us_next (up_step e s a st)) \<le> n"
  using SWorker_step [of e s _ st]
  by (cases a) (auto simp: up_step_def loop_step_def split: list.splits sum.splits if_splits)

lemma fold_size:
  "length (us_workers st) + length (us_next st) \<le> n \<Longrightarrow>
   length (us_workers (fold (up_step e s) as st)) + length (us_next (fold (up_step e s) as st)) \<le> n"
  by (rule fold_inv [where P = "\<lambda>st. length (us_workers st) + length (us_next st) \<le> n"])
     (auto intro: up_step_size)

lemma drain_rounds:
  "length (us_workers st) + length (us_next st) \<le> n \<Longrightarrow>
   length (us_next (fold (up_step e s) (concat (replicate k (finish_all n @ [SLoop]))) st)) \<le>
     length (us_next st) - k"
proof (induction k arbitrary: st)
  case 0
  then show ?case by simp
next
  case (Suc k)
  define st1 where "st1 = fold (up_step e s) (finish_all n) st"
  define st2 where "st2 = loop_step st1"
  have st1: "finished_upto n st1" "length (us_workers st1) = length (us_workers st)" "us_next st1 = us_next st"
    using finish_all_finishes [of e s n st] by (simp_all add: st1_def Let_def)
  then have "length (us_next st2) \<le> length (us_next st) - 1"
    using loop_step_moves [of st1] running_zero [of n st1] Suc.prems by (simp add: st2_def)
  moreover have "length (us_workers st2) + length (us_next st2) \<le> n"
    using up_step_size [of st1 n e s SLoop] Suc.prems st1 by (simp add: st2_def up_step_def)
  ultimately show ?case
    using Suc.IH [of st2] by (simp add: st1_def st2_def)
qed

lemma process_chunks_done:
  "us_next (process_chunks e s sch results w) = [] \<and>
   (\<forall>(r, ph) \<in> set (us_workers (process_chunks e s sch results w)). \<exists>b. ph = WDone b)"
proof -
  define n where "n = length results"
  define st0 where "st0 = \<lparr>us_world = w, us_next = results, us_workers = [], us_chunks = [],
    us_new = 0, us_dedup = 0, us_err = None\<rparr>"
  define st1 where "st1 = fold (up_step e s) sch st0"
  define st2 where "st2 = fold (up_step e s) (concat (replicate n (finish_all n @ [SLoop]))) st1"
  define st3 where "st3 = fold (up_step e s) (finish_all n) st2"
  have st3: "process_chunks e s sch results w = st3"
    by (simp add: process_chunks_def drain_def st3_def st2_def st1_def st0_def n_def)
  have size: "length (us_workers st1) + length (us_next st1) \<le> n"
    unfolding st1_def by (rule fold_size) (simp add: st0_def n_def)
  then have "us_next st2 = []"
    using drain_rounds [of st1 n e s n] by (simp add: st2_def)
  moreover have "length (us_workers st2) + length (us_next st2) \<le> n"
    unfolding st2_def by (rule fold_size [OF size])
  ultimately have "us_next st3 = []" "running st3 = 0"
    using finish_all_finishes [of e s n st2] running_zero [of n st3] by (simp_all add: st3_def Let_def)
  then show ?thesis
    by (auto simp: st3 running_def filter_empty_conv)
qed

subsection \<open>What a successful upload guarantees\<close>

text \<open>The workers' puts and lookups keep a property of all objects that their pieces have.\<close>

lemma up_step_all:
  assumes "minio.all_objects s P (us_world st)" "\<forall>x \<in> set (us_workers st). P (cr_hash (fst x)) (cr_data (fst x))"
  shows "minio.all_objects s P (us_world (up_step e s a st))"
proof (cases a)
  case SLoop
  then show ?thesis using assms by (simp add: loop_step_def split: list.splits sum.splits)
next
  case (SWorker i)
  show ?thesis
  proof (cases "i < length (us_workers st)")
    case True
    obtain r ph where w: "us_workers st ! i = (r, ph)" by force
    with assms(2) True have r: "P (cr_hash r) (cr_data r)" by (metis fst_conv nth_mem)
    have "minio.all_objects s P (snd (ChunkExists e s (cr_hash r) (us_world st)))"
      by (rule minio.exists_all [OF assms(1)])
    moreover have "minio.all_objects s P (snd (PutChunk e s (cr_hash r) (cr_data r) (us_world st)))"
      by (rule minio.put_all [OF assms(1)]) (rule r)
    ultimately show ?thesis
      using w True SWorker assms(1)
      by (auto simp: up_step_def worker_step_def split: phase.splits prod.splits sum.splits bool.splits)
  qed (use assms in \<open>simp add: SWorker up_step_def\<close>)
qed

lemma up_step_pieces:
  assumes "set (map (Inr \<circ> fst) (us_workers st)) \<union> set (us_next st) \<subseteq> R"
  shows "set (map (Inr \<circ> fst) (us_workers (up_step e s a st))) \<union> set (us_next (up_step e s a st)) \<subseteq> R"
proof (cases a)
  case SLoop
  then show ?thesis using assms by (auto simp: loop_step_def split: list.splits sum.splits)
next
  case (SWorker i)
  show ?thesis
  proof (cases "i < length (us_workers st)")
    case True
    obtain r ph where w: "us_workers st ! i = (r, ph)" by force
    then have mem: "(r, ph) \<in> set (us_workers st)" using True nth_mem by metis
    obtain p where "us_workers (worker_step e s i st) = (us_workers st)[i := (r, p)]"
      using worker_step_workers [OF w] by blast
    then have "set (us_workers (worker_step e s i st)) \<subseteq> insert (r, p) (set (us_workers st))"
      by (simp add: set_update_subset_insert)
    with assms mem True SWorker show ?thesis
      by (force simp: up_step_def)
  qed (use assms in \<open>simp add: SWorker up_step_def\<close>)
qed

lemma process_chunks_all:
  assumes "minio.all_objects s P w" "\<And>r. Inr r \<in> set results \<Longrightarrow> P (cr_hash r) (cr_data r)"
  shows "minio.all_objects s P (us_world (process_chunks e s sch results w))"
proof -
  let ?P = "\<lambda>st::up_state. minio.all_objects s P (us_world st) \<and>
    set (map (Inr \<circ> fst) (us_workers st)) \<union> set (us_next st) \<subseteq> set results"
  have "?P (process_chunks e s sch results w)"
    unfolding process_chunks_def
  proof (rule fold_inv [where P = ?P])
    fix a st assume st: "?P st"
    then have "\<forall>x \<in> set (us_workers st). P (cr_hash (fst x)) (cr_data (fst x))"
      using assms(2) by fastforce
    with st show "?P (up_step e s a st)"
      using up_step_all up_step_pieces by blast
  qed (use assms in simp)
  then show ?thesis by simp
qed

lemma process_chunks_inv: "up_inv s results (process_chunks e s sch results w)"
  unfolding process_chunks_def by (rule fold_inv [where P = "up_inv s results"]) (auto intro: up_step_inv up_inv_init)

text \<open>
  No error, all workers finished: the results were all pieces, each has its entry, each entry's
  object is stored.
\<close>

lemma process_chunks_ok:
  assumes "us_err (process_chunks e s sch results w) = None"
  shows "\<exists>rs. results = map Inr rs \<and>
     mset (map undup (us_chunks (process_chunks e s sch results w))) = mset (map (\<lambda>r. chunk_info r False) rs) \<and>
     (\<forall>r \<in> set rs. stored s (us_world (process_chunks e s sch results w)) (cr_hash r) \<noteq> None) \<and>
     us_new (process_chunks e s sch results w) =
       i32 (int (length (filter (\<lambda>c. \<not> ci_dup c) (us_chunks (process_chunks e s sch results w))))) \<and>
     us_dedup (process_chunks e s sch results w) =
       i32 (int (length (filter ci_dup (us_chunks (process_chunks e s sch results w)))))"
proof -
  let ?st = "process_chunks e s sch results w"
  have inv: "up_inv s results ?st" by (rule process_chunks_inv)
  have nx: "us_next ?st = []" and dn: "\<forall>(r, ph) \<in> set (us_workers ?st). \<exists>b. ph = WDone b"
    using process_chunks_done by blast+
  have ok: "\<forall>x \<in> set (us_workers ?st). snd x = WDone True"
  proof
    fix x assume x: "x \<in> set (us_workers ?st)"
    with dn obtain b where "snd x = WDone b" by fastforce
    moreover have "snd x \<noteq> WDone False"
      using inv assms x by (auto simp: up_inv_def)
    ultimately show "snd x = WDone True" by (cases b) auto
  qed
  then have all: "filter (\<lambda>x. snd x = WDone True) (us_workers ?st) = us_workers ?st"
    by (intro map_filter_id) auto
  have "results = map Inr (map fst (us_workers ?st))"
    using inv nx assms by (simp add: up_inv_def comp_def)
  moreover have "mset (map undup (us_chunks ?st)) = mset (map (\<lambda>r. chunk_info r False) (map fst (us_workers ?st)))"
    using inv by (simp add: up_inv_def all comp_def)
  moreover have "\<forall>r \<in> set (map fst (us_workers ?st)). stored s (us_world ?st) (cr_hash r) \<noteq> None"
    using inv ok by (auto simp: up_inv_def held_ok_def)
  moreover have none: "filter (\<lambda>x. snd x = WAppend b) (us_workers ?st) = []" for b
    using ok by (auto simp: filter_empty_conv)
  have "us_new ?st = i32 (int (length (filter (\<lambda>c. \<not> ci_dup c) (us_chunks ?st))))"
    "us_dedup ?st = i32 (int (length (filter ci_dup (us_chunks ?st))))"
    using inv by (simp_all add: up_inv_def none)
  ultimately show ?thesis by blast
qed

lemma sortChunks_count: "length (filter P (sortChunks cs)) = length (filter P cs)"
  using sortChunks_sorts [of cs] by (metis mset_filter size_mset)

lemma split_complete:
  assumes "Split cb ca cerr (map NChunk ds) = map Inr rs"
  shows "rs = number_chunks 0 ds"
proof -
  have "split_loop cb ca cerr i (map NChunk ds) = map Inr rs \<Longrightarrow> rs = number_chunks i ds" for i rs
  proof (induction ds arbitrary: i rs)
    case Nil
    then show ?case by (auto split: if_splits)
  next
    case (Cons d ds)
    then show ?case by (cases rs) (auto simp: chunk_result_def split: if_splits)
  qed
  with assms show ?thesis by (simp add: Split_def)
qed

lemma number_chunks_hash: "r \<in> set (number_chunks i ds) \<Longrightarrow> cr_hash r = SHA256Hash (cr_data r)"
  by (induction ds arbitrary: i) (auto simp: chunk_result_def)

lemma split_hash: "Inr r \<in> set (Split cb ca cerr (map NChunk ds)) \<Longrightarrow> cr_hash r = SHA256Hash (cr_data r)"
proof -
  have "Inr r \<in> set (split_loop cb ca cerr i (map NChunk ds)) \<Longrightarrow> cr_hash r = SHA256Hash (cr_data r)" for i
    by (induction ds arbitrary: i) (auto split: if_splits)
  then show "Inr r \<in> set (Split cb ca cerr (map NChunk ds)) \<Longrightarrow> ?thesis" by (simp add: Split_def)
qed

text \<open>The entries the response lists: one per piece, in the order of the pieces.\<close>

definition manifest_of :: "byte list list \<Rightarrow> ChunkInfo list" where
  "manifest_of ds = map (\<lambda>r. chunk_info r False) (number_chunks 0 ds)"

lemma manifest_of_index:
  "length ds \<le> 2147483647 \<Longrightarrow> map ci_index (manifest_of ds) = map int [0..<length ds]"
  by (rule nth_equalityI) (auto simp: manifest_of_def nth_number_chunks chunk_info_def chunk_result_def)

lemma manifest_of_hash [simp]: "map ci_hash (manifest_of ds) = map SHA256Hash ds"
  by (rule nth_equalityI) (auto simp: manifest_of_def nth_number_chunks chunk_info_def chunk_result_def)

lemma manifest_of_size [simp]: "map ci_size (manifest_of ds) = map (\<lambda>d. int (length d)) ds"
  by (rule nth_equalityI) (auto simp: manifest_of_def nth_number_chunks chunk_info_def chunk_result_def)

lemma length_manifest_of [simp]: "length (manifest_of ds) = length ds"
  by (simp add: manifest_of_def)

lemma manifest_hashes: "map undup cs = manifest_of ds \<Longrightarrow> map ci_hash cs = map SHA256Hash ds"
proof -
  assume "map undup cs = manifest_of ds"
  then have "map ci_hash (map undup cs) = map SHA256Hash ds" by simp
  then show ?thesis by (simp add: comp_def)
qed

lemma sortChunks_undup:
  assumes "mset (map undup cs) = mset ds" "sorted (map ci_index ds)" "distinct (map ci_index ds)"
  shows "map undup (sortChunks cs) = ds"
proof -
  have s: "sorted (map ci_index (sortChunks cs))" "mset (sortChunks cs) = mset cs"
    using sortChunks_sorts by auto
  have "map ci_index (map undup xs) = map ci_index xs" for xs
    by (simp add: comp_def)
  moreover have "mset (map undup (sortChunks cs)) = mset ds"
    using s(2) assms(1) by (metis mset_map)
  moreover have "distinct (map ci_index (map undup (sortChunks cs)))"
    using calculation assms(3) by (metis mset_eq_imp_distinct_iff mset_map)
  moreover have "ci_index \<circ> undup = ci_index" by (simp add: fun_eq_iff)
  ultimately show ?thesis
    using s(1) assms(2) by (intro sorted_key_unique [of ci_index]) auto
qed

text \<open>
  A successful response, whatever failed on the way and however the workers were interleaved: the
  whole stream was received, the entries are the pieces in order, and every piece is stored.
\<close>

lemma UploadFile_ok:
  assumes up: "UploadFile e s pieces run w = Some (Inr resp, w')"
    and len: "length (pieces (recv_data (tl (up_msgs run)))) \<le> 2147483647"
  defines "content \<equiv> recv_data (tl (up_msgs run))"
  shows "up_recv_err run = None \<and> ur_checksum resp = SHA256Hash content \<and>
    ur_total_size resp = recv_size 0 (tl (up_msgs run)) \<and>
    map undup (ur_chunks resp) = manifest_of (pieces content) \<and>
    ur_chunk_count resp = int (length (pieces content)) \<and>
    ur_new_chunks resp = int (length (filter (\<lambda>c. \<not> ci_dup c) (ur_chunks resp))) \<and>
    ur_dedup_chunks resp = int (length (filter ci_dup (ur_chunks resp))) \<and>
    (\<forall>d \<in> set (pieces content). stored s w' (SHA256Hash d) \<noteq> None)"
proof -
  obtain meta msgs where m: "up_msgs run = UMeta meta # msgs"
    using up by (auto simp: UploadFile_def split: list.splits upload_msg.splits)
  define results where "results = Split (up_cb run) (up_ca run) ''context canceled'' (map NChunk (pieces content))"
  define st where "st = process_chunks e s (up_sched run) results w"
  have c: "content = recv_data msgs" by (simp add: content_def m)
  from up have err: "us_err st = None" and recv: "up_recv_err run = None" and w': "w' = us_world st"
    and resp: "resp = \<lparr>ur_checksum = SHA256Hash content, ur_total_size = recv_size 0 msgs,
      ur_chunk_count = i32 (int (length (sortChunks (us_chunks st)))), ur_new_chunks = us_new st,
      ur_dedup_chunks = us_dedup st, ur_chunks = sortChunks (us_chunks st)\<rparr>"
    by (auto simp: UploadFile_def m Let_def c results_def st_def split: if_splits option.splits)
  obtain rs where rs: "results = map Inr rs"
    "mset (map undup (us_chunks st)) = mset (map (\<lambda>r. chunk_info r False) rs)"
    "\<forall>r \<in> set rs. stored s (us_world st) (cr_hash r) \<noteq> None"
    "us_new st = i32 (int (length (filter (\<lambda>c. \<not> ci_dup c) (us_chunks st))))"
    "us_dedup st = i32 (int (length (filter ci_dup (us_chunks st))))"
    using process_chunks_ok [of e s "up_sched run" results w] err by (auto simp: st_def)
  have n: "rs = number_chunks 0 (pieces content)"
    by (rule split_complete [OF rs(1) [unfolded results_def]])
  have idx: "map ci_index (manifest_of (pieces content)) = map int [0..<length (pieces content)]"
    using len by (intro manifest_of_index) (simp add: content_def)
  have sorted: "map undup (sortChunks (us_chunks st)) = manifest_of (pieces content)"
    using rs(2) idx
    by (intro sortChunks_undup) (simp_all add: n manifest_of_def [symmetric] distinct_map sorted_map
        sorted_wrt_upt sorted_wrt_map_mono)
  have held: "stored s w' (SHA256Hash d) \<noteq> None" if "d \<in> set (pieces content)" for d
  proof -
    obtain k where k: "k < length (pieces content)" "pieces content ! k = d"
      using \<open>d \<in> set (pieces content)\<close> unfolding in_set_conv_nth by blast
    have "rs ! k \<in> set rs" using k n by simp
    moreover have "cr_hash (rs ! k) = SHA256Hash d"
      using k n by (simp add: nth_number_chunks chunk_result_def)
    ultimately show ?thesis using rs(3) w' by metis
  qed
  have "length (sortChunks (us_chunks st)) = length (pieces content)"
    using arg_cong [OF sorted, of length] by simp
  moreover from this have "length (us_chunks st) = length (pieces content)"
    using sortChunks_count [of "\<lambda>_. True" "us_chunks st"] by simp
  moreover from this have "i32 (int (length (filter P (us_chunks st)))) = int (length (filter P (us_chunks st)))" for P
    using length_filter_le [of P "us_chunks st"] len by (intro i32_id) (auto simp: content_def)
  ultimately show ?thesis
    using recv resp sorted held len rs(4,5)
    by (simp add: m content_def sortChunks_count)
qed

lemma split_data: "Inr r \<in> set (Split cb ca cerr (map NChunk ds)) \<Longrightarrow> cr_data r \<in> set ds"
proof -
  have "Inr r \<in> set (split_loop cb ca cerr i (map NChunk ds)) \<Longrightarrow> cr_data r \<in> set ds" for i
    by (induction ds arbitrary: i) (auto split: if_splits)
  then show "Inr r \<in> set (Split cb ca cerr (map NChunk ds)) \<Longrightarrow> ?thesis" by (simp add: Split_def)
qed

text \<open>An upload keeps the store content-addressed, whatever fails.\<close>

lemma UploadFile_store_ok:
  assumes "UploadFile e s pieces run w = Some (r, w')" "store_ok U s w"
    "set (pieces (recv_data (tl (up_msgs run)))) \<subseteq> U"
  shows "store_ok U s w'"
proof -
  have "store_ok U s (us_world (process_chunks e s sch (Split cb ca cerr (map NChunk ds)) w))"
    if "set ds \<subseteq> U" for sch cb ca cerr ds
    unfolding store_ok_def
    by (rule process_chunks_all [OF assms(2) [unfolded store_ok_def]])
       (use that split_hash split_data in \<open>metis subsetD\<close>)
  then show ?thesis
    using assms by (auto simp: UploadFile_def Let_def split: list.splits upload_msg.splits if_splits option.splits)
qed

text \<open>When nothing fails, the upload succeeds.\<close>

lemma ChunkExists_fault_free: "fault_free e \<Longrightarrow> \<exists>b w'. ChunkExists e s h w = (Inr b, w')"
  by (simp add: ChunkExists_def ext_fault_free)

lemma PutChunk_fault_free: "fault_free e \<Longrightarrow> \<exists>w'. PutChunk e s h d w = (Inr (), w')"
  by (simp add: PutChunk_def ext_fault_free)

lemma up_step_fault_free:
  assumes e: "fault_free e" and st: "us_err st = None" "\<forall>x \<in> set (us_next st). is_ok x"
  shows "us_err (up_step e s a st) = None \<and> (\<forall>x \<in> set (us_next (up_step e s a st)). is_ok x)"
proof (cases a)
  case SLoop
  then show ?thesis using st by (auto simp: loop_step_def split: list.splits sum.splits)
next
  case (SWorker i)
  show ?thesis
  proof (cases "i < length (us_workers st)")
    case True
    obtain r ph where w: "us_workers st ! i = (r, ph)" by force
    show ?thesis
      using w True SWorker st ChunkExists_fault_free [OF e, of s "cr_hash r" "us_world st"]
        PutChunk_fault_free [OF e, of s "cr_hash r" "cr_data r" "us_world st"]
      by (auto simp: up_step_def worker_step_def split: phase.splits bool.splits)
  qed (use st in \<open>simp add: SWorker up_step_def\<close>)
qed

lemma UploadFile_fault_free:
  assumes e: "fault_free e" and run: "up_msgs run = UMeta meta # msgs" "up_recv_err run = None"
    "up_cb run = (\<lambda>_. False)" "up_ca run = (\<lambda>_. False)"
  shows "\<exists>resp w'. UploadFile e s pieces run w = Some (Inr resp, w')"
proof -
  let ?ds = "pieces (recv_data msgs)"
  have res: "Split (up_cb run) (up_ca run) ''context canceled'' (map NChunk ?ds) = map Inr (number_chunks 0 ?ds)"
    by (simp add: Split_def run split_loop_ok)
  let ?P = "\<lambda>st::up_state. us_err st = None \<and> (\<forall>x \<in> set (us_next st). is_ok x)"
  have "?P (process_chunks e s (up_sched run) (map Inr (number_chunks 0 ?ds)) w)"
    unfolding process_chunks_def
    by (rule fold_inv [where P = ?P]) (use up_step_fault_free [OF e] in auto)
  then show ?thesis
    by (simp add: UploadFile_def run(1,2) res Let_def)
qed

section \<open>DownloadFile\<close>

record download_frame =
  df_data :: "byte list"
  df_hash :: string
  df_index :: int

abbreviation "streamFrameSize \<equiv> (65536::nat)"

text \<open>\<^verbatim>\<open>Read(buf)\<close> with a buffer of \<open>n\<close> bytes: what one delivery of the stream gives, cut to the buffer.\<close>

function chop :: "nat \<Rightarrow> 'a list \<Rightarrow> 'a list list" where
  "chop n xs = (if xs = [] \<or> n = 0 then [] else take n xs # chop n (drop n xs))"
  by auto
termination by (relation "measure (\<lambda>(n, xs). length xs)") auto

declare chop.simps [simp del]

lemma concat_chop [simp]: "n \<noteq> 0 \<Longrightarrow> concat (chop n xs) = xs"
  by (induction n xs rule: chop.induct) (subst chop.simps, auto)

lemma chop_length: "c \<in> set (chop n xs) \<Longrightarrow> c \<noteq> [] \<and> length c \<le> n"
  by (induction n xs rule: chop.induct) (subst (asm) (2) chop.simps, auto split: if_splits)

definition read_frames :: "nat \<Rightarrow> reader \<Rightarrow> byte list list" where
  "read_frames n r = concat (map (chop n) (rd_frames r))"

lemma concat_read_frames [simp]: "n \<noteq> 0 \<Longrightarrow> concat (read_frames n r) = rd_content r"
  by (simp add: read_frames_def rd_content_def concat_concat_map)

text \<open>\<^verbatim>\<open>stream.Send\<close>: the frame is on its way unless the call was refused.\<close>

fun send_frames ::
  "env \<Rightarrow> string \<Rightarrow> nat \<Rightarrow> byte list list \<Rightarrow> world \<Rightarrow> go_error option \<times> download_frame list \<times> world" where
  "send_frames e hash i [] w = (None, [], w)"
| "send_frames e hash i (d # ds) w =
     (let fr = \<lparr>df_data = d, df_hash = hash, df_index = i32 (int i)\<rparr>;
          sent = (case outcome_at e (calls w) of Refused _ \<Rightarrow> [] | _ \<Rightarrow> [fr])
      in
      case ext e (\<lambda>v. (Inr (), v)) w of
        (Inl err, w1) \<Rightarrow> (Some (rpc_status ''Internal'' (''failed to send chunk data: '' @ err)), sent, w1)
      | (Inr _, w1) \<Rightarrow> (case send_frames e hash i ds w1 of (r, frs, w2) \<Rightarrow> (r, fr # frs, w2)))"

fun download_loop ::
  "env \<Rightarrow> minio_store \<Rightarrow> nat \<Rightarrow> string list \<Rightarrow> world \<Rightarrow> go_error option \<times> download_frame list \<times> world" where
  "download_loop e s i [] w = (None, [], w)"
| "download_loop e s i (hash # hs) w =
     (if ctx_done e (calls w)
      then (Some (rpc_status ''Canceled'' ''download cancelled by client''), [], w)
      else
        (case GetChunk e s hash w of
           (Inl err, w1) \<Rightarrow>
             (if length hash < 12 then (Some go_panic, [], w1)
              else (Some (rpc_status ''Internal'' (''failed to get chunk '' @ itoa (int i) @ '': '' @ err)), [], w1))
         | (Inr (data, _), w1) \<Rightarrow>
             (let rd = read_at e (calls w1) data in
              case send_frames e hash i (read_frames streamFrameSize rd) w1 of
                (Some err, frs, w2) \<Rightarrow> (Some err, frs, w2)
              | (None, frs, w2) \<Rightarrow>
                  (case rd_err rd of
                     Some err \<Rightarrow>
                       (Some (rpc_status ''Internal'' (''failed to read chunk '' @ itoa (int i) @ '': '' @ err)), frs, w2)
                   | None \<Rightarrow>
                       (case download_loop e s (Suc i) hs w2 of (r, frs', w3) \<Rightarrow> (r, frs @ frs', w3))))))"

definition DownloadFile ::
  "env \<Rightarrow> minio_store \<Rightarrow> string list \<Rightarrow> world \<Rightarrow> go_error option \<times> download_frame list \<times> world" where
  "DownloadFile e s hashes w =
     (if hashes = [] then (Some (rpc_status ''InvalidArgument'' ''chunk_hashes must not be empty''), [], w)
      else download_loop e s 0 hashes w)"

subsection \<open>What is sent\<close>

lemma GetChunk_stored: "GetChunk e s h w = (r, w') \<Longrightarrow> stored s w' = stored s w"
  by (metis minio.get_frame snd_conv)

lemma send_frames_stored: "send_frames e h i ds w = (r, frs, w') \<Longrightarrow> stored s w' = stored s w"
proof (induction ds arbitrary: w r frs w')
  case (Cons d ds)
  obtain x w1 where x: "ext e (\<lambda>v. (Inr () :: unit result, v)) w = (x, w1)" by force
  then have "stored s w1 = stored s w"
    by (cases x; cases "outcome_at e (calls w)") (auto simp: ext_def)
  moreover obtain r2 f2 w2 where y: "send_frames e h i ds w1 = (r2, f2, w2)"
    by (cases "send_frames e h i ds w1") auto
  ultimately show ?case
    using Cons.prems Cons.IH [OF y] x by (cases x) (auto simp: Let_def)
qed simp

lemma send_frames_ok:
  "send_frames e h i ds w = (None, frs, w') \<Longrightarrow>
   frs = map (\<lambda>d. \<lparr>df_data = d, df_hash = h, df_index = i32 (int i)\<rparr>) ds"
proof (induction ds arbitrary: w frs w')
  case (Cons d ds)
  obtain x w1 where x: "ext e (\<lambda>v. (Inr () :: unit result, v)) w = (x, w1)" by force
  obtain r2 f2 w2 where y: "send_frames e h i ds w1 = (r2, f2, w2)"
    by (cases "send_frames e h i ds w1") auto
  show ?case
    using Cons.prems Cons.IH [of w1 f2 w2] x y by (cases x) (auto simp: Let_def)
qed simp

lemma send_frames_fault_free:
  "fault_free e \<Longrightarrow> fst (send_frames e h i ds w) = None"
  by (induction ds arbitrary: w) (simp_all add: ext_fault_free Let_def case_prod_beta)

text \<open>A download that succeeds has sent the stored objects, in the order asked for.\<close>

lemma download_loop_ok:
  assumes "sound_reads e" "download_loop e s i hs w = (None, frs, w')"
  shows "concat (map df_data frs) = concat (map (\<lambda>h. the (stored s w h)) hs) \<and>
    (\<forall>h \<in> set hs. stored s w h \<noteq> None) \<and> stored s w' = stored s w"
  using assms(2)
proof (induction hs arbitrary: i w frs w')
  case Nil
  then show ?case by simp
next
  case (Cons h hs)
  obtain g w1 where g: "GetChunk e s h w = (g, w1)" by force
  from Cons.prems g obtain data n where d: "g = Inr (data, n)"
    by (cases g) (auto split: if_splits)
  define rd where "rd = read_at e (calls w1) data"
  obtain r2 f2 w2 where sf: "send_frames e h i (read_frames streamFrameSize rd) w1 = (r2, f2, w2)"
    by (cases "send_frames e h i (read_frames streamFrameSize rd) w1") auto
  obtain r3 f3 w3 where dl: "download_loop e s (Suc i) hs w2 = (r3, f3, w3)"
    by (cases "download_loop e s (Suc i) hs w2") auto
  from Cons.prems g d sf dl have *: "r2 = None" "rd_err rd = None" "r3 = None" "frs = f2 @ f3" "w' = w3"
    by (auto simp: Let_def rd_def [symmetric] split: if_splits option.splits)
  have st1: "stored s w1 = stored s w" by (rule GetChunk_stored [OF g])
  have st2: "stored s w2 = stored s w1" by (rule send_frames_stored [OF sf])
  have "stored s w h = Some data" using minio.get_ok [of e s h w data n w1] g d by simp
  moreover have "concat (map df_data f2) = data"
  proof -
    have "map df_data f2 = read_frames streamFrameSize rd"
      using send_frames_ok [OF sf [unfolded *(1)]] by (simp add: comp_def)
    then show ?thesis
      using *(2) assms(1) by (simp add: rd_def sound_reads_def)
  qed
  moreover note Cons.IH [OF dl [unfolded *(3)]]
  ultimately show ?case using * st1 st2 by simp
qed

lemma DownloadFile_ok:
  "sound_reads e \<Longrightarrow> DownloadFile e s hs w = (None, frs, w') \<Longrightarrow>
   hs \<noteq> [] \<and> concat (map df_data frs) = concat (map (\<lambda>h. the (stored s w h)) hs) \<and>
   (\<forall>h \<in> set hs. stored s w h \<noteq> None) \<and> stored s w' = stored s w"
  using download_loop_ok [of e s 0 hs w frs w'] by (auto simp: DownloadFile_def split: if_splits)

text \<open>When nothing fails and all objects are there, the download succeeds.\<close>

lemma download_loop_fault_free:
  assumes "fault_free e" "\<forall>h \<in> set hs. stored s w h \<noteq> None"
  shows "fst (download_loop e s i hs w) = None"
  using assms(2)
proof (induction hs arbitrary: i w)
  case Nil
  then show ?case by simp
next
  case (Cons h hs)
  from Cons.prems obtain data where "objects w (st_bucket s, chunkKey h) = Some data"
    by (auto simp: stored_def)
  then have g: "GetChunk e s h w = (Inr (data, int (length data)), w\<lparr>calls := Suc (calls w)\<rparr>)"
    by (simp add: GetChunk_def ext_fault_free [OF assms(1)])
  let ?w1 = "w\<lparr>calls := Suc (calls w)\<rparr>"
  let ?fr = "read_frames streamFrameSize (read_at e (Suc (calls w)) data)"
  obtain r2 f2 w2 where sf: "send_frames e h i ?fr ?w1 = (r2, f2, w2)"
    by (cases "send_frames e h i ?fr ?w1") auto
  have "r2 = None" using send_frames_fault_free [OF assms(1), of h i ?fr ?w1] sf by simp
  moreover have "fst (download_loop e s (Suc i) hs w2) = None"
    using send_frames_stored [OF sf, of s] Cons.prems by (intro Cons.IH) simp
  ultimately show ?case
    using assms(1) g sf by (simp add: Let_def case_prod_beta)
qed

lemma DownloadFile_fault_free:
  "fault_free e \<Longrightarrow> hs \<noteq> [] \<Longrightarrow> \<forall>h \<in> set hs. stored s w h \<noteq> None \<Longrightarrow> fst (DownloadFile e s hs w) = None"
  by (simp add: DownloadFile_def download_loop_fault_free)

section \<open>DeleteChunks and Health\<close>

fun delete_loop :: "env \<Rightarrow> minio_store \<Rightarrow> string list \<Rightarrow> int \<Rightarrow> int \<Rightarrow> world \<Rightarrow> (int \<times> int) result \<times> world" where
  "delete_loop e s [] deleted failed w = (Inr (deleted, failed), w)"
| "delete_loop e s (hash # hs) deleted failed w =
     (case DeleteChunk e s hash w of
        (Inl err, w1) \<Rightarrow>
          (if length hash < 12 then (Inl go_panic, w1) else delete_loop e s hs deleted (i32 (failed + 1)) w1)
      | (Inr _, w1) \<Rightarrow> delete_loop e s hs (i32 (deleted + 1)) failed w1)"

definition DeleteChunks :: "env \<Rightarrow> minio_store \<Rightarrow> string list \<Rightarrow> world \<Rightarrow> (int \<times> int) result \<times> world" where
  "DeleteChunks e s hashes w = delete_loop e s hashes 0 0 w"

record health_response =
  hr_status :: string
  hr_minio :: bool

definition Health :: "env \<Rightarrow> minio_store \<Rightarrow> world \<Rightarrow> health_response \<times> world" where
  "Health e s w =
     (case HealthCheck e s w of
        (Inl _, w1) \<Rightarrow> (\<lparr>hr_status = ''unhealthy'', hr_minio = False\<rparr>, w1)
      | (Inr _, w1) \<Rightarrow> (\<lparr>hr_status = ''healthy'', hr_minio = True\<rparr>, w1))"

section \<open>Properties\<close>

text \<open>
  C3: what the chunk service gives back for the entries of a successful upload is the uploaded
  content.  The upload may run under any failures and any interleaving of its workers, the
  store may hold other objects, some of them the same as pieces of the content; the download may
  run under any failures too, as long as it reports success.
\<close>

theorem upload_download_roundtrip:
  assumes "UploadFile e s pieces run w = Some (Inr resp, w1)"
    and "concat (pieces (recv_data (tl (up_msgs run)))) = recv_data (tl (up_msgs run))"
    and "length (pieces (recv_data (tl (up_msgs run)))) \<le> 2147483647"
    and "store_ok U s w" "collision_free U" "set (pieces (recv_data (tl (up_msgs run)))) \<subseteq> U"
    and "sound_reads e'" "DownloadFile e' s (map ci_hash (ur_chunks resp)) w1 = (None, frames, w2)"
  shows "concat (map df_data frames) = recv_data (tl (up_msgs run)) \<and>
         SHA256Hash (concat (map df_data frames)) = ur_checksum resp"
proof -
  let ?c = "recv_data (tl (up_msgs run))"
  have ok: "map undup (ur_chunks resp) = manifest_of (pieces ?c)" "ur_checksum resp = SHA256Hash ?c"
    "\<forall>d \<in> set (pieces ?c). stored s w1 (SHA256Hash d) \<noteq> None"
    using UploadFile_ok [OF assms(1,3)] by blast+
  have w1: "store_ok U s w1" by (rule UploadFile_store_ok [OF assms(1,4,6)])
  have hs: "map ci_hash (ur_chunks resp) = map SHA256Hash (pieces ?c)"
    by (rule manifest_hashes [OF ok(1)])
  have "the (stored s w1 (SHA256Hash d)) = d" if "d \<in> set (pieces ?c)" for d
    using store_ok_content [OF w1 assms(5), of d] ok(3) assms(6) that by auto
  then have "map (\<lambda>h. the (stored s w1 h)) (map SHA256Hash (pieces ?c)) = pieces ?c"
    by (simp add: map_idI)
  then have "concat (map df_data frames) = ?c"
    using DownloadFile_ok [OF assms(7,8)] assms(2) by (simp add: hs)
  then show ?thesis using ok(2) by simp
qed

text \<open>A concrete run: one client frame of three bytes, one worker step before the rest.\<close>

definition demo_store :: minio_store where
  "demo_store = \<lparr>st_bucket = ''chunks''\<rparr>"

definition demo_pieces :: "byte list \<Rightarrow> byte list list" where
  "demo_pieces d = chop 4 d"

definition demo_run :: upload_run where
  "demo_run = \<lparr>up_msgs = [UMeta \<lparr>um_file_name = ''a'', um_user = ''u'', um_mime = []\<rparr>, UData [1, 2], UNone, UData [3]],
     up_recv_err = None, up_cb = (\<lambda>_. False), up_ca = (\<lambda>_. False), up_blocked = False,
     up_sched = [SLoop, SWorker 0]\<rparr>"

lemma demo_run_simps [simp]:
  "up_msgs demo_run = [UMeta \<lparr>um_file_name = ''a'', um_user = ''u'', um_mime = []\<rparr>, UData [1, 2], UNone, UData [3]]"
  "up_recv_err demo_run = None" "up_cb demo_run = (\<lambda>_. False)" "up_ca demo_run = (\<lambda>_. False)"
  by (simp_all add: demo_run_def)

lemma demo_content [simp]:
  "demo_pieces [1, 2, 3] = [[1, 2, 3]]"
  by (simp_all add: demo_pieces_def chop.simps)

lemma store_ok_empty [simp]: "store_ok U s empty_world"
  by (simp add: store_ok_def minio.all_objects_def stored_def empty_world_def)

lemma upload_download_roundtrip_witness:
  "\<exists>resp w1 frames w2.
     UploadFile quiet_env demo_store demo_pieces demo_run empty_world = Some (Inr resp, w1) \<and>
     DownloadFile quiet_env demo_store (map ci_hash (ur_chunks resp)) w1 = (None, frames, w2) \<and>
     concat (map df_data frames) = [1, 2, 3]"
proof -
  obtain resp w1 where up: "UploadFile quiet_env demo_store demo_pieces demo_run empty_world = Some (Inr resp, w1)"
    using UploadFile_fault_free [OF fault_free_quiet demo_run_simps] by blast
  have hs: "map ci_hash (ur_chunks resp) = [SHA256Hash [1, 2, 3]]"
    and st: "stored demo_store w1 (SHA256Hash [1, 2, 3]) \<noteq> None"
    using UploadFile_ok [OF up] by (auto dest!: manifest_hashes)
  obtain frames w2 where down: "DownloadFile quiet_env demo_store (map ci_hash (ur_chunks resp)) w1 = (None, frames, w2)"
    using DownloadFile_fault_free [of quiet_env "map ci_hash (ur_chunks resp)" demo_store w1] hs st
    by (cases "DownloadFile quiet_env demo_store (map ci_hash (ur_chunks resp)) w1") auto
  have "concat (map df_data frames) = [1, 2, 3]"
    using upload_download_roundtrip [OF up _ _ _ collision_free_singleton _ _ down] by simp
  with up down show ?thesis by blast
qed

text \<open>
  C7: an upload run in which nothing fails succeeds, whatever the interleaving, and its response
  describes the content: the checksum of the whole, the pieces in order with their fingerprints and
  sizes, every piece stored, and each piece counted as new or as a duplicate.
\<close>

theorem upload_succeeds:
  assumes "fault_free e" "up_msgs run = UMeta meta # msgs" "up_recv_err run = None"
    and "up_cb run = (\<lambda>_. False)" "up_ca run = (\<lambda>_. False)"
    and "length (pieces (recv_data msgs)) \<le> 2147483647"
  shows "\<exists>resp w'. UploadFile e s pieces run w = Some (Inr resp, w') \<and>
    ur_checksum resp = SHA256Hash (recv_data msgs) \<and>
    map ci_hash (ur_chunks resp) = map SHA256Hash (pieces (recv_data msgs)) \<and>
    map ci_size (ur_chunks resp) = map (\<lambda>d. int (length d)) (pieces (recv_data msgs)) \<and>
    map ci_index (ur_chunks resp) = map int [0..<length (pieces (recv_data msgs))] \<and>
    ur_chunk_count resp = int (length (pieces (recv_data msgs))) \<and>
    ur_new_chunks resp = int (length (filter (\<lambda>c. \<not> ci_dup c) (ur_chunks resp))) \<and>
    ur_dedup_chunks resp = int (length (filter ci_dup (ur_chunks resp))) \<and>
    (\<forall>d \<in> set (pieces (recv_data msgs)). stored s w' (SHA256Hash d) \<noteq> None)"
proof -
  obtain resp w' where up: "UploadFile e s pieces run w = Some (Inr resp, w')"
    using UploadFile_fault_free [OF assms(1-5)] by blast
  have ok: "map undup (ur_chunks resp) = manifest_of (pieces (recv_data msgs))"
    "ur_checksum resp = SHA256Hash (recv_data msgs)"
    "ur_chunk_count resp = int (length (pieces (recv_data msgs)))"
    "ur_new_chunks resp = int (length (filter (\<lambda>c. \<not> ci_dup c) (ur_chunks resp)))"
    "ur_dedup_chunks resp = int (length (filter ci_dup (ur_chunks resp)))"
    "\<forall>d \<in> set (pieces (recv_data msgs)). stored s w' (SHA256Hash d) \<noteq> None"
    using UploadFile_ok [OF up] assms(2,6) by auto
  have "map f (ur_chunks resp) = map f (manifest_of (pieces (recv_data msgs)))"
    if "\<And>c. f (undup c) = f c" for f :: "ChunkInfo \<Rightarrow> 'x"
    using that by (simp flip: ok(1) add: comp_def)
  note m = this [of ci_hash] this [of ci_size] this [of ci_index]
  show ?thesis
    using up ok m manifest_of_index [OF assms(6)] by auto
qed

lemma upload_succeeds_witness:
  "\<exists>resp w'. UploadFile quiet_env demo_store demo_pieces demo_run empty_world = Some (Inr resp, w') \<and>
    ur_chunk_count resp = 1 \<and> map ci_size (ur_chunks resp) = [3]"
  using upload_succeeds [of quiet_env demo_run "\<lparr>um_file_name = ''a'', um_user = ''u'', um_mime = []\<rparr>"
      "[UData [1, 2], UNone, UData [3]]" demo_pieces demo_store empty_world]
  by auto

end
