(* ===== verification/Cache.thy ===== *)
theory Cache
  imports World "HOL-Library.AList"
begin

text \<open>
  The Redis client: \<^verbatim>\<open>internal/cache/client.go\<close>.  Keys hold a string (a JSON document), a hash or
  a sorted set, with an expiry; an expired entry is absent.  \<^verbatim>\<open>SetNX\<close> is the lock of the garbage
  collector, \<^verbatim>\<open>HSet\<close> and \<^verbatim>\<open>HGetAll\<close> keep the parts of a multipart upload.
\<close>

definition live :: "int \<Rightarrow> (string \<Rightarrow> rentry option) \<Rightarrow> string \<Rightarrow> rval option" where
  "live now r k =
     (case r k of
        None \<Rightarrow> None
      | Some (v, None) \<Rightarrow> Some v
      | Some (v, Some t) \<Rightarrow> if now < t then Some v else None)"

text \<open>\<^verbatim>\<open>SET key value EX ttl\<close>; a non-positive \<^verbatim>\<open>ttl\<close> means no expiry.\<close>

definition expiry :: "int \<Rightarrow> int \<Rightarrow> int option" where
  "expiry now ttl = (if 0 < ttl then Some (now + ttl) else None)"

definition cache_Set :: "env \<Rightarrow> string \<Rightarrow> jdoc \<Rightarrow> int \<Rightarrow> world \<Rightarrow> unit result \<times> world" where
  "cache_Set e k d ttl =
     ext e (\<lambda>v. (Inr (), v\<lparr>redis := (redis v)(k \<mapsto> (RStr d, expiry (now_at e (calls v)) ttl))\<rparr>))"

definition cache_Get :: "env \<Rightarrow> string \<Rightarrow> world \<Rightarrow> jdoc result \<times> world" where
  "cache_Get e k =
     ext e (\<lambda>v. (case live (now_at e (calls v)) (redis v) k of
                   None \<Rightarrow> (Inl ''redis: nil'', v)
                 | Some (RStr d) \<Rightarrow> (Inr d, v)
                 | Some _ \<Rightarrow> (Inl ''WRONGTYPE'', v)))"

definition cache_Delete :: "env \<Rightarrow> string list \<Rightarrow> world \<Rightarrow> unit result \<times> world" where
  "cache_Delete e ks =
     ext e (\<lambda>v. (Inr (), v\<lparr>redis := (\<lambda>k. if k \<in> set ks then None else redis v k)\<rparr>))"

definition cache_Exists :: "env \<Rightarrow> string \<Rightarrow> world \<Rightarrow> bool result \<times> world" where
  "cache_Exists e k =
     ext e (\<lambda>v. (Inr (live (now_at e (calls v)) (redis v) k \<noteq> None), v))"

definition cache_SetNX :: "env \<Rightarrow> string \<Rightarrow> jdoc \<Rightarrow> int \<Rightarrow> world \<Rightarrow> bool result \<times> world" where
  "cache_SetNX e k d ttl =
     ext e (\<lambda>v. (let now = now_at e (calls v) in
                 case live now (redis v) k of
                   None \<Rightarrow> (Inr True, v\<lparr>redis := (redis v)(k \<mapsto> (RStr d, expiry now ttl))\<rparr>)
                 | Some _ \<Rightarrow> (Inr False, v)))"

definition cache_HSet :: "env \<Rightarrow> string \<Rightarrow> string \<Rightarrow> jdoc \<Rightarrow> world \<Rightarrow> unit result \<times> world" where
  "cache_HSet e k field d =
     ext e (\<lambda>v. (case live (now_at e (calls v)) (redis v) k of
                   None \<Rightarrow> (Inr (), v\<lparr>redis := (redis v)(k \<mapsto> (RHash [(field, d)], None))\<rparr>)
                 | Some (RHash m) \<Rightarrow>
                     (Inr (), v\<lparr>redis := (redis v)(k \<mapsto> (RHash (AList.update field d m),
                                 (case redis v k of None \<Rightarrow> None | Some (_, t) \<Rightarrow> t)))\<rparr>)
                 | Some _ \<Rightarrow> (Inl ''WRONGTYPE'', v)))"

definition cache_HGetAll :: "env \<Rightarrow> string \<Rightarrow> world \<Rightarrow> (string \<times> jdoc) list result \<times> world" where
  "cache_HGetAll e k =
     ext e (\<lambda>v. (case live (now_at e (calls v)) (redis v) k of
                   None \<Rightarrow> (Inr [], v)
                 | Some (RHash m) \<Rightarrow> (Inr m, v)
                 | Some _ \<Rightarrow> (Inl ''WRONGTYPE'', v)))"

definition cache_Expire :: "env \<Rightarrow> string \<Rightarrow> int \<Rightarrow> world \<Rightarrow> unit result \<times> world" where
  "cache_Expire e k ttl =
     ext e (\<lambda>v. (let now = now_at e (calls v) in
                 case live now (redis v) k of
                   None \<Rightarrow> (Inr (), v)
                 | Some x \<Rightarrow> (Inr (), v\<lparr>redis := (redis v)(k \<mapsto> (x, Some (now + ttl)))\<rparr>)))"

lemmas cache_defs = cache_Set_def cache_Get_def cache_Delete_def cache_Exists_def cache_SetNX_def
  cache_HSet_def cache_HGetAll_def cache_Expire_def

text \<open>No cache operation touches the tables, the objects or the event log.\<close>

lemma cache_durable [simp]:
  "durable (snd (cache_Set e k d ttl w)) = durable w"
  "durable (snd (cache_Get e k w)) = durable w"
  "durable (snd (cache_Delete e ks w)) = durable w"
  "durable (snd (cache_Exists e k w)) = durable w"
  "durable (snd (cache_SetNX e k d ttl w)) = durable w"
  "durable (snd (cache_HSet e k field d w)) = durable w"
  "durable (snd (cache_HGetAll e k w)) = durable w"
  "durable (snd (cache_Expire e k ttl w)) = durable w"
  unfolding cache_defs
  by (rule ext_durable, auto simp: Let_def split: option.splits rval.splits)+

lemma cache_topics [simp]:
  "topics (snd (cache_Set e k d ttl w)) = topics w"
  "topics (snd (cache_Get e k w)) = topics w"
  "topics (snd (cache_Delete e ks w)) = topics w"
  "topics (snd (cache_SetNX e k d ttl w)) = topics w"
  unfolding cache_defs
  by (rule ext_frame, auto simp: Let_def split: option.splits rval.splits)+

text \<open>A read changes nothing.\<close>

lemma cache_Get_redis [simp]: "redis (snd (cache_Get e k w)) = redis w"
  unfolding cache_defs by (rule ext_frame) (auto split: option.splits rval.splits)

lemma cache_HGetAll_redis [simp]: "redis (snd (cache_HGetAll e k w)) = redis w"
  unfolding cache_defs by (rule ext_frame) (auto split: option.splits rval.splits)

section \<open>What a cache promises\<close>

text \<open>
  The contract of the cached readers: a \<open>get\<close> that answers returns what is stored under the key, a
  \<open>set\<close> changes its own key only, a \<open>del\<close> can only remove keys.  Expiry makes entries disappear, so a
  value can vanish at any time but never change.
\<close>

locale kv_cache =
  fixes get :: "string \<Rightarrow> 'w \<Rightarrow> 'd result \<times> 'w"
    and put :: "string \<Rightarrow> 'd \<Rightarrow> 'w \<Rightarrow> unit result \<times> 'w"
    and del :: "string list \<Rightarrow> 'w \<Rightarrow> unit result \<times> 'w"
    and holds :: "'w \<Rightarrow> string \<Rightarrow> 'd option"
  assumes get_ok: "get k w = (Inr d, w') \<Longrightarrow> holds w k = Some d"
    and get_frame: "holds (snd (get k w)) = holds w"
    and put_any: "holds (snd (put k d w)) = holds w \<or> holds (snd (put k d w)) = (holds w)(k \<mapsto> d)"
    and del_ok: "del ks w = (Inr (), w') \<Longrightarrow> k \<in> set ks \<Longrightarrow> holds w' k = None"
    and del_any: "holds (snd (del ks w)) k = holds w k \<or> holds (snd (del ks w)) k = None"
begin

text \<open>Every entry of a cache satisfies \<open>P\<close>: reading, deleting, and storing entries that satisfy it keep
  this.\<close>

definition entries_ok :: "(string \<Rightarrow> 'd \<Rightarrow> bool) \<Rightarrow> 'w \<Rightarrow> bool" where
  "entries_ok P w \<longleftrightarrow> (\<forall>k d. holds w k = Some d \<longrightarrow> P k d)"

lemma get_entries_ok: "entries_ok P w \<Longrightarrow> entries_ok P (snd (get k w))"
  by (simp add: entries_ok_def get_frame)

lemma put_entries_ok: "entries_ok P w \<Longrightarrow> P k d \<Longrightarrow> entries_ok P (snd (put k d w))"
  using put_any [of k d w] by (auto simp: entries_ok_def split: if_splits)

lemma del_entries_ok: "entries_ok P w \<Longrightarrow> entries_ok P (snd (del ks w))"
  using del_any [of ks w] unfolding entries_ok_def by (metis option.distinct(1))

lemma get_entry: "entries_ok P w \<Longrightarrow> get k w = (Inr d, w') \<Longrightarrow> P k d"
  by (auto simp: entries_ok_def dest: get_ok)

lemma get_after_del:
  "del ks w = (Inr (), w') \<Longrightarrow> k \<in> set ks \<Longrightarrow> get k w' \<noteq> (Inr d, w'')"
  by (auto dest!: get_ok del_ok)

end

definition cached :: "world \<Rightarrow> string \<Rightarrow> jdoc option" where
  "cached w k = (case redis w k of Some (RStr d, _) \<Rightarrow> Some d | _ \<Rightarrow> None)"

lemma cached_upd [simp]:
  "cached (w\<lparr>calls := n\<rparr>) = cached w"
  by (simp add: cached_def fun_eq_iff)

lemma live_cached: "live now (redis w) k = Some (RStr d) \<Longrightarrow> cached w k = Some d"
  by (auto simp: live_def cached_def split: option.splits prod.splits if_splits)

interpretation redis_cache: kv_cache "cache_Get e" "\<lambda>k d. cache_Set e k d ttl" "cache_Delete e" cached
proof (unfold_locales, goal_cases)
  case (1 k w d w')
  then show ?case
    by (auto simp: cache_Get_def dest!: ext_InrD split: option.splits rval.splits)
       (metis live_cached world.select_convs(1) cached_upd world.update_convs(1) world.select_convs(7))
next
  case (2 k w)
  show ?case by (simp add: cached_def fun_eq_iff)
next
  case (3 k d w)
  show ?case
    by (cases "outcome_at e (calls w)") (auto simp: cache_Set_def ext_def cached_def fun_eq_iff)
next
  case (4 ks w w' k)
  then show ?case by (auto simp: cache_Delete_def cached_def dest!: ext_InrD)
next
  case (5 ks w k)
  show ?case
    by (cases "outcome_at e (calls w)") (auto simp: cache_Delete_def ext_def cached_def Let_def)
qed

end
