(* ===== verification/FileService.thy ===== *)
theory FileService
  imports ChunkServer Database Cache Events
begin

text \<open>
  The file service: \<^verbatim>\<open>internal/metadata/service.go\<close>.  An upload checks the quota, streams the file to
  the chunk service, records the file (superseding the version before it), its chunks and its
  manifest, announces the new chunks, and accounts for the storage.  Downloads are prepared from
  the cache or the database; a deletion releases the references of the manifest.
\<close>

section \<open>Data\<close>

record file_service =
  fs_store :: minio_store
  fs_pieces :: "byte list \<Rightarrow> byte list list"
  fs_producer :: bool

record file_response =
  fr_id :: string
  fr_name :: string
  fr_size :: int
  fr_mime :: string
  fr_checksum :: string
  fr_version :: int
  fr_chunk_count :: int
  fr_new_chunks :: int
  fr_dedup_chunks :: int
  fr_created :: int

record list_response =
  lr_files :: "file_row list"
  lr_total :: int
  lr_page :: int
  lr_page_size :: int
  lr_total_pages :: int

record download_result =
  dr_name :: string
  dr_mime :: string
  dr_size :: int
  dr_hashes :: "string list"

abbreviation "fileCacheTTL \<equiv> (600000000::int)"
abbreviation "manifestCacheTTL \<equiv> (600000000::int)"

section \<open>The cache\<close>

definition file_key :: "string \<Rightarrow> string" where "file_key fid = ''file:'' @ fid"
definition manifest_key :: "string \<Rightarrow> string" where "manifest_key fid = ''manifest:'' @ fid"
definition filelist_key :: "string \<Rightarrow> string" where "filelist_key uid = ''filelist:'' @ uid"

definition invalidateFileCache :: "env \<Rightarrow> string \<Rightarrow> world \<Rightarrow> world" where
  "invalidateFileCache e fileID w = snd (cache_Delete e [file_key fileID, manifest_key fileID] w)"

definition invalidateUserCache :: "env \<Rightarrow> string \<Rightarrow> world \<Rightarrow> world" where
  "invalidateUserCache e userID w = snd (cache_Delete e [filelist_key userID] w)"

lemma invalidate_durable [simp]:
  "durable (invalidateFileCache e fid w) = durable w" "durable (invalidateUserCache e uid w) = durable w"
  by (simp_all add: invalidateFileCache_def invalidateUserCache_def)

text \<open>
  \<^verbatim>\<open>getManifestCached\<close>.  An empty manifest is a nil slice and is cached as \<^verbatim>\<open>null\<close>, which decodes to
  a nil slice again.
\<close>

definition getManifestCached :: "env \<Rightarrow> string \<Rightarrow> world \<Rightarrow> manifest_entry list result \<times> world" where
  "getManifestCached e fileID w =
     (case cache_Get e (manifest_key fileID) w of
        (Inr (JManifest entries), w1) \<Rightarrow> (Inr entries, w1)
      | (_, w1) \<Rightarrow>
          (case GetManifest e fileID w1 of
             (Inl err, w2) \<Rightarrow> (Inl err, w2)
           | (Inr entries, w2) \<Rightarrow>
               (Inr entries, snd (cache_Set e (manifest_key fileID) (JManifest entries) manifestCacheTTL w2))))"

definition GetFile :: "env \<Rightarrow> string \<Rightarrow> string \<Rightarrow> world \<Rightarrow> file_row option result \<times> world" where
  "GetFile e userID fileID w =
     (let from_db = (\<lambda>w1.
            case GetFileByID e userID fileID w1 of
              (Inl err, w2) \<Rightarrow> (Inl err, w2)
            | (Inr None, w2) \<Rightarrow> (Inr None, w2)
            | (Inr (Some f), w2) \<Rightarrow> (Inr (Some f), snd (cache_Set e (file_key fileID) (JFile f) fileCacheTTL w2)))
      in
      case cache_Get e (file_key fileID) w of
        (Inr (JFile f), w1) \<Rightarrow> if f_user f = userID then (Inr (Some f), w1) else from_db w1
      | (_, w1) \<Rightarrow> from_db w1)"

section \<open>Upload\<close>

text \<open>
  \<^verbatim>\<open>float64(used)/float64(quota) > 0.95\<close>.  The literal is \<open>8556839292003942 / 2^53\<close>; the quotient
  rounds to the nearest, ties to even, so it exceeds the literal exactly when it lies beyond the
  midpoint to the next number.  A zero quota gives an infinity or \<^verbatim>\<open>NaN\<close>.
\<close>

definition quota_nearly_full :: "int \<Rightarrow> int \<Rightarrow> bool" where
  "quota_nearly_full used quota =
     (let a = f64_of_int used; b = f64_of_int quota in
      if b = 0 then 0 < a
      else 17113678584007885 * \<bar>b\<bar> < 18014398509481984 * (a * sgn b))"

text \<open>
  The client side of the upload stream: the metadata, the file in frames of 64 KB, and the response.
  A failed send or read gives the stream up, which the server sees as an error after the messages
  that were sent; what it has stored by then stays.  \<open>server\<close> is the rest of the server's run: its
  schedule and what its splitter sees of the context.
\<close>

definition server_run :: "upload_run \<Rightarrow> upload_msg list \<Rightarrow> go_error option \<Rightarrow> upload_run" where
  "server_run server msgs err = server\<lparr>up_msgs := msgs, up_recv_err := err\<rparr>"

fun send_all :: "env \<Rightarrow> byte list list \<Rightarrow> world \<Rightarrow> go_error option \<times> byte list list \<times> world" where
  "send_all e [] w = (None, [], w)"
| "send_all e (d # ds) w =
     (let sent = (case outcome_at e (calls w) of Refused _ \<Rightarrow> [] | _ \<Rightarrow> [d]) in
      case ext e (\<lambda>v. (Inr () :: unit result, v)) w of
        (Inl err, w1) \<Rightarrow> (Some err, sent, w1)
      | (Inr _, w1) \<Rightarrow> (case send_all e ds w1 of (r, ds', w2) \<Rightarrow> (r, d # ds', w2)))"

definition abort_upload ::
  "env \<Rightarrow> file_service \<Rightarrow> upload_run \<Rightarrow> upload_msg list \<Rightarrow> go_error \<Rightarrow> world \<Rightarrow>
   (upload_response result \<times> world) option" where
  "abort_upload e s server msgs err w =
     map_option (\<lambda>(_, w1). (Inl err, w1))
       (UploadFile e (fs_store s) (fs_pieces s) (server_run server msgs (Some ''context canceled'')) w)"

definition stream_upload ::
  "env \<Rightarrow> file_service \<Rightarrow> upload_run \<Rightarrow> upload_metadata \<Rightarrow> reader \<Rightarrow> world \<Rightarrow>
   (upload_response result \<times> world) option" where
  "stream_upload e s server meta file w =
     (case ext e (\<lambda>v. (Inr () :: unit result, v)) w of
        (Inl err, w1) \<Rightarrow> Some (Inl (wrapf ''open upload stream'' err), w1)
      | (Inr _, w1) \<Rightarrow>
          (case ext e (\<lambda>v. (Inr () :: unit result, v)) w1 of
             (Inl err, w2) \<Rightarrow> abort_upload e s server [] (wrapf ''send metadata'' err) w2
           | (Inr _, w2) \<Rightarrow>
               (case send_all e (read_frames streamFrameSize file) w2 of
                  (Some err, sent, w3) \<Rightarrow>
                    abort_upload e s server (UMeta meta # map UData sent) (wrapf ''send data'' err) w3
                | (None, sent, w3) \<Rightarrow>
                    (case rd_err file of
                       Some err \<Rightarrow> abort_upload e s server (UMeta meta # map UData sent) (wrapf ''read file'' err) w3
                     | None \<Rightarrow>
                         (case UploadFile e (fs_store s) (fs_pieces s)
                                 (server_run server (UMeta meta # map UData sent) None) w3 of
                            None \<Rightarrow> None
                          | Some (Inl err, w4) \<Rightarrow> Some (Inl (wrapf ''upload failed'' err), w4)
                          | Some (Inr resp, w4) \<Rightarrow>
                              (case ext e (\<lambda>v. (Inr () :: unit result, v)) w4 of
                                 (Inl err, w5) \<Rightarrow> Some (Inl (wrapf ''upload failed'' err), w5)
                               | (Inr _, w5) \<Rightarrow> Some (Inr resp, w5)))))))"

text \<open>
  Step 3: the new version.  The version in place is superseded first; that this failed is only
  logged.
\<close>

definition create_version :: "env \<Rightarrow> create_file_params \<Rightarrow> file_row option \<Rightarrow> world \<Rightarrow> file_row result \<times> world" where
  "create_version e p existing w =
     (case existing of
        None \<Rightarrow> CreateFile e p w
      | Some ex \<Rightarrow>
          if f_status ex = FileStatusActive then
            CreateFileWithVersion e p (f_parent ex) (i64 (f_version ex + 1))
              (snd (UpdateFileStatus e (f_id ex) FileStatusSuperseded w))
          else if f_status ex = FileStatusSuperseded then
            CreateFileWithVersion e p (f_parent ex) (i64 (f_version ex + 1)) w
          else CreateFile e p w)"

text \<open>
  The chunks of the response become rows or gain a reference; a failure is logged and skipped.  The
  second component counts the failures; the code does not look at it.
\<close>

fun register_chunks ::
  "env \<Rightarrow> ChunkInfo list \<Rightarrow> int \<Rightarrow> world \<Rightarrow> manifest_entry list \<times> nat \<times> world" where
  "register_chunks e [] byteOffset w = ([], 0, w)"
| "register_chunks e (c # cs) byteOffset w =
     (case UpsertChunk e (ci_hash c) (ci_size c) w of
        (r, w1) \<Rightarrow>
          (case register_chunks e cs (i64 (byteOffset + ci_size c)) w1 of
             (ms, failed, w2) \<Rightarrow>
               (\<lparr>me_hash = ci_hash c, me_size = ci_size c, me_index = ci_index c, me_offset = byteOffset\<rparr> # ms,
                (if is_ok r then failed else Suc failed), w2)))"

text \<open>Step 4: an event per chunk that is new.\<close>

fun publish_created :: "env \<Rightarrow> string \<Rightarrow> string \<Rightarrow> ChunkInfo list \<Rightarrow> world \<Rightarrow> world" where
  "publish_created e userID fileID [] w = w"
| "publish_created e userID fileID (c # cs) w =
     publish_created e userID fileID cs
       (if ci_dup c then w
        else snd (Publish e TopicChunksCreated (ci_hash c) []
               (PChunkCreated \<lparr>cc_hash = ci_hash c, cc_size = ci_size c, cc_bucket = ''chunks'',
                  cc_object_key = [], cc_user = userID, cc_file = fileID\<rparr>) w))"

definition response_of :: "upload_response \<Rightarrow> file_row \<Rightarrow> string \<Rightarrow> string \<Rightarrow> file_response" where
  "response_of resp file fileName mimeType =
     \<lparr>fr_id = f_id file, fr_name = fileName, fr_size = ur_total_size resp, fr_mime = mimeType,
      fr_checksum = ur_checksum resp, fr_version = f_version file, fr_chunk_count = ur_chunk_count resp,
      fr_new_chunks = ur_new_chunks resp, fr_dedup_chunks = ur_dedup_chunks resp, fr_created = f_created file\<rparr>"

text \<open>Everything after the stream, with the number of failed \<^verbatim>\<open>UpsertChunk\<close> calls.\<close>

definition record_upload ::
  "env \<Rightarrow> file_service \<Rightarrow> string \<Rightarrow> string \<Rightarrow> string \<Rightarrow> int \<Rightarrow> int \<Rightarrow> upload_response \<Rightarrow> world \<Rightarrow>
   file_response result \<times> nat \<times> world" where
  "record_upload e s userID fileName mimeType used quota resp w =
     (if quota < i64 (used + ur_total_size resp) then
        (Inl (''QUOTA_EXCEEDED: file size '' @ itoa (ur_total_size resp) @ '' would exceed quota (used: '' @
              itoa used @ '', quota: '' @ itoa quota @ '')''), 0, w)
      else
        (let params = \<lparr>cf_user = userID, cf_name = fileName, cf_size = ur_total_size resp,
                       cf_mime = mimeType, cf_checksum = ur_checksum resp\<rparr> in
         case GetLatestFileByName e userID None fileName w of
           (Inl err, w1) \<Rightarrow> (Inl (wrapf ''check existing file'' err), 0, w1)
         | (Inr existing, w1) \<Rightarrow>
             (case create_version e params existing w1 of
                (Inl err, w2) \<Rightarrow> (Inl (wrapf ''create file record'' err), 0, w2)
              | (Inr file, w2) \<Rightarrow>
                  (case register_chunks e (ur_chunks resp) 0 w2 of
                     (manifest, failed, w3) \<Rightarrow>
                       (case SaveManifest e (f_id file) manifest w3 of
                          (Inl err, w4) \<Rightarrow> (Inl (wrapf ''save manifest'' err), failed, w4)
                        | (Inr _, w4) \<Rightarrow>
                            (let w5 = (if fs_producer s then publish_created e userID (f_id file) (ur_chunks resp) w4 else w4);
                                 w6 = snd (UpdateStorageUsed e userID (ur_total_size resp) w5);
                                 w7 = invalidateUserCache e userID w6
                             in (Inr (response_of resp file fileName mimeType), failed, w7)))))))"

definition Upload_run ::
  "env \<Rightarrow> file_service \<Rightarrow> upload_run \<Rightarrow> string \<Rightarrow> string \<Rightarrow> string \<Rightarrow> reader \<Rightarrow> world \<Rightarrow>
   (file_response result \<times> nat \<times> world) option" where
  "Upload_run e s server userID fileName mimeType file w =
     (case GetStorageUsage e userID w of
        (Inl err, w1) \<Rightarrow> Some (Inl (wrapf ''check quota'' err), 0, w1)
      | (Inr (used, quota), w1) \<Rightarrow>
          if quota_nearly_full used quota
          then Some (Inl ''QUOTA_EXCEEDED: storage quota nearly exhausted'', 0, w1)
          else
            (case stream_upload e s server \<lparr>um_file_name = fileName, um_user = userID, um_mime = mimeType\<rparr> file w1 of
               None \<Rightarrow> None
             | Some (Inl err, w2) \<Rightarrow> Some (Inl err, 0, w2)
             | Some (Inr resp, w2) \<Rightarrow> Some (record_upload e s userID fileName mimeType used quota resp w2)))"

definition Upload ::
  "env \<Rightarrow> file_service \<Rightarrow> upload_run \<Rightarrow> string \<Rightarrow> string \<Rightarrow> string \<Rightarrow> reader \<Rightarrow> world \<Rightarrow>
   (file_response result \<times> world) option" where
  "Upload e s server userID fileName mimeType file w =
     map_option (\<lambda>(r, _, w'). (r, w')) (Upload_run e s server userID fileName mimeType file w)"

section \<open>Download\<close>

definition mime_of :: "file_row \<Rightarrow> string" where
  "mime_of f = (case f_mime f of None \<Rightarrow> [] | Some m \<Rightarrow> m)"

definition PrepareDownload :: "env \<Rightarrow> string \<Rightarrow> string \<Rightarrow> world \<Rightarrow> download_result option result \<times> world" where
  "PrepareDownload e userID fileID w =
     (case GetFile e userID fileID w of
        (Inl err, w1) \<Rightarrow> (Inl err, w1)
      | (Inr None, w1) \<Rightarrow> (Inr None, w1)
      | (Inr (Some file), w1) \<Rightarrow>
          (case getManifestCached e fileID w1 of
             (Inl err, w2) \<Rightarrow> (Inl (wrapf ''get manifest'' err), w2)
           | (Inr manifest, w2) \<Rightarrow>
               (Inr (Some \<lparr>dr_name = f_name file, dr_mime = mime_of file, dr_size = f_size file,
                           dr_hashes = map me_hash manifest\<rparr>), w2)))"

definition ListFiles :: "env \<Rightarrow> string \<Rightarrow> int \<Rightarrow> int \<Rightarrow> world \<Rightarrow> list_response result \<times> world" where
  "ListFiles e userID page page_size w =
     (case ListFilesByUser e userID \<lparr>lo_page = page, lo_page_size = page_size, lo_status = FileStatusActive\<rparr> w of
        (Inl err, w1) \<Rightarrow> (Inl err, w1)
      | (Inr (fs, cnt), w1) \<Rightarrow>
          if page_size = 0 then (Inl ''panic: runtime error: integer divide by zero'', w1)
          else
            (let pages = go_div cnt page_size;
                 pages' = (if go_mod cnt page_size \<noteq> 0 then pages + 1 else pages)
             in (Inr \<lparr>lr_files = fs, lr_total = cnt, lr_page = page, lr_page_size = page_size, lr_total_pages = pages'\<rparr>, w1)))"

section \<open>Delete\<close>

text \<open>The chunk service is reached by a call of its own, which can fail beside what it does.\<close>

definition call_DeleteChunks :: "env \<Rightarrow> file_service \<Rightarrow> string list \<Rightarrow> world \<Rightarrow> (int \<times> int) result \<times> world" where
  "call_DeleteChunks e s hashes w =
     (case ext e (\<lambda>v. (Inr () :: unit result, v)) w of
        (Inl err, w1) \<Rightarrow>
          (case outcome_at e (calls w) of
             Refused _ \<Rightarrow> (Inl err, w1)
           | _ \<Rightarrow> (Inl err, snd (DeleteChunks e (fs_store s) hashes w1)))
      | (Inr _, w1) \<Rightarrow> DeleteChunks e (fs_store s) hashes w1)"

definition DeleteFile :: "env \<Rightarrow> file_service \<Rightarrow> string \<Rightarrow> string \<Rightarrow> world \<Rightarrow> unit result \<times> world" where
  "DeleteFile e s userID fileID w =
     (case GetFile e userID fileID w of
        (Inl err, w1) \<Rightarrow> (Inl err, w1)
      | (Inr None, w1) \<Rightarrow> (Inl ''file not found'', w1)
      | (Inr (Some file), w1) \<Rightarrow>
          (case GetManifest e fileID w1 of
             (Inl err, w2) \<Rightarrow> (Inl (wrapf ''get manifest'' err), w2)
           | (Inr manifest, w2) \<Rightarrow>
               (case SoftDeleteFile e userID fileID w2 of
                  (Inl err, w3) \<Rightarrow> (Inl err, w3)
                | (Inr _, w3) \<Rightarrow>
                    (let w4 = (if manifest = [] then w3
                               else (case DecrementRefCounts e (map me_hash manifest) w3 of
                                       (Inl _, v) \<Rightarrow> v
                                     | (Inr orphaned, v) \<Rightarrow>
                                         if orphaned = [] then v else snd (call_DeleteChunks e s orphaned v)));
                         w5 = snd (UpdateStorageUsed e userID (i64 (- f_size file)) w4);
                         w6 = invalidateUserCache e userID (invalidateFileCache e fileID w5);
                         w7 = (if fs_producer s
                               then snd (Publish e TopicFilesDeleted fileID []
                                      (PFileDeleted \<lparr>fd_file = fileID, fd_user = userID,
                                         fd_hashes = map me_hash manifest, fd_size = f_size file\<rparr>) w6)
                               else w6)
                     in (Inr (), w7)))))"

end
