(* ===== verification/FolderService.thy ===== *)
theory FolderService
  imports FileService
begin

text \<open>
  Versions, folders, search and range downloads: \<^verbatim>\<open>internal/metadata/service_phase6.go\<close>.
\<close>

section \<open>Versions\<close>

definition svc_ListVersions :: "env \<Rightarrow> string \<Rightarrow> string \<Rightarrow> string option \<Rightarrow> world \<Rightarrow> file_row list result \<times> world" where
  "svc_ListVersions e userID fileName parentID w = ListFileVersions e userID fileName parentID w"

definition DownloadVersion :: "env \<Rightarrow> string \<Rightarrow> string \<Rightarrow> int \<Rightarrow> world \<Rightarrow> download_result option result \<times> world" where
  "DownloadVersion e userID fileID version w =
     (case GetFileVersion e userID fileID version w of
        (Inl err, w1) \<Rightarrow> (Inl err, w1)
      | (Inr None, w1) \<Rightarrow> (Inr None, w1)
      | (Inr (Some file), w1) \<Rightarrow>
          (case getManifestCached e (f_id file) w1 of
             (Inl err, w2) \<Rightarrow> (Inl (wrapf ''get manifest for version'' err), w2)
           | (Inr manifest, w2) \<Rightarrow>
               (Inr (Some \<lparr>dr_name = f_name file, dr_mime = mime_of file, dr_size = f_size file,
                           dr_hashes = map me_hash manifest\<rparr>), w2)))"

text \<open>The promotion of the newest superseded version after the active one was deleted.\<close>

definition promote_previous :: "env \<Rightarrow> string \<Rightarrow> file_row \<Rightarrow> world \<Rightarrow> world" where
  "promote_previous e userID file w =
     (if f_status file = FileStatusActive then
        (case GetLatestFileByName e userID (f_parent file) (f_name file) w of
           (Inr (Some latest), w1) \<Rightarrow>
             if f_status latest = FileStatusSuperseded
             then snd (UpdateFileStatus e (f_id latest) FileStatusActive w1) else w1
         | (_, w1) \<Rightarrow> w1)
      else w)"

definition DeleteVersion :: "env \<Rightarrow> string \<Rightarrow> string \<Rightarrow> int \<Rightarrow> world \<Rightarrow> unit result \<times> world" where
  "DeleteVersion e userID fileID version w =
     (case GetFileVersion e userID fileID version w of
        (Inl err, w1) \<Rightarrow> (Inl (wrapf ''get version'' err), w1)
      | (Inr None, w1) \<Rightarrow> (Inl (''version '' @ itoa version @ '' not found''), w1)
      | (Inr (Some file), w1) \<Rightarrow>
          (case GetManifest e (f_id file) w1 of
             (m, w2) \<Rightarrow>
               (let manifest = (case m of Inl _ \<Rightarrow> [] | Inr ms \<Rightarrow> ms) in
                case UpdateFileStatus e (f_id file) FileStatusDeleted w2 of
                  (Inl err, w3) \<Rightarrow> (Inl (wrapf ''delete version'' err), w3)
                | (Inr _, w3) \<Rightarrow>
                    (let w4 = (if manifest = [] then w3
                               else snd (DecrementRefCounts e (map me_hash manifest) w3));
                         w5 = snd (UpdateStorageUsed e userID (i64 (- f_size file)) w4);
                         w6 = promote_previous e userID file w5
                     in (Inr (), invalidateUserCache e userID (invalidateFileCache e (f_id file) w6))))))"

section \<open>Folders\<close>

definition CreateFolder :: "env \<Rightarrow> string \<Rightarrow> string \<Rightarrow> string option \<Rightarrow> world \<Rightarrow> file_row result \<times> world" where
  "CreateFolder e userID name parentID w =
     (let create = (\<lambda>w1.
            case CreateDirectory e userID name parentID w1 of
              (Inl err, w2) \<Rightarrow> (Inl (wrapf ''create folder'' err), w2)
            | (Inr folder, w2) \<Rightarrow> (Inr folder, invalidateUserCache e userID w2))
      in
      case parentID of
        None \<Rightarrow> create w
      | Some p \<Rightarrow>
          (case VerifyFolderOwnership e userID p w of
             (Inl err, w1) \<Rightarrow> (Inl (wrapf ''verify parent'' err), w1)
           | (Inr None, w1) \<Rightarrow> (Inl ''parent folder not found'', w1)
           | (Inr (Some _), w1) \<Rightarrow> create w1))"

definition ListFolderContents ::
  "env \<Rightarrow> string \<Rightarrow> string option \<Rightarrow> int \<Rightarrow> int \<Rightarrow> world \<Rightarrow> (file_row list \<times> int) result \<times> world" where
  "ListFolderContents e userID folderID page page_size w =
     (let contents = GetFolderContents e userID folderID \<lparr>lo_page = page, lo_page_size = page_size, lo_status = []\<rparr> in
      case folderID of
        None \<Rightarrow> contents w
      | Some p \<Rightarrow>
          (case VerifyFolderOwnership e userID p w of
             (Inl err, w1) \<Rightarrow> (Inl (wrapf ''verify folder'' err), w1)
           | (Inr None, w1) \<Rightarrow> (Inl ''folder not found'', w1)
           | (Inr (Some _), w1) \<Rightarrow> contents w1))"

text \<open>\<^verbatim>\<open>MoveFile\<close>; \<open>None\<close> when the walk up from the new parent does not end.\<close>

definition svc_MoveFile :: "env \<Rightarrow> string \<Rightarrow> string \<Rightarrow> string option \<Rightarrow> world \<Rightarrow> (unit result \<times> world) option" where
  "svc_MoveFile e userID fileID newParentID w =
     (let move = (\<lambda>w1.
            case MoveFile e userID fileID newParentID w1 of
              (Inl err, w2) \<Rightarrow> (Inl (wrapf ''move file'' err), w2)
            | (Inr _, w2) \<Rightarrow> (Inr (), invalidateUserCache e userID (invalidateFileCache e fileID w2)))
      in
      case newParentID of
        None \<Rightarrow> Some (move w)
      | Some p \<Rightarrow>
          if p = fileID then Some (Inl ''cannot move a file into itself'', w)
          else
            (case IsDescendant e p fileID w of
               None \<Rightarrow> None
             | Some (Inl err, w1) \<Rightarrow> Some (Inl (wrapf ''cycle check'' err), w1)
             | Some (Inr True, w1) \<Rightarrow>
                 Some (Inl ''cannot move a folder into its own descendant (circular reference)'', w1)
             | Some (Inr False, w1) \<Rightarrow> Some (move w1)))"

text \<open>
  \<^verbatim>\<open>DeleteFolder\<close> releases the references of every file below the folder and then marks the row of
  the folder alone.
\<close>

fun release_files :: "env \<Rightarrow> string \<Rightarrow> string list \<Rightarrow> int \<Rightarrow> world \<Rightarrow> int \<times> world" where
  "release_files e userID [] totalSize w = (totalSize, w)"
| "release_files e userID (fid # fids) totalSize w =
     (case GetManifest e fid w of
        (Inl _, w1) \<Rightarrow> release_files e userID fids totalSize w1
      | (Inr manifest, w1) \<Rightarrow>
          (case GetFileByID e userID fid w1 of
             (r, w2) \<Rightarrow>
               (let totalSize' = (case r of Inr (Some f) \<Rightarrow> i64 (totalSize + f_size f) | _ \<Rightarrow> totalSize) in
                release_files e userID fids totalSize'
                  (snd (DecrementRefCounts e (map me_hash manifest) w2)))))"

definition DeleteFolder :: "env \<Rightarrow> string \<Rightarrow> string \<Rightarrow> world \<Rightarrow> (unit result \<times> world) option" where
  "DeleteFolder e userID folderID w =
     (case VerifyFolderOwnership e userID folderID w of
        (Inl err, w1) \<Rightarrow> Some (Inl (wrapf ''verify folder'' err), w1)
      | (Inr None, w1) \<Rightarrow> Some (Inl ''folder not found'', w1)
      | (Inr (Some _), w1) \<Rightarrow>
          (case GetAllDescendantFileIDs e folderID w1 of
             None \<Rightarrow> None
           | Some (ids, w2) \<Rightarrow>
               (case release_files e userID (case ids of Inl _ \<Rightarrow> [] | Inr fids \<Rightarrow> fids) 0 w2 of
                  (totalSize, w3) \<Rightarrow>
                    (case SoftDeleteFile e userID folderID w3 of
                       (Inl err, w4) \<Rightarrow> Some (Inl (wrapf ''delete folder'' err), w4)
                     | (Inr _, w4) \<Rightarrow>
                         (let w5 = (if 0 < totalSize
                                    then snd (UpdateStorageUsed e userID (i64 (- totalSize)) w4) else w4)
                          in Some (Inr (), invalidateUserCache e userID w5))))))"

section \<open>Search\<close>

definition svc_Search :: "env \<Rightarrow> string \<Rightarrow> search_query \<Rightarrow> world \<Rightarrow> (file_row list \<times> int) result \<times> search_query \<times> world" where
  "svc_Search e userID q w = SearchFiles e userID q w"

section \<open>Range downloads\<close>

record range_chunk =
  rc_hash :: string
  rc_skip :: int
  rc_read :: int

record range_result =
  rr_name :: string
  rr_mime :: string
  rr_file_size :: int
  rr_start :: int
  rr_end :: int
  rr_content_len :: int
  rr_plan :: "range_chunk list"

text \<open>
  The plan for \<^verbatim>\<open>[rangeStart, rangeEnd]\<close>: chunks before the range are skipped, the first one past it
  ends the loop, and the end within a chunk is the smaller of two \<^verbatim>\<open>float64\<close> values.
\<close>

fun plan_range :: "int \<Rightarrow> int \<Rightarrow> manifest_entry list \<Rightarrow> range_chunk list" where
  "plan_range rangeStart rangeEnd [] = []"
| "plan_range rangeStart rangeEnd (m # ms) =
     (let chunkStart = me_offset m;
          chunkEnd = i64 (i64 (me_offset m + me_size m) - 1)
      in
      if chunkEnd < rangeStart then plan_range rangeStart rangeEnd ms
      else if rangeEnd < chunkStart then []
      else
        (let skipBytes = (if chunkStart < rangeStart then i64 (rangeStart - chunkStart) else 0);
             readEnd = i64 (min (f64_of_int chunkEnd) (f64_of_int rangeEnd));
             readBytes = i64 (i64 (readEnd - i64 (chunkStart + skipBytes)) + 1)
         in \<lparr>rc_hash = me_hash m, rc_skip = skipBytes, rc_read = readBytes\<rparr> # plan_range rangeStart rangeEnd ms))"

definition clamp_range :: "int \<Rightarrow> int \<Rightarrow> int \<Rightarrow> int \<times> int" where
  "clamp_range fsize rangeStart rangeEnd =
     (if rangeStart < 0 then 0 else rangeStart,
      if fsize \<le> rangeEnd \<or> rangeEnd < 0 then i64 (fsize - 1) else rangeEnd)"

definition PrepareRangeDownload ::
  "env \<Rightarrow> string \<Rightarrow> string \<Rightarrow> int \<Rightarrow> int \<Rightarrow> world \<Rightarrow> range_result option result \<times> world" where
  "PrepareRangeDownload e userID fileID start0 end0 w =
     (case GetFileByID e userID fileID w of
        (Inl err, w1) \<Rightarrow> (Inl err, w1)
      | (Inr None, w1) \<Rightarrow> (Inr None, w1)
      | (Inr (Some file), w1) \<Rightarrow>
          (case clamp_range (f_size file) start0 end0 of
             (rangeStart, rangeEnd) \<Rightarrow>
               if rangeEnd < rangeStart
               then (Inl (''invalid range: '' @ itoa rangeStart @ ''-'' @ itoa rangeEnd), w1)
               else
                 (case getManifestCached e fileID w1 of
                    (Inl err, w2) \<Rightarrow> (Inl (wrapf ''get manifest'' err), w2)
                  | (Inr manifest, w2) \<Rightarrow>
                      (Inr (Some \<lparr>rr_name = f_name file, rr_mime = mime_of file, rr_file_size = f_size file,
                                  rr_start = rangeStart, rr_end = rangeEnd,
                                  rr_content_len = i64 (i64 (rangeEnd - rangeStart) + 1),
                                  rr_plan = plan_range rangeStart rangeEnd manifest\<rparr>), w2))))"

section \<open>The plan covers the range\<close>

text \<open>
  A manifest lies over a content when its entries, in order, are consecutive pieces of it with their
  fingerprints, sizes and offsets.
\<close>

fun lies_over :: "manifest_entry list \<Rightarrow> byte list list \<Rightarrow> int \<Rightarrow> bool" where
  "lies_over [] [] off = True"
| "lies_over (m # ms) (d # ds) off =
     (me_offset m = off \<and> me_size m = int (length d) \<and> me_hash m = SHA256Hash d \<and>
      lies_over ms ds (off + int (length d)))"
| "lies_over _ _ off = False"

text \<open>What a plan delivers, read off the pieces.\<close>

fun plan_bytes :: "(string \<Rightarrow> byte list) \<Rightarrow> range_chunk list \<Rightarrow> byte list" where
  "plan_bytes obj [] = []"
| "plan_bytes obj (c # cs) = take (nat (rc_read c)) (drop (nat (rc_skip c)) (obj (rc_hash c))) @ plan_bytes obj cs"

definition byte_range :: "int \<Rightarrow> int \<Rightarrow> byte list \<Rightarrow> byte list" where
  "byte_range a b d = take (nat (b - a + 1)) (drop (nat a) d)"

lemma byte_range_out [simp]: "b < a \<Longrightarrow> byte_range a b d = []"
  by (simp add: byte_range_def)

lemma byte_range_empty [simp]: "byte_range a b [] = []"
  by (simp add: byte_range_def)

lemma length_byte_range:
  "0 \<le> a \<Longrightarrow> a \<le> b \<Longrightarrow> b < int (length d) \<Longrightarrow> length (byte_range a b d) = nat (b - a + 1)"
  by (simp add: byte_range_def)

text \<open>The bytes of a range split at the end of the first piece.\<close>

lemma byte_range_append:
  assumes "0 \<le> a"
  shows "byte_range a b (xs @ ys) =
    byte_range a (min b (int (length xs) - 1)) xs @
    byte_range (max 0 (a - int (length xs))) (b - int (length xs)) ys"
proof (cases "a \<le> b")
  case False
  then show ?thesis by (auto simp: byte_range_def)
next
  case True
  then show ?thesis
    using assms
    by (cases "int (length xs) \<le> a"; cases "b < int (length xs)")
       (auto simp: byte_range_def nat_diff_distrib min_def max_def nat_add_distrib algebra_simps)
qed

abbreviation "max_exact \<equiv> (9007199254740992::int)"

lemma max_exact_eq: "max_exact = 2 ^ 53"
  by simp

text \<open>One entry of the plan: the bytes of the range within its chunk.\<close>

lemma plan_entry:
  assumes "0 \<le> a" "a \<le> b" "0 \<le> off" "off + int (length d) \<le> max_exact" "b \<le> max_exact"
    and "\<not> off + int (length d) - 1 < a" "\<not> b < off"
  shows "take (nat (i64 (i64 (i64 (min (f64_of_int (off + int (length d) - 1)) (f64_of_int b)) -
             i64 (off + (if off < a then i64 (a - off) else 0))) + 1)))
           (drop (nat (if off < a then i64 (a - off) else 0)) d) =
         byte_range (max 0 (a - off)) (min (b - off) (int (length d) - 1)) d"
proof -
  have f: "f64_of_int (off + int (length d) - 1) = off + int (length d) - 1" "f64_of_int b = b"
    using assms by (auto intro!: f64_of_int_exact)
  have small: "in_i64 x" if "- max_exact \<le> x" "x \<le> 2 * max_exact" for x
    using that by (intro in_i64I) auto
  define skip where "skip = (if off < a then a - off else 0)"
  have skip: "(if off < a then i64 (a - off) else 0) = skip" "0 \<le> skip" "skip \<le> max_exact" "skip = max 0 (a - off)"
    using assms small [of "a - off"] by (auto simp: skip_def)
  define e where "e = min (off + int (length d) - 1) b"
  have e: "i64 e = e" "off - 1 \<le> e" "e \<le> max_exact"
    using assms by (auto simp: e_def intro!: i64_id small)
  have "i64 (i64 (e - i64 (off + skip)) + 1) = e - (off + skip) + 1"
    using small [of "off + skip"] small [of "e - (off + skip)"] small [of "e - (off + skip) + 1"]
      skip e assms by (auto simp: skip_def split: if_splits)
  then show ?thesis
    using skip e assms by (simp add: f byte_range_def flip: e_def) (simp add: e_def min_def max_def algebra_simps)
qed

theorem plan_range_bytes:
  assumes "lies_over ms ds off" "0 \<le> a" "a \<le> b" "0 \<le> off"
    "off + int (length (concat ds)) \<le> max_exact" "b \<le> max_exact"
    "\<And>d. d \<in> set ds \<Longrightarrow> obj (SHA256Hash d) = d"
  shows "plan_bytes obj (plan_range a b ms) = byte_range (max 0 (a - off)) (b - off) (concat ds)"
  using assms(1,4,5,7)
proof (induction ms ds off rule: lies_over.induct)
  case (2 m ms d ds off)
  let ?rest = "plan_bytes obj (plan_range a b ms)"
  have m: "me_offset m = off" "me_size m = int (length d)" "me_hash m = SHA256Hash d" "obj (SHA256Hash d) = d"
    using "2.prems" by auto
  have tail: "?rest = byte_range (max 0 (a - (off + int (length d)))) (b - (off + int (length d))) (concat ds)"
    using "2.prems" by (intro "2.IH") auto
  have split: "byte_range (max 0 (a - off)) (b - off) (concat (d # ds)) =
     byte_range (max 0 (a - off)) (min (b - off) (int (length d) - 1)) d @
     byte_range (max 0 (max 0 (a - off) - int (length d))) (b - off - int (length d)) (concat ds)"
    using byte_range_append [of "max 0 (a - off)" "b - off" d "concat ds"] by simp
  have ce: "i64 (i64 (off + int (length d)) - 1) = off + int (length d) - 1"
    using "2.prems" by (simp add: in_i64_def)
  consider "off + int (length d) - 1 < a" | "\<not> off + int (length d) - 1 < a" "b < off"
    | "\<not> off + int (length d) - 1 < a" "\<not> b < off" by blast
  then show ?case
  proof cases
    case 1
    then have "max 0 (max 0 (a - off) - int (length d)) = max 0 (a - (off + int (length d)))" by auto
    moreover have "byte_range (max 0 (a - off)) (min (b - off) (int (length d) - 1)) d = []"
      using 1 by (intro byte_range_out) auto
    ultimately show ?thesis
      unfolding split using 1 tail by (simp add: m ce Let_def algebra_simps)
  next
    case 2
    then show ?thesis by (simp add: m ce Let_def)
  next
    case 3
    have "max 0 (max 0 (a - off) - int (length d)) = max 0 (a - (off + int (length d)))"
      using 3 by auto
    then have "plan_bytes obj (plan_range a b (m # ms)) =
        byte_range (max 0 (a - off)) (min (b - off) (int (length d) - 1)) d @ ?rest"
      using 3 plan_entry [of a b off d] assms(2,3,6) "2.prems" by (simp add: m ce Let_def)
    then show ?thesis
      unfolding split tail
      using \<open>max 0 (max 0 (a - off) - int (length d)) = max 0 (a - (off + int (length d)))\<close>
      by (simp add: algebra_simps)
  qed
qed simp_all

end
