(* ===== verification/Gc.thy ===== *)
theory Gc
  imports ObjectStore Cache Events Database
begin

text \<open>
  The garbage collector: \<^verbatim>\<open>internal/gc/collector.go\<close>.  Under a lock in Redis a cycle marks the
  unreferenced chunks, and deletes the chunks marked longer ago than the grace period that are
  still unreferenced: first the object, then the manifest rows that point to the chunk, then its
  row.
\<close>

record gc_config =
  gc_grace :: int
  gc_batch :: int

record collector =
  co_store :: minio_store
  co_cfg :: gc_config

definition gcLockKey :: string where "gcLockKey = ''dfms:gc:lock''"

abbreviation "gcLockTTL \<equiv> (300000000::int)"

text \<open>\<^verbatim>\<open>LIMIT\<close>: a negative one is an error.\<close>

fun mark_first :: "nat \<Rightarrow> int \<Rightarrow> chunk_row list \<Rightarrow> chunk_row list" where
  "mark_first n now [] = []"
| "mark_first n now (c # cs) =
     (if 0 < n \<and> c_refs c = 0 \<and> c_status c = ChunkStatusActive
      then c\<lparr>c_status := ChunkStatusPendingGC, c_created := now\<rparr> # mark_first (n - 1) now cs
      else c # mark_first n now cs)"

definition orphan_count :: "nat \<Rightarrow> chunk_row list \<Rightarrow> nat" where
  "orphan_count n cs = min n (length (filter (\<lambda>c. c_refs c = 0 \<and> c_status c = ChunkStatusActive) cs))"

definition markOrphans :: "env \<Rightarrow> collector \<Rightarrow> world \<Rightarrow> int \<times> world" where
  "markOrphans e g w =
     (let n = gc_batch (co_cfg g) in
      case ext e (\<lambda>v. if n < 0 then (Inl ''LIMIT must not be negative'', v)
                      else (Inr (int (orphan_count (nat n) (chunks v))),
                            v\<lparr>chunks := mark_first (nat n) (now_at e (calls v)) (chunks v)\<rparr>)) w of
        (Inl _, w1) \<Rightarrow> (0, w1)
      | (Inr k, w1) \<Rightarrow> (k, w1))"

text \<open>One candidate of the sweep.  \<open>None\<close> is a panic (\<^verbatim>\<open>hash[:12]\<close> of a short hash).\<close>

definition delete_file_chunks :: "env \<Rightarrow> string \<Rightarrow> world \<Rightarrow> unit result \<times> world" where
  "delete_file_chunks e cid =
     ext e (\<lambda>v. (Inr (), v\<lparr>file_chunks := filter (\<lambda>r. fc_chunk r \<noteq> cid) (file_chunks v)\<rparr>))"

definition delete_chunk_row :: "env \<Rightarrow> string \<Rightarrow> world \<Rightarrow> unit result \<times> world" where
  "delete_chunk_row e cid =
     ext e (\<lambda>v. if list_ex (\<lambda>c. c_id c = cid \<and> c_refs c = 0) (chunks v) \<and>
                    list_ex (\<lambda>r. fc_chunk r = cid) (file_chunks v)
                 then (Inl ''violates foreign key constraint'', v)
                 else (Inr (), v\<lparr>chunks := filter (\<lambda>c. \<not> (c_id c = cid \<and> c_refs c = 0)) (chunks v)\<rparr>))"

definition resurrect :: "env \<Rightarrow> string \<Rightarrow> world \<Rightarrow> unit result \<times> world" where
  "resurrect e cid =
     ext e (\<lambda>v. (Inr (), v\<lparr>chunks := map (\<lambda>c. if c_id c = cid then c\<lparr>c_status := ChunkStatusActive\<rparr> else c) (chunks v)\<rparr>))"

definition sweep_one :: "env \<Rightarrow> collector \<Rightarrow> chunk_row \<Rightarrow> world \<Rightarrow> bool option \<times> world" where
  "sweep_one e g cand w =
     (let cid = c_id cand; hash = c_hash cand; short = length hash < 12 in
      case query e (\<lambda>v. first_row (\<lambda>c. c_id c = cid) (chunks v)) w of
        (Inl _, w1) \<Rightarrow> (Some False, w1)
      | (Inr None, w1) \<Rightarrow> (Some False, w1)
      | (Inr (Some c), w1) \<Rightarrow>
          if 0 < c_refs c then
            (case resurrect e cid w1 of (_, w2) \<Rightarrow> (if short then None else Some False, w2))
          else
            (case DeleteChunk e (co_store g) hash w1 of
               (Inl _, w2) \<Rightarrow> (if short then None else Some False, w2)
             | (Inr _, w2) \<Rightarrow>
                 (case delete_file_chunks e cid w2 of
                    (_, w3) \<Rightarrow>
                      (case delete_chunk_row e cid w3 of
                         (Inl _, w4) \<Rightarrow> (if short then None else Some False, w4)
                       | (Inr _, w4) \<Rightarrow>
                           (let w5 = snd (Publish e TopicChunksDeleted hash []
                                       (PChunkDeleted \<lparr>cd_hash = hash, cd_size = c_size cand\<rparr>) w4)
                            in (if short then None else Some True, w5))))))"

fun sweep_loop :: "env \<Rightarrow> collector \<Rightarrow> chunk_row list \<Rightarrow> int \<Rightarrow> world \<Rightarrow> int option \<times> world" where
  "sweep_loop e g [] swept w = (Some swept, w)"
| "sweep_loop e g (c # cs) swept w =
     (case sweep_one e g c w of
        (None, w1) \<Rightarrow> (None, w1)
      | (Some done, w1) \<Rightarrow> sweep_loop e g cs (if done then swept + 1 else swept) w1)"

definition sweep_candidates :: "gc_config \<Rightarrow> int \<Rightarrow> chunk_row list \<Rightarrow> chunk_row list" where
  "sweep_candidates cfg now cs =
     take (nat (gc_batch cfg))
       (filter (\<lambda>c. c_status c = ChunkStatusPendingGC \<and> c_created c < now - gc_grace cfg) cs)"

definition sweepMarked :: "env \<Rightarrow> collector \<Rightarrow> world \<Rightarrow> int option \<times> world" where
  "sweepMarked e g w =
     (case ext e (\<lambda>v. if gc_batch (co_cfg g) < 0 then (Inl ''LIMIT must not be negative'', v)
                      else (Inr (rows e (calls v) (sweep_candidates (co_cfg g) (now_at e (calls v)) (chunks v))), v)) w of
        (Inl _, w1) \<Rightarrow> (Some 0, w1)
      | (Inr cands, w1) \<Rightarrow> sweep_loop e g cands 0 w1)"

text \<open>The lock is released at the end of the cycle, a panic included (\<^verbatim>\<open>defer\<close>).\<close>

definition runCycle :: "env \<Rightarrow> collector \<Rightarrow> world \<Rightarrow> world" where
  "runCycle e g w =
     (case cache_SetNX e gcLockKey (JText ''running'') gcLockTTL w of
        (Inl _, w1) \<Rightarrow> w1
      | (Inr False, w1) \<Rightarrow> w1
      | (Inr True, w1) \<Rightarrow>
          (case markOrphans e g w1 of
             (marked, w2) \<Rightarrow>
               (case sweepMarked e g w2 of
                  (swept, w3) \<Rightarrow> snd (cache_Delete e [gcLockKey] w3))))"

text \<open>\<^verbatim>\<open>Run\<close> over a number of ticks.\<close>

fun gc_Run :: "env \<Rightarrow> collector \<Rightarrow> nat \<Rightarrow> world \<Rightarrow> world" where
  "gc_Run e g 0 w = w"
| "gc_Run e g (Suc n) w = (if ctx_done e (calls w) then w else gc_Run e g n (runCycle e g w))"

end
