(* ===== verification/Integrity.thy ===== *)
theory Integrity
  imports FolderService Gc
begin

text \<open>
  What keeps the data of the files: the reference counts never fall below the number of kept files
  that use a chunk, every chunk of a kept file has its object, and a file reads as it was uploaded.
  The lemmas follow the operations of the file service, its versions and folders, and the garbage
  collector, under all failures.
\<close>

section \<open>Reference counts\<close>

definition kept :: "file_row \<Rightarrow> bool" where
  "kept f \<longleftrightarrow> kept_status (f_status f)"

definition uses :: "file_chunk_row list \<Rightarrow> string \<Rightarrow> string \<Rightarrow> bool" where
  "uses fcs fid cid \<longleftrightarrow> list_ex (\<lambda>r. fc_file r = fid \<and> fc_chunk r = cid) fcs"

lemma uses_iff: "uses fcs fid cid \<longleftrightarrow> (\<exists>r \<in> set fcs. fc_file r = fid \<and> fc_chunk r = cid)"
  by (simp add: uses_def list_ex_iff)

text \<open>The number of kept files that use a chunk.\<close>

definition refs :: "file_row list \<Rightarrow> file_chunk_row list \<Rightarrow> string \<Rightarrow> nat" where
  "refs fs fcs cid = length (filter (\<lambda>f. kept f \<and> uses fcs (f_id f) cid) fs)"

definition db_ok :: "file_row list \<Rightarrow> chunk_row list \<Rightarrow> file_chunk_row list \<Rightarrow> bool" where
  "db_ok fs cs fcs \<longleftrightarrow>
     distinct (map f_id fs) \<and> distinct (map c_id cs) \<and> distinct (map c_hash cs) \<and>
     (\<forall>r \<in> set fcs. fc_file r \<in> f_id ` set fs \<and> fc_chunk r \<in> c_id ` set cs) \<and>
     (\<forall>c \<in> set cs. int (refs fs fcs (c_id c)) \<le> c_refs c)"

lemma db_okI:
  "\<lbrakk>distinct (map f_id fs); distinct (map c_id cs); distinct (map c_hash cs);
    \<And>r. r \<in> set fcs \<Longrightarrow> fc_file r \<in> f_id ` set fs;
    \<And>r. r \<in> set fcs \<Longrightarrow> fc_chunk r \<in> c_id ` set cs;
    \<And>c. c \<in> set cs \<Longrightarrow> int (refs fs fcs (c_id c)) \<le> c_refs c\<rbrakk> \<Longrightarrow> db_ok fs cs fcs"
  by (simp add: db_ok_def)

lemma db_okD:
  assumes "db_ok fs cs fcs"
  shows "distinct (map f_id fs)" "distinct (map c_id cs)" "distinct (map c_hash cs)"
    "r \<in> set fcs \<Longrightarrow> fc_file r \<in> f_id ` set fs" "r \<in> set fcs \<Longrightarrow> fc_chunk r \<in> c_id ` set cs"
    "c \<in> set cs \<Longrightarrow> int (refs fs fcs (c_id c)) \<le> c_refs c"
  using assms by (simp_all add: db_ok_def)

text \<open>A chunk with a reference to spare: one may be taken, or one more file may use it.\<close>

definition spare :: "file_row list \<Rightarrow> chunk_row list \<Rightarrow> file_chunk_row list \<Rightarrow> string \<Rightarrow> bool" where
  "spare fs cs fcs h \<longleftrightarrow> (\<forall>c \<in> set cs. c_hash c = h \<longrightarrow> int (refs fs fcs (c_id c)) + 1 \<le> c_refs c)"

lemma length_filter_less:
  "\<lbrakk>\<And>x. x \<in> set xs \<Longrightarrow> P x \<Longrightarrow> Q x; x0 \<in> set xs; Q x0; \<not> P x0\<rbrakk> \<Longrightarrow>
   length (filter P xs) < length (filter Q xs)"
proof (induction xs)
  case (Cons x xs)
  have le: "length (filter P xs) \<le> length (filter Q xs)"
    by (rule length_filter_mono) (simp add: Cons.prems(1))
  show ?case
  proof (cases "x = x0")
    case True
    then show ?thesis using Cons.prems le by simp
  next
    case False
    then have "length (filter P xs) < length (filter Q xs)"
      using Cons.prems by (intro Cons.IH) auto
    then show ?thesis using Cons.prems(1) [of x] by auto
  qed
qed simp

lemma refs_map_le:
  assumes "\<And>f. f \<in> set fs \<Longrightarrow> f_id (g f) = f_id f" "\<And>f. f \<in> set fs \<Longrightarrow> kept (g f) \<Longrightarrow> kept f"
  shows "refs (map g fs) fcs cid \<le> refs fs fcs cid"
  unfolding refs_def length_filter_map_comp comp_def
  by (rule length_filter_mono) (use assms in auto)

lemma refs_map_less:
  assumes "\<And>f. f \<in> set fs \<Longrightarrow> f_id (g f) = f_id f" "\<And>f. f \<in> set fs \<Longrightarrow> kept (g f) \<Longrightarrow> kept f"
    and "f0 \<in> set fs" "kept f0" "uses fcs (f_id f0) cid" "\<not> kept (g f0)"
  shows "refs (map g fs) fcs cid < refs fs fcs cid"
  unfolding refs_def length_filter_map_comp comp_def
  by (rule length_filter_less [of _ _ _ f0]) (use assms in auto)

lemma refs_zero_iff: "refs fs fcs cid = 0 \<longleftrightarrow> (\<forall>f \<in> set fs. kept f \<longrightarrow> \<not> uses fcs (f_id f) cid)"
  by (auto simp: refs_def filter_empty_conv)

lemma refs_append_unused:
  "(\<And>r. r \<in> set fcs \<Longrightarrow> fc_file r \<noteq> f_id f) \<Longrightarrow> refs (fs @ [f]) fcs cid = refs fs fcs cid"
  by (auto simp: refs_def uses_iff)

lemma refs_unused_chunk: "(\<And>r. r \<in> set fcs \<Longrightarrow> fc_chunk r \<noteq> cid) \<Longrightarrow> refs fs fcs cid = 0"
  by (auto simp: refs_zero_iff uses_iff)

lemma length_filter_add_one:
  "distinct (map k xs) \<Longrightarrow> (\<And>x. x \<in> set xs \<Longrightarrow> Q x \<Longrightarrow> k x \<noteq> a \<Longrightarrow> P x) \<Longrightarrow>
   length (filter Q xs) \<le> Suc (length (filter P xs))"
proof (induction xs)
  case (Cons x xs)
  show ?case
  proof (cases "k x = a")
    case True
    have "k y \<noteq> a" if "y \<in> set xs" for y
      using Cons.prems(1) True that by (metis distinct.simps(2) image_eqI list.set_map list.simps(9))
    then have "length (filter Q xs) \<le> length (filter P xs)"
      using Cons.prems(2) by (intro length_filter_mono) auto
    then show ?thesis by simp
  next
    case False
    then show ?thesis using Cons.prems Cons.IH by auto
  qed
qed simp

text \<open>The rows of one more file add at most one use, and only of their chunks.\<close>

lemma refs_add_rows:
  assumes "distinct (map f_id fs)" "\<And>r. r \<in> set new \<Longrightarrow> fc_file r = fid"
  shows "refs fs (fcs @ new) cid \<le> refs fs fcs cid + (if cid \<in> fc_chunk ` set new then 1 else 0)"
proof (cases "cid \<in> fc_chunk ` set new")
  case True
  have "length (filter (\<lambda>f. kept f \<and> uses (fcs @ new) (f_id f) cid) fs) \<le>
        Suc (length (filter (\<lambda>f. kept f \<and> uses fcs (f_id f) cid) fs))"
    by (rule length_filter_add_one [OF assms(1), where a = fid]) (use assms(2) in \<open>auto simp: uses_iff\<close>)
  with True show ?thesis by (simp add: refs_def)
next
  case False
  then have "length (filter (\<lambda>f. kept f \<and> uses (fcs @ new) (f_id f) cid) fs) \<le>
        length (filter (\<lambda>f. kept f \<and> uses fcs (f_id f) cid) fs)"
    by (intro length_filter_mono) (auto simp: uses_iff)
  with False show ?thesis by (simp add: refs_def)
qed

lemma refs_filter_rows: "refs fs (filter P fcs) cid \<le> refs fs fcs cid"
  unfolding refs_def by (rule length_filter_mono) (auto simp: uses_iff)

section \<open>What the statements do to the tables\<close>

lemma db_ok_files_map:
  assumes "db_ok fs cs fcs" "\<And>f. f \<in> set fs \<Longrightarrow> f_id (g f) = f_id f" "\<And>f. f \<in> set fs \<Longrightarrow> kept (g f) \<Longrightarrow> kept f"
  shows "db_ok (map g fs) cs fcs"
proof -
  have "map f_id (map g fs) = map f_id fs" using assms(2) by simp
  moreover from this have "f_id ` set (map g fs) = f_id ` set fs" by (metis list.set_map)
  moreover have "int (refs (map g fs) fcs cid) \<le> int (refs fs fcs cid)" for cid
    using refs_map_le [of fs g] assms(2,3) by simp
  ultimately show ?thesis
    using assms(1) unfolding db_ok_def by (metis (no_types, lifting) order_trans)
qed

lemma db_ok_insert_file:
  assumes "db_ok fs cs fcs" "f_id f \<notin> f_id ` set fs"
  shows "db_ok (fs @ [f]) cs fcs"
proof -
  have "\<And>r. r \<in> set fcs \<Longrightarrow> fc_file r \<noteq> f_id f" using db_okD(4) [OF assms(1)] assms(2) by metis
  then have "refs (fs @ [f]) fcs cid = refs fs fcs cid" for cid
    by (rule refs_append_unused)
  then show ?thesis using assms by (auto simp: db_ok_def)
qed

text \<open>Changes of the chunk rows that keep who they are and do not lower the counts too far.\<close>

definition same_chunk :: "(chunk_row \<Rightarrow> chunk_row) \<Rightarrow> bool" where
  "same_chunk g \<longleftrightarrow> (\<forall>c. c_id (g c) = c_id c \<and> c_hash (g c) = c_hash c \<and> c_size (g c) = c_size c)"

lemma same_chunk_map:
  assumes "same_chunk g"
  shows "map c_id (map g cs) = map c_id cs" "map c_hash (map g cs) = map c_hash cs"
    "c_id ` set (map g cs) = c_id ` set cs"
  using assms by (auto simp: same_chunk_def image_image)

lemma db_ok_chunks_map:
  assumes "db_ok fs cs fcs" "same_chunk g"
    "\<And>c. c \<in> set cs \<Longrightarrow> int (refs fs fcs (c_id c)) \<le> c_refs (g c)"
  shows "db_ok fs (map g cs) fcs"
proof (rule db_okI)
  show "distinct (map f_id fs)" by (rule db_okD(1) [OF assms(1)])
  show "distinct (map c_id (map g cs))" "distinct (map c_hash (map g cs))"
    using db_okD(2,3) [OF assms(1)] same_chunk_map [OF assms(2), of cs] by metis+
  show "fc_file r \<in> f_id ` set fs" if "r \<in> set fcs" for r by (rule db_okD(4) [OF assms(1) that])
  show "fc_chunk r \<in> c_id ` set (map g cs)" if "r \<in> set fcs" for r
    using db_okD(5) [OF assms(1) that] same_chunk_map [OF assms(2), of cs] by metis
  show "int (refs fs fcs (c_id c)) \<le> c_refs c" if "c \<in> set (map g cs)" for c
    using assms(2,3) that by (auto simp: same_chunk_def)
qed

lemma db_ok_insert_chunk:
  assumes "db_ok fs cs fcs" "c_id c \<notin> c_id ` set cs" "c_hash c \<notin> c_hash ` set cs" "0 \<le> c_refs c"
  shows "db_ok fs (cs @ [c]) fcs"
proof -
  have "refs fs fcs (c_id c) = 0"
    using db_okD(5) [OF assms(1)] assms(2) by (intro refs_unused_chunk) metis
  then show ?thesis using assms by (auto simp: db_ok_def)
qed

text \<open>The rows of a manifest: those of a new file, for chunks with a reference to spare.\<close>

lemma db_ok_insert_rows:
  assumes "db_ok fs cs fcs" "fid \<in> f_id ` set fs"
    "\<And>r. r \<in> set new \<Longrightarrow> fc_file r = fid \<and> (\<exists>c \<in> set cs. c_id c = fc_chunk r \<and> spare fs cs fcs (c_hash c))"
  shows "db_ok fs cs (fcs @ new)"
proof -
  have "int (refs fs (fcs @ new) (c_id c)) \<le> c_refs c" if c: "c \<in> set cs" for c
  proof -
    have le: "refs fs (fcs @ new) (c_id c) \<le> refs fs fcs (c_id c) + (if c_id c \<in> fc_chunk ` set new then 1 else 0)"
      by (rule refs_add_rows [of _ _ fid]) (use assms(1,3) in \<open>auto simp: db_ok_def\<close>)
    show ?thesis
    proof (cases "c_id c \<in> fc_chunk ` set new")
      case True
      then obtain c' where c': "c' \<in> set cs" "c_id c' = c_id c" "spare fs cs fcs (c_hash c')"
        using assms(3) by force
      then have "c' = c" using assms(1) c by (auto simp: db_ok_def distinct_map dest: inj_onD)
      then have "int (refs fs fcs (c_id c)) + 1 \<le> c_refs c" using c' c by (auto simp: spare_def)
      then show ?thesis using le True by simp
    next
      case False
      then show ?thesis using le assms(1) c by (force simp: db_ok_def)
    qed
  qed
  then show ?thesis using assms by (force simp: db_ok_def)
qed

lemma db_ok_filter_rows:
  assumes "db_ok fs cs fcs" shows "db_ok fs cs (filter P fcs)"
proof (rule db_okI)
  show "int (refs fs (filter P fcs) (c_id c)) \<le> c_refs c" if "c \<in> set cs" for c
    using db_okD(6) [OF assms that] refs_filter_rows [of fs P fcs "c_id c"] by linarith
qed (use db_okD [OF assms] in auto)

lemma db_ok_filter_chunks:
  assumes "db_ok fs cs fcs" "\<And>c r. c \<in> set cs \<Longrightarrow> \<not> P c \<Longrightarrow> r \<in> set fcs \<Longrightarrow> fc_chunk r \<noteq> c_id c"
  shows "db_ok fs (filter P cs) fcs"
proof (rule db_okI)
  show "fc_chunk r \<in> c_id ` set (filter P cs)" if r: "r \<in> set fcs" for r
  proof -
    obtain c where "c \<in> set cs" "fc_chunk r = c_id c" using db_okD(5) [OF assms(1) r] by blast
    moreover from this have "P c" using assms(2) r by metis
    ultimately show ?thesis by auto
  qed
qed (use db_okD [OF assms(1)] in \<open>auto simp: distinct_map_filter\<close>)

section \<open>The manifest of a file\<close>

abbreviation mrows :: "world \<Rightarrow> string \<Rightarrow> manifest_entry list" where
  "mrows w fid \<equiv> manifest_rows (chunks w) (file_chunks w) fid"

lemma mrows_member:
  assumes "m \<in> set (manifest_rows cs fcs fid)"
  shows "\<exists>r \<in> set fcs. \<exists>c \<in> set cs. fc_file r = fid \<and> c_id c = fc_chunk r \<and> c_hash c = me_hash m"
proof -
  obtain r where "r \<in> set fcs" "fc_file r = fid" "m \<in> set (chunk_entries cs r)"
    using assms by (auto simp: manifest_rows_def)
  moreover from this obtain c where "c \<in> set cs" "c_id c = fc_chunk r" "c_hash c = me_hash m"
    by (auto simp: chunk_entries_def)
  ultimately show ?thesis by blast
qed

lemma manifest_rows_cong:
  assumes "\<And>r. r \<in> set fcs \<Longrightarrow> fc_file r = fid \<Longrightarrow> chunk_entries cs' r = chunk_entries cs r"
  shows "manifest_rows cs' fcs fid = manifest_rows cs fcs fid"
proof -
  have "map (chunk_entries cs') (filter (\<lambda>r. fc_file r = fid) fcs) =
        map (chunk_entries cs) (filter (\<lambda>r. fc_file r = fid) fcs)"
    using assms by simp
  then show ?thesis unfolding manifest_rows_def by (rule arg_cong)
qed

lemma manifest_rows_same:
  assumes "same_chunk g" shows "manifest_rows (map g cs) fcs fid = manifest_rows cs fcs fid"
proof (rule manifest_rows_cong)
  fix r show "chunk_entries (map g cs) r = chunk_entries cs r"
    unfolding chunk_entries_def using assms by (induction cs) (auto simp: same_chunk_def)
qed

lemma manifest_rows_filter_chunks:
  assumes "\<And>r c. r \<in> set fcs \<Longrightarrow> fc_file r = fid \<Longrightarrow> c \<in> set cs \<Longrightarrow> c_id c = fc_chunk r \<Longrightarrow> P c"
  shows "manifest_rows (filter P cs) fcs fid = manifest_rows cs fcs fid"
proof (rule manifest_rows_cong)
  fix r assume "r \<in> set fcs" "fc_file r = fid"
  then have "filter (\<lambda>c. P c \<and> c_id c = fc_chunk r) cs = filter (\<lambda>c. c_id c = fc_chunk r) cs"
    using assms by (intro filter_cong) auto
  then show "chunk_entries (filter P cs) r = chunk_entries cs r"
    by (simp add: chunk_entries_def)
qed

lemma manifest_rows_new_chunk:
  assumes "\<And>r. r \<in> set fcs \<Longrightarrow> fc_chunk r \<noteq> c_id c"
  shows "manifest_rows (cs @ [c]) fcs fid = manifest_rows cs fcs fid"
proof (rule manifest_rows_cong)
  fix r assume "r \<in> set fcs"
  then have "c_id c \<noteq> fc_chunk r" using assms by metis
  then show "chunk_entries (cs @ [c]) r = chunk_entries cs r" by (simp add: chunk_entries_def)
qed

lemma manifest_rows_other_rows:
  "(\<And>r. r \<in> set new \<Longrightarrow> fc_file r \<noteq> fid) \<Longrightarrow> manifest_rows cs (fcs @ new) fid = manifest_rows cs fcs fid"
  by (simp add: manifest_rows_def)

lemma manifest_rows_filter_rows:
  assumes "\<And>r. r \<in> set fcs \<Longrightarrow> fc_file r = fid \<Longrightarrow> P r"
  shows "manifest_rows cs (filter P fcs) fid = manifest_rows cs fcs fid"
proof -
  have "filter (\<lambda>r. fc_file r = fid) (filter P fcs) = filter (\<lambda>r. fc_file r = fid) fcs"
    unfolding filter_filter using assms by (intro filter_cong) auto
  then show ?thesis by (simp add: manifest_rows_def del: filter_filter)
qed

lemma manifest_rows_none: "(\<And>r. r \<in> set fcs \<Longrightarrow> fc_file r \<noteq> fid) \<Longrightarrow> manifest_rows cs fcs fid = []"
  by (simp add: manifest_rows_def)

section \<open>The invariant\<close>

text \<open>
  \<open>G\<close> records what was uploaded as which file.  A kept file's manifest names stored objects, and
  their concatenation is what was uploaded.
\<close>

definition reads_as :: "minio_store \<Rightarrow> world \<Rightarrow> string \<Rightarrow> byte list list \<Rightarrow> bool" where
  "reads_as s w fid ds \<longleftrightarrow> map (\<lambda>m. stored s w (me_hash m)) (mrows w fid) = map Some ds"

definition file_good :: "minio_store \<Rightarrow> (string \<Rightarrow> byte list option) \<Rightarrow> world \<Rightarrow> string \<Rightarrow> bool" where
  "file_good s G w fid \<longleftrightarrow> (\<exists>ds. reads_as s w fid ds \<and> (\<forall>d. G fid = Some d \<longrightarrow> concat ds = d))"

definition sys_ok :: "byte list set \<Rightarrow> minio_store \<Rightarrow> (string \<Rightarrow> byte list option) \<Rightarrow> world \<Rightarrow> bool" where
  "sys_ok U s G w \<longleftrightarrow>
     db_ok (files w) (chunks w) (file_chunks w) \<and> store_ok U s w \<and> dom G \<subseteq> f_id ` set (files w) \<and>
     (\<forall>f \<in> set (files w). kept f \<longrightarrow> file_good s G w (f_id f))"

abbreviation db_of :: "world \<Rightarrow> bool" where
  "db_of w \<equiv> db_ok (files w) (chunks w) (file_chunks w)"

definition spare_in :: "world \<Rightarrow> string \<Rightarrow> bool" where
  "spare_in w h \<longleftrightarrow> spare (files w) (chunks w) (file_chunks w) h"

abbreviation refs_in :: "world \<Rightarrow> string \<Rightarrow> nat" where
  "refs_in w \<equiv> refs (files w) (file_chunks w)"

lemma sys_okD:
  assumes "sys_ok U s G w"
  shows "db_of w" "store_ok U s w" "dom G \<subseteq> f_id ` set (files w)"
    "f \<in> set (files w) \<Longrightarrow> kept f \<Longrightarrow> file_good s G w (f_id f)"
  using assms by (simp_all add: sys_ok_def)

lemma stored_durable: "durable w' = durable w \<Longrightarrow> stored s w' = stored s w"
  by (simp add: stored_def fun_eq_iff durable_eqD(6) [of w' w])

lemma sys_ok_durable:
  assumes "sys_ok U s G w" "durable w' = durable w" shows "sys_ok U s G w'"
  using assms stored_durable [OF assms(2), of s] durable_eqD [OF assms(2)]
    store_ok_cong [OF stored_durable [OF assms(2)], of U]
  by (simp add: sys_ok_def file_good_def reads_as_def)

lemma ignores_sys_ok [simp]: "ignores_calls (sys_ok U s G)"
  by (auto simp: ignores_calls_def intro: sys_ok_durable)

text \<open>A change that leaves the manifests and the objects of the kept files alone.\<close>

lemma sys_ok_step:
  assumes ok: "sys_ok U s G w" and db: "db_of w'" and st: "store_ok U s w'"
    and G: "f_id ` set (files w) \<subseteq> f_id ` set (files w')"
    and kept: "\<And>f'. f' \<in> set (files w') \<Longrightarrow> kept f' \<Longrightarrow> \<exists>f \<in> set (files w). kept f \<and> f_id f = f_id f'"
    and rows: "\<And>f. f \<in> set (files w) \<Longrightarrow> kept f \<Longrightarrow> mrows w' (f_id f) = mrows w (f_id f)"
    and objs: "\<And>f m. f \<in> set (files w) \<Longrightarrow> kept f \<Longrightarrow> m \<in> set (mrows w (f_id f)) \<Longrightarrow>
      stored s w' (me_hash m) = stored s w (me_hash m)"
  shows "sys_ok U s G w'"
proof -
  have "file_good s G w' (f_id f')" if f': "f' \<in> set (files w')" "kept f'" for f'
  proof -
    obtain f where f: "f \<in> set (files w)" "kept f" "f_id f = f_id f'" using kept [OF f'] by blast
    have eq: "map (\<lambda>m. stored s w' (me_hash m)) (mrows w (f_id f)) = map (\<lambda>m. stored s w (me_hash m)) (mrows w (f_id f))"
      by (rule map_cong) (use objs [OF f(1,2)] in simp_all)
    have "reads_as s w' (f_id f) ds = reads_as s w (f_id f) ds" for ds
      by (simp only: reads_as_def rows [OF f(1,2)] eq)
    then show ?thesis using sys_okD(4) [OF ok f(1,2)] f(3) by (simp add: file_good_def)
  qed
  then show ?thesis using db st G sys_okD(3) [OF ok] by (auto simp: sys_ok_def)
qed

section \<open>Files\<close>

lemma stored_tables [simp]:
  "stored s (w\<lparr>files := a\<rparr>) = stored s w" "stored s (w\<lparr>chunks := b\<rparr>) = stored s w"
  "stored s (w\<lparr>file_chunks := c\<rparr>) = stored s w" "stored s (w\<lparr>users := d\<rparr>) = stored s w"
  by (simp_all add: stored_def fun_eq_iff)

lemma store_ok_tables [simp]:
  "store_ok U s (w\<lparr>files := a\<rparr>) = store_ok U s w" "store_ok U s (w\<lparr>chunks := b\<rparr>) = store_ok U s w"
  "store_ok U s (w\<lparr>file_chunks := c\<rparr>) = store_ok U s w" "store_ok U s (w\<lparr>users := d\<rparr>) = store_ok U s w"
  "store_ok U s (w\<lparr>calls := n\<rparr>) = store_ok U s w"
  by (rule store_ok_cong, simp)+

lemma sys_ok_users [simp]: "sys_ok U s G (w\<lparr>users := us\<rparr>) = sys_ok U s G w"
  by (simp add: sys_ok_def file_good_def reads_as_def)

lemma sys_ok_files_map:
  assumes "sys_ok U s G w" "\<And>f. f_id (g f) = f_id f" "\<And>f. f \<in> set (files w) \<Longrightarrow> kept (g f) \<Longrightarrow> kept f"
  shows "sys_ok U s G (w\<lparr>files := map g (files w)\<rparr>)"
proof (rule sys_ok_step [OF assms(1)])
  show "db_of (w\<lparr>files := map g (files w)\<rparr>)"
    using db_ok_files_map [OF sys_okD(1) [OF assms(1)]] assms(2,3) by simp
  show "store_ok U s (w\<lparr>files := map g (files w)\<rparr>)" using sys_okD(2) [OF assms(1)] by simp
  show "\<exists>f \<in> set (files w). kept f \<and> f_id f = f_id f'"
    if "f' \<in> set (files (w\<lparr>files := map g (files w)\<rparr>))" "kept f'" for f'
  proof -
    from that obtain x where "x \<in> set (files w)" "f' = g x" by auto
    with assms(2,3) that(2) show ?thesis by (intro bexI [of _ x]) auto
  qed
qed (use assms(2) in \<open>auto simp: image_image\<close>)

lemma sys_ok_insert_file:
  assumes "sys_ok U s G w" "f_id f \<notin> f_id ` set (files w)"
  shows "sys_ok U s G (w\<lparr>files := files w @ [f]\<rparr>)"
proof -
  let ?w = "w\<lparr>files := files w @ [f]\<rparr>"
  have none: "\<And>r. r \<in> set (file_chunks w) \<Longrightarrow> fc_file r \<noteq> f_id f"
    using db_okD(4) [OF sys_okD(1) [OF assms(1)]] assms(2) by metis
  have "G (f_id f) = None" using sys_okD(3) [OF assms(1)] assms(2) by (auto simp: dom_def)
  then have "file_good s G ?w (f_id f)"
    using manifest_rows_none [OF none] by (auto simp: file_good_def reads_as_def intro: exI [of _ "[]"])
  moreover have "file_good s G ?w (f_id g)" if "g \<in> set (files w)" "kept g" for g
    using sys_okD(4) [OF assms(1) that] by (simp add: file_good_def reads_as_def)
  ultimately show ?thesis
    using db_ok_insert_file [OF sys_okD(1) [OF assms(1)] assms(2)] sys_okD(2,3) [OF assms(1)]
    by (auto simp: sys_ok_def)
qed

lemma insert_file_ok: "sys_ok U s G w \<Longrightarrow> sys_ok U s G (snd (insert_file e row w))"
  unfolding insert_file_def
  by (rule ext_keeps) (auto simp: Let_def list_ex_iff intro!: sys_ok_insert_file)

lemma CreateFile_ok: "sys_ok U s G w \<Longrightarrow> sys_ok U s G (snd (CreateFile e p w))"
  by (simp add: CreateFile_def insert_file_ok)

lemma CreateFileWithVersion_ok: "sys_ok U s G w \<Longrightarrow> sys_ok U s G (snd (CreateFileWithVersion e p q n w))"
  by (simp add: CreateFileWithVersion_def insert_file_ok)

lemma CreateDirectory_ok: "sys_ok U s G w \<Longrightarrow> sys_ok U s G (snd (CreateDirectory e u n p w))"
  by (simp add: CreateDirectory_def insert_file_ok)

lemma kept_upd [simp]: "kept (f\<lparr>f_updated := t\<rparr>) = kept f" "kept (f\<lparr>f_parent := q\<rparr>) = kept f"
  "kept (f\<lparr>f_status := st\<rparr>) = kept_status st"
  by (simp_all add: kept_def)

lemma kept_status_simps [simp]:
  "\<not> kept_status FileStatusDeleted" "kept_status FileStatusActive" "kept_status FileStatusSuperseded"
  by (simp_all add: kept_status_def)

lemma kept_active [simp]: "f_status f = FileStatusActive \<Longrightarrow> kept f"
  by (simp add: kept_def)

lemma update_files_ok:
  assumes "sys_ok U s G w" "\<And>f. f_id (g f) = f_id f"
    "\<And>f. f \<in> set (files w) \<Longrightarrow> P f \<Longrightarrow> kept (g f) \<Longrightarrow> kept f"
  shows "sys_ok U s G (snd (update_files e P g w))"
proof -
  have "sys_ok U s G (w\<lparr>calls := n, files := map (\<lambda>f. if P f then (g f)\<lparr>f_updated := t\<rparr> else f) (files w)\<rparr>)" for n t
  proof -
    let ?g = "\<lambda>f. if P f then (g f)\<lparr>f_updated := t\<rparr> else f"
    have "sys_ok U s G ((w\<lparr>calls := n\<rparr>)\<lparr>files := map ?g (files (w\<lparr>calls := n\<rparr>))\<rparr>)"
      by (rule sys_ok_files_map) (use assms in \<open>auto split: if_splits\<close>)
    then show ?thesis by simp
  qed
  moreover have "sys_ok U s G (w\<lparr>calls := n\<rparr>)" for n using assms(1) by simp
  ultimately show ?thesis
    by (auto simp: update_files_def ext_def Let_def split: outcome.splits)
qed

lemma SoftDeleteFile_ok: "sys_ok U s G w \<Longrightarrow> sys_ok U s G (snd (SoftDeleteFile e u fid w))"
  unfolding SoftDeleteFile_def affected_snd with_err_snd by (rule update_files_ok) auto

lemma UpdateFileStatus_ok:
  assumes "sys_ok U s G w" "kept_status st \<Longrightarrow> \<forall>f \<in> set (files w). f_id f = fid \<longrightarrow> kept f"
  shows "sys_ok U s G (snd (UpdateFileStatus e fid st w))"
  unfolding UpdateFileStatus_def affected_snd with_err_snd
  by (rule update_files_ok [OF assms(1)]) (use assms(2) in auto)

lemma repo_MoveFile_ok: "sys_ok U s G w \<Longrightarrow> sys_ok U s G (snd (MoveFile e u fid np w))"
proof -
  assume ok: "sys_ok U s G w"
  have *: "sys_ok U s G (v\<lparr>files := map (\<lambda>f. if P f then f\<lparr>f_parent := q, f_updated := t\<rparr> else f) (files v)\<rparr>)"
    if "sys_ok U s G v" for v t P q
    by (rule sys_ok_files_map [OF that]) (auto split: if_splits)
  show ?thesis
    unfolding MoveFile_def affected_snd with_err_snd move_stmt_def Let_def
    by (rule ext_keeps [where P = "sys_ok U s G"]) (simp_all add: * ok)
qed

section \<open>Chunks\<close>

lemma sys_ok_chunks_map:
  assumes "sys_ok U s G w" "same_chunk g"
    "\<And>c. c \<in> set (chunks w) \<Longrightarrow> int (refs_in w (c_id c)) \<le> c_refs (g c)"
  shows "sys_ok U s G (w\<lparr>chunks := map g (chunks w)\<rparr>)"
proof (rule sys_ok_step [OF assms(1)])
  show "db_of (w\<lparr>chunks := map g (chunks w)\<rparr>)"
    using db_ok_chunks_map [OF sys_okD(1) [OF assms(1)] assms(2,3)] by simp
  show "store_ok U s (w\<lparr>chunks := map g (chunks w)\<rparr>)" using sys_okD(2) [OF assms(1)] by simp
qed (use manifest_rows_same [OF assms(2)] in auto)

lemma sys_ok_insert_chunk:
  assumes "sys_ok U s G w" "c_id c \<notin> c_id ` set (chunks w)" "c_hash c \<notin> c_hash ` set (chunks w)" "0 \<le> c_refs c"
  shows "sys_ok U s G (w\<lparr>chunks := chunks w @ [c]\<rparr>)"
proof (rule sys_ok_step [OF assms(1)])
  have "fc_chunk r \<noteq> c_id c" if "r \<in> set (file_chunks w)" for r
    using db_okD(5) [OF sys_okD(1) [OF assms(1)] that] assms(2) by metis
  then show "mrows (w\<lparr>chunks := chunks w @ [c]\<rparr>) (f_id f) = mrows w (f_id f)" for f :: file_row
    by (simp add: manifest_rows_new_chunk)
  show "db_of (w\<lparr>chunks := chunks w @ [c]\<rparr>)"
    using db_ok_insert_chunk [OF sys_okD(1) [OF assms(1)] assms(2-4)] by simp
  show "store_ok U s (w\<lparr>chunks := chunks w @ [c]\<rparr>)" using sys_okD(2) [OF assms(1)] by simp
qed auto

lemma sys_ok_calls [simp]: "sys_ok U s G (w\<lparr>calls := n\<rparr>) = sys_ok U s G w"
  using ignores_sys_ok unfolding ignores_calls_def by blast

text \<open>Taking a reference where one is to spare.\<close>

lemma same_chunk_refs [simp]: "same_chunk (\<lambda>c. if P c then c\<lparr>c_refs := k c\<rparr> else c)"
  by (simp add: same_chunk_def)

lemma DecrementRefCounts_ok:
  assumes "sys_ok U s G w" "\<And>h. h \<in> set hs \<Longrightarrow> spare_in w h"
  shows "sys_ok U s G (snd (DecrementRefCounts e hs w))"
proof -
  have "sys_ok U s G (v\<lparr>chunks := map (\<lambda>c. if decrementable hs c then c\<lparr>c_refs := c_refs c - 1\<rparr> else c) (chunks v)\<rparr>)"
    if v: "sys_ok U s G v" "tables v = tables w" for v
  proof (rule sys_ok_chunks_map [OF v(1)])
    fix c assume c: "c \<in> set (chunks v)"
    have t: "files v = files w" "chunks v = chunks w" "file_chunks v = file_chunks w"
      using tables_eqD [OF v(2)] by auto
    have "int (refs_in v (c_id c)) + 1 \<le> c_refs c" if "c_hash c \<in> set hs"
      using assms(2) [OF that] c by (simp add: spare_in_def spare_def t)
    then show "int (refs_in v (c_id c)) \<le> c_refs (if decrementable hs c then c\<lparr>c_refs := c_refs c - 1\<rparr> else c)"
      using db_okD(6) [OF sys_okD(1) [OF v(1)] c] by (auto simp: decrementable_def)
  qed simp
  then show ?thesis
    using assms(1) by (auto simp: DecrementRefCounts_def ext_def Let_def tables_def split: outcome.splits)
qed

text \<open>A hash that no kept file uses.\<close>

definition free_in :: "world \<Rightarrow> string \<Rightarrow> bool" where
  "free_in w h \<longleftrightarrow> (\<forall>c \<in> set (chunks w). c_hash c = h \<longrightarrow> refs_in w (c_id c) = 0)"

lemma DecrementRefCounts_orphans:
  assumes "sys_ok U s G w" "\<And>h. h \<in> set hs \<Longrightarrow> spare_in w h"
    "DecrementRefCounts e hs w = (Inr orphaned, w')" "h \<in> set orphaned"
  shows "free_in w' h"
proof -
  have ok: "sys_ok U s G w'" using DecrementRefCounts_ok [of U s G w hs e] assms(1-3) by simp
  from assms(3) have w': "chunks w' = map (\<lambda>c. if decrementable hs c then c\<lparr>c_refs := c_refs c - 1\<rparr> else c) (chunks w)"
    and orph: "orphaned = map c_hash (filter (\<lambda>c. c_refs c - 1 = 0)
        (rows e (Suc (calls w)) (filter (decrementable hs) (chunks w))))"
    by (auto simp: DecrementRefCounts_def Let_def dest!: ext_InrD)
  obtain c where c0: "c \<in> set (rows e (Suc (calls w)) (filter (decrementable hs) (chunks w)))" "c_hash c = h" "c_refs c = 1"
    using assms(4) unfolding orph by auto
  then have "c \<in> set (filter (decrementable hs) (chunks w))"
    using set_rows by (metis subsetD)
  then have c: "c \<in> set (chunks w)" "c_hash c = h" "decrementable hs c" "c_refs c = 1"
    using c0 by auto
  show ?thesis
    unfolding free_in_def
  proof (intro ballI impI)
    fix d assume d: "d \<in> set (chunks w')" "c_hash d = h"
    then obtain d0 where d0: "d0 \<in> set (chunks w)" "c_hash d0 = h"
      "d = (if decrementable hs d0 then d0\<lparr>c_refs := c_refs d0 - 1\<rparr> else d0)"
      by (auto simp: w' split: if_splits)
    have "d0 = c"
      using db_okD(3) [OF sys_okD(1) [OF assms(1)]] d0(1,2) c(1,2) by (auto simp: distinct_map dest: inj_onD)
    then have "c_refs d = 0" using d0(3) c by simp
    then show "refs_in w' (c_id d) = 0"
      using db_okD(6) [OF sys_okD(1) [OF ok] d(1)] by simp
  qed
qed

text \<open>The object under a free hash may go.\<close>

lemma sys_ok_delete_object:
  assumes ok: "sys_ok U s G w" and free: "free_in w h" and tab: "tables w' = tables w"
    and obj: "stored s w' = stored s w \<or> stored s w' = (stored s w)(h := None)"
  shows "sys_ok U s G w'"
proof (rule sys_ok_step [OF ok])
  have t: "files w' = files w" "chunks w' = chunks w" "file_chunks w' = file_chunks w"
    using tables_eqD [OF tab] by auto
  show "db_of w'" using sys_okD(1) [OF ok] by (simp add: t)
  show "store_ok U s w'"
    using sys_okD(2) [OF ok] obj by (auto simp: store_ok_def minio.all_objects_def split: if_splits)
  show "stored s w' (me_hash m) = stored s w (me_hash m)"
    if f: "f \<in> set (files w)" "kept f" and m: "m \<in> set (mrows w (f_id f))" for f m
  proof -
    obtain r c where rc: "r \<in> set (file_chunks w)" "c \<in> set (chunks w)" "fc_file r = f_id f"
      "c_id c = fc_chunk r" "c_hash c = me_hash m"
      using mrows_member [OF m] by blast
    then have "uses (file_chunks w) (f_id f) (c_id c)" by (auto simp: uses_iff)
    then have "refs_in w (c_id c) \<noteq> 0" using f by (auto simp: refs_zero_iff)
    then have "me_hash m \<noteq> h" using free rc by (auto simp: free_in_def)
    then show ?thesis using obj by auto
  qed
qed (use tables_eqD [OF tab] in auto)

lemma DeleteChunk_tables [simp]: "tables (snd (DeleteChunk e s h w)) = tables w"
proof -
  have "tables (snd (ext e (\<lambda>v. (Inr () :: unit result, v\<lparr>objects := (objects v)((st_bucket s, chunkKey h) := None)\<rparr>)) w)) = tables w"
    by (rule ext_tables) simp
  then show ?thesis by (simp add: DeleteChunk_def case_prod_beta split: sum.splits)
qed

lemma free_in_tables: "tables w' = tables w \<Longrightarrow> free_in w' h = free_in w h"
  using tables_eqD [of w' w] by (simp add: free_in_def)

lemma DeleteChunk_ok: "sys_ok U s G w \<Longrightarrow> free_in w h \<Longrightarrow> sys_ok U s G (snd (DeleteChunk e s h w))"
  using minio.del_any [of s e h w] by (rule sys_ok_delete_object [where h = h, rotated 3]) simp_all

lemma delete_loop_ok:
  "sys_ok U s G w \<Longrightarrow> (\<And>h. h \<in> set hs \<Longrightarrow> free_in w h) \<Longrightarrow>
   sys_ok U s G (snd (delete_loop e s hs a b w)) \<and> tables (snd (delete_loop e s hs a b w)) = tables w"
proof (induction hs arbitrary: a b w)
  case (Cons h hs)
  obtain r w1 where d: "DeleteChunk e s h w = (r, w1)" by force
  have w1: "sys_ok U s G w1" "tables w1 = tables w"
    using DeleteChunk_ok [OF Cons.prems(1), of h e] Cons.prems(2) DeleteChunk_tables [of e s h w] d by auto
  have "sys_ok U s G (snd (delete_loop e s hs a' b' w1)) \<and> tables (snd (delete_loop e s hs a' b' w1)) = tables w1" for a' b'
    by (rule Cons.IH [OF w1(1)]) (use Cons.prems(2) free_in_tables [OF w1(2)] in auto)
  then show ?case using d w1 by (cases r) auto
qed simp

lemma call_DeleteChunks_ok:
  assumes "sys_ok U (fs_store s) G w" "\<And>h. h \<in> set hs \<Longrightarrow> free_in w h"
  shows "sys_ok U (fs_store s) G (snd (call_DeleteChunks e s hs w))"
proof -
  have "free_in (w\<lparr>calls := n\<rparr>) h = free_in w h" for n h by (simp add: free_in_def)
  then have "sys_ok U (fs_store s) G (snd (DeleteChunks e (fs_store s) hs (w\<lparr>calls := n\<rparr>)))" for n
    using delete_loop_ok [of U "fs_store s" G "w\<lparr>calls := n\<rparr>" hs e 0 0] assms by (simp add: DeleteChunks_def)
  then show ?thesis
    using assms(1) by (cases "outcome_at e (calls w)") (auto simp: call_DeleteChunks_def ext_def)
qed

section \<open>Registering an upload\<close>

definition has_chunk :: "world \<Rightarrow> string \<Rightarrow> bool" where
  "has_chunk w h \<longleftrightarrow> h \<in> c_hash ` set (chunks w)"

text \<open>A step of the registration: more chunks, more references, nothing else of the files.\<close>

definition more_refs :: "world \<Rightarrow> world \<Rightarrow> bool" where
  "more_refs w w' \<longleftrightarrow>
     files w' = files w \<and> file_chunks w' = file_chunks w \<and> objects w' = objects w \<and>
     (\<forall>h. spare_in w h \<longrightarrow> spare_in w' h) \<and> (\<forall>h. has_chunk w h \<longrightarrow> has_chunk w' h)"

lemma more_refs_refl [simp]: "more_refs w w" "more_refs w (w\<lparr>calls := n\<rparr>)"
  by (simp_all add: more_refs_def has_chunk_def spare_in_def)

lemma more_refs_trans: "more_refs w w1 \<Longrightarrow> more_refs w1 w2 \<Longrightarrow> more_refs w w2"
  by (simp add: more_refs_def)

lemma upsert_existing:
  assumes ok: "sys_ok U s G v" and h: "h \<in> c_hash ` set (chunks v)"
  defines "v' \<equiv> v\<lparr>chunks := map (\<lambda>d. if c_hash d = h then d\<lparr>c_refs := c_refs d + 1\<rparr> else d) (chunks v)\<rparr>"
  shows "sys_ok U s G v' \<and> more_refs v v' \<and> spare_in v' h \<and> has_chunk v' h"
proof (intro conjI)
  show "sys_ok U s G v'"
    unfolding v'_def
  proof (rule sys_ok_chunks_map [OF ok])
    fix c assume "c \<in> set (chunks v)"
    from db_okD(6) [OF sys_okD(1) [OF ok] this]
    show "int (refs_in v (c_id c)) \<le> c_refs (if c_hash c = h then c\<lparr>c_refs := c_refs c + 1\<rparr> else c)"
      by simp
  qed simp
  have refs: "refs_in v' cid = refs_in v cid" for cid by (simp add: v'_def)
  have chunk: "\<exists>d \<in> set (chunks v). c_hash c = c_hash d \<and> c_id c = c_id d \<and> c_refs d \<le> c_refs c \<and>
      (c_hash d = h \<longrightarrow> c_refs c = c_refs d + 1)" if "c \<in> set (chunks v')" for c
    using that by (auto simp: v'_def)
  show "spare_in v' h"
    unfolding spare_in_def spare_def
  proof (intro ballI impI)
    fix c assume "c \<in> set (chunks v')" "c_hash c = h"
    with chunk obtain d where "d \<in> set (chunks v)" "c_id c = c_id d" "c_refs c = c_refs d + 1" by metis
    with db_okD(6) [OF sys_okD(1) [OF ok]] show "int (refs_in v' (c_id c)) + 1 \<le> c_refs c"
      by (simp add: refs)
  qed
  have "map c_hash (chunks v') = map c_hash (chunks v)"
    using same_chunk_map(2) [OF same_chunk_refs] by (simp only: v'_def world.simps world.update_convs) simp
  then have hashes: "c_hash ` set (chunks v') = c_hash ` set (chunks v)"
    by (metis list.set_map)
  show "has_chunk v' h" using h by (simp add: has_chunk_def hashes)
  have "spare_in v' h'" if "spare_in v h'" for h'
    unfolding spare_in_def spare_def
  proof (intro ballI impI)
    fix c assume "c \<in> set (chunks v')" "c_hash c = h'"
    with chunk obtain d where "d \<in> set (chunks v)" "c_hash d = h'" "c_id c = c_id d" "c_refs d \<le> c_refs c" by metis
    with that show "int (refs_in v' (c_id c)) + 1 \<le> c_refs c"
      by (fastforce simp: spare_in_def spare_def refs)
  qed
  then show "more_refs v v'" by (simp add: more_refs_def has_chunk_def hashes) (simp add: v'_def)
qed

lemma upsert_new:
  assumes ok: "sys_ok U s G v" and h: "h \<notin> c_hash ` set (chunks v)" and id: "c_id c \<notin> c_id ` set (chunks v)"
    and c: "c_hash c = h" "c_refs c = 1"
  defines "v' \<equiv> v\<lparr>chunks := chunks v @ [c]\<rparr>"
  shows "sys_ok U s G v' \<and> more_refs v v' \<and> spare_in v' h \<and> has_chunk v' h"
proof (intro conjI)
  show ok': "sys_ok U s G v'"
    unfolding v'_def by (rule sys_ok_insert_chunk [OF ok]) (use h id c in auto)
  have "refs_in v (c_id c) = 0"
    using db_okD(5) [OF sys_okD(1) [OF ok]] id by (intro refs_unused_chunk) metis
  then have new: "int (refs_in v' (c_id c)) + 1 \<le> c_refs c" using c by (simp add: v'_def)
  have sp: "spare_in v' h'" if "h' \<noteq> h \<longrightarrow> spare_in v h'" for h'
    unfolding spare_in_def spare_def
  proof (intro ballI impI)
    fix d assume d: "d \<in> set (chunks v')" "c_hash d = h'"
    show "int (refs_in v' (c_id d)) + 1 \<le> c_refs d"
    proof (cases "d = c")
      case True
      then show ?thesis using new by simp
    next
      case False
      then have "d \<in> set (chunks v)" using d by (simp add: v'_def)
      moreover from this have "h' \<noteq> h" using d h by auto
      ultimately show ?thesis using that d by (simp add: spare_in_def spare_def v'_def)
    qed
  qed
  show "spare_in v' h" by (rule sp) simp
  show "has_chunk v' h" using c by (simp add: has_chunk_def v'_def)
  show "more_refs v v'"
    using sp by (simp add: more_refs_def has_chunk_def) (simp add: v'_def)
qed

lemma first_row_hash:
  "first_row (\<lambda>c. c_hash c = h) cs = None \<longleftrightarrow> h \<notin> c_hash ` set cs"
  by (auto simp: first_row_None)

lemma UpsertChunk_ok:
  assumes ok: "sys_ok U s G w"
  shows "sys_ok U s G (snd (UpsertChunk e h n w)) \<and> more_refs w (snd (UpsertChunk e h n w)) \<and>
    (is_ok (fst (UpsertChunk e h n w)) \<longrightarrow>
       spare_in (snd (UpsertChunk e h n w)) h \<and> has_chunk (snd (UpsertChunk e h n w)) h)"
proof -
  define f :: "world \<Rightarrow> chunk_row result \<times> world" where "f = (\<lambda>v. case first_row (\<lambda>c. c_hash c = h) (chunks v) of
            Some c \<Rightarrow>
              if c_refs c + 1 > max_integer then (Inl ''integer out of range'', v)
              else (Inr (c\<lparr>c_refs := c_refs c + 1\<rparr>),
                    v\<lparr>chunks := map (\<lambda>d. if c_hash d = h then d\<lparr>c_refs := c_refs d + 1\<rparr> else d) (chunks v)\<rparr>)
          | None \<Rightarrow>
              (let c = new_chunk e h n (calls v) in
               if list_ex (\<lambda>d. c_id d = c_id c) (chunks v)
               then (Inl ''duplicate key value violates unique constraint'', v)
               else (Inr c, v\<lparr>chunks := chunks v @ [c]\<rparr>)))"
  have up: "UpsertChunk e h n w = with_err ''upsert chunk'' (ext e f w)"
    by (simp add: UpsertChunk_def f_def)
  let ?v = "w\<lparr>calls := Suc (calls w)\<rparr>"
  have okv: "sys_ok U s G ?v" using ok by simp
  have f: "sys_ok U s G (snd (f ?v)) \<and> more_refs ?v (snd (f ?v)) \<and>
      (is_ok (fst (f ?v)) \<longrightarrow> spare_in (snd (f ?v)) h \<and> has_chunk (snd (f ?v)) h)"
  proof (cases "first_row (\<lambda>c. c_hash c = h) (chunks ?v)")
    case None
    then have "h \<notin> c_hash ` set (chunks ?v)" by (simp add: first_row_hash)
    note new = upsert_new [OF okv this, of "new_chunk e h n (calls ?v)"]
    show ?thesis
    proof (cases "list_ex (\<lambda>d. c_id d = c_id (new_chunk e h n (calls ?v))) (chunks ?v)")
      case True
      then show ?thesis using None okv by (simp add: f_def Let_def)
    next
      case False
      then have "c_id (new_chunk e h n (calls ?v)) \<notin> c_id ` set (chunks ?v)" by (auto simp: list_ex_iff)
      from new [OF this] False None show ?thesis by (simp add: f_def Let_def)
    qed
  next
    case (Some c)
    then have "h \<in> c_hash ` set (chunks ?v)" using first_row_Some [OF Some] by auto
    from upsert_existing [OF okv this] show ?thesis
      using Some okv by (simp add: f_def)
  qed
  have m: "more_refs w w' = more_refs ?v w'" for w' by (simp add: more_refs_def has_chunk_def spare_in_def)
  have "fst (with_err p x) = Inr a \<longleftrightarrow> fst x = Inr a" for p and x :: "chunk_row result \<times> world" and a
    by (auto simp: with_err_def split: prod.splits sum.splits)
  then have isok: "is_ok (fst (with_err p x)) = is_ok (fst x)" for p and x :: "chunk_row result \<times> world"
    by (auto simp: with_err_def split: prod.splits sum.splits)
  show ?thesis
    unfolding up with_err_snd isok
    by (rule ext_cases [of e f w]) (use f okv m in \<open>auto simp: ext_def Let_def\<close>)
qed

lemma register_chunks_ok:
  assumes "sys_ok U s G w" "register_chunks e cs off w = (ms, failed, w')"
  shows "sys_ok U s G w' \<and> more_refs w w' \<and> map me_hash ms = map ci_hash cs \<and> map me_index ms = map ci_index cs \<and>
    (failed = 0 \<longrightarrow> (\<forall>h \<in> ci_hash ` set cs. spare_in w' h \<and> has_chunk w' h))"
  using assms
proof (induction cs arbitrary: off w ms failed w')
  case (Cons c cs)
  obtain r w1 where up: "UpsertChunk e (ci_hash c) (ci_size c) w = (r, w1)" by force
  obtain ms2 failed2 w2 where rest: "register_chunks e cs (i64 (off + ci_size c)) w1 = (ms2, failed2, w2)"
    by (cases "register_chunks e cs (i64 (off + ci_size c)) w1") auto
  have u: "sys_ok U s G w1" "more_refs w w1" "is_ok r \<longrightarrow> spare_in w1 (ci_hash c) \<and> has_chunk w1 (ci_hash c)"
    using UpsertChunk_ok [OF Cons.prems(1), of e "ci_hash c" "ci_size c"] up by auto
  note IH = Cons.IH [OF u(1) rest]
  have out: "w' = w2" "failed = (if is_ok r then failed2 else Suc failed2)"
    "map me_hash ms = ci_hash c # map me_hash ms2" "map me_index ms = ci_index c # map me_index ms2"
    using Cons.prems(2) by (auto simp: up rest)
  have w2: "more_refs w w2" using more_refs_trans [OF u(2)] IH by blast
  have "\<forall>h \<in> ci_hash ` set (c # cs). spare_in w2 h \<and> has_chunk w2 h" if "failed = 0"
  proof -
    have "is_ok r" "failed2 = 0" using that out(2) by (auto split: if_splits)
    then have "spare_in w2 (ci_hash c)" "has_chunk w2 (ci_hash c)" using u(3) IH by (auto simp: more_refs_def)
    with IH \<open>failed2 = 0\<close> show ?thesis by simp
  qed
  then show ?case using IH w2 out by simp
qed simp

text \<open>What a batch adds: a row per entry, with the chunk of the entry's hash.\<close>

definition row_of :: "string \<Rightarrow> chunk_row list \<Rightarrow> manifest_entry \<Rightarrow> file_chunk_row" where
  "row_of fid cs m =
     \<lparr>fc_file = fid, fc_chunk = (case first_row (\<lambda>c. c_hash c = me_hash m) cs of Some c \<Rightarrow> c_id c | None \<Rightarrow> []),
      fc_index = me_index m, fc_offset = me_offset m\<rparr>"

lemma row_of_simps [simp]:
  "fc_file (row_of fid cs m) = fid" "fc_index (row_of fid cs m) = me_index m" "fc_offset (row_of fid cs m) = me_offset m"
  by (simp_all add: row_of_def)

lemma row_of_chunk:
  assumes "me_hash m \<in> c_hash ` set cs"
  shows "\<exists>c \<in> set cs. c_hash c = me_hash m \<and> fc_chunk (row_of fid cs m) = c_id c"
proof -
  obtain c where "first_row (\<lambda>c. c_hash c = me_hash m) cs = Some c"
    using assms first_row_hash [of "me_hash m" cs] by (cases "first_row (\<lambda>c. c_hash c = me_hash m) cs") auto
  with first_row_Some [OF this] show ?thesis by (auto simp: row_of_def)
qed

lemma batch_insert_rows:
  assumes "\<And>m. m \<in> set ms \<Longrightarrow> me_hash m \<in> c_hash ` set cs"
    "batch_insert fid cs ms fcs = Some fcs'"
  shows "fcs' = fcs @ map (row_of fid cs) ms"
  using assms
proof (induction ms arbitrary: fcs)
  case (Cons m ms)
  obtain c where c: "first_row (\<lambda>c. c_hash c = me_hash m) cs = Some c"
    using Cons.prems(1) [of m] first_row_hash [of "me_hash m" cs]
    by (cases "first_row (\<lambda>c. c_hash c = me_hash m) cs") auto
  have "row_of fid cs m = \<lparr>fc_file = fid, fc_chunk = c_id c, fc_index = me_index m, fc_offset = me_offset m\<rparr>"
    by (simp add: row_of_def c)
  moreover from this have "batch_insert fid cs ms (fcs @ [row_of fid cs m]) = Some fcs'"
    using Cons.prems(2) by (simp add: c split: if_splits)
  then have "fcs' = (fcs @ [row_of fid cs m]) @ map (row_of fid cs) ms"
    using Cons.prems(1) by (intro Cons.IH) simp_all
  then show ?case by simp
qed simp

lemma filter_id_unique: "distinct (map k xs) \<Longrightarrow> x \<in> set xs \<Longrightarrow> filter (\<lambda>y. k y = k x) xs = [x]"
proof (induction xs)
  case (Cons y ys)
  show ?case
  proof (cases "x = y")
    case True
    then have "filter (\<lambda>z. k z = k x) ys = []"
      using Cons.prems(1) by (auto simp: filter_empty_conv) (metis image_eqI)
    then show ?thesis using True by simp
  next
    case False
    then have "x \<in> set ys" using Cons.prems(2) by simp
    moreover from this have "k y \<noteq> k x" using Cons.prems(1) by auto
    ultimately show ?thesis using Cons by simp
  qed
qed simp

text \<open>The manifest read back is the manifest saved.\<close>

lemma saved_manifest:
  assumes "distinct (map c_id cs)" "\<And>r. r \<in> set fcs \<Longrightarrow> fc_file r \<noteq> fid"
    "\<And>m. m \<in> set ms \<Longrightarrow> me_hash m \<in> c_hash ` set cs" "sorted (map me_index ms)"
  shows "map me_hash (manifest_rows cs (fcs @ map (row_of fid cs) ms) fid) = map me_hash ms"
proof -
  define ent where "ent = (\<lambda>m. hd (chunk_entries cs (row_of fid cs m)))"
  have ent: "chunk_entries cs (row_of fid cs m) = [ent m] \<and> me_hash (ent m) = me_hash m \<and> me_index (ent m) = me_index m"
    if m: "m \<in> set ms" for m
  proof -
    obtain c where c: "c \<in> set cs" "c_hash c = me_hash m" "fc_chunk (row_of fid cs m) = c_id c"
      using row_of_chunk [OF assms(3) [OF m]] by blast
    have "filter (\<lambda>d. c_id d = c_id c) cs = [c]" by (rule filter_id_unique [OF assms(1) c(1)])
    then show ?thesis using c by (simp add: chunk_entries_def ent_def)
  qed
  have "map (chunk_entries cs) (map (row_of fid cs) ms) = map (\<lambda>m. [ent m]) ms"
    using ent by simp
  moreover have "filter (\<lambda>r. fc_file r = fid) (fcs @ map (row_of fid cs) ms) = map (row_of fid cs) ms"
    using assms(2) by (simp add: filter_empty_conv comp_def)
  moreover have "concat (map (\<lambda>m. [ent m]) ms) = map ent ms" by simp
  ultimately have rows: "manifest_rows cs (fcs @ map (row_of fid cs) ms) fid = sort_key me_index (map ent ms)"
    unfolding manifest_rows_def by (simp only:)
  have "map me_index (map ent ms) = map me_index ms" using ent by simp
  then have "sorted (map me_index (map ent ms))" using assms(4) by (simp only:)
  then have "sort_key me_index (map ent ms) = map ent ms" by (rule sort_key_id_if_sorted)
  then show ?thesis using ent by (simp add: rows)
qed

text \<open>
  \<^verbatim>\<open>SaveManifest\<close> for a file without rows, its chunks having a reference to spare and an object: the
  file then reads as those objects.
\<close>

lemma SaveManifest_ok:
  assumes ok: "sys_ok U s G w" and fid: "fid \<in> f_id ` set (files w)" "\<And>r. r \<in> set (file_chunks w) \<Longrightarrow> fc_file r \<noteq> fid"
    and G: "G fid = None"
    and ms: "\<And>m. m \<in> set ms \<Longrightarrow> spare_in w (me_hash m) \<and> has_chunk w (me_hash m)"
    and obj: "map (\<lambda>m. stored s w (me_hash m)) ms = map Some ds" and srt: "sorted (map me_index ms)"
  shows "sys_ok U s G (snd (SaveManifest e fid ms w)) \<and>
    files (snd (SaveManifest e fid ms w)) = files w \<and>
    (fst (SaveManifest e fid ms w) = Inr () \<longrightarrow> reads_as s (snd (SaveManifest e fid ms w)) fid ds)"
proof (cases "ms = []")
  case True
  then have "ds = []" using obj by simp
  then have "reads_as s w fid ds" using manifest_rows_none [OF fid(2)] by (simp add: reads_as_def)
  then show ?thesis using True ok by (simp add: SaveManifest_def)
next
  case False
  define f :: "world \<Rightarrow> unit result \<times> world" where "f = (\<lambda>v.
           if \<not> list_ex (\<lambda>f. f_id f = fid) (files v) \<and>
              list_ex (\<lambda>m. list_ex (\<lambda>c. c_hash c = me_hash m) (chunks v)) ms
           then (Inl ''violates foreign key constraint'', v)
           else
             (case batch_insert fid (chunks v) ms (file_chunks v) of
                None \<Rightarrow> (Inl ''duplicate key value violates unique constraint'', v)
              | Some fcs \<Rightarrow> (Inr (), v\<lparr>file_chunks := fcs\<rparr>)))"
  have sv: "SaveManifest e fid ms w = with_err ''insert manifest entry'' (ext e f w)"
    using False by (simp add: SaveManifest_def f_def)
  let ?v = "w\<lparr>calls := Suc (calls w)\<rparr>"
  let ?new = "map (row_of fid (chunks w)) ms"
  let ?v' = "?v\<lparr>file_chunks := file_chunks w @ ?new\<rparr>"
  have hs: "\<And>m. m \<in> set ms \<Longrightarrow> me_hash m \<in> c_hash ` set (chunks w)"
    using ms by (simp add: has_chunk_def)
  have hashes: "map me_hash (mrows ?v' fid) = map me_hash ms"
    using saved_manifest [OF db_okD(2) [OF sys_okD(1) [OF ok]] fid(2) hs srt] by simp
  have "map (stored s w) (map me_hash (mrows ?v' fid)) = map Some ds"
    unfolding hashes using obj by (simp add: comp_def)
  then have reads: "reads_as s ?v' fid ds" by (simp add: reads_as_def comp_def)
  have "db_of ?v'"
  proof -
    have "fc_file r = fid \<and> (\<exists>c \<in> set (chunks w). c_id c = fc_chunk r \<and> spare (files w) (chunks w) (file_chunks w) (c_hash c))"
      if "r \<in> set ?new" for r
    proof -
      obtain m where m: "m \<in> set ms" "r = row_of fid (chunks w) m" using \<open>r \<in> set ?new\<close> by auto
      with row_of_chunk [OF hs, of m fid] ms [OF m(1)] show ?thesis
        by (force simp: spare_in_def)
    qed
    then have "db_ok (files w) (chunks w) (file_chunks w @ ?new)"
      by (rule db_ok_insert_rows [OF sys_okD(1) [OF ok] fid(1)])
    then show ?thesis by simp
  qed
  moreover have "file_good s G ?v' (f_id g)" if "g \<in> set (files w)" "kept g" for g
  proof (cases "f_id g = fid")
    case True
    then show ?thesis using reads G by (auto simp: file_good_def)
  next
    case False
    then have "manifest_rows (chunks w) (file_chunks w @ ?new) (f_id g) = mrows w (f_id g)"
      by (intro manifest_rows_other_rows) auto
    then have "mrows ?v' (f_id g) = mrows w (f_id g)" by simp
    then show ?thesis using sys_okD(4) [OF ok that] by (simp add: file_good_def reads_as_def)
  qed
  ultimately have ok': "sys_ok U s G ?v'" using sys_okD(2,3) [OF ok] by (simp add: sys_ok_def)
  have f: "f ?v = (Inr (), ?v') \<or> (\<exists>m. f ?v = (Inl m, ?v))"
  proof (cases "batch_insert fid (chunks w) ms (file_chunks w)")
    case None
    then show ?thesis by (auto simp: f_def)
  next
    case (Some fcs)
    then show ?thesis using batch_insert_rows [OF hs Some] by (auto simp: f_def)
  qed
  have "fst (with_err p x) = Inr () \<longleftrightarrow> fst x = Inr ()" for p and x :: "unit result \<times> world"
    by (auto simp: with_err_def split: prod.splits sum.splits)
  then show ?thesis
    unfolding sv with_err_snd
    by (auto simp: ext_def Let_def split: outcome.splits intro: exI) (use f ok ok' reads in auto)
qed

section \<open>The chunk service only adds\<close>

lemma PutChunk_tables [simp]: "tables (snd (PutChunk e s h d w)) = tables w"
proof -
  have "tables (snd (ext e (\<lambda>v. (Inr () :: unit result, v\<lparr>objects := (objects v)((st_bucket s, chunkKey h) \<mapsto> d)\<rparr>)) w)) = tables w"
    by (rule ext_tables) simp
  then show ?thesis by (simp add: PutChunk_def case_prod_beta split: sum.splits)
qed

lemma ChunkExists_tables [simp]: "tables (snd (ChunkExists e s h w)) = tables w"
proof -
  have "tables (snd (ext e (\<lambda>v. (Inr (objects v (st_bucket s, chunkKey h) \<noteq> None) :: bool result, v)) w)) = tables w"
    by (rule ext_tables) simp
  then show ?thesis by (simp add: ChunkExists_def case_prod_beta split: sum.splits)
qed

definition only_adds :: "minio_store \<Rightarrow> world \<Rightarrow> world \<Rightarrow> bool" where
  "only_adds s w w' \<longleftrightarrow> tables w' = tables w \<and> (\<forall>h. stored s w h \<noteq> None \<longrightarrow> stored s w' h \<noteq> None)"

lemma only_adds_refl [simp]: "only_adds s w w"
  by (simp add: only_adds_def)

lemma up_step_adds: "only_adds s w (us_world st) \<Longrightarrow> only_adds s w (us_world (up_step e s a st))"
proof (cases a)
  case SLoop
  assume "only_adds s w (us_world st)"
  then show ?thesis by (simp add: SLoop loop_step_def split: list.splits sum.splits)
next
  case (SWorker i)
  assume ok: "only_adds s w (us_world st)"
  show ?thesis
  proof (cases "i < length (us_workers st)")
    case True
    obtain r ph where w: "us_workers st ! i = (r, ph)" by force
    have "only_adds s w (snd (ChunkExists e s (cr_hash r) (us_world st)))"
      using ok minio.exists_frame [of s e "cr_hash r" "us_world st"] by (simp add: only_adds_def)
    moreover have "only_adds s w (snd (PutChunk e s (cr_hash r) (cr_data r) (us_world st)))"
      using ok minio.put_keeps_held [of s "us_world st" _ e] unfolding only_adds_def by (metis PutChunk_tables)
    ultimately show ?thesis
      using w True SWorker ok
      by (auto simp: up_step_def worker_step_def split: phase.splits prod.splits sum.splits bool.splits)
  qed (use ok in \<open>simp add: SWorker up_step_def\<close>)
qed

lemma process_chunks_adds: "only_adds s w (us_world (process_chunks e s sch results w))"
  unfolding process_chunks_def
  by (rule fold_inv [where P = "\<lambda>st. only_adds s w (us_world st)"]) (auto intro: up_step_adds)

lemma UploadFile_adds: "UploadFile e s pieces run w = Some (r, w') \<Longrightarrow> only_adds s w w'"
  using process_chunks_adds [of s w e]
  by (auto simp: UploadFile_def Let_def split: list.splits upload_msg.splits if_splits option.splits)

text \<open>In a content-addressed store without collisions, what is added changes no object.\<close>

lemma only_adds_same:
  assumes "only_adds s w w'" "store_ok U s w" "store_ok U s w'" "collision_free U" "stored s w h = Some d"
  shows "stored s w' h = Some d"
proof -
  have "d \<in> U" "SHA256Hash d = h" using store_okD [OF assms(2,5)] by auto
  moreover have "stored s w' h \<noteq> None" using assms(1,5) by (simp add: only_adds_def)
  ultimately show ?thesis using store_ok_content [OF assms(3,4)] by metis
qed

lemma sys_ok_adds:
  assumes ok: "sys_ok U s G w" and add: "only_adds s w w'" and st: "store_ok U s w'" and U: "collision_free U"
  shows "sys_ok U s G w'"
proof (rule sys_ok_step [OF ok])
  have t: "files w' = files w" "chunks w' = chunks w" "file_chunks w' = file_chunks w"
    using add tables_eqD [of w' w] by (auto simp: only_adds_def)
  show "db_of w'" using sys_okD(1) [OF ok] by (simp add: t)
  show "store_ok U s w'" by (rule st)
  show "stored s w' (me_hash m) = stored s w (me_hash m)"
    if f: "f \<in> set (files w)" "kept f" and m: "m \<in> set (mrows w (f_id f))" for f m
  proof -
    obtain ds where "reads_as s w (f_id f) ds"
      using sys_okD(4) [OF ok f] by (auto simp: file_good_def)
    then have "stored s w (me_hash m) \<in> Some ` set ds"
      using m unfolding reads_as_def by (metis image_eqI list.set_map)
    then obtain d where "stored s w (me_hash m) = Some d" by auto
    then show ?thesis using only_adds_same [OF add sys_okD(2) [OF ok] st U] by simp
  qed
qed (use tables_eqD [of w' w] add in \<open>auto simp: only_adds_def\<close>)

section \<open>The upload stream\<close>

lemma ext_noop_durable [simp]: "durable (snd (ext e (\<lambda>v. (Inr x :: 'a result, v)) w)) = durable w"
  by (rule ext_durable) simp

lemma send_all_durable: "durable (snd (snd (send_all e ds w))) = durable w"
proof (induction ds arbitrary: w)
  case (Cons d ds)
  have "durable (snd (ext e (\<lambda>v. (Inr () :: unit result, v)) w)) = durable w" by simp
  then show ?case using Cons.IH by (simp add: Let_def case_prod_beta split: sum.splits)
qed simp

lemma send_all_prefix:
  "send_all e ds w = (r, sent, w') \<Longrightarrow> (\<exists>k. sent = take k ds) \<and> (r = None \<longrightarrow> sent = ds)"
proof (induction ds arbitrary: w r sent w')
  case (Cons d ds)
  obtain x w1 where x: "ext e (\<lambda>v. (Inr () :: unit result, v)) w = (x, w1)" by force
  obtain r2 s2 w2 where y: "send_all e ds w1 = (r2, s2, w2)" by (cases "send_all e ds w1") auto
  from Cons.IH [OF y] obtain k where k: "s2 = take k ds" "r2 = None \<longrightarrow> s2 = ds" by blast
  show ?case
  proof (cases x)
    case (Inl err)
    then have "sent = [] \<or> sent = [d]" "r \<noteq> None"
      using Cons.prems x by (auto simp: Let_def split: outcome.splits)
    then have "(sent = take 0 (d # ds) \<or> sent = take 1 (d # ds)) \<and> r \<noteq> None" by simp
    then show ?thesis by blast
  next
    case (Inr u)
    then have "r = r2" "sent = take (Suc k) (d # ds)"
      using Cons.prems x y k by (auto simp: Let_def)
    then show ?thesis using k by (intro conjI exI [of _ "Suc k"]) auto
  qed
qed simp

lemma recv_data_frames [simp]: "recv_data (map UData ds) = concat ds"
  by (induction ds) auto

text \<open>The contents that can reach the splitter while a file is streamed.\<close>

definition stream_covered :: "byte list set \<Rightarrow> (byte list \<Rightarrow> byte list list) \<Rightarrow> reader \<Rightarrow> bool" where
  "stream_covered U pieces file \<longleftrightarrow>
     (\<forall>k. set (pieces (concat (take k (read_frames streamFrameSize file)))) \<subseteq> U) \<and> set (pieces []) \<subseteq> U"

lemma server_run_msgs [simp]: "up_msgs (server_run sv ms err) = ms" "up_recv_err (server_run sv ms err) = err"
  by (simp_all add: server_run_def)

lemma UploadFile_sys_ok:
  assumes "sys_ok U s G w" "collision_free U" "UploadFile e s pieces run w = Some (r, w')"
    "set (pieces (recv_data (tl (up_msgs run)))) \<subseteq> U"
  shows "sys_ok U s G w'"
  by (rule sys_ok_adds [OF assms(1) UploadFile_adds [OF assms(3)] UploadFile_store_ok [OF assms(3) sys_okD(2) [OF assms(1)] assms(4)] assms(2)])

lemma abort_upload_ok:
  assumes "sys_ok U (fs_store s) G w" "collision_free U" "abort_upload e s server msgs err w = Some (r, w')"
    "set (fs_pieces s (recv_data (tl msgs))) \<subseteq> U"
  shows "r = Inl err \<and> sys_ok U (fs_store s) G w' \<and> tables w' = tables w"
proof -
  obtain r0 where up: "UploadFile e (fs_store s) (fs_pieces s) (server_run server msgs (Some ''context canceled'')) w = Some (r0, w')"
    and r: "r = Inl err"
    using assms(3) by (auto simp: abort_upload_def)
  show ?thesis
    using UploadFile_sys_ok [OF assms(1,2) up] UploadFile_adds [OF up] assms(4) r by (simp add: only_adds_def)
qed

text \<open>
  The stream: the tables stay, and on success the response lists the pieces of the whole file, all
  of them stored.
\<close>

definition uploaded :: "file_service \<Rightarrow> byte list \<Rightarrow> upload_response \<Rightarrow> world \<Rightarrow> bool" where
  "uploaded s content resp w \<longleftrightarrow>
     map undup (ur_chunks resp) = manifest_of (fs_pieces s content) \<and> ur_checksum resp = SHA256Hash content \<and>
     (\<forall>d \<in> set (fs_pieces s content). stored (fs_store s) w (SHA256Hash d) = Some d)"

lemma tables_durable: "durable w' = durable w \<Longrightarrow> tables w' = tables w"
  by (rule durable_eqD(7))

lemma stream_upload_ok:
  assumes ok: "sys_ok U (fs_store s) G w" and U: "collision_free U" "stream_covered U (fs_pieces s) file"
    and len: "length (fs_pieces s (rd_content file)) \<le> 2147483647"
    and st: "stream_upload e s server meta file w = Some (r, w')"
  shows "sys_ok U (fs_store s) G w' \<and> tables w' = tables w \<and>
    (\<forall>resp. r = Inr resp \<longrightarrow> rd_err file = None \<and> uploaded s (rd_content file) resp w')"
proof -
  let ?S = "fs_store s" and ?P = "fs_pieces s" and ?frames = "read_frames streamFrameSize file"
  obtain x1 w1 where x1: "ext e (\<lambda>v. (Inr () :: unit result, v)) w = (x1, w1)" by force
  obtain x2 w2 where x2: "ext e (\<lambda>v. (Inr () :: unit result, v)) w1 = (x2, w2)" by force
  obtain x3 sent w3 where x3: "send_all e ?frames w2 = (x3, sent, w3)" by (cases "send_all e ?frames w2") auto
  have d1: "durable w1 = durable w" using ext_noop_durable [of e "()" w] x1 by simp
  have d2: "durable w2 = durable w" using ext_noop_durable [of e "()" w1] x2 d1 by simp
  have d3: "durable w3 = durable w" using send_all_durable [of e ?frames w2] x3 d2 by simp
  have ok2: "sys_ok U ?S G w2" by (rule sys_ok_durable [OF ok d2])
  have ok3: "sys_ok U ?S G w3" by (rule sys_ok_durable [OF ok d3])
  have pre: "(\<exists>k. sent = take k ?frames) \<and> (x3 = None \<longrightarrow> sent = ?frames)" by (rule send_all_prefix [OF x3])
  then have cov: "set (?P (concat sent)) \<subseteq> U" using U(2) by (auto simp: stream_covered_def)
  have cov0: "set (?P []) \<subseteq> U" using U(2) by (simp add: stream_covered_def)
  consider (no_stream) err where "x1 = Inl err" | (meta) err where "is_ok x1" "x2 = Inl err"
    | (send) err where "is_ok x1" "is_ok x2" "x3 = Some err"
    | (read) err where "is_ok x1" "is_ok x2" "x3 = None" "rd_err file = Some err"
    | (resp) "is_ok x1" "is_ok x2" "x3 = None" "rd_err file = None"
    by (cases x1; cases x2; cases x3; cases "rd_err file") auto
  then show ?thesis
  proof cases
    case no_stream
    then have "r = Inl (wrapf ''open upload stream'' err)" "w' = w1"
      using st x1 by (simp_all add: stream_upload_def)
    then show ?thesis using sys_ok_durable [OF ok d1] tables_durable [OF d1] by simp
  next
    case meta
    then have "abort_upload e s server [] (wrapf ''send metadata'' err) w2 = Some (r, w')"
      using st x1 x2 by (auto simp: stream_upload_def elim!: is_okE)
    from abort_upload_ok [OF ok2 U(1) this] show ?thesis using cov0 tables_durable [OF d2] by simp
  next
    case send
    then have "abort_upload e s server (UMeta meta # map UData sent) (wrapf ''send data'' err) w3 = Some (r, w')"
      using st x1 x2 x3 by (auto simp: stream_upload_def elim!: is_okE)
    from abort_upload_ok [OF ok3 U(1) this] show ?thesis using cov tables_durable [OF d3] by simp
  next
    case read
    then have "abort_upload e s server (UMeta meta # map UData sent) (wrapf ''read file'' err) w3 = Some (r, w')"
      using st x1 x2 x3 by (auto simp: stream_upload_def elim!: is_okE)
    from abort_upload_ok [OF ok3 U(1) this] show ?thesis using cov tables_durable [OF d3] by simp
  next
    case resp
    have sent: "concat sent = rd_content file" using pre resp(3) by simp
    let ?run = "server_run server (UMeta meta # map UData sent) None"
    obtain r4 w4 where up: "UploadFile e ?S ?P ?run w3 = Some (r4, w4)"
      using st x1 x2 x3 resp by (auto simp: stream_upload_def elim!: is_okE split: option.splits)
    have ok4: "sys_ok U ?S G w4" by (rule UploadFile_sys_ok [OF ok3 U(1) up]) (use cov in simp)
    have t4: "tables w4 = tables w" using UploadFile_adds [OF up] tables_durable [OF d3] by (simp add: only_adds_def)
    show ?thesis
    proof (cases r4)
      case (Inl err)
      then have "r = Inl (wrapf ''upload failed'' err)" "w' = w4"
        using st x1 x2 x3 resp up by (auto simp: stream_upload_def elim!: is_okE)
      then show ?thesis using ok4 t4 by simp
    next
      case (Inr rs)
      obtain x5 w5 where x5: "ext e (\<lambda>v. (Inr () :: unit result, v)) w4 = (x5, w5)" by force
      have d5: "durable w5 = durable w4" using ext_noop_durable [of e "()" w4] x5 by simp
      have w5: "w' = w5" and r5: "\<forall>resp. r = Inr resp \<longrightarrow> resp = rs"
        using st x1 x2 x3 resp up Inr x5 by (auto simp: stream_upload_def elim!: is_okE split: sum.splits)
      have UF: "map undup (ur_chunks rs) = manifest_of (?P (rd_content file))" "ur_checksum rs = SHA256Hash (rd_content file)"
        "\<forall>d \<in> set (?P (rd_content file)). stored ?S w4 (SHA256Hash d) \<noteq> None"
        using UploadFile_ok [OF up [unfolded Inr]] len sent by auto
      have "stored ?S w' (SHA256Hash d) = Some d" if d: "d \<in> set (?P (rd_content file))" for d
      proof -
        have "stored ?S w4 (SHA256Hash d) = Some d"
          using store_ok_content [OF sys_okD(2) [OF ok4] U(1)] UF(3) d cov sent by auto
        then show ?thesis using stored_durable [OF d5] w5 by simp
      qed
      then have "uploaded s (rd_content file) rs w'" using UF by (simp add: uploaded_def)
      then show ?thesis
        using r5 w5 sys_ok_durable [OF ok4 d5] tables_durable [OF d5] t4 resp(4) by auto
    qed
  qed
qed

section \<open>Recording an upload\<close>

lemma insert_file_InrD:
  "insert_file e row w = (Inr f, w') \<Longrightarrow>
   files w' = files w @ [f] \<and> f_id f \<notin> f_id ` set (files w) \<and> chunks w' = chunks w \<and>
   file_chunks w' = file_chunks w \<and> objects w' = objects w \<and> f_user f = f_user row \<and> f_name f = f_name row \<and>
   f_parent f = f_parent row \<and> f_version f = f_version row \<and> f_status f = f_status row \<and> f_checksum f = f_checksum row"
  by (auto simp: insert_file_def Let_def list_ex_iff dest!: ext_InrD split: if_splits; blast)

text \<open>Statements on \<^verbatim>\<open>files\<close> leave the rest alone.\<close>

definition rest_of :: "world \<Rightarrow> chunk_row list \<times> file_chunk_row list \<times> (string \<times> string \<Rightarrow> byte list option)" where
  "rest_of w = (chunks w, file_chunks w, objects w)"

lemma update_files_rest [simp]: "rest_of (snd (update_files e P g w)) = rest_of w"
  unfolding update_files_def by (rule ext_frame) (simp_all add: rest_of_def)

lemma UpdateFileStatus_rest [simp]: "rest_of (snd (UpdateFileStatus e fid st w)) = rest_of w"
  by (simp add: UpdateFileStatus_def)

lemma update_files_ids:
  assumes "\<And>f. f_id (g f) = f_id f"
  shows "map f_id (files (snd (update_files e P g w))) = map f_id (files w)"
  unfolding update_files_def by (rule ext_frame) (use assms in auto)

lemma UpdateFileStatus_ids [simp]: "map f_id (files (snd (UpdateFileStatus e fid st w))) = map f_id (files w)"
  by (simp add: UpdateFileStatus_def update_files_ids)

lemma version_rows_member:
  "f \<in> set (version_rows u p n fs) \<longleftrightarrow>
   f \<in> set fs \<and> f_user f = u \<and> f_name f = n \<and> f_parent f = p \<and> kept_status (f_status f)"
  by (auto simp: version_rows_def)

lemma GetLatest_member:
  assumes "GetLatestFileByName e u p n w = (Inr (Some f), w')"
  shows "f \<in> set (files w) \<and> kept f \<and> f_parent f = p"
proof -
  have "first_row (\<lambda>_. True) (version_rows u p n (files w)) = Some f"
    using assms by (auto simp: GetLatestFileByName_def dest!: query_InrD)
  from first_row_Some [OF this] show ?thesis by (auto simp: version_rows_member kept_def)
qed

lemma id_unique: "db_ok fs cs fcs \<Longrightarrow> f \<in> set fs \<Longrightarrow> g \<in> set fs \<Longrightarrow> f_id f = f_id g \<Longrightarrow> f = g"
  using db_okD(1) [of fs cs fcs] by (auto simp: distinct_map dest: inj_onD)

lemma hash_unique: "db_ok fs cs fcs \<Longrightarrow> c \<in> set cs \<Longrightarrow> d \<in> set cs \<Longrightarrow> c_hash c = c_hash d \<Longrightarrow> c = d"
  using db_okD(3) [of fs cs fcs] unfolding distinct_map by (meson inj_onD)

lemma create_version_ok:
  assumes ok: "sys_ok U s G w" and ex: "existing = None \<or> (\<exists>f. existing = Some f \<and> f \<in> set (files w) \<and> kept f)"
    and cv: "create_version e p existing w = (r, w')"
  shows "sys_ok U s G w' \<and> rest_of w' = rest_of w \<and>
    (\<forall>f. r = Inr f \<longrightarrow> f \<in> set (files w') \<and> f_id f \<notin> f_id ` set (files w) \<and> f_checksum f = Some (cf_checksum p))"
proof -
  have ins: "sys_ok U s G w' \<and> rest_of w' = rest_of v \<and>
      (\<forall>f. r = Inr f \<longrightarrow> f \<in> set (files w') \<and> f_id f \<notin> f_id ` set (files v) \<and> f_checksum f = Some (cf_checksum p))"
    if v: "sys_ok U s G v" and i: "with_err m (insert_file e (row\<lparr>f_size := n, f_mime := mm, f_checksum := Some (cf_checksum p)\<rparr>) v) = (r, w')"
    for v m row n mm
  proof -
    let ?row = "row\<lparr>f_size := n, f_mime := mm, f_checksum := Some (cf_checksum p)\<rparr>"
    have w': "w' = snd (insert_file e ?row v)" using i by (metis snd_conv with_err_snd)
    have "rest_of (snd (insert_file e ?row v)) = rest_of v"
      unfolding insert_file_def by (rule ext_frame) (simp_all add: rest_of_def Let_def)
    moreover have "f \<in> set (files w') \<and> f_id f \<notin> f_id ` set (files v) \<and> f_checksum f = Some (cf_checksum p)"
      if "r = Inr f" for f
      using insert_file_InrD [of e ?row v f w'] i that by simp
    ultimately show ?thesis using insert_file_ok [OF v, of e ?row] w' by simp
  qed
  show ?thesis
  proof (cases existing)
    case None
    with cv have "with_err ''create file'' (insert_file e ((new_row (cf_user p) None (cf_name p) 1)
        \<lparr>f_size := cf_size p, f_mime := Some (cf_mime p), f_checksum := Some (cf_checksum p)\<rparr>) w) = (r, w')"
      by (simp add: create_version_def CreateFile_def)
    then show ?thesis by (rule ins [OF ok])
  next
    case (Some f)
    with ex have f: "f \<in> set (files w)" "kept f" by auto
    let ?w1 = "snd (UpdateFileStatus e (f_id f) FileStatusSuperseded w)"
    have "sys_ok U s G ?w1"
      by (rule UpdateFileStatus_ok [OF ok]) (use id_unique [OF sys_okD(1) [OF ok]] f in blast)
    moreover have "f_id ` set (files ?w1) = f_id ` set (files w)"
      by (metis UpdateFileStatus_ids list.set_map)
    ultimately show ?thesis
      using ins [OF ok] ins [of ?w1] cv Some
      by (auto simp: create_version_def CreateFile_def CreateFileWithVersion_def split: if_splits)
  qed
qed

text \<open>The part of the world the invariant speaks about.\<close>

definition core :: "world \<Rightarrow> file_row list \<times> chunk_row list \<times> file_chunk_row list \<times> (string \<times> string \<Rightarrow> byte list option)" where
  "core w = (files w, chunks w, file_chunks w, objects w)"

lemma core_durable: "durable w' = durable w \<Longrightarrow> core w' = core w"
  using durable_eqD [of w' w] by (simp add: core_def)

lemma core_sys_ok:
  assumes "core w' = core w" shows "sys_ok U s G w' = sys_ok U s G w" "reads_as s w' fid ds = reads_as s w fid ds"
    "files w' = files w"
proof -
  have c: "files w' = files w" "chunks w' = chunks w" "file_chunks w' = file_chunks w" "objects w' = objects w"
    using assms by (simp_all add: core_def)
  then have st: "stored s w' = stored s w" by (simp add: stored_def fun_eq_iff)
  show "files w' = files w" by (rule c(1))
  show "reads_as s w' fid ds = reads_as s w fid ds" by (simp add: reads_as_def c st)
  show "sys_ok U s G w' = sys_ok U s G w"
    using store_ok_cong [OF st, of U] by (simp add: sys_ok_def file_good_def reads_as_def c st)
qed

lemma UpdateStorageUsed_core [simp]: "core (snd (UpdateStorageUsed e u d w)) = core w"
  unfolding UpdateStorageUsed_def by (rule ext_frame) (simp_all add: core_def)

lemma publish_created_durable [simp]: "durable (publish_created e u fid cs w) = durable w"
  by (induction cs arbitrary: w) auto

lemma core_trans: "core a = core b \<Longrightarrow> core b = core c \<Longrightarrow> core a = core c"
  by simp

lemma sys_ok_learn:
  assumes "sys_ok U s G w" "fid \<in> f_id ` set (files w)" "reads_as s w fid ds"
  shows "sys_ok U s (G(fid \<mapsto> concat ds)) w"
proof -
  have "file_good s (G(fid \<mapsto> concat ds)) w (f_id f)" if "f \<in> set (files w)" "kept f" for f
    using sys_okD(4) [OF assms(1) that] assms(3) by (cases "f_id f = fid") (auto simp: file_good_def)
  then show ?thesis using sys_okD(1-3) [OF assms(1)] assms(2) by (auto simp: sys_ok_def)
qed

definition learn :: "(string \<Rightarrow> byte list option) \<Rightarrow> byte list \<Rightarrow> file_response result \<Rightarrow> string \<Rightarrow> byte list option" where
  "learn G content r = (case r of Inl _ \<Rightarrow> G | Inr fr \<Rightarrow> G(fr_id fr \<mapsto> content))"

lemma learn_simps [simp]: "learn G d (Inl err) = G" "learn G d (Inr fr) = G(fr_id fr \<mapsto> d)"
  by (simp_all add: learn_def)

lemma record_upload_ok:
  assumes ok: "sys_ok U (fs_store s) G w" and up: "uploaded s content resp w"
    and cdc: "concat (fs_pieces s content) = content" and len: "length (fs_pieces s content) \<le> 2147483647"
    and rec: "record_upload e s u name mime used quota resp w = (r, 0, w')"
  shows "sys_ok U (fs_store s) (learn G content r) w'"
proof -
  let ?S = "fs_store s"
  let ?p = "\<lparr>cf_user = u, cf_name = name, cf_size = ur_total_size resp, cf_mime = mime, cf_checksum = ur_checksum resp\<rparr>"
  obtain x1 w1 where x1: "GetLatestFileByName e u None name w = (x1, w1)" by force
  have "durable (snd (GetLatestFileByName e u None name w)) = durable w" by (simp add: GetLatestFileByName_def)
  then have d1: "durable w1 = durable w" using x1 by simp
  have ok1: "sys_ok U ?S G w1" by (rule sys_ok_durable [OF ok d1])
  show ?thesis
  proof (cases "quota < i64 (used + ur_total_size resp) \<or> \<not> is_ok x1")
    case True
    then show ?thesis
      using rec ok ok1 x1 by (cases x1) (auto simp: record_upload_def Let_def split: if_splits)
  next
    case False
    then obtain existing where ex: "x1 = Inr existing" by (auto elim!: is_okE)
    obtain x2 w2 where x2: "create_version e ?p existing w1 = (x2, w2)" by force
    have old: "existing = None \<or> (\<exists>f. existing = Some f \<and> f \<in> set (files w1) \<and> kept f)"
      using GetLatest_member [of e u None name w] x1 ex durable_eqD(2) [OF d1] by (cases existing) auto
    note cv = create_version_ok [OF ok1 old x2]
    show ?thesis
    proof (cases x2)
      case (Inl err)
      then show ?thesis using rec cv False ex x1 x2 by (auto simp: record_upload_def Let_def)
    next
      case (Inr frow)
      let ?fid = "f_id frow"
      obtain ms failed w3 where x3: "register_chunks e (ur_chunks resp) 0 w2 = (ms, failed, w3)"
        by (cases "register_chunks e (ur_chunks resp) 0 w2") auto
      obtain x4 w4 where x4: "SaveManifest e ?fid ms w3 = (x4, w4)" by force
      have f0: "failed = 0"
        using rec False ex x1 x2 x3 x4 Inr by (auto simp: record_upload_def Let_def split: sum.splits)
      note reg = register_chunks_ok [OF conjunct1 [OF cv] x3]
      have hs: "map me_hash ms = map SHA256Hash (fs_pieces s content)"
        using reg up by (auto simp: uploaded_def dest!: manifest_hashes)
      have st3: "stored ?S w3 = stored ?S w"
        using reg cv durable_eqD(6) [OF d1] by (auto simp: more_refs_def rest_of_def stored_def fun_eq_iff)
      have "map (stored ?S w) (map SHA256Hash (fs_pieces s content)) = map Some (fs_pieces s content)"
        using up by (simp add: uploaded_def)
      then have obj: "map (\<lambda>m. stored ?S w3 (me_hash m)) ms = map Some (fs_pieces s content)"
        unfolding hs [symmetric] st3 by (simp add: comp_def)
      have "map ci_index (ur_chunks resp) = map int [0..<length (fs_pieces s content)]"
      proof -
        have "map ci_index (map undup (ur_chunks resp)) = map int [0..<length (fs_pieces s content)]"
          using up manifest_of_index [OF len] by (simp add: uploaded_def)
        then show ?thesis by (simp add: comp_def)
      qed
      then have srt: "sorted (map me_index ms)" using reg by (simp add: sorted_map sorted_wrt_upt sorted_wrt_map_mono)
      have fresh: "?fid \<notin> f_id ` set (files w1)" "?fid \<in> f_id ` set (files w3)"
        using cv Inr reg by (auto simp: more_refs_def)
      have fc3: "file_chunks w3 = file_chunks w1" using cv reg by (simp add: more_refs_def rest_of_def)
      have none: "fc_file q \<noteq> ?fid" if "q \<in> set (file_chunks w3)" for q
        using db_okD(4) [OF sys_okD(1) [OF ok1], of q] that fc3 fresh(1) by metis
      have G: "G ?fid = None" using sys_okD(3) [OF ok1] fresh(1) by (auto simp: dom_def)
      have sp: "spare_in w3 (me_hash m) \<and> has_chunk w3 (me_hash m)" if "m \<in> set ms" for m
      proof -
        have "me_hash m \<in> set (map me_hash ms)" using that by simp
        then have "me_hash m \<in> ci_hash ` set (ur_chunks resp)" using reg by simp
        then show ?thesis using reg f0 by blast
      qed
      have sv: "sys_ok U ?S G w4" "files w4 = files w3" "x4 = Inr () \<longrightarrow> reads_as ?S w4 ?fid (fs_pieces s content)"
        using SaveManifest_ok [OF conjunct1 [OF reg] fresh(2) none G sp obj srt, of e] x4 by auto
      show ?thesis
      proof (cases x4)
        case (Inl err)
        then show ?thesis
          using rec False ex x1 x2 x3 x4 \<open>x2 = Inr frow\<close> sv by (auto simp: record_upload_def Let_def)
      next
        case (Inr un)
        define w7 where "w7 = invalidateUserCache e u (snd (UpdateStorageUsed e u (ur_total_size resp)
            (if fs_producer s then publish_created e u ?fid (ur_chunks resp) w4 else w4)))"
        have c7: "core w7 = core w4"
          unfolding w7_def
          by (rule core_trans [OF core_durable [OF invalidate_durable(2)]]) (simp add: core_durable [OF publish_created_durable])
        have out: "r = Inr (response_of resp frow name mime)" "w' = w7"
          using rec False ex x1 x2 x3 x4 \<open>x2 = Inr frow\<close> Inr by (auto simp: record_upload_def Let_def w7_def)
        have "sys_ok U ?S (G(?fid \<mapsto> concat (fs_pieces s content))) w4"
          by (rule sys_ok_learn [OF sv(1)]) (use sv fresh Inr in auto)
        then show ?thesis
          using core_sys_ok(1) [OF c7] cdc by (simp add: out response_of_def)
      qed
    qed
  qed
qed

text \<open>
  The whole upload under any failures, as long as no \<^verbatim>\<open>UpsertChunk\<close> failed: an error leaves the other
  files alone, a success makes the file read as what was sent.
\<close>

lemma GetStorageUsage_durable [simp]: "durable (snd (GetStorageUsage e u w)) = durable w"
  unfolding GetStorageUsage_def with_err_snd by (rule ext_durable) (auto split: option.splits)

lemma Upload_run_ok:
  assumes ok: "sys_ok U (fs_store s) G w" and U: "collision_free U" "stream_covered U (fs_pieces s) file"
    and cdc: "concat (fs_pieces s (rd_content file)) = rd_content file"
      "length (fs_pieces s (rd_content file)) \<le> 2147483647"
    and run: "Upload_run e s server u name mime file w = Some (r, 0, w')"
  shows "sys_ok U (fs_store s) (learn G (rd_content file) r) w' \<and> (is_ok r \<longrightarrow> rd_err file = None)"
proof -
  obtain x1 w1 where x1: "GetStorageUsage e u w = (x1, w1)" by force
  have d1: "durable w1 = durable w" using GetStorageUsage_durable [of e u w] x1 by simp
  have ok1: "sys_ok U (fs_store s) G w1" by (rule sys_ok_durable [OF ok d1])
  show ?thesis
  proof (cases x1)
    case (Inl err)
    then show ?thesis using run x1 ok1 by (auto simp: Upload_run_def)
  next
    case (Inr uq)
    obtain used quota where uq: "uq = (used, quota)" by force
    show ?thesis
    proof (cases "quota_nearly_full used quota")
      case True
      then show ?thesis using run x1 Inr uq ok1 by (auto simp: Upload_run_def)
    next
      case False
      let ?meta = "\<lparr>um_file_name = name, um_user = u, um_mime = mime\<rparr>"
      obtain x2 w2 where x2: "stream_upload e s server ?meta file w1 = Some (x2, w2)"
        using run x1 Inr uq False by (auto simp: Upload_run_def split: option.splits)
      note su = stream_upload_ok [OF ok1 U cdc(2) x2]
      show ?thesis
      proof (cases x2)
        case (Inl err)
        then show ?thesis using run x1 \<open>x1 = Inr uq\<close> uq False x2 su by (auto simp: Upload_run_def)
      next
        case (Inr resp)
        then have "record_upload e s u name mime used quota resp w2 = (r, 0, w')"
          using run x1 \<open>x1 = Inr uq\<close> uq False x2 by (simp add: Upload_run_def)
        then show ?thesis
          using record_upload_ok [OF conjunct1 [OF su] _ cdc] su Inr by blast
      qed
    qed
  qed
qed

section \<open>Deleting files and versions\<close>

text \<open>Once a kept file is marked deleted, its chunks have a reference to spare.\<close>

lemma delete_spare:
  assumes ok: "sys_ok U s G w" and f0: "f0 \<in> set (files w)" "kept f0" "P f0" "f_id f0 = fid"
    and P: "\<And>f. P f \<Longrightarrow> f_id f = fid"
    and up: "update_files e P (\<lambda>f. f\<lparr>f_status := FileStatusDeleted\<rparr>) w = (Inr n, w')"
    and m: "m \<in> set (mrows w fid)"
  shows "spare_in w' (me_hash m)"
proof -
  define g where "g = (\<lambda>f. if P f then f\<lparr>f_status := FileStatusDeleted, f_updated := now_at e (Suc (calls w))\<rparr> else f)"
  have w': "files w' = map g (files w)" "chunks w' = chunks w" "file_chunks w' = file_chunks w"
    using up by (auto simp: update_files_def g_def dest!: ext_InrD)
  obtain r c where rc: "r \<in> set (file_chunks w)" "c \<in> set (chunks w)" "fc_file r = fid" "c_id c = fc_chunk r" "c_hash c = me_hash m"
    using mrows_member [OF m] by blast
  have use: "uses (file_chunks w) (f_id f0) (c_id c)" using rc f0(4) by (auto simp: uses_iff)
  have less: "refs (map g (files w)) (file_chunks w) (c_id c) < refs (files w) (file_chunks w) (c_id c)"
    by (rule refs_map_less [OF _ _ f0(1,2) use]) (auto simp: g_def f0(3) split: if_splits)
  show ?thesis
    unfolding spare_in_def spare_def w'
  proof (intro ballI impI)
    fix d assume d: "d \<in> set (chunks w)" "c_hash d = me_hash m"
    then have "d = c"
      using hash_unique [OF sys_okD(1) [OF ok] d(1) rc(2)] rc(5) by simp
    then show "int (refs (map g (files w)) (file_chunks w) (c_id d)) + 1 \<le> c_refs d"
      using less db_okD(6) [OF sys_okD(1) [OF ok] d(1)] by simp
  qed
qed

lemma update_files_mrows: "rest_of w' = rest_of w \<Longrightarrow> mrows w' fid = mrows w fid"
  by (simp add: rest_of_def)

lemma SoftDeleteFile_spare:
  assumes ok: "sys_ok U s G w" and del: "SoftDeleteFile e u fid w = (Inr (), w')" and m: "m \<in> set (mrows w fid)"
  shows "spare_in w' (me_hash m)"
proof -
  let ?P = "\<lambda>f. f_id f = fid \<and> f_user f = u \<and> f_status f = FileStatusActive"
  obtain n where n: "update_files e ?P (\<lambda>f. f\<lparr>f_status := FileStatusDeleted\<rparr>) w = (Inr n, w')" "n \<noteq> 0"
    using del by (auto simp: SoftDeleteFile_def affected_Inr)
  then have "filter ?P (files w) \<noteq> []" by (auto simp: update_files_def dest!: ext_InrD)
  then obtain f0 where "f0 \<in> set (files w)" "?P f0" by (auto simp: filter_empty_conv)
  then show ?thesis using n m by (intro delete_spare [OF ok _ _ _ _ _ n(1), of f0 fid m]) (auto simp: kept_def)
qed

lemma UpdateFileStatus_spare:
  assumes ok: "sys_ok U s G w" and f0: "f0 \<in> set (files w)" "kept f0"
    and del: "UpdateFileStatus e (f_id f0) FileStatusDeleted w = (Inr (), w')" and m: "m \<in> set (mrows w (f_id f0))"
  shows "spare_in w' (me_hash m)"
proof -
  obtain n where n: "update_files e (\<lambda>f. f_id f = f_id f0) (\<lambda>f. f\<lparr>f_status := FileStatusDeleted\<rparr>) w = (Inr n, w')"
    using del by (auto simp: UpdateFileStatus_def affected_Inr)
  show ?thesis by (rule delete_spare [OF ok f0 _ _ _ n m]) auto
qed

lemma GetManifest_Inr:
  "GetManifest e fid w = (Inr ms, w') \<Longrightarrow> set ms \<subseteq> set (mrows w fid)"
  using set_rows by (fastforce simp: GetManifest_def dest!: query_InrD)

lemma GetManifest_durable [simp]: "durable (snd (GetManifest e fid w)) = durable w"
  by (simp add: GetManifest_def)

lemma GetFileByID_durable [simp]: "durable (snd (GetFileByID e u fid w)) = durable w"
  by (simp add: GetFileByID_def)

lemma with_err_Inl [simp]: "with_err p (Inl err, w) = (Inl (wrapf p err), w)"
  by (simp add: with_err_def)

lemma GetFile_durable [simp]: "durable (snd (GetFile e u fid w)) = durable w"
proof -
  define from_db :: "world \<Rightarrow> file_row option result \<times> world" where "from_db = (\<lambda>w1.
            case GetFileByID e u fid w1 of
              (Inl err, w2) \<Rightarrow> (Inl err, w2)
            | (Inr None, w2) \<Rightarrow> (Inr None, w2)
            | (Inr (Some f), w2) \<Rightarrow> (Inr (Some f), snd (cache_Set e (file_key fid) (JFile f) fileCacheTTL w2)))"
  have db: "durable (snd (from_db v)) = durable v" for v
  proof -
    obtain r v2 where v2: "GetFileByID e u fid v = (r, v2)" by force
    then have "durable v2 = durable v" using GetFileByID_durable [of e u fid v] by simp
    then show ?thesis by (simp add: from_db_def v2 split: sum.splits option.splits)
  qed
  obtain r w1 where c: "cache_Get e (file_key fid) w = (r, w1)" by force
  have "durable w1 = durable w" using cache_durable(2) [of e "file_key fid" w] c by simp
  then show ?thesis
    using db [of w1] by (simp add: GetFile_def c from_db_def [symmetric] split: sum.splits jdoc.splits)
qed

lemma sys_ok_core: "sys_ok U s G w \<Longrightarrow> core w' = core w \<Longrightarrow> sys_ok U s G w'"
  using core_sys_ok(1) by blast

lemma DeleteFile_ok:
  assumes ok: "sys_ok U (fs_store s) G w"
  shows "sys_ok U (fs_store s) G (snd (DeleteFile e s u fid w))"
proof -
  let ?S = "fs_store s"
  obtain x1 w1 where x1: "GetFile e u fid w = (x1, w1)" by force
  have d1: "durable w1 = durable w" using GetFile_durable [of e u fid w] x1 by simp
  have ok1: "sys_ok U ?S G w1" by (rule sys_ok_durable [OF ok d1])
  obtain x2 w2 where x2: "GetManifest e fid w1 = (x2, w2)" by force
  have d2: "durable w2 = durable w1" using GetManifest_durable [of e fid w1] x2 by simp
  have ok2: "sys_ok U ?S G w2" by (rule sys_ok_durable [OF ok1 d2])
  obtain x3 w3 where x3: "SoftDeleteFile e u fid w2 = (x3, w3)" by force
  have ok3: "sys_ok U ?S G w3" using SoftDeleteFile_ok [OF ok2, of e u fid] x3 by simp
  consider (early) "\<not> is_ok x1 \<or> x1 = Inr None \<or> \<not> is_ok x2 \<or> \<not> is_ok x3"
    | (past) f ms where "x1 = Inr (Some f)" "x2 = Inr ms" "x3 = Inr ()"
    by (cases x1; cases x2; cases x3; cases "projr x1") auto
  then show ?thesis
  proof cases
    case early
    then show ?thesis
      using ok1 ok2 ok3 x1 x2 x3
      by (auto simp: DeleteFile_def is_ok_def split: sum.splits option.splits)
  next
    case (past f ms)
    have "set ms \<subseteq> set (mrows w2 fid)"
      using GetManifest_Inr [of e fid w1 ms w2] x2 past(2) durable_eqD [OF d2] by simp
    then have sp: "spare_in w3 h" if "h \<in> set (map me_hash ms)" for h
      using SoftDeleteFile_spare [OF ok2] x3 past(3) that by auto
    define w4 where "w4 = (if ms = [] then w3
         else (case DecrementRefCounts e (map me_hash ms) w3 of (Inl _, v) \<Rightarrow> v
               | (Inr orphaned, v) \<Rightarrow> if orphaned = [] then v else snd (call_DeleteChunks e s orphaned v)))"
    have ok4: "sys_ok U ?S G w4"
    proof -
      obtain x v where xv: "DecrementRefCounts e (map me_hash ms) w3 = (x, v)" by force
      have okv: "sys_ok U ?S G v" using DecrementRefCounts_ok [OF ok3, of "map me_hash ms" e] sp xv by simp
      have "sys_ok U ?S G (snd (call_DeleteChunks e s orphaned v))" if "x = Inr orphaned" for orphaned
        by (rule call_DeleteChunks_ok [OF okv])
           (rule DecrementRefCounts_orphans [OF ok3 sp], use xv that in auto)
      then show ?thesis using ok3 okv xv by (auto simp: w4_def split: sum.splits)
    qed
    have c: "core (invalidateUserCache e u (invalidateFileCache e fid (snd (UpdateStorageUsed e u d w4)))) = core w4" for d
      using core_durable [OF invalidate_durable(2)] core_durable [OF invalidate_durable(1)] UpdateStorageUsed_core
      by metis
    have c': "core (snd (Publish e t k tr p v)) = core v" for t k tr p v
      by (rule core_durable) simp
    show ?thesis
      using sys_ok_core [OF ok4 c] sys_ok_core [OF _ c'] x1 x2 x3 past
      by (simp add: DeleteFile_def w4_def [symmetric] Let_def)
  qed
qed

lemma GetFileVersion_durable [simp]: "durable (snd (GetFileVersion e u fid n w)) = durable w"
proof -
  obtain x v where q: "query e (\<lambda>v. first_row (\<lambda>f. f_id f = fid \<and> f_user f = u) (files v)) w = (x, v)" by force
  have "durable (snd (query e (\<lambda>v. first_row (\<lambda>f. f_id f = fid \<and> f_user f = u) (files v)) w)) = durable w"
    by (rule query_durable)
  then have "durable v = durable w" by (simp add: q)
  then show ?thesis
    by (cases x) (auto simp: GetFileVersion_def q split: option.splits)
qed

lemma GetFileVersion_member:
  assumes "GetFileVersion e u fid n w = (Inr (Some f), w')"
  shows "f \<in> set (files w) \<and> kept f \<and> f_user f = u \<and> f_version f = n"
proof -
  obtain g v where g: "query e (\<lambda>v. first_row (\<lambda>f. f_id f = fid \<and> f_user f = u) (files v)) w = (Inr (Some g), v)"
    "query e (\<lambda>v. first_row (\<lambda>f. f_user f = u \<and> f_name f = f_name g \<and> f_parent f = f_parent g \<and>
          f_version f = n \<and> kept_status (f_status f)) (files v)) v = (Inr (Some f), w')"
    using assms by (auto simp: GetFileVersion_def with_err_def split: option.splits prod.splits sum.splits)
  have v: "files v = files w" using query_InrD [OF g(1)] by simp
  have "first_row (\<lambda>f. f_user f = u \<and> f_name f = f_name g \<and> f_parent f = f_parent g \<and>
          f_version f = n \<and> kept_status (f_status f)) (files w) = Some f"
    using query_InrD [OF g(2)] v by simp
  from first_row_Some [OF this] show ?thesis by (simp add: kept_def)
qed

lemma GetLatest_durable [simp]: "durable (snd (GetLatestFileByName e u p n w)) = durable w"
  by (simp add: GetLatestFileByName_def)

lemma promote_previous_ok:
  assumes ok: "sys_ok U s G w" shows "sys_ok U s G (promote_previous e u f w)"
proof -
  obtain x v where x: "GetLatestFileByName e u (f_parent f) (f_name f) w = (x, v)" by force
  have d: "durable v = durable w" using GetLatest_durable [of e u "f_parent f" "f_name f" w] x by simp
  have okv: "sys_ok U s G v" by (rule sys_ok_durable [OF ok d])
  have "sys_ok U s G (snd (UpdateFileStatus e (f_id l) FileStatusActive v))" if "x = Inr (Some l)" for l
  proof (rule UpdateFileStatus_ok [OF okv])
    have l: "l \<in> set (files v)" "kept l"
      using GetLatest_member [of e u "f_parent f" "f_name f" w l v] x that durable_eqD(2) [OF d] by auto
    show "\<forall>g \<in> set (files v). f_id g = f_id l \<longrightarrow> kept g"
      using id_unique [OF sys_okD(1) [OF okv]] l by blast
  qed
  then show ?thesis
    using ok okv x by (auto simp: promote_previous_def split: sum.splits option.splits)
qed

lemma DeleteVersion_ok:
  assumes ok: "sys_ok U s G w"
  shows "sys_ok U s G (snd (DeleteVersion e u fid n w))"
proof -
  obtain x1 w1 where x1: "GetFileVersion e u fid n w = (x1, w1)" by force
  have d1: "durable w1 = durable w" using GetFileVersion_durable [of e u fid n w] x1 by simp
  have ok1: "sys_ok U s G w1" by (rule sys_ok_durable [OF ok d1])
  show ?thesis
  proof (cases "\<exists>f. x1 = Inr (Some f)")
    case False
    then show ?thesis using ok1 x1 by (auto simp: DeleteVersion_def split: sum.splits option.splits)
  next
    case True
    then obtain f where f: "x1 = Inr (Some f)" by blast
    have fm: "f \<in> set (files w1)" "kept f"
      using GetFileVersion_member [of e u fid n w f w1] x1 f durable_eqD(2) [OF d1] by auto
    obtain x2 w2 where x2: "GetManifest e (f_id f) w1 = (x2, w2)" by force
    have d2: "durable w2 = durable w1" using GetManifest_durable [of e "f_id f" w1] x2 by simp
    have ok2: "sys_ok U s G w2" by (rule sys_ok_durable [OF ok1 d2])
    define ms where "ms = (case x2 of Inl _ \<Rightarrow> [] | Inr ms \<Rightarrow> ms)"
    have sub: "set ms \<subseteq> set (mrows w2 (f_id f))"
      using GetManifest_Inr [of e "f_id f" w1] x2 durable_eqD [OF d2] by (auto simp: ms_def split: sum.splits)
    obtain x3 w3 where x3: "UpdateFileStatus e (f_id f) FileStatusDeleted w2 = (x3, w3)" by force
    have ok3: "sys_ok U s G w3"
      using UpdateFileStatus_ok [OF ok2, of FileStatusDeleted "f_id f" e] x3 by simp
    show ?thesis
    proof (cases x3)
      case (Inl err)
      then show ?thesis using ok3 x1 f x2 x3 by (simp add: DeleteVersion_def Let_def ms_def)
    next
      case (Inr un)
      have sp: "spare_in w3 h" if "h \<in> set (map me_hash ms)" for h
        using UpdateFileStatus_spare [OF ok2, of f e w3] fm durable_eqD(2) [OF d2] x3 Inr sub that by auto
      define w4 where "w4 = (if ms = [] then w3 else snd (DecrementRefCounts e (map me_hash ms) w3))"
      have ok4: "sys_ok U s G w4"
        using DecrementRefCounts_ok [OF ok3, of "map me_hash ms" e] sp ok3 by (auto simp: w4_def)
      have ok5: "sys_ok U s G (snd (UpdateStorageUsed e u d w4))" for d
        by (rule sys_ok_core [OF ok4 UpdateStorageUsed_core])
      have ok6: "sys_ok U s G (promote_previous e u f (snd (UpdateStorageUsed e u d w4)))" for d
        by (rule promote_previous_ok [OF ok5])
      have "sys_ok U s G (invalidateUserCache e u (invalidateFileCache e (f_id f) v))" if "sys_ok U s G v" for v
        by (rule sys_ok_durable [OF that]) simp
      moreover have "snd (DeleteVersion e u fid n w) = invalidateUserCache e u (invalidateFileCache e (f_id f)
          (promote_previous e u f (snd (UpdateStorageUsed e u (i64 (- f_size f)) w4))))"
        unfolding w4_def using x1 f x2 x3 Inr by (simp add: DeleteVersion_def Let_def ms_def)
      ultimately show ?thesis using ok6 by simp
    qed
  qed
qed

section \<open>Folders\<close>

lemma svc_MoveFile_ok:
  assumes "sys_ok U s G w" "svc_MoveFile e u fid np w = Some (r, w')"
  shows "sys_ok U s G w'"
proof -
  define mv where "mv = (\<lambda>w1.
            case MoveFile e u fid np w1 of
              (Inl err, w2) \<Rightarrow> (Inl (wrapf ''move file'' err), w2)
            | (Inr _, w2) \<Rightarrow> (Inr () :: unit result, invalidateUserCache e u (invalidateFileCache e fid w2)))"
  have mv: "sys_ok U s G (snd (mv v))" if "sys_ok U s G v" for v
  proof -
    obtain x v2 where x: "MoveFile e u fid np v = (x, v2)" by force
    have "sys_ok U s G v2" using repo_MoveFile_ok [OF that, of e u fid np] x by simp
    moreover from this have "sys_ok U s G (invalidateUserCache e u (invalidateFileCache e fid v2))"
      by (rule sys_ok_durable) simp
    ultimately show ?thesis by (cases x) (simp_all add: mv_def x)
  qed
  show ?thesis
  proof (cases np)
    case None
    then show ?thesis using assms mv [OF assms(1)] by (simp add: svc_MoveFile_def mv_def)
  next
    case (Some p)
    show ?thesis
    proof (cases "p = fid")
      case True
      then show ?thesis using assms Some by (simp add: svc_MoveFile_def)
    next
      case False
      obtain x w1 where x: "IsDescendant e p fid w = Some (x, w1)"
        using assms(2) Some False by (auto simp: svc_MoveFile_def Let_def split: option.splits)
      obtain y v where y: "query e files w = (y, v)" by force
      have "durable v = durable w" using query_durable [of e files w] y by simp
      moreover have "w1 = v" using x y by (cases y) (auto simp: IsDescendant_def)
      ultimately have ok1: "sys_ok U s G w1" using sys_ok_durable [OF assms(1)] by simp
      show ?thesis
        using assms(2) Some False x ok1 mv [OF ok1]
        by (auto simp: svc_MoveFile_def mv_def split: sum.splits bool.splits)
    qed
  qed
qed

lemma VerifyFolder_durable [simp]: "durable (snd (VerifyFolderOwnership e u p w)) = durable w"
  by (simp add: VerifyFolderOwnership_def)

lemma CreateFolder_ok:
  assumes ok: "sys_ok U s G w" shows "sys_ok U s G (snd (CreateFolder e u n p w))"
proof -
  define mk where "mk = (\<lambda>w1.
            case CreateDirectory e u n p w1 of
              (Inl err, w2) \<Rightarrow> (Inl (wrapf ''create folder'' err), w2)
            | (Inr folder, w2) \<Rightarrow> (Inr folder :: file_row result, invalidateUserCache e u w2))"
  have mk: "sys_ok U s G (snd (mk v))" if "sys_ok U s G v" for v
  proof -
    obtain x v2 where x: "CreateDirectory e u n p v = (x, v2)" by force
    have "sys_ok U s G v2" using CreateDirectory_ok [OF that, of e u n p] x by simp
    moreover from this have "sys_ok U s G (invalidateUserCache e u v2)" by (rule sys_ok_durable) simp
    ultimately show ?thesis by (cases x) (simp_all add: mk_def x)
  qed
  show ?thesis
  proof (cases p)
    case None
    then show ?thesis using mk [OF ok] by (simp add: CreateFolder_def mk_def)
  next
    case (Some q)
    obtain x v where x: "VerifyFolderOwnership e u q w = (x, v)" by force
    have "durable v = durable w" using VerifyFolder_durable [of e u q w] x by simp
    then have okv: "sys_ok U s G v" by (rule sys_ok_durable [OF ok])
    show ?thesis
      using x okv mk [OF okv] Some by (simp add: CreateFolder_def mk_def split: sum.splits option.splits)
  qed
qed

section \<open>Garbage collection\<close>

abbreviation chunk_key :: "chunk_row \<Rightarrow> string \<times> string \<times> int \<times> int" where
  "chunk_key c \<equiv> (c_id c, c_hash c, c_size c, c_refs c)"

lemma same_keys_entries:
  "map chunk_key cs' = map chunk_key cs \<Longrightarrow> chunk_entries cs' r = chunk_entries cs r"
  unfolding chunk_entries_def
proof (induction cs arbitrary: cs')
  case (Cons c cs)
  then obtain c' cs'' where "cs' = c' # cs''" "chunk_key c' = chunk_key c" "map chunk_key cs'' = map chunk_key cs"
    by (cases cs') auto
  with Cons.IH [of cs''] show ?case by simp
qed simp

lemma sys_ok_same_keys:
  assumes ok: "sys_ok U s G w" and eq: "map chunk_key cs' = map chunk_key (chunks w)"
  shows "sys_ok U s G (w\<lparr>chunks := cs'\<rparr>)"
proof (rule sys_ok_step [OF ok])
  have ids: "map c_id cs' = map c_id (chunks w)" "map c_hash cs' = map c_hash (chunks w)"
    using arg_cong [OF eq, of "map fst"] arg_cong [OF eq, of "map (fst \<circ> snd)"] by (simp_all add: comp_def)
  have mem: "\<exists>d \<in> set (chunks w). chunk_key d = chunk_key c" if "c \<in> set cs'" for c
  proof -
    have "chunk_key c \<in> set (map chunk_key cs')" using that by simp
    then show ?thesis unfolding eq by auto
  qed
  show "db_of (w\<lparr>chunks := cs'\<rparr>)"
  proof (rule db_okI)
    show "int (refs (files (w\<lparr>chunks := cs'\<rparr>)) (file_chunks (w\<lparr>chunks := cs'\<rparr>)) (c_id c)) \<le> c_refs c"
      if c: "c \<in> set (chunks (w\<lparr>chunks := cs'\<rparr>))" for c
    proof -
      obtain d where d: "d \<in> set (chunks w)" "c_id d = c_id c" "c_refs d = c_refs c"
        using mem [of c] c by auto
      have "int (refs_in w (c_id d)) \<le> c_refs d" by (rule db_okD(6) [OF sys_okD(1) [OF ok] d(1)])
      then show ?thesis by (simp add: d)
    qed
    show "fc_chunk r \<in> c_id ` set (chunks (w\<lparr>chunks := cs'\<rparr>))" if "r \<in> set (file_chunks (w\<lparr>chunks := cs'\<rparr>))" for r
    proof -
      have "fc_chunk r \<in> set (map c_id (chunks w))"
        using that db_okD(5) [OF sys_okD(1) [OF ok], of r] by simp
      then have "fc_chunk r \<in> set (map c_id cs')" by (simp only: ids)
      then show ?thesis by simp
    qed
    show "distinct (map f_id (files (w\<lparr>chunks := cs'\<rparr>)))" using db_okD(1) [OF sys_okD(1) [OF ok]] by simp
    show "distinct (map c_id (chunks (w\<lparr>chunks := cs'\<rparr>)))" "distinct (map c_hash (chunks (w\<lparr>chunks := cs'\<rparr>)))"
      using db_okD(2,3) [OF sys_okD(1) [OF ok]] by (simp_all add: ids)
    show "fc_file r \<in> f_id ` set (files (w\<lparr>chunks := cs'\<rparr>))" if "r \<in> set (file_chunks (w\<lparr>chunks := cs'\<rparr>))" for r
      using that db_okD(4) [OF sys_okD(1) [OF ok], of r] by simp
  qed
  show "mrows (w\<lparr>chunks := cs'\<rparr>) (f_id f) = mrows w (f_id f)" for f :: file_row
    using manifest_rows_cong [of "file_chunks w" "f_id f" cs' "chunks w"] same_keys_entries [OF eq] by simp
qed (use sys_okD(2) [OF ok] in auto)

lemma mark_first_keys: "map chunk_key (mark_first n now cs) = map chunk_key cs"
  by (induction n now cs rule: mark_first.induct) auto

lemma markOrphans_ok: "sys_ok U s G w \<Longrightarrow> sys_ok U s G (snd (markOrphans e g w))"
proof -
  assume ok: "sys_ok U s G w"
  let ?n = "gc_batch (co_cfg g)"
  have "sys_ok U s G (snd (ext e (\<lambda>v. if ?n < 0 then (Inl ''LIMIT must not be negative'', v)
            else (Inr (int (orphan_count (nat ?n) (chunks v))),
                  v\<lparr>chunks := mark_first (nat ?n) (now_at e (calls v)) (chunks v)\<rparr>)) w))"
    by (rule ext_keeps [where P = "sys_ok U s G"]) (auto simp: ok intro: sys_ok_same_keys [OF _ mark_first_keys])
  then show ?thesis
    by (simp add: markOrphans_def Let_def case_prod_beta split: sum.splits)
qed

text \<open>What the sweep remembers of a candidate stays true: its id belongs to its hash.\<close>

definition agrees :: "world \<Rightarrow> chunk_row \<Rightarrow> bool" where
  "agrees w cand \<longleftrightarrow> (\<forall>c \<in> set (chunks w). c_id c = c_id cand \<longrightarrow> c_hash c = c_hash cand)"

lemma resurrect_ok: "sys_ok U s G w \<Longrightarrow> sys_ok U s G (snd (resurrect e cid w))"
proof -
  assume ok: "sys_ok U s G w"
  have "map chunk_key (map (\<lambda>c. if c_id c = cid then c\<lparr>c_status := ChunkStatusActive\<rparr> else c) cs) = map chunk_key cs" for cs
    by (induction cs) auto
  then show ?thesis
    unfolding resurrect_def by (intro ext_keeps [where P = "sys_ok U s G"]) (auto simp: ok intro: sys_ok_same_keys)
qed

lemma delete_file_chunks_ok:
  assumes ok: "sys_ok U s G w" and zero: "refs_in w cid = 0"
  shows "sys_ok U s G (snd (delete_file_chunks e cid w))"
proof -
  have "sys_ok U s G (w\<lparr>calls := n, file_chunks := filter (\<lambda>r. fc_chunk r \<noteq> cid) (file_chunks w)\<rparr>)" (is "sys_ok U s G ?w") for n
  proof (rule sys_ok_step [OF ok])
    show "db_of ?w" using db_ok_filter_rows [OF sys_okD(1) [OF ok]] by simp
    show "store_ok U s ?w" using sys_okD(2) [OF ok] by simp
    show "mrows ?w (f_id f) = mrows w (f_id f)" if f: "f \<in> set (files w)" "kept f" for f
    proof -
      have "\<not> uses (file_chunks w) (f_id f) cid" using zero f by (auto simp: refs_zero_iff)
      then show ?thesis by (auto simp: uses_iff intro!: manifest_rows_filter_rows)
    qed
  qed auto
  then show ?thesis
    using ok by (auto simp: delete_file_chunks_def ext_def Let_def split: outcome.splits)
qed

lemma delete_chunk_row_ok:
  assumes ok: "sys_ok U s G w" shows "sys_ok U s G (snd (delete_chunk_row e cid w))"
proof -
  let ?P = "\<lambda>c. \<not> (c_id c = cid \<and> c_refs c = 0)"
  have "sys_ok U s G (v\<lparr>chunks := filter ?P (chunks v)\<rparr>)" (is "sys_ok U s G ?v")
    if v: "sys_ok U s G v"
      and free: "\<not> (list_ex (\<lambda>c. c_id c = cid \<and> c_refs c = 0) (chunks v) \<and> list_ex (\<lambda>r. fc_chunk r = cid) (file_chunks v))" for v
  proof (rule sys_ok_step [OF v])
    have used: "fc_chunk r \<noteq> c_id c" if "c \<in> set (chunks v)" "\<not> ?P c" "r \<in> set (file_chunks v)" for c r
      using that free by (auto simp: list_ex_iff)
    have "db_ok (files v) (filter ?P (chunks v)) (file_chunks v)"
      by (rule db_ok_filter_chunks [OF sys_okD(1) [OF v]]) (rule used)
    then show "db_of ?v" by simp
    show "store_ok U s ?v" using sys_okD(2) [OF v] by simp
    show "mrows ?v (f_id f) = mrows v (f_id f)" for f :: file_row
    proof -
      have "manifest_rows (filter ?P (chunks v)) (file_chunks v) (f_id f) = mrows v (f_id f)"
        by (rule manifest_rows_filter_chunks) (use used in metis)
      then show ?thesis by simp
    qed
  qed auto
  then show ?thesis
    unfolding delete_chunk_row_def
    by (intro ext_keeps [where P = "sys_ok U s G"]) (auto simp: ok)
qed

definition idh :: "world \<Rightarrow> (string \<times> string) set" where
  "idh w = (\<lambda>c. (c_id c, c_hash c)) ` set (chunks w)"

lemma agrees_sub: "idh w' \<subseteq> idh w \<Longrightarrow> agrees w cand \<Longrightarrow> agrees w' cand"
  unfolding agrees_def idh_def by (auto simp: image_subset_iff)

lemma ext_idh:
  assumes "\<And>v. idh (snd (f v)) \<subseteq> idh v" shows "idh (snd (ext e f w)) \<subseteq> idh w"
proof (rule ext_keeps [where P = "\<lambda>v. idh v \<subseteq> idh w"])
  show "ignores_calls (\<lambda>v. idh v \<subseteq> idh w)" by (simp add: ignores_calls_def idh_def)
qed (use assms in blast)+

lemma idh_tables: "tables w' = tables w \<Longrightarrow> idh w' = idh w"
  using tables_eqD(3) [of w' w] by (simp add: idh_def)

lemma sweep_idh:
  shows "idh (snd (resurrect e cid w)) \<subseteq> idh w" "idh (snd (delete_file_chunks e cid w)) \<subseteq> idh w"
    and "idh (snd (delete_chunk_row e cid w)) \<subseteq> idh w"
proof -
  show "idh (snd (resurrect e cid w)) \<subseteq> idh w"
    unfolding resurrect_def by (rule ext_idh) (auto simp: idh_def)
  show "idh (snd (delete_file_chunks e cid w)) \<subseteq> idh w"
    unfolding delete_file_chunks_def by (rule ext_idh) (auto simp: idh_def)
  show "idh (snd (delete_chunk_row e cid w)) \<subseteq> idh w"
    unfolding delete_chunk_row_def by (rule ext_idh) (auto simp: idh_def)
qed

lemma sweep_one_ok:
  assumes ok: "sys_ok U (co_store g) G w" and ag: "agrees w cand"
  shows "sys_ok U (co_store g) G (snd (sweep_one e g cand w)) \<and> idh (snd (sweep_one e g cand w)) \<subseteq> idh w"
proof -
  let ?S = "co_store g" and ?cid = "c_id cand" and ?hash = "c_hash cand"
  obtain x w1 where x: "query e (\<lambda>v. first_row (\<lambda>c. c_id c = ?cid) (chunks v)) w = (x, w1)" by force
  have "durable (snd (query e (\<lambda>v. first_row (\<lambda>c. c_id c = ?cid) (chunks v)) w)) = durable w" by (rule query_durable)
  then have d1: "durable w1 = durable w" by (simp add: x)
  have ok1: "sys_ok U ?S G w1" by (rule sys_ok_durable [OF ok d1])
  have i1: "idh w1 = idh w" by (rule idh_tables [OF tables_durable [OF d1]])
  show ?thesis
  proof (cases "\<exists>c. x = Inr (Some c)")
    case False
    then show ?thesis using ok1 i1 x by (auto simp: sweep_one_def Let_def split: sum.splits option.splits)
  next
    case True
    then obtain c where c: "x = Inr (Some c)" by blast
    have "first_row (\<lambda>c. c_id c = ?cid) (chunks w) = Some c"
      using query_InrD [OF x [unfolded c]] by simp
    then have cm: "c \<in> set (chunks w1)" "c_id c = ?cid"
      using first_row_Some [of _ "chunks w" c] durable_eqD(3) [OF d1] by auto
    have hash: "c_hash c = ?hash" using ag cm durable_eqD(3) [OF d1] by (simp add: agrees_def)
    show ?thesis
    proof (cases "0 < c_refs c")
      case True
      obtain y w2 where y: "resurrect e ?cid w1 = (y, w2)" by force
      have "sys_ok U ?S G w2" "idh w2 \<subseteq> idh w"
        using resurrect_ok [OF ok1, of e ?cid] sweep_idh(1) [of e ?cid w1] y i1 by auto
      then show ?thesis using True x c y by (simp add: sweep_one_def Let_def)
    next
      case False
      have zero: "refs_in w1 ?cid = 0"
        using db_okD(6) [OF sys_okD(1) [OF ok1] cm(1)] cm(2) False by simp
      have free: "free_in w1 ?hash"
        unfolding free_in_def
        using hash_unique [OF sys_okD(1) [OF ok1] _ cm(1)] hash cm(2) zero by metis
      obtain y2 w2 where y2: "DeleteChunk e ?S ?hash w1 = (y2, w2)" by force
      have ok2: "sys_ok U ?S G w2" and t2: "tables w2 = tables w1"
        using DeleteChunk_ok [OF ok1 free, of e] DeleteChunk_tables [of e ?S ?hash w1] y2 by auto
      have i2: "idh w2 = idh w" using idh_tables [OF t2] i1 by simp
      have "refs_in w2 ?cid = 0" using zero tables_eqD [OF t2] by simp
      obtain y3 w3 where y3: "delete_file_chunks e ?cid w2 = (y3, w3)" by force
      have ok3: "sys_ok U ?S G w3" and i3: "idh w3 \<subseteq> idh w"
        using delete_file_chunks_ok [OF ok2 \<open>refs_in w2 ?cid = 0\<close>, of e] sweep_idh(2) [of e ?cid w2] y3 i2 by auto
      obtain y4 w4 where y4: "delete_chunk_row e ?cid w3 = (y4, w4)" by force
      have ok4: "sys_ok U ?S G w4" and i4: "idh w4 \<subseteq> idh w"
        using delete_chunk_row_ok [OF ok3, of e ?cid] sweep_idh(3) [of e ?cid w3] y4 i3 by auto
      have pub: "sys_ok U ?S G (snd (Publish e t k tr p w4))" "idh (snd (Publish e t k tr p w4)) \<subseteq> idh w" for t k tr p
        using sys_ok_durable [OF ok4, of "snd (Publish e t k tr p w4)"]
          idh_tables [of "snd (Publish e t k tr p w4)" w4] tables_durable [of "snd (Publish e t k tr p w4)" w4] i4
        by auto
      show ?thesis
        using False x c y2 y3 y4 ok2 i2 ok4 i4 pub
        by (cases y2; cases y4) (auto simp: sweep_one_def Let_def)
    qed
  qed
qed

lemma sweep_loop_ok:
  "sys_ok U (co_store g) G w \<Longrightarrow> (\<And>c. c \<in> set cs \<Longrightarrow> agrees w c) \<Longrightarrow>
   sys_ok U (co_store g) G (snd (sweep_loop e g cs n w))"
proof (induction cs arbitrary: n w)
  case (Cons c cs)
  obtain r w1 where r: "sweep_one e g c w = (r, w1)" by force
  have w1: "sys_ok U (co_store g) G w1" "idh w1 \<subseteq> idh w"
    using sweep_one_ok [OF Cons.prems(1), of c e] Cons.prems(2) r by auto
  have "agrees w1 d" if "d \<in> set cs" for d
    using agrees_sub [OF w1(2)] Cons.prems(2) that by simp
  from Cons.IH [OF w1(1) this] show ?case
    using r w1 by (auto split: option.splits)
qed simp

lemma agrees_row: "sys_ok U s G w \<Longrightarrow> c \<in> set (chunks w) \<Longrightarrow> agrees w c"
  using db_okD(2) [of "files w" "chunks w" "file_chunks w"] sys_okD(1) [of U s G w]
  by (auto simp: agrees_def distinct_map dest: inj_onD)

lemma sweepMarked_ok:
  assumes ok: "sys_ok U (co_store g) G w" shows "sys_ok U (co_store g) G (snd (sweepMarked e g w))"
proof -
  define f :: "world \<Rightarrow> chunk_row list result \<times> world" where
    "f = (\<lambda>v. if gc_batch (co_cfg g) < 0 then (Inl ''LIMIT must not be negative'', v)
       else (Inr (rows e (calls v) (sweep_candidates (co_cfg g) (now_at e (calls v)) (chunks v))), v))"
  obtain r w1 where r: "ext e f w = (r, w1)" by force
  have "durable (snd (ext e f w)) = durable w" by (rule ext_durable) (simp add: f_def)
  then have d: "durable w1 = durable w" by (simp add: r)
  have ok1: "sys_ok U (co_store g) G w1" by (rule sys_ok_durable [OF ok d])
  have "sys_ok U (co_store g) G (snd (sweep_loop e g cands 0 w1))" if "r = Inr cands" for cands
  proof (rule sweep_loop_ok [OF ok1])
    fix c assume c: "c \<in> set cands"
    have "\<exists>n t. cands = rows e n (sweep_candidates (co_cfg g) t (chunks w))"
      using r that by (auto simp: f_def dest!: ext_InrD split: if_splits) (intro exI, rule refl)
    then have "c \<in> set (chunks w)"
      using c set_rows by (fastforce simp: sweep_candidates_def dest: in_set_takeD)
    then show "agrees w1 c" using agrees_row [OF ok1, of c] durable_eqD(3) [OF d] by simp
  qed
  then show ?thesis
    using ok1 r by (auto simp: sweepMarked_def f_def [symmetric] split: sum.splits)
qed

lemma runCycle_ok:
  assumes ok: "sys_ok U (co_store g) G w" shows "sys_ok U (co_store g) G (runCycle e g w)"
proof -
  obtain r w1 where r: "cache_SetNX e gcLockKey (JText ''running'') gcLockTTL w = (r, w1)" by force
  have "durable w1 = durable w" using cache_durable(5) [of e gcLockKey "JText ''running''" gcLockTTL w] r by simp
  then have ok1: "sys_ok U (co_store g) G w1" by (rule sys_ok_durable [OF ok])
  obtain m w2 where m: "markOrphans e g w1 = (m, w2)" by force
  have ok2: "sys_ok U (co_store g) G w2" using markOrphans_ok [OF ok1, of e g] m by simp
  obtain k w3 where k: "sweepMarked e g w2 = (k, w3)" by force
  have ok3: "sys_ok U (co_store g) G w3" using sweepMarked_ok [OF ok2, of e] k by simp
  have "sys_ok U (co_store g) G (snd (cache_Delete e [gcLockKey] w3))" by (rule sys_ok_durable [OF ok3]) simp
  then show ?thesis using ok1 r m k by (auto simp: runCycle_def split: sum.splits bool.splits)
qed

end
