(* ===== verification/Durability.thy ===== *)
theory Durability
  imports Integrity
begin

text \<open>
  Histories of the whole system: uploads, deletions of files and versions, moves, new folders,
  garbage collections and reads, one after the other, each under failures of its own.  What was
  uploaded can be read back as long as its file is kept; an upload that meets no failure completes.
\<close>

section \<open>Histories\<close>

text \<open>
  \<open>G\<close> collects what the successful uploads sent.  An upload counts here when no \<^verbatim>\<open>UpsertChunk\<close> of it
  failed: the code goes on after such a failure, and the manifest then holds a chunk it has no
  reference to.  \<^verbatim>\<open>DeleteFolder\<close> is no step, as it releases chunks of files it keeps.
\<close>

inductive hist :: "byte list set \<Rightarrow> file_service \<Rightarrow> (string \<Rightarrow> byte list option) \<Rightarrow> world \<Rightarrow> bool"
  for U :: "byte list set" and s :: file_service where
  start: "\<lbrakk>files w = []; chunks w = []; file_chunks w = []; objects w = Map.empty\<rbrakk> \<Longrightarrow> hist U s Map.empty w"
| upload: "\<lbrakk>hist U s G w; stream_covered U (fs_pieces s) file;
     concat (fs_pieces s (rd_content file)) = rd_content file;
     length (fs_pieces s (rd_content file)) \<le> 2147483647;
     Upload_run e s server u name mime file w = Some (r, 0, w')\<rbrakk> \<Longrightarrow>
     hist U s (learn G (rd_content file) r) w'"
| delete: "hist U s G w \<Longrightarrow> hist U s G (snd (DeleteFile e s u fid w))"
| delete_version: "hist U s G w \<Longrightarrow> hist U s G (snd (DeleteVersion e u fid n w))"
| move: "hist U s G w \<Longrightarrow> svc_MoveFile e u fid np w = Some (r, w') \<Longrightarrow> hist U s G w'"
| folder: "hist U s G w \<Longrightarrow> hist U s G (snd (CreateFolder e u name p w))"
| collect: "hist U s G w \<Longrightarrow> co_store g = fs_store s \<Longrightarrow> hist U s G (runCycle e g w)"
| read: "hist U s G w \<Longrightarrow> durable w' = durable w \<Longrightarrow> hist U s G w'"

lemma sys_ok_start:
  assumes "files w = []" "chunks w = []" "file_chunks w = []" "objects w = Map.empty"
  shows "sys_ok U s Map.empty w"
  using assms
  by (simp add: sys_ok_def db_ok_def store_ok_def minio.all_objects_def stored_def)

lemma hist_ok: "hist U s G w \<Longrightarrow> collision_free U \<Longrightarrow> sys_ok U (fs_store s) G w"
proof (induction rule: hist.induct)
  case (start w)
  then show ?case by (intro sys_ok_start)
next
  case (upload G w fl e server u name mime r w')
  from Upload_run_ok [OF upload.IH [OF upload.prems] upload.prems upload.hyps(2-5)] show ?case by blast
next
  case (collect G w g e)
  have "sys_ok U (co_store g) G w" using collect.IH [OF collect.prems] collect.hyps(2) by simp
  from runCycle_ok [OF this, of e] show ?case by (simp add: collect.hyps(2))
next
  case (read G w w')
  from sys_ok_durable [OF read.IH [OF read.prems] read.hyps(2)] show ?case .
qed (simp_all add: DeleteFile_ok DeleteVersion_ok svc_MoveFile_ok CreateFolder_ok)

text \<open>A manifest read in full, from a file that is kept.\<close>

lemma GetManifest_rows:
  assumes "GetManifest e fid w = (Inr ms, w1)" "\<And>n. rows_at e n = None"
  shows "ms = mrows w fid \<and> durable w1 = durable w"
  using assms by (auto simp: GetManifest_def rows_def dest!: query_InrD )

lemma kept_readable:
  assumes "hist U s G w" "collision_free U" "f \<in> set (files w)" "kept f" "G (f_id f) = Some d"
  shows "\<exists>ds. map (\<lambda>m. stored (fs_store s) w (me_hash m)) (mrows w (f_id f)) = map Some ds \<and> concat ds = d"
  using sys_okD(4) [OF hist_ok [OF assms(1,2)] assms(3,4)] assms(5) by (auto simp: file_good_def reads_as_def)

section \<open>Uploads that complete\<close>

definition fresh_ids :: "env \<Rightarrow> world \<Rightarrow> bool" where
  "fresh_ids e w \<longleftrightarrow> inj (uuid_at e) \<and>
     range (uuid_at e) \<inter> (f_id ` set (files w) \<union> c_id ` set (chunks w) \<union> fc_file ` set (file_chunks w)) = {}"

lemma send_all_fault_free: "fault_free e \<Longrightarrow> \<exists>w'. send_all e ds w = (None, ds, w')"
proof (induction ds arbitrary: w)
  case (Cons d ds)
  from Cons.IH [OF Cons.prems, of "w\<lparr>calls := Suc (calls w)\<rparr>"] show ?case
    using Cons.prems by (auto simp: ext_fault_free Let_def)
qed simp

lemma UpsertChunk_fault_free:
  assumes e: "fault_free e" and new: "\<And>n. calls w < n \<Longrightarrow> uuid_at e n \<notin> c_id ` set (chunks w)"
    and inj: "inj (uuid_at e)" and refs: "\<And>c. c \<in> set (chunks w) \<Longrightarrow> c_refs c + int (Suc k) \<le> max_integer"
    and k: "int (Suc k) \<le> max_integer"
  obtains c w1 where "UpsertChunk e h n w = (Inr c, w1)" "files w1 = files w" "users w1 = users w"
    "file_chunks w1 = file_chunks w" "\<And>n. calls w1 < n \<Longrightarrow> uuid_at e n \<notin> c_id ` set (chunks w1)"
    "\<And>c. c \<in> set (chunks w1) \<Longrightarrow> c_refs c + int k \<le> max_integer"
proof (cases "first_row (\<lambda>c. c_hash c = h) (chunks w)")
  case None
  have "uuid_at e (Suc (calls w)) \<notin> c_id ` set (chunks w)" by (rule new) simp
  then have u: "UpsertChunk e h n w = (Inr (new_chunk e h n (Suc (calls w))),
      w\<lparr>calls := Suc (calls w), chunks := chunks w @ [new_chunk e h n (Suc (calls w))]\<rparr>)"
    using None by (simp add: UpsertChunk_def ext_fault_free [OF e] Let_def list_ex_iff) (metis imageI)
  show ?thesis
  proof (rule that [OF u])
    fix m assume m: "calls (w\<lparr>calls := Suc (calls w), chunks := chunks w @ [new_chunk e h n (Suc (calls w))]\<rparr>) < m"
    then have "uuid_at e m \<noteq> uuid_at e (Suc (calls w))" using inj by (auto dest: injD)
    then show "uuid_at e m \<notin> c_id ` set (chunks (w\<lparr>calls := Suc (calls w), chunks := chunks w @ [new_chunk e h n (Suc (calls w))]\<rparr>))"
      using new [of m] m by auto
  qed (use refs k in \<open>fastforce+\<close>)
next
  case (Some c)
  have "c_refs c + 1 \<le> max_integer" using first_row_Some [OF Some] refs [of c] by auto
  then have u: "UpsertChunk e h n w = (Inr (c\<lparr>c_refs := c_refs c + 1\<rparr>), w\<lparr>calls := Suc (calls w),
      chunks := map (\<lambda>d. if c_hash d = h then d\<lparr>c_refs := c_refs d + 1\<rparr> else d) (chunks w)\<rparr>)"
    using Some by (simp add: UpsertChunk_def ext_fault_free [OF e] Let_def)
  show ?thesis
  proof (rule that [OF u])
    fix m assume "calls (w\<lparr>calls := Suc (calls w),
      chunks := map (\<lambda>d. if c_hash d = h then d\<lparr>c_refs := c_refs d + 1\<rparr> else d) (chunks w)\<rparr>) < m"
    then show "uuid_at e m \<notin> c_id ` set (chunks (w\<lparr>calls := Suc (calls w),
      chunks := map (\<lambda>d. if c_hash d = h then d\<lparr>c_refs := c_refs d + 1\<rparr> else d) (chunks w)\<rparr>))"
      using new [of m] by (auto split: if_splits)
  qed (use refs in \<open>fastforce+\<close>)
qed

lemma register_chunks_fault_free:
  assumes e: "fault_free e" "inj (uuid_at e)"
  shows "(\<And>n. calls w < n \<Longrightarrow> uuid_at e n \<notin> c_id ` set (chunks w)) \<Longrightarrow>
    (\<And>c. c \<in> set (chunks w) \<Longrightarrow> c_refs c + int (length cs) \<le> max_integer) \<Longrightarrow> int (length cs) \<le> max_integer \<Longrightarrow>
    \<exists>ms w'. register_chunks e cs off w = (ms, 0, w') \<and> files w' = files w \<and> users w' = users w \<and>
      file_chunks w' = file_chunks w \<and> map me_index ms = map ci_index cs"
proof (induction cs arbitrary: off w)
  case (Cons c cs)
  have len: "int (Suc (length cs)) \<le> max_integer" using Cons.prems(3) by simp
  have refs: "c_refs d + int (Suc (length cs)) \<le> max_integer" if "d \<in> set (chunks w)" for d
    using Cons.prems(2) [OF that] by simp
  obtain r w1 where u: "UpsertChunk e (ci_hash c) (ci_size c) w = (Inr r, w1)" "files w1 = files w"
      "users w1 = users w" "file_chunks w1 = file_chunks w"
      and new: "\<And>n. calls w1 < n \<Longrightarrow> uuid_at e n \<notin> c_id ` set (chunks w1)"
      and more: "\<And>d. d \<in> set (chunks w1) \<Longrightarrow> c_refs d + int (length cs) \<le> max_integer"
    using UpsertChunk_fault_free [OF e(1) Cons.prems(1) e(2) refs len, of "ci_hash c" "ci_size c"] by blast
  obtain ms w' where "register_chunks e cs (i64 (off + ci_size c)) w1 = (ms, 0, w')" "files w' = files w1"
      "users w' = users w1" "file_chunks w' = file_chunks w1" "map me_index ms = map ci_index cs"
    using Cons.IH [OF new more, of "i64 (off + ci_size c)"] Cons.prems(3) by auto
  then show ?case using u by simp
qed simp

lemma batch_insert_Some:
  "(\<And>m r. m \<in> set ms \<Longrightarrow> r \<in> set fcs \<Longrightarrow> fc_file r = fid \<Longrightarrow> fc_index r \<noteq> me_index m) \<Longrightarrow>
   distinct (map me_index ms) \<Longrightarrow> \<exists>fcs'. batch_insert fid cs ms fcs = Some fcs'"
proof (induction ms arbitrary: fcs)
  case (Cons m ms)
  have free: "\<not> list_ex (\<lambda>r. fc_file r = fid \<and> fc_index r = me_index m) fcs"
    using Cons.prems(1) [of m] by (auto simp: list_ex_iff)
  have tail: "\<exists>fcs'. batch_insert fid cs ms (fcs @ rs) = Some fcs'"
    if "\<And>r. r \<in> set rs \<Longrightarrow> fc_index r = me_index m" for rs
  proof (rule Cons.IH)
    show "distinct (map me_index ms)" using Cons.prems(2) by simp
    fix m' r assume m': "m' \<in> set ms" and r: "r \<in> set (fcs @ rs)" "fc_file r = fid"
    show "fc_index r \<noteq> me_index m'"
    proof (cases "r \<in> set fcs")
      case True
      then show ?thesis using Cons.prems(1) [of m' r] m' r(2) by simp
    next
      case False
      then have "fc_index r = me_index m" using r that by auto
      then show ?thesis using Cons.prems(2) m' by auto
    qed
  qed
  have "\<exists>fcs'. batch_insert fid cs ms fcs = Some fcs'" using tail [of "[]"] by simp
  moreover have "\<exists>fcs'. batch_insert fid cs ms (fcs @ [\<lparr>fc_file = fid, fc_chunk = c_id c, fc_index = me_index m,
      fc_offset = me_offset m\<rparr>]) = Some fcs'" for c by (rule tail) simp
  ultimately show ?case using free by (auto split: option.splits)
qed simp

lemma stream_upload_fault_free:
  assumes e: "fault_free e" and srv: "up_cb server = (\<lambda>_. False)" "up_ca server = (\<lambda>_. False)"
    and nofail: "rd_err file = None" and len: "length (fs_pieces s (rd_content file)) \<le> 2147483647"
    and size: "in_i64 (int (length (rd_content file)))"
  shows "\<exists>resp w'. stream_upload e s server meta file w = Some (Inr resp, w') \<and> tables w' = tables w \<and>
    ur_total_size resp = int (length (rd_content file)) \<and> ur_checksum resp = SHA256Hash (rd_content file) \<and>
    length (ur_chunks resp) = length (fs_pieces s (rd_content file)) \<and> distinct (map ci_index (ur_chunks resp))"
proof -
  let ?fr = "read_frames streamFrameSize file"
  let ?w2 = "w\<lparr>calls := Suc (Suc (calls w))\<rparr>"
  let ?run = "server_run server (UMeta meta # map UData ?fr) None"
  obtain w3 where w3: "send_all e ?fr ?w2 = (None, ?fr, w3)" using send_all_fault_free [OF e] by blast
  have d3: "durable w3 = durable ?w2" using send_all_durable [of e ?fr ?w2] w3 by simp
  have run: "up_msgs ?run = UMeta meta # map UData ?fr" "up_recv_err ?run = None"
    "up_cb ?run = (\<lambda>_. False)" "up_ca ?run = (\<lambda>_. False)" using srv by (simp_all add: server_run_def)
  obtain resp w4 where up: "UploadFile e (fs_store s) (fs_pieces s) ?run w3 = Some (Inr resp, w4)"
    using UploadFile_fault_free [OF e run] by blast
  have len': "length (fs_pieces s (recv_data (tl (up_msgs ?run)))) \<le> 2147483647" using len by simp
  note ok = UploadFile_ok [OF up len']
  have chunks: "map undup (ur_chunks resp) = manifest_of (fs_pieces s (rd_content file))" using ok by simp
  have "map ci_index (map undup (ur_chunks resp)) = map int [0..<length (fs_pieces s (rd_content file))]"
    unfolding chunks by (rule manifest_of_index [OF len])
  then have idx: "map ci_index (ur_chunks resp) = map int [0..<length (fs_pieces s (rd_content file))]"
    by (simp add: comp_def)
  have n: "length (ur_chunks resp) = length (fs_pieces s (rd_content file))"
    using arg_cong [OF idx, of length] by simp
  have "tables w4 = tables w3" using UploadFile_adds [OF up] by (simp add: only_adds_def)
  moreover have "tables w3 = tables w" using tables_durable [OF d3] tables_durable [of ?w2 w] by simp
  moreover have "stream_upload e s server meta file w = Some (Inr resp, w4\<lparr>calls := Suc (calls w4)\<rparr>)"
    using w3 up nofail by (simp add: stream_upload_def ext_fault_free [OF e])
  moreover have "ur_total_size resp = int (length (rd_content file))"
    using ok recv_size_eq [of 0 "map UData ?fr"] size by simp
  moreover have "ur_checksum resp = SHA256Hash (rd_content file)" using ok by simp
  moreover have "distinct (map ci_index (ur_chunks resp))" unfolding idx by (simp add: distinct_map)
  ultimately show ?thesis using n tables_durable [of "w4\<lparr>calls := Suc (calls w4)\<rparr>" w4] by auto
qed

lemma insert_file_fault_free:
  assumes "fault_free e" "list_ex (\<lambda>r. u_id r = f_user row) (users w)" "f_parent row = None"
    "uuid_at e (Suc (calls w)) \<notin> f_id ` set (files w)"
  shows "insert_file e row w = (let f = row\<lparr>f_id := uuid_at e (Suc (calls w)), f_created := now_at e (Suc (calls w)),
      f_updated := now_at e (Suc (calls w))\<rparr> in (Inr f, w\<lparr>calls := Suc (calls w), files := files w @ [f]\<rparr>))"
proof -
  have "\<not> list_ex (\<lambda>g. f_id g = uuid_at e (Suc (calls w))) (files w)"
    unfolding list_ex_iff using assms(4) by (metis image_eqI)
  then show ?thesis using assms(1-3) by (simp add: insert_file_def ext_fault_free Let_def)
qed

lemma create_version_fault_free:
  assumes e: "fault_free e" and user: "list_ex (\<lambda>r. u_id r = cf_user p) (users w)"
    and new: "range (uuid_at e) \<inter> f_id ` set (files w) = {}"
    and old: "\<And>ex. existing = Some ex \<Longrightarrow> f_parent ex = None"
  shows "\<exists>f w'. create_version e p existing w = (Inr f, w') \<and> users w' = users w \<and> chunks w' = chunks w \<and>
    file_chunks w' = file_chunks w \<and> f \<in> set (files w') \<and> f_id f \<in> range (uuid_at e) \<and> f_user f = cf_user p \<and>
    f_name f = cf_name p \<and> f_status f = FileStatusActive \<and> f_size f = cf_size p \<and>
    f_checksum f = Some (cf_checksum p) \<and>
    f_version f = (case existing of None \<Rightarrow> 1
                   | Some ex \<Rightarrow> if kept ex then i64 (f_version ex + 1) else 1)"
proof -
  have ins: "\<exists>f w'. insert_file e row v = (Inr f, w') \<and> users w' = users v \<and> chunks w' = chunks v \<and>
      file_chunks w' = file_chunks v \<and> f \<in> set (files w') \<and> f_id f \<in> range (uuid_at e) \<and>
      f_user f = f_user row \<and> f_name f = f_name row \<and> f_status f = f_status row \<and> f_size f = f_size row \<and>
      f_checksum f = f_checksum row \<and> f_version f = f_version row"
    if "f_user row = cf_user p" "f_parent row = None" "users v = users w" "f_id ` set (files v) = f_id ` set (files w)"
    for row v
  proof -
    let ?f = "row\<lparr>f_id := uuid_at e (Suc (calls v)), f_created := now_at e (Suc (calls v)),
      f_updated := now_at e (Suc (calls v))\<rparr>"
    have "uuid_at e (Suc (calls v)) \<notin> f_id ` set (files v)" using new that(4) by blast
    then have "insert_file e row v = (Inr ?f, v\<lparr>calls := Suc (calls v), files := files v @ [?f]\<rparr>)"
      using insert_file_fault_free [OF e, of row v] that user by (simp add: Let_def)
    then show ?thesis by simp
  qed
  let ?v = "\<lambda>ex. snd (UpdateFileStatus e (f_id ex) FileStatusSuperseded w)"
  have v: "users (?v ex) = users w" "chunks (?v ex) = chunks w" "file_chunks (?v ex) = file_chunks w"
    "map f_id (files (?v ex)) = map f_id (files w)" for ex
    by (simp_all add: UpdateFileStatus_def update_files_def ext_fault_free [OF e])
  have v4: "f_id ` set (files (?v ex)) = f_id ` set (files w)" for ex
    using arg_cong [OF v(4) [of ex], of set] unfolding set_map .
  show ?thesis
  proof (cases existing)
    case None
    then show ?thesis
      using ins [of "(new_row (cf_user p) None (cf_name p) 1)\<lparr>f_size := cf_size p,
          f_mime := Some (cf_mime p), f_checksum := Some (cf_checksum p)\<rparr>" w]
      by (auto simp: create_version_def CreateFile_def new_row_def)
  next
    case (Some ex)
    then show ?thesis
      using ins [of "(new_row (cf_user p) None (cf_name p) 1)\<lparr>f_size := cf_size p,
          f_mime := Some (cf_mime p), f_checksum := Some (cf_checksum p)\<rparr>" w]
        ins [of "(new_row (cf_user p) None (cf_name p) (i64 (f_version ex + 1)))\<lparr>f_size := cf_size p,
          f_mime := Some (cf_mime p), f_checksum := Some (cf_checksum p)\<rparr>" "?v ex"]
        ins [of "(new_row (cf_user p) None (cf_name p) (i64 (f_version ex + 1)))\<lparr>f_size := cf_size p,
          f_mime := Some (cf_mime p), f_checksum := Some (cf_checksum p)\<rparr>" w] old [OF Some] v(1-3) [of ex] v4 [of ex]
      by (auto simp: create_version_def CreateFile_def CreateFileWithVersion_def new_row_def kept_def kept_status_def)
  qed
qed

lemma SaveManifest_fault_free:
  assumes e: "fault_free e" and f: "fid \<in> f_id ` set (files w)"
    and none: "fid \<notin> fc_file ` set (file_chunks w)" and idx: "distinct (map me_index ms)"
  shows "\<exists>w'. SaveManifest e fid ms w = (Inr (), w') \<and> files w' = files w"
proof (cases "ms = []")
  case False
  obtain fcs where "batch_insert fid (chunks w) ms (file_chunks w) = Some fcs"
    using batch_insert_Some [OF _ idx, of "file_chunks w" fid "chunks w"] none by fastforce
  moreover have "list_ex (\<lambda>g. f_id g = fid) (files w)" using f by (auto simp: list_ex_iff)
  ultimately show ?thesis using False by (simp add: SaveManifest_def ext_fault_free [OF e])
qed (simp add: SaveManifest_def)

text \<open>An upload that meets no failure and stays below the quota completes.\<close>

lemma Upload_run_fault_free:
  assumes e: "fault_free e" and ids: "fresh_ids e w"
    and srv: "up_cb server = (\<lambda>_. False)" "up_ca server = (\<lambda>_. False)" and nofail: "rd_err file = None"
    and user: "first_row (\<lambda>r. u_id r = u) (users w) = Some q" "\<not> quota_nearly_full (u_used q) (u_quota q)"
    and room: "0 \<le> u_used q" "u_used q + int (length (rd_content file)) \<le> u_quota q" "in_i64 (u_quota q)"
    and refs: "int (length (fs_pieces s (rd_content file))) \<le> max_integer"
      "\<And>c. c \<in> set (chunks w) \<Longrightarrow> c_refs c + int (length (fs_pieces s (rd_content file))) \<le> max_integer"
  shows "\<exists>fr w'. Upload_run e s server u name mime file w = Some (Inr fr, 0, w') \<and>
    fr_checksum fr = SHA256Hash (rd_content file) \<and> fr_size fr = int (length (rd_content file)) \<and>
    (\<exists>f \<in> set (files w'). f_id f = fr_id fr \<and> f_user f = u \<and> f_name f = name \<and> f_status f = FileStatusActive \<and>
       f_size f = int (length (rd_content file)) \<and> f_version f = fr_version fr)"
proof -
  let ?d = "rd_content file" and ?w1 = "w\<lparr>calls := Suc (calls w)\<rparr>"
  let ?meta = "\<lparr>um_file_name = name, um_user = u, um_mime = mime\<rparr>"
  have q: "q \<in> set (users w)" "u_id q = u" using first_row_Some [OF user(1)] by auto
  have usage: "GetStorageUsage e u w = (Inr (u_used q, u_quota q), ?w1)"
    using user(1) by (simp add: GetStorageUsage_def ext_fault_free [OF e])
  have size: "in_i64 (int (length ?d))" "in_i64 (u_used q + int (length ?d))"
    using room by (auto simp: in_i64_def)
  obtain resp w2 where st: "stream_upload e s server ?meta file ?w1 = Some (Inr resp, w2)" "tables w2 = tables ?w1"
    and resp: "ur_total_size resp = int (length ?d)" "ur_checksum resp = SHA256Hash ?d"
      "length (ur_chunks resp) = length (fs_pieces s ?d)" "distinct (map ci_index (ur_chunks resp))"
    using stream_upload_fault_free [OF e srv nofail _ size(1), of s ?meta ?w1] refs(1) by auto
  have t2: "users w2 = users w" "files w2 = files w" "chunks w2 = chunks w" "file_chunks w2 = file_chunks w"
    using st(2) by (simp_all add: tables_def)
  let ?p = "\<lparr>cf_user = u, cf_name = name, cf_size = int (length ?d), cf_mime = mime, cf_checksum = SHA256Hash ?d\<rparr>"
  let ?w3 = "w2\<lparr>calls := Suc (calls w2)\<rparr>"
  define existing where "existing = first_row (\<lambda>_. True) (version_rows u None name (files w))"
  have latest: "GetLatestFileByName e u None name w2 = (Inr existing, ?w3)"
    by (simp add: GetLatestFileByName_def existing_def e t2)
  have old: "f_parent ex = None" if "existing = Some ex" for ex
    using first_row_Some [OF that [unfolded existing_def]] by (simp add: version_rows_def)
  have fresh: "range (uuid_at e) \<inter> f_id ` set (files ?w3) = {}" using ids by (auto simp: fresh_ids_def t2)
  have "list_ex (\<lambda>r. u_id r = cf_user ?p) (users ?w3)" using q by (auto simp: list_ex_iff t2)
  from create_version_fault_free [OF e this fresh, of existing] old obtain f w4 where
    cv: "create_version e ?p existing ?w3 = (Inr f, w4)" "chunks w4 = chunks w" "file_chunks w4 = file_chunks w"
      "f \<in> set (files w4)" "f_id f \<in> range (uuid_at e)" "f_user f = u" "f_name f = name"
      "f_status f = FileStatusActive" "f_size f = int (length ?d)"
    by (auto simp: t2)
  have inj: "inj (uuid_at e)" and idc: "\<And>n. uuid_at e n \<notin> c_id ` set (chunks w4)"
    and idr: "f_id f \<notin> fc_file ` set (file_chunks w4)"
    using ids cv by (auto simp: fresh_ids_def)
  obtain ms w5 where reg: "register_chunks e (ur_chunks resp) 0 w4 = (ms, 0, w5)" "files w5 = files w4"
    "file_chunks w5 = file_chunks w4" "map me_index ms = map ci_index (ur_chunks resp)"
    using register_chunks_fault_free [OF e inj, of w4 "ur_chunks resp" 0] idc refs cv(2) resp(3) by auto
  obtain w6 where sv: "SaveManifest e (f_id f) ms w5 = (Inr (), w6)" "files w6 = files w5"
    using SaveManifest_fault_free [OF e, of "f_id f" w5 ms] cv(4) idr reg resp(4) by auto
  define w9 where "w9 = invalidateUserCache e u (snd (UpdateStorageUsed e u (ur_total_size resp)
      (if fs_producer s then publish_created e u (f_id f) (ur_chunks resp) w6 else w6)))"
  have "core w9 = core w6"
    unfolding w9_def
    by (rule core_trans [OF core_durable [OF invalidate_durable(2)]]) (simp add: core_durable [OF publish_created_durable])
  then have f9: "files w9 = files w4" using sv reg by (simp add: core_def)
  have "record_upload e s u name mime (u_used q) (u_quota q) resp w2 = (Inr (response_of resp f name mime), 0, w9)"
    using latest cv(1) reg(1) sv(1) room size resp by (simp add: record_upload_def Let_def w9_def)
  then have run: "Upload_run e s server u name mime file w = Some (Inr (response_of resp f name mime), 0, w9)"
    using usage user(2) st(1) by (simp add: Upload_run_def)
  have "f \<in> set (files w9)" using cv(4) f9 by simp
  then show ?thesis
    using run cv(6-9) resp by (intro exI [of _ "response_of resp f name mime"] exI [of _ w9]) (auto simp: response_of_def)
qed

section \<open>Properties\<close>


definition demo_service :: file_service where
  "demo_service = \<lparr>fs_store = demo_store, fs_pieces = demo_pieces, fs_producer = True\<rparr>"

definition demo_user :: user_row where
  "demo_user = \<lparr>u_id = ''u'', u_email = [], u_password = [], u_display = [], u_role = ''user'', u_quota = 1000,
     u_used = 0, u_active = True\<rparr>"

definition demo_world :: world where
  "demo_world = empty_world\<lparr>users := [demo_user]\<rparr>"

definition demo_server :: upload_run where
  "demo_server = \<lparr>up_msgs = [], up_recv_err = None, up_cb = (\<lambda>_. False), up_ca = (\<lambda>_. False),
     up_blocked = False, up_sched = []\<rparr>"

lemma demo_simps [simp]:
  "fs_store demo_service = demo_store" "fs_pieces demo_service = demo_pieces"
  "users demo_world = [demo_user]" "files demo_world = []" "chunks demo_world = []" "file_chunks demo_world = []"
  "objects demo_world = Map.empty" "up_cb demo_server = (\<lambda>_. False)" "up_ca demo_server = (\<lambda>_. False)"
  by (simp_all add: demo_service_def demo_world_def demo_server_def empty_world_def)

lemma demo_ids [simp]: "fresh_ids quiet_env demo_world"
  by (auto simp: fresh_ids_def inj_def)

lemma quota_zero [simp]: "\<not> quota_nearly_full 0 1000"
  by (simp add: quota_nearly_full_def f64_of_int_def div_half_even_def Let_def)

lemma demo_upload:
  "\<exists>fr w'. Upload_run quiet_env demo_service demo_server ''u'' ''a'' [] (reader_of [1, 2, 3]) demo_world = Some (Inr fr, 0, w') \<and>
     fr_checksum fr = SHA256Hash [1, 2, 3] \<and> fr_size fr = 3 \<and>
     (\<exists>f \<in> set (files w'). f_id f = fr_id fr \<and> f_user f = ''u'' \<and> f_name f = ''a'' \<and> f_status f = FileStatusActive \<and>
       f_size f = 3 \<and> f_version f = fr_version fr)"
proof -
  have "rd_content (reader_of [1, 2, 3]) = [1, 2, 3]" "rd_err (reader_of [1, 2, 3]) = None" by simp_all
  then show ?thesis
    using Upload_run_fault_free [of quiet_env demo_world demo_server "reader_of [1, 2, 3]" "''u''" demo_user demo_service "''a''" "[]"]
    by (simp add: demo_user_def in_i64_def)
qed

lemma demo_covered [simp]: "stream_covered {[1, 2, 3]} demo_pieces (reader_of [1, 2, 3])"
proof -
  have "read_frames streamFrameSize (reader_of [1, 2, 3]) = [[1, 2, 3 :: byte]]"
    by (simp add: read_frames_def reader_of_def chop.simps)
  moreover have "demo_pieces [] = []" by (simp add: demo_pieces_def chop.simps)
  ultimately show ?thesis by (auto simp: stream_covered_def take_Cons split: nat.splits)
qed






end
