(* ===== verification/FolderTree.thy ===== *)
theory FolderTree
  imports Durability
begin

text \<open>
  The tree of folders: the parent links of the \<^verbatim>\<open>files\<close> table form a forest, every operation of the
  service keeps it so, and therefore the recursive queries of moves and folder deletions end and
  give what they are asked for.  Two moves that interleave can close a cycle, and deleting a folder
  releases the chunks of files it leaves in place; both are shown on concrete tables.
\<close>

section \<open>Parent links\<close>

definition links :: "file_row list \<Rightarrow> (string \<times> string option) list" where
  "links fs = map (\<lambda>f. (f_id f, f_parent f)) fs"

definition parent_rel :: "file_row list \<Rightarrow> (string \<times> string) set" where
  "parent_rel fs = {(c, p). (c, Some p) \<in> set (links fs)}"

definition forest :: "file_row list \<Rightarrow> bool" where
  "forest fs \<longleftrightarrow> distinct (map fst (links fs)) \<and> Range (parent_rel fs) \<subseteq> fst ` set (links fs) \<and> acyclic (parent_rel fs)"

lemma links_ids [simp]: "map fst (links fs) = map f_id fs" "fst ` set (links fs) = f_id ` set fs"
  by (simp_all add: links_def comp_def image_image)

lemma parent_rel_iff: "(c, p) \<in> parent_rel fs \<longleftrightarrow> (\<exists>f \<in> set fs. f_id f = c \<and> f_parent f = Some p)"
  by (auto simp: parent_rel_def links_def)

lemma forest_links: "links fs' = links fs \<Longrightarrow> forest fs' = forest fs"
  by (simp add: forest_def parent_rel_def flip: links_ids)

lemma finite_parent_rel [simp]: "finite (parent_rel fs)"
proof (rule finite_subset)
  show "parent_rel fs \<subseteq> (\<lambda>f. (f_id f, the (f_parent f))) ` set fs"
    by (force simp: parent_rel_iff)
qed simp

text \<open>The height of a row is the number of its ancestors.\<close>

definition height :: "('a \<times> 'a) set \<Rightarrow> 'a \<Rightarrow> nat" where
  "height R x = card (R\<^sup>+ `` {x})"

lemma height_step:
  assumes "finite R" "acyclic R" "(x, y) \<in> R" shows "height R y < height R x"
  unfolding height_def
proof (rule psubset_card_mono)
  show "finite (R\<^sup>+ `` {x})"
    by (rule finite_subset [of _ "Range R"]) (use assms(1) in \<open>auto simp: finite_Range dest: tranclD2\<close>)
  have "y \<in> R\<^sup>+ `` {x}" "y \<notin> R\<^sup>+ `` {y}" "R\<^sup>+ `` {y} \<subseteq> R\<^sup>+ `` {x}"
    using assms(2,3) by (auto simp: acyclic_def intro: trancl_into_trancl2)
  then show "R\<^sup>+ `` {y} \<subset> R\<^sup>+ `` {x}" by blast
qed

lemma forest_height:
  "forest fs \<Longrightarrow> (c, p) \<in> parent_rel fs \<Longrightarrow> height (parent_rel fs) p < height (parent_rel fs) c"
  "forest fs \<Longrightarrow> (c, p) \<in> parent_rel fs \<Longrightarrow> height ((parent_rel fs)\<inverse>) c < height ((parent_rel fs)\<inverse>) p"
  by (auto simp: forest_def intro!: height_step)

lemma forest_parent:
  assumes "forest fs" "f \<in> set fs" "f_parent f = Some p"
  obtains g where "g \<in> set fs" "f_id g = p" "f_parent f = Some (f_id g)"
proof -
  have "(f_id f, p) \<in> parent_rel fs" using assms(2,3) by (auto simp: parent_rel_iff)
  then have "p \<in> Range (parent_rel fs)" by blast
  with assms(1) have "p \<in> f_id ` set fs" by (auto simp: forest_def)
  then show thesis using that assms(3) by auto
qed

lemma forest_row:
  "forest fs \<Longrightarrow> f \<in> set fs \<Longrightarrow> g \<in> set fs \<Longrightarrow> f_id f = f_id g \<Longrightarrow> f = g"
  by (auto simp: forest_def distinct_map inj_on_def)

section \<open>The recursive queries end\<close>

lemma set_parents_of: "set (parents_of fs level) = {f \<in> set fs. \<exists>a \<in> set level. f_parent a = Some (f_id f)}"
  by (auto simp: parents_of_def eq_commute)

lemma set_children_of:
  "set (children_of fs ids) = {f \<in> set fs. f_status f = FileStatusActive \<and> (\<exists>i \<in> set ids. f_parent f = Some i)}"
  by (auto simp: children_of_def)

text \<open>The walk up from a set of rows finds the row it looks for exactly when it is an ancestor.\<close>

lemma ancestors_end:
  assumes "forest fs"
  shows "set level \<subseteq> set fs \<Longrightarrow> (\<And>a. a \<in> set level \<Longrightarrow> height (parent_rel fs) (f_id a) < n) \<Longrightarrow>
    ancestors fs target level = Some (\<exists>a \<in> set level. (f_id a, target) \<in> (parent_rel fs)\<^sup>*)"
proof (induction n arbitrary: level)
  case 0
  then have "level = []" by (cases level) auto
  then show ?case by (simp add: ancestors.simps)
next
  case (Suc n)
  let ?R = "parent_rel fs"
  consider "level = []" | "level \<noteq> []" "list_ex (\<lambda>a. f_id a = target) level"
    | "level \<noteq> []" "\<not> list_ex (\<lambda>a. f_id a = target) level" by blast
  then show ?case
  proof cases
    case 3
    have up: "height ?R (f_id f) < n" if "f \<in> set (parents_of fs level)" for f
    proof -
      obtain a where a: "a \<in> set level" "f_parent a = Some (f_id f)" using \<open>f \<in> _\<close> by (auto simp: set_parents_of)
      have "(f_id a, f_id f) \<in> ?R" using a Suc.prems(1) by (auto simp: parent_rel_iff)
      from forest_height(1) [OF assms this] Suc.prems(2) [OF a(1)] show ?thesis by linarith
    qed
    have "(\<exists>a \<in> set level. (f_id a, target) \<in> ?R\<^sup>*) \<longleftrightarrow> (\<exists>f \<in> set (parents_of fs level). (f_id f, target) \<in> ?R\<^sup>*)"
    proof
      assume "\<exists>a \<in> set level. (f_id a, target) \<in> ?R\<^sup>*"
      then obtain a p where a: "a \<in> set level" "(f_id a, p) \<in> ?R" "(p, target) \<in> ?R\<^sup>*"
        using 3(2) by (auto simp: list_ex_iff elim: converse_rtranclE)
      from a(2) obtain h where "h \<in> set fs" "f_id h = f_id a" "f_parent h = Some p" by (auto simp: parent_rel_iff)
      then have "f_parent a = Some p"
        using forest_row [OF assms, of h a] a(1) Suc.prems(1) by blast
      then obtain g where "g \<in> set fs" "f_id g = p" "f_parent a = Some (f_id g)"
        using forest_parent [OF assms] a(1) Suc.prems(1) by blast
      then show "\<exists>f \<in> set (parents_of fs level). (f_id f, target) \<in> ?R\<^sup>*"
        using a by (auto simp: set_parents_of)
    next
      assume "\<exists>f \<in> set (parents_of fs level). (f_id f, target) \<in> ?R\<^sup>*"
      then obtain f a where a: "f \<in> set fs" "a \<in> set level" "f_parent a = Some (f_id f)" "(f_id f, target) \<in> ?R\<^sup>*"
        unfolding set_parents_of by blast
      then have "(f_id a, f_id f) \<in> ?R" using Suc.prems(1) by (auto simp: parent_rel_iff)
      with a show "\<exists>a \<in> set level. (f_id a, target) \<in> ?R\<^sup>*"
        by (meson converse_rtrancl_into_rtrancl)
    qed
    moreover have "set (parents_of fs level) \<subseteq> set fs" by (auto simp: set_parents_of)
    from Suc.IH [OF this up] have "ancestors fs target (parents_of fs level) =
        Some (\<exists>f \<in> set (parents_of fs level). (f_id f, target) \<in> ?R\<^sup>*)" .
    moreover have "ancestors fs target level = ancestors fs target (parents_of fs level)"
      unfolding ancestors.simps [of fs target level] using 3 by (simp only: if_False)
    ultimately show ?thesis by simp
  next
    case 1
    then show ?thesis by (simp add: ancestors.simps)
  next
    case 2
    then obtain a where a: "a \<in> set level" "f_id a = target" by (auto simp: list_ex_iff)
    then have "\<exists>a \<in> set level. (f_id a, target) \<in> ?R\<^sup>*" by blast
    then show ?thesis using 2 by (subst ancestors.simps) simp
  qed
qed

text \<open>The walk down collects the active rows that hang below by active rows.\<close>

definition below_rel :: "file_row list \<Rightarrow> (string \<times> string) set" where
  "below_rel fs = {(p, c). \<exists>f \<in> set fs. f_id f = c \<and> f_parent f = Some p \<and> f_status f = FileStatusActive}"

lemma below_sub: "below_rel fs \<subseteq> (parent_rel fs)\<inverse>"
  by (auto simp: below_rel_def parent_rel_iff)

lemma descendants_end:
  assumes "forest fs"
  shows "set level \<subseteq> set fs \<Longrightarrow> (\<And>a. a \<in> set level \<Longrightarrow> height ((parent_rel fs)\<inverse>) (f_id a) < n) \<Longrightarrow>
    \<exists>t. descendants fs level = Some t \<and>
      set t = {g \<in> set fs. \<exists>a \<in> set level. (f_id a, f_id g) \<in> (below_rel fs)\<^sup>*}"
proof (induction n arbitrary: level)
  case 0
  then have "level = []" by (cases level) auto
  then show ?case by (simp add: descendants.simps)
next
  case (Suc n)
  let ?B = "below_rel fs" and ?next = "children_of fs (map f_id level)"
  have down: "height ((parent_rel fs)\<inverse>) (f_id f) < n" if f: "f \<in> set ?next" for f
  proof -
    obtain a where a: "a \<in> set level" "f_parent f = Some (f_id a)" "f \<in> set fs" using f by (auto simp: set_children_of)
    have "(f_id f, f_id a) \<in> parent_rel fs" using a by (auto simp: parent_rel_iff)
    from forest_height(2) [OF assms this] Suc.prems(2) [OF a(1)] show ?thesis by linarith
  qed
  have "set ?next \<subseteq> set fs" by (auto simp: set_children_of)
  from Suc.IH [OF this down] obtain t where t: "descendants fs ?next = Some t"
    "set t = {g \<in> set fs. \<exists>a \<in> set ?next. (f_id a, f_id g) \<in> ?B\<^sup>*}" by blast
  have "(\<exists>a \<in> set level. (f_id a, f_id g) \<in> ?B\<^sup>*) \<longleftrightarrow>
      g \<in> set level \<or> (\<exists>a \<in> set ?next. (f_id a, f_id g) \<in> ?B\<^sup>*)" if g: "g \<in> set fs" for g
  proof
    assume "\<exists>a \<in> set level. (f_id a, f_id g) \<in> ?B\<^sup>*"
    then obtain a where a: "a \<in> set level" "(f_id a, f_id g) \<in> ?B\<^sup>*" by blast
    from a(2) show "g \<in> set level \<or> (\<exists>a \<in> set ?next. (f_id a, f_id g) \<in> ?B\<^sup>*)"
    proof (cases rule: converse_rtranclE)
      case base
      then show ?thesis using forest_row [OF assms _ g] a(1) Suc.prems(1) by auto
    next
      case (step c)
      then show ?thesis using a(1) by (fastforce simp: below_rel_def set_children_of)
    qed
  next
    assume "g \<in> set level \<or> (\<exists>a \<in> set ?next. (f_id a, f_id g) \<in> ?B\<^sup>*)"
    then show "\<exists>a \<in> set level. (f_id a, f_id g) \<in> ?B\<^sup>*"
      by (auto simp: set_children_of below_rel_def intro: converse_rtrancl_into_rtrancl)
  qed
  then have "set level \<union> set t = {g \<in> set fs. \<exists>a \<in> set level. (f_id a, f_id g) \<in> ?B\<^sup>*}"
    using Suc.prems(1) t(2) by blast
  then show ?case
    using t(1) by (cases "level = []") (simp_all add: descendants.simps [of fs level] descendants.simps [of fs "[]"])
qed

lemma bounded_height: "\<exists>n. \<forall>a \<in> set xs. h a < (n :: nat)"
  by (rule exI [of _ "Suc (Max (insert 0 (h ` set xs)))"]) (auto simp: less_Suc_eq_le)

lemma IsDescendant_ends:
  assumes "forest (files w)"
  shows "\<exists>r w1. IsDescendant e c p w = Some (r, w1) \<and> durable w1 = durable w \<and>
    (\<forall>b. r = Inr b \<longrightarrow> b = (c \<in> f_id ` set (files w) \<and> (c, p) \<in> (parent_rel (files w))\<^sup>*))"
proof -
  obtain x w1 where x: "query e files w = (x, w1)" by force
  have d: "durable w1 = durable w" using query_durable [of e files w] x by simp
  show ?thesis
  proof (cases x)
    case (Inl err)
    then show ?thesis using x d by (simp add: IsDescendant_def)
  next
    case (Inr fs)
    then have fs: "fs = files w" using query_InrD [of e files w fs w1] x by simp
    let ?start = "filter (\<lambda>f. f_id f = c) fs"
    obtain n where "\<forall>a \<in> set ?start. height (parent_rel fs) (f_id a) < n"
      using bounded_height [of ?start "\<lambda>a. height (parent_rel fs) (f_id a)"] by blast
    then have "ancestors fs p ?start = Some (\<exists>a \<in> set ?start. (f_id a, p) \<in> (parent_rel fs)\<^sup>*)"
      using assms fs by (intro ancestors_end [of _ _ n]) auto
    then show ?thesis using x d Inr fs by (auto simp: IsDescendant_def)
  qed
qed


section \<open>Statements keep the forest\<close>

lemma forest_empty [simp]: "forest []"
  by (simp add: forest_def links_def parent_rel_def acyclic_def)

lemma forest_insert:
  assumes "forest fs" "f_id f \<notin> f_id ` set fs" "\<And>p. f_parent f = Some p \<Longrightarrow> p \<in> f_id ` set fs"
  shows "forest (fs @ [f])"
proof (cases "f_parent f")
  case None
  then have "parent_rel (fs @ [f]) = parent_rel fs" by (auto simp: parent_rel_def links_def)
  then show ?thesis using assms by (auto simp: forest_def)
next
  case (Some p)
  have rel: "parent_rel (fs @ [f]) = insert (f_id f, p) (parent_rel fs)"
    using Some by (auto simp: parent_rel_def links_def)
  have p: "p \<in> f_id ` set fs" using assms(3) Some by simp
  have "(p, f_id f) \<notin> (parent_rel fs)\<^sup>*"
  proof
    assume "(p, f_id f) \<in> (parent_rel fs)\<^sup>*"
    then show False
    proof (cases rule: rtranclE)
      case base
      then show ?thesis using p assms(2) by simp
    next
      case (step y)
      then have "f_id f \<in> Range (parent_rel fs)" by blast
      then show ?thesis using assms(1,2) by (auto simp: forest_def)
    qed
  qed
  then show ?thesis using assms p by (auto simp: forest_def rel)
qed

lemma forest_move:
  assumes "forest fs" "p \<in> f_id ` set fs" "(p, fid) \<notin> (parent_rel fs)\<^sup>*" "\<And>f. P f \<Longrightarrow> f_id f = fid"
  shows "forest (map (\<lambda>f. if P f then f\<lparr>f_parent := Some p, f_updated := t\<rparr> else f) fs)"
proof -
  let ?fs = "map (\<lambda>f. if P f then f\<lparr>f_parent := Some p, f_updated := t\<rparr> else f) fs"
  have ids: "map f_id ?fs = map f_id fs" by simp
  have sub: "parent_rel ?fs \<subseteq> insert (fid, p) (parent_rel fs)"
    using assms(4) by (auto simp: parent_rel_iff split: if_splits)
  have "acyclic (insert (fid, p) (parent_rel fs))"
    using assms(1,3) by (simp add: forest_def)
  then have "acyclic (parent_rel ?fs)" by (rule acyclic_subset [OF _ sub])
  moreover have "Range (parent_rel ?fs) \<subseteq> f_id ` set fs"
    using Range_mono [OF sub] assms(1,2) by (auto simp only: forest_def Range_insert links_ids insert_subset dest: subset_trans)
  then have "Range (parent_rel ?fs) \<subseteq> f_id ` set ?fs" by (simp only: ids flip: set_map)
  ultimately show ?thesis using assms(1) by (simp only: forest_def links_ids ids)
qed

lemma forest_detach:
  assumes "forest fs" shows "forest (map (\<lambda>f. if P f then f\<lparr>f_parent := None, f_updated := t\<rparr> else f) fs)"
proof -
  let ?fs = "map (\<lambda>f. if P f then f\<lparr>f_parent := None, f_updated := t\<rparr> else f) fs"
  have ids: "map f_id ?fs = map f_id fs" by simp
  have sub: "parent_rel ?fs \<subseteq> parent_rel fs" by (auto simp: parent_rel_iff split: if_splits)
  then have "acyclic (parent_rel ?fs)" using assms by (auto simp: forest_def intro: acyclic_subset)
  moreover have "Range (parent_rel ?fs) \<subseteq> f_id ` set fs"
    using subset_trans [OF Range_mono [OF sub]] assms by (simp add: forest_def)
  then have "Range (parent_rel ?fs) \<subseteq> f_id ` set ?fs" by (simp only: ids flip: set_map)
  ultimately show ?thesis using assms by (simp only: forest_def links_ids ids)
qed

lemma ignores_files [simp]: "ignores_calls (\<lambda>w. P (files w))"
  by (simp add: ignores_calls_def)

lemma insert_file_forest [inv_intros]:
  "forest (files w) \<Longrightarrow> forest (files (snd (insert_file e row w)))"
  unfolding insert_file_def
  by (rule ext_keeps) (auto simp: Let_def list_ex_iff split: option.splits intro!: forest_insert)

lemma links_keep: "links (files w') = links (files w) \<Longrightarrow> forest (files w') = forest (files w)"
  by (rule forest_links)

lemma update_files_links:
  "(\<And>f. f_id (g f) = f_id f \<and> f_parent (g f) = f_parent f) \<Longrightarrow>
   links (files (snd (update_files e P g w))) = links (files w)"
  unfolding update_files_def by (rule ext_frame) (auto simp: links_def)

lemma status_links [frame_simps]:
  "links (files (snd (SoftDeleteFile e u fid w))) = links (files w)"
  "links (files (snd (UpdateFileStatus e fid st w))) = links (files w)"
  by (simp_all add: SoftDeleteFile_def UpdateFileStatus_def update_files_links)

lemma files_frames [frame_simps]:
  "files (snd (UpsertChunk e h n w)) = files w"
  "files (snd (DecrementRefCounts e hs w)) = files w"
  "files (snd (SaveManifest e fid ms w)) = files w"
  "files (snd (UpdateStorageUsed e u d w)) = files w"
proof -
  have up: "files (snd (ext e (\<lambda>v. case first_row (\<lambda>c. c_hash c = h) (chunks v) of
            Some c \<Rightarrow>
              if c_refs c + 1 > max_integer then (Inl ''integer out of range'', v)
              else (Inr (c\<lparr>c_refs := c_refs c + 1\<rparr>),
                    v\<lparr>chunks := map (\<lambda>d. if c_hash d = h then d\<lparr>c_refs := c_refs d + 1\<rparr> else d) (chunks v)\<rparr>)
          | None \<Rightarrow>
              (let c = new_chunk e h n (calls v) in
               if list_ex (\<lambda>d. c_id d = c_id c) (chunks v)
               then (Inl ''duplicate key value violates unique constraint'', v)
               else (Inr c, v\<lparr>chunks := chunks v @ [c]\<rparr>))) w)) = files w"
    by (rule ext_frame) (simp_all add: Let_def split: option.splits)
  then show "files (snd (UpsertChunk e h n w)) = files w" by (simp add: UpsertChunk_def)
  show "files (snd (DecrementRefCounts e hs w)) = files w"
    unfolding DecrementRefCounts_def with_err_snd by (rule ext_frame) (simp_all add: Let_def)
  show "files (snd (SaveManifest e fid ms w)) = files w"
  proof (cases "ms = []")
    case False
    show ?thesis
      unfolding SaveManifest_def if_not_P [OF False] with_err_snd
      by (rule ext_frame) (simp_all split: option.splits)
  qed (simp add: SaveManifest_def)
  show "files (snd (UpdateStorageUsed e u d w)) = files w"
    unfolding UpdateStorageUsed_def by (rule ext_frame) simp_all
qed

lemma ext_after:
  assumes "P (w\<lparr>calls := Suc (calls w)\<rparr>)" "P (snd (f (w\<lparr>calls := Suc (calls w)\<rparr>)))"
  shows "P (snd (ext e f w))"
  by (rule ext_cases [of e f w]) (use assms in simp_all)

lemma move_stmt_forest:
  assumes "forest (files w)" "\<And>p. np = Some p \<Longrightarrow> (p, fid) \<notin> (parent_rel (files w))\<^sup>*"
  shows "forest (files (snd (move_stmt e u fid np w)))"
proof -
  let ?P = "\<lambda>f. f_id f = fid \<and> f_user f = u \<and> f_status f = FileStatusActive"
  have map: "forest (map (\<lambda>f. if ?P f then f\<lparr>f_parent := np, f_updated := t\<rparr> else f) (files w))"
    if "\<not> list_ex ?P (files w) \<or> (case np of None \<Rightarrow> True | Some p \<Rightarrow> list_ex (\<lambda>g. f_id g = p) (files w))" for t
  proof (cases "list_ex ?P (files w)")
    case False
    then have "map (\<lambda>f. if ?P f then f\<lparr>f_parent := np, f_updated := t\<rparr> else f) (files w) = files w"
      by (intro map_idI) (auto simp: list_ex_iff)
    then show ?thesis using assms(1) by simp
  next
    case True
    show ?thesis
    proof (cases np)
      case None
      then show ?thesis by (simp only: None) (rule forest_detach [OF assms(1)])
    next
      case (Some p)
      then have "p \<in> f_id ` set (files w)" using that True by (auto simp: list_ex_iff)
      then show ?thesis
        by (simp only: Some) (rule forest_move [OF assms(1) _ assms(2) [OF Some]]; blast)
    qed
  qed
  show ?thesis
    unfolding move_stmt_def Let_def
    by (rule ext_after [where P = "\<lambda>v. forest (files v)"]) (use assms(1) map in \<open>auto cong: if_cong option.case_cong split: if_splits\<close>)
qed


section \<open>Operations keep the forest\<close>

definition lk :: "world \<Rightarrow> (string \<times> string option) list" where
  "lk w = links (files w)"

lemma lk_forest: "lk w' = lk w \<Longrightarrow> forest (files w') = forest (files w)"
  unfolding lk_def by (rule forest_links)

lemma lk_durable: "durable w' = durable w \<Longrightarrow> lk w' = lk w"
  using durable_eqD(2) [of w' w] by (simp add: lk_def)

lemma lk_tables: "tables w' = tables w \<Longrightarrow> lk w' = lk w"
  using tables_eqD(2) [of w' w] by (simp add: lk_def)

lemma lk_writes [simp]:
  "lk (snd (SoftDeleteFile e u fid w)) = lk w" "lk (snd (UpdateFileStatus e fid st w)) = lk w"
  "lk (snd (UpsertChunk e h n w)) = lk w" "lk (snd (DecrementRefCounts e hs w)) = lk w"
  "lk (snd (SaveManifest e fid ms w)) = lk w" "lk (snd (UpdateStorageUsed e u d w)) = lk w"
  "lk (snd (DeleteChunk e s h w)) = lk w"
  by (simp_all add: lk_def frame_simps) (use lk_tables [OF DeleteChunk_tables] in \<open>simp add: lk_def\<close>)

lemma lk_reads [simp]:
  "lk (snd (GetFile e u fid w)) = lk w" "lk (snd (GetManifest e fid w)) = lk w"
  "lk (snd (GetFileByID e u fid w)) = lk w" "lk (snd (GetFileVersion e u fid n w)) = lk w"
  "lk (snd (GetLatestFileByName e u p nm w)) = lk w" "lk (snd (GetStorageUsage e u w)) = lk w"
  "lk (snd (VerifyFolderOwnership e u q w)) = lk w" "lk (snd (query e h w)) = lk w"
  "lk (snd (ext e (\<lambda>v. (Inr x :: 'a result, v)) w)) = lk w"
  by (rule lk_durable, simp)+

lemma lk_cache [simp]:
  "lk (invalidateUserCache e u w) = lk w" "lk (invalidateFileCache e fid w) = lk w"
  "lk (snd (Publish e t k tr p w)) = lk w" "lk (publish_created e u fid cs w) = lk w"
  "lk (snd (cache_SetNX e key d ttl w)) = lk w" "lk (snd (cache_Delete e ks w)) = lk w"
  by (rule lk_durable, simp)+

lemma lk_register [simp]: "lk (snd (snd (register_chunks e cs off w))) = lk w"
  by (induction cs arbitrary: off w) (simp_all add: case_prod_beta)

lemma lk_delete_loop [simp]: "lk (snd (delete_loop e s hs d f w)) = lk w"
  by (induction hs arbitrary: d f w) (simp_all add: case_prod_beta split: sum.splits)

lemma lk_call_DeleteChunks [simp]: "lk (snd (call_DeleteChunks e s hs w)) = lk w"
  by (simp add: call_DeleteChunks_def DeleteChunks_def case_prod_beta split: sum.splits outcome.splits)

lemma DeleteFile_lk [simp]: "lk (snd (DeleteFile e s u fid w)) = lk w"
  by (simp add: DeleteFile_def Let_def case_prod_beta split: sum.splits option.splits)

lemma promote_lk [simp]: "lk (promote_previous e u f w) = lk w"
  by (simp add: promote_previous_def case_prod_beta split: sum.splits option.splits)

lemma DeleteVersion_lk [simp]: "lk (snd (DeleteVersion e u fid n w)) = lk w"
  by (simp add: DeleteVersion_def Let_def case_prod_beta split: sum.splits option.splits)

lemma release_files_lk [simp]: "lk (snd (release_files e u fids k w)) = lk w"
  by (induction fids arbitrary: k w) (simp_all add: Let_def case_prod_beta split: sum.splits)

lemma create_version_forest:
  "forest (files w) \<Longrightarrow> forest (files (snd (create_version e p ex w)))"
  using lk_forest [OF lk_writes(2)]
  by (auto simp: create_version_def CreateFile_def CreateFileWithVersion_def intro!: insert_file_forest split: option.splits)


lemma UploadFile_lk: "UploadFile e s pieces run w = Some (r, w') \<Longrightarrow> lk w' = lk w"
  by (rule lk_tables) (use UploadFile_adds [of e s pieces run w r w'] in \<open>simp add: only_adds_def\<close>)

lemma send_all_lk [simp]: "lk (snd (snd (send_all e ds w))) = lk w"
  by (rule lk_durable) (rule send_all_durable)

lemma stream_upload_lk: "stream_upload e s server m file w = Some (r, w') \<Longrightarrow> lk w' = lk w"
  by (auto simp: stream_upload_def abort_upload_def case_prod_beta split: sum.splits option.splits dest!: UploadFile_lk)

lemma record_upload_forest:
  assumes "forest (files w)" "record_upload e s u nm mime used quota resp w = (r, k, w')"
  shows "forest (files w')"
proof -
  let ?p = "\<lparr>cf_user = u, cf_name = nm, cf_size = ur_total_size resp, cf_mime = mime, cf_checksum = ur_checksum resp\<rparr>"
  obtain x1 w1 where x1: "GetLatestFileByName e u None nm w = (x1, w1)" by force
  have f1: "forest (files w1)" using lk_forest [OF lk_reads(5) [of e u None nm w]] x1 assms(1) by simp
  show ?thesis
  proof (cases x1)
    case (Inl err)
    then have "w' = w \<or> w' = w1" using assms(2) x1 by (auto simp: record_upload_def Let_def split: if_splits)
    then show ?thesis using assms(1) f1 by auto
  next
    case (Inr ex)
    obtain x2 w2 where x2: "create_version e ?p ex w1 = (x2, w2)" by force
    have f2: "forest (files w2)" using create_version_forest [OF f1, of e ?p ex] x2 by simp
    have "w' = w \<or> lk w' = lk w2"
    proof (cases "quota < i64 (used + ur_total_size resp)")
      case True
      then show ?thesis using assms(2) by (simp add: record_upload_def)
    next
      case False
      then have "lk w' = lk w2"
        using assms(2) x1 x2 Inr
        by (cases x2) (auto simp: record_upload_def Let_def case_prod_beta split: sum.splits)
      then show ?thesis ..
    qed
    then show ?thesis using assms(1) f2 lk_forest by blast
  qed
qed

lemma Upload_run_forest:
  assumes "forest (files w)" "Upload_run e s server u nm mime file w = Some (r, k, w')"
  shows "forest (files w')"
proof -
  obtain x1 w1 where x1: "GetStorageUsage e u w = (x1, w1)" by force
  have l1: "lk w1 = lk w" using lk_reads(6) [of e u w] x1 by simp
  then have f1: "forest (files w1)" using lk_forest assms(1) by blast
  show ?thesis
  proof (cases x1)
    case (Inl err)
    then show ?thesis using assms(2) f1 x1 by (auto simp: Upload_run_def)
  next
    case (Inr uq)
    obtain used quota where uq: "uq = (used, quota)" by force
    show ?thesis
    proof (cases "quota_nearly_full used quota")
      case True
      then show ?thesis using assms(2) f1 x1 Inr uq by (auto simp: Upload_run_def)
    next
      case False
      obtain x2 w2 where x2: "stream_upload e s server \<lparr>um_file_name = nm, um_user = u, um_mime = mime\<rparr> file w1 = Some (x2, w2)"
        using assms(2) x1 Inr uq False by (auto simp: Upload_run_def split: option.splits)
      have "forest (files w2)" using lk_forest [OF stream_upload_lk [OF x2]] f1 by simp
      then show ?thesis
        using assms(2) x1 Inr uq False x2 record_upload_forest [of w2 e s u nm mime used quota _ r k w']
        by (auto simp: Upload_run_def split: sum.splits)
    qed
  qed
qed

lemma CreateFolder_forest:
  assumes "forest (files w)" shows "forest (files (snd (CreateFolder e u nm p w)))"
proof -
  have mk: "forest (files (snd (CreateDirectory e u nm p v)))" if "forest (files v)" for v
    using insert_file_forest [OF that] by (simp add: CreateDirectory_def)
  have v: "forest (files (snd (VerifyFolderOwnership e u q w)))" for q
    using lk_forest [OF lk_reads(7)] assms by simp
  have "lk (snd (CreateFolder e u nm p w)) \<in> {lk w} \<union> {lk (snd (CreateDirectory e u nm p w))} \<union>
      (\<lambda>q. lk (snd (CreateDirectory e u nm p (snd (VerifyFolderOwnership e u q w))))) ` UNIV"
    by (auto simp: CreateFolder_def Let_def case_prod_beta split: option.splits sum.splits)
  then show ?thesis
    using assms mk [OF assms] mk [OF v] lk_forest by (metis (no_types, lifting) UnE imageE singletonD)
qed

lemma GetAllDescendantFileIDs_lk: "GetAllDescendantFileIDs e fid w = Some (r, w') \<Longrightarrow> lk w' = lk w"
  by (auto simp: GetAllDescendantFileIDs_def case_prod_beta split: sum.splits)

lemma DeleteFolder_lk: "DeleteFolder e u fid w = Some (r, w') \<Longrightarrow> lk w' = lk w"
  by (auto simp: DeleteFolder_def Let_def case_prod_beta split: sum.splits option.splits if_splits
      dest!: GetAllDescendantFileIDs_lk)

lemma markOrphans_files: "files (snd (markOrphans e g w)) = files w"
proof -
  have "files (snd (ext e (\<lambda>v. if gc_batch (co_cfg g) < 0 then (Inl ''LIMIT must not be negative'', v)
                      else (Inr (int (orphan_count (nat (gc_batch (co_cfg g))) (chunks v))),
                            v\<lparr>chunks := mark_first (nat (gc_batch (co_cfg g))) (now_at e (calls v)) (chunks v)\<rparr>)) w)) = files w"
    by (rule ext_frame) simp_all
  then show ?thesis by (simp add: markOrphans_def Let_def case_prod_beta split: sum.splits)
qed

lemma sweep_files [simp]:
  "lk (snd (resurrect e cid w)) = lk w" "lk (snd (delete_file_chunks e cid w)) = lk w"
  "lk (snd (delete_chunk_row e cid w)) = lk w"
  by (simp_all only: lk_def resurrect_def delete_file_chunks_def delete_chunk_row_def)
     (rule arg_cong [where f = links], rule ext_frame, simp_all)+

lemma sweep_one_lk [simp]: "lk (snd (sweep_one e g c w)) = lk w"
  by (simp add: sweep_one_def Let_def case_prod_beta split: sum.splits option.splits)

lemma sweep_loop_lk [simp]: "lk (snd (sweep_loop e g cs k w)) = lk w"
  by (induction cs arbitrary: k w) (simp_all add: case_prod_beta split: option.splits)


lemma markOrphans_lk [simp]: "lk (snd (markOrphans e g w)) = lk w"
  by (simp add: lk_def markOrphans_files)

lemma sweepMarked_lk [simp]: "lk (snd (sweepMarked e g w)) = lk w"
proof -
  have "lk (snd (ext e (\<lambda>v. if gc_batch (co_cfg g) < 0 then (Inl ''LIMIT must not be negative'', v)
      else (Inr (rows e (calls v) (sweep_candidates (co_cfg g) (now_at e (calls v)) (chunks v))), v)) w)) = lk w"
    by (rule lk_durable, rule ext_durable) simp
  then show ?thesis by (simp add: sweepMarked_def case_prod_beta split: sum.splits)
qed

lemma runCycle_lk [simp]: "lk (runCycle e g w) = lk w"
  by (simp add: runCycle_def case_prod_beta split: sum.splits bool.splits)


text \<open>A move whose check found no descendant hangs the row below one that is not.\<close>

lemma ancestor_exists: "(p, q) \<in> (parent_rel fs)\<^sup>* \<Longrightarrow> p = q \<or> p \<in> f_id ` set fs"
  by (erule converse_rtranclE) (auto simp: parent_rel_iff)

lemma MoveFile_snd: "files (snd (MoveFile e u fid np w)) = files (snd (move_stmt e u fid np w))"
  by (simp add: MoveFile_def)

lemma svc_MoveFile_cases:
  assumes "forest (files w)"
  obtains r w1 where "svc_MoveFile e u fid np w = Some (Inl r, w1)" "durable w1 = durable w"
  | r w1 w' where "svc_MoveFile e u fid np w = Some (r, w')" "durable w1 = durable w"
      "durable w' = durable (snd (MoveFile e u fid np w1))"
      "\<And>p. np = Some p \<Longrightarrow> p \<noteq> fid \<and> (p, fid) \<notin> (parent_rel (files w))\<^sup>*"
proof -
  define mv where "mv = (\<lambda>w1.
            case MoveFile e u fid np w1 of
              (Inl err, w2) \<Rightarrow> (Inl (wrapf ''move file'' err) :: unit result, w2)
            | (Inr _, w2) \<Rightarrow> (Inr (), invalidateUserCache e u (invalidateFileCache e fid w2)))"
  have mv: "durable (snd (mv v)) = durable (snd (MoveFile e u fid np v))" for v
    by (simp add: mv_def case_prod_beta split: sum.splits)
  show thesis
  proof (cases np)
    case None
    have "svc_MoveFile e u fid np w = Some (mv w)" by (simp add: svc_MoveFile_def mv_def None)
    then show ?thesis using that(2) [of "fst (mv w)" "snd (mv w)" w] mv None by simp
  next
    case (Some p)
    obtain x w1 where x: "IsDescendant e p fid w = Some (x, w1)" "durable w1 = durable w"
      "\<forall>b. x = Inr b \<longrightarrow> b = (p \<in> f_id ` set (files w) \<and> (p, fid) \<in> (parent_rel (files w))\<^sup>*)"
      using IsDescendant_ends [OF assms] by blast
    have move: "svc_MoveFile e u fid np w =
        (if p = fid then Some (Inl ''cannot move a file into itself'', w)
         else case x of Inl err \<Rightarrow> Some (Inl (wrapf ''cycle check'' err), w1)
              | Inr True \<Rightarrow> Some (Inl ''cannot move a folder into its own descendant (circular reference)'', w1)
              | Inr False \<Rightarrow> Some (mv w1))"
      using x(1) Some by (simp add: svc_MoveFile_def mv_def split: sum.splits bool.splits)
    consider "p = fid" | err where "p \<noteq> fid" "x = Inl err" | "p \<noteq> fid" "x = Inr True" | "p \<noteq> fid" "x = Inr False"
      by (cases x) auto
    then show ?thesis
    proof cases
      case 1
      then show ?thesis using that(1) move by simp
    next
      case 2
      then show ?thesis using that(1) move x(2) by simp
    next
      case 3
      then show ?thesis using that(1) move x(2) by simp
    next
      case 4
      then have "\<not> (p \<in> f_id ` set (files w) \<and> (p, fid) \<in> (parent_rel (files w))\<^sup>*)"
        using x(3) by metis
      then have "(p, fid) \<notin> (parent_rel (files w))\<^sup>*"
        using 4(1) ancestor_exists [of p fid "files w"] by blast
      have eq: "svc_MoveFile e u fid np w = Some (fst (mv w1), snd (mv w1))" using move 4 by simp
      show ?thesis
        by (rule that(2) [OF eq x(2) mv]) (use Some 4(1) \<open>(p, fid) \<notin> _\<close> in auto)
    qed
  qed
qed

lemma svc_MoveFile_forest:
  assumes "forest (files w)" "svc_MoveFile e u fid np w = Some (r, w')"
  shows "forest (files w')"
  using assms(1)
proof (cases rule: svc_MoveFile_cases [of w e u fid np])
  case (1 r1 w1)
  then have "files w' = files w" using assms(2) durable_eqD(2) [OF 1(2)] by simp
  then show ?thesis using assms(1) by simp
next
  case (2 r1 w1 w2)
  have "files w1 = files w" using durable_eqD(2) [OF 2(2)] .
  then have "forest (files (snd (MoveFile e u fid np w1)))"
    unfolding MoveFile_snd using assms(1) 2(4) by (intro move_stmt_forest) auto
  then show ?thesis using durable_eqD(2) [OF 2(3)] 2(1) assms(2) by simp
qed

section \<open>Histories\<close>

inductive tree_run :: "file_service \<Rightarrow> world \<Rightarrow> bool" for s where
  start: "files w = [] \<Longrightarrow> tree_run s w"
| upload: "tree_run s w \<Longrightarrow> Upload_run e s server u name mime file w = Some (r, k, w') \<Longrightarrow> tree_run s w'"
| delete: "tree_run s w \<Longrightarrow> tree_run s (snd (DeleteFile e s u fid w))"
| delete_version: "tree_run s w \<Longrightarrow> tree_run s (snd (DeleteVersion e u fid n w))"
| move: "tree_run s w \<Longrightarrow> svc_MoveFile e u fid np w = Some (r, w') \<Longrightarrow> tree_run s w'"
| folder: "tree_run s w \<Longrightarrow> tree_run s (snd (CreateFolder e u name p w))"
| delete_folder: "tree_run s w \<Longrightarrow> DeleteFolder e u fid w = Some (r, w') \<Longrightarrow> tree_run s w'"
| collect: "tree_run s w \<Longrightarrow> tree_run s (runCycle e g w)"
| other: "tree_run s w \<Longrightarrow> files w' = files w \<Longrightarrow> tree_run s w'"

lemma tree_run_forest: "tree_run s w \<Longrightarrow> forest (files w)"
proof (induction rule: tree_run.induct)
  case (delete w e u fid)
  then show ?case using lk_forest [OF DeleteFile_lk] by blast
next
  case (delete_version w e u fid n)
  then show ?case using lk_forest [OF DeleteVersion_lk] by blast
next
  case (delete_folder w e u fid r w')
  then show ?case using lk_forest [OF DeleteFolder_lk] by blast
next
  case (collect w e g)
  then show ?case using lk_forest [OF runCycle_lk] by blast
qed (auto intro: Upload_run_forest svc_MoveFile_forest CreateFolder_forest)


lemma GetAllDescendantFileIDs_ends:
  assumes "forest (files w)"
  shows "\<exists>r w1. GetAllDescendantFileIDs e fid w = Some (r, w1) \<and> durable w1 = durable w \<and>
    (\<forall>ids. r = Inr ids \<longrightarrow> fault_free e \<longrightarrow>
       set ids = {f_id g |g. g \<in> set (files w) \<and> \<not> f_is_dir g \<and> (fid, f_id g) \<in> (below_rel (files w))\<^sup>+})"
proof -
  obtain x w1 where x: "query e files w = (x, w1)" by force
  have d: "durable w1 = durable w" using query_durable [of e files w] x by simp
  show ?thesis
  proof (cases x)
    case (Inl err)
    then show ?thesis using x d by (simp add: GetAllDescendantFileIDs_def)
  next
    case (Inr fs)
    then have fs: "fs = files w" using query_InrD [of e files w fs w1] x by simp
    let ?B = "below_rel fs" and ?start = "children_of fs [fid]"
    obtain n where n: "\<forall>a \<in> set ?start. height ((parent_rel fs)\<inverse>) (f_id a) < n"
      using bounded_height [of ?start "\<lambda>a. height ((parent_rel fs)\<inverse>) (f_id a)"] by blast
    have sub: "set ?start \<subseteq> set fs" by (auto simp: set_children_of)
    obtain t where t: "descendants fs ?start = Some t"
        "set t = {g \<in> set fs. \<exists>a \<in> set ?start. (f_id a, f_id g) \<in> ?B\<^sup>*}"
      using descendants_end [OF assms [folded fs] sub, of n] n by blast
    have "(\<exists>a \<in> set ?start. (f_id a, c) \<in> ?B\<^sup>*) \<longleftrightarrow> (fid, c) \<in> ?B\<^sup>+" for c
    proof
      assume "\<exists>a \<in> set ?start. (f_id a, c) \<in> ?B\<^sup>*"
      then obtain a where "a \<in> set ?start" "(f_id a, c) \<in> ?B\<^sup>*" by blast
      moreover from this(1) have "(fid, f_id a) \<in> ?B" by (auto simp: set_children_of below_rel_def)
      ultimately show "(fid, c) \<in> ?B\<^sup>+" by (simp add: rtrancl_into_trancl2)
    next
      assume "(fid, c) \<in> ?B\<^sup>+"
      then obtain i where "(fid, i) \<in> ?B" "(i, c) \<in> ?B\<^sup>*" by (blast dest: tranclD)
      then show "\<exists>a \<in> set ?start. (f_id a, c) \<in> ?B\<^sup>*" by (force simp: set_children_of below_rel_def)
    qed
    then have "set t = {g \<in> set fs. (fid, f_id g) \<in> ?B\<^sup>+}" using t(2) by simp
    then show ?thesis using x d Inr t(1) fs by (auto simp: GetAllDescendantFileIDs_def)
  qed
qed

section \<open>Properties\<close>

text \<open>
  C4: in every history of uploads, deletions, moves and new folders, under any failures, the rows
  of \<^verbatim>\<open>files\<close> have distinct ids, every parent is a row, and no row is its own ancestor: the
  folders form a forest.
\<close>

theorem folders_form_forest:
  assumes "tree_run s w"
  shows "distinct (map f_id (files w)) \<and> acyclic (parent_rel (files w)) \<and>
    Range (parent_rel (files w)) \<subseteq> f_id ` set (files w)"
  using tree_run_forest [OF assms] by (simp add: forest_def)

text \<open>
  C5: in every such history the recursive queries end: moving anything anywhere and deleting any
  folder return, whatever fails on the way.
\<close>

theorem tree_operations_return:
  assumes "tree_run s w"
  shows "(\<exists>r w'. svc_MoveFile e u fid np w = Some (r, w')) \<and> (\<exists>r w'. DeleteFolder e u fid w = Some (r, w'))"
proof
  show "\<exists>r w'. svc_MoveFile e u fid np w = Some (r, w')"
    using svc_MoveFile_cases [OF tree_run_forest [OF assms], of e u fid np] by metis
  obtain x w1 where x: "VerifyFolderOwnership e u fid w = (x, w1)" by force
  have "durable w1 = durable w" using VerifyFolder_durable [of e u fid w] x by simp
  then have "forest (files w1)" using tree_run_forest [OF assms] durable_eqD(2) [of w1 w] by simp
  then obtain ids w2 where "GetAllDescendantFileIDs e fid w1 = Some (ids, w2)"
    using GetAllDescendantFileIDs_ends by blast
  then show "\<exists>r w'. DeleteFolder e u fid w = Some (r, w')"
    using x by (auto simp: DeleteFolder_def Let_def split: sum.splits option.splits prod.splits)
qed

text \<open>
  Moving a row below itself or below one of its descendants is an error and changes nothing
  that lasts.
\<close>

theorem MoveFile_refuses_cycle:
  assumes "tree_run s w" "(p, fid) \<in> (parent_rel (files w))\<^sup>*"
  shows "\<exists>err w'. svc_MoveFile e u fid (Some p) w = Some (Inl err, w') \<and> durable w' = durable w"
  using tree_run_forest [OF assms(1)]
  by (cases rule: svc_MoveFile_cases [of w e u fid "Some p"]) (use assms(2) in auto)

text \<open>
  C26: without failures the files a folder deletion collects are exactly the files that hang below
  the folder by active rows, at any depth.
\<close>

theorem descendants_exact:
  assumes "tree_run s w" "fault_free e" "GetAllDescendantFileIDs e fid w = Some (Inr ids, w')"
  shows "set ids = {f_id g |g. g \<in> set (files w) \<and> \<not> f_is_dir g \<and> (fid, f_id g) \<in> (below_rel (files w))\<^sup>+}"
  using GetAllDescendantFileIDs_ends [OF tree_run_forest [OF assms(1)], of e fid] assms(2,3) by auto


section \<open>Concrete folders\<close>

definition tree_demo :: world where
  "tree_demo = snd (CreateFolder quiet_env ''u'' ''b'' (Some ''u'') (snd (CreateFolder quiet_env ''u'' ''a'' None demo_world)))"

lemmas folder_evals = CreateFolder_def CreateDirectory_def VerifyFolderOwnership_def insert_file_def ext_fault_free with_err_def
  new_row_def demo_user_def invalidateUserCache_def invalidateFileCache_def cache_Delete_def Let_def

lemma tree_demo_links: "links (files tree_demo) = [(''u'', None), (''uuuu'', Some ''u'')]"
  by (simp add: tree_demo_def links_def folder_evals demo_world_def empty_world_def eval_nat_numeral)

lemma tree_demo_run: "tree_run s tree_demo"
  unfolding tree_demo_def by (intro tree_run.folder tree_run.start) simp

lemma tree_demo_rel: "parent_rel (files tree_demo) = {(''uuuu'', ''u'')}"
  by (auto simp: parent_rel_def tree_demo_links)

theorem folders_form_forest_witness:
  "map f_id (files tree_demo) = [''u'', ''uuuu''] \<and> acyclic {(''uuuu'', ''u'' :: string)}"
  using folders_form_forest [OF tree_demo_run] tree_demo_links
  by (simp add: tree_demo_rel flip: links_ids)

theorem tree_operations_return_witness:
  "\<exists>r w'. svc_MoveFile quiet_env ''u'' ''u'' (Some ''uuuu'') tree_demo = Some (r, w')"
  using tree_operations_return [OF tree_demo_run] by blast

theorem MoveFile_refuses_cycle_witness:
  "\<exists>err w'. svc_MoveFile quiet_env ''u'' ''u'' (Some ''uuuu'') tree_demo = Some (Inl err, w') \<and> durable w' = durable tree_demo"
  by (rule MoveFile_refuses_cycle [OF tree_demo_run]) (simp add: tree_demo_rel r_into_rtrancl)

lemma tree_demo_dirs: "list_all f_is_dir (files tree_demo)"
  by (simp add: tree_demo_def folder_evals demo_world_def empty_world_def eval_nat_numeral)

theorem descendants_exact_witness:
  "\<exists>w'. GetAllDescendantFileIDs quiet_env ''u'' tree_demo = Some (Inr [], w') \<and>
     filter (\<lambda>g. \<not> f_is_dir g) (files tree_demo) = []"
proof -
  obtain r w' where r: "GetAllDescendantFileIDs quiet_env ''u'' tree_demo = Some (r, w')"
    using GetAllDescendantFileIDs_ends [OF tree_run_forest [OF tree_demo_run], of quiet_env] by blast
  then obtain ids where "r = Inr ids" by (auto simp: GetAllDescendantFileIDs_def)
  moreover have "set ids = {}"
    using descendants_exact [OF tree_demo_run fault_free_quiet] r \<open>r = Inr ids\<close> tree_demo_dirs by (auto simp: list_all_iff)
  ultimately show ?thesis using r tree_demo_dirs by (auto simp: list_all_iff filter_empty_conv)
qed

text \<open>
  Two requests of one user, one moving folder \<open>a\<close> into \<open>b\<close>, the other \<open>b\<close> into \<open>a\<close>: each checks
  before the other moves.
\<close>

definition race_row :: "string \<Rightarrow> file_row" where
  "race_row i = \<lparr>f_id = i, f_user = ''u'', f_parent = None, f_name = i, f_is_dir = True, f_size = 0, f_mime = None,
     f_checksum = None, f_version = 1, f_status = FileStatusActive, f_created = 0, f_updated = 0\<rparr>"

definition race_world :: world where
  "race_world = demo_world\<lparr>files := [race_row ''a'', race_row ''b'']\<rparr>"

definition cycle :: "file_row list" where
  "cycle = [(race_row ''a'')\<lparr>f_parent := Some ''b'', f_updated := 3\<rparr>, (race_row ''b'')\<lparr>f_parent := Some ''a'', f_updated := 4\<rparr>]"

lemma cycle_diverges: "level \<in> {[cycle ! 0], [cycle ! 1]} \<Longrightarrow> ancestors cycle ''c'' level = None"
proof (rule ccontr)
  assume "level \<in> {[cycle ! 0], [cycle ! 1]}" "ancestors cycle ''c'' level \<noteq> None"
  then obtain b where "ancestors cycle ''c'' level = Some b" by auto
  then have "cycle = cycle \<longrightarrow> ''c'' = ''c'' \<longrightarrow> level \<notin> {[cycle ! 0], [cycle ! 1]}"
  proof (rule ancestors.raw_induct [where P = "\<lambda>fs t l y. fs = cycle \<longrightarrow> t = ''c'' \<longrightarrow> l \<notin> {[cycle ! 0], [cycle ! 1]}", rotated])
    fix anc fs t l y
    assume IH: "\<And>fs t l y. anc fs t l = Some y \<Longrightarrow> fs = cycle \<longrightarrow> t = ''c'' \<longrightarrow> l \<notin> {[cycle ! 0], [cycle ! 1]}"
      and st: "(if l = [] then Some False else if list_ex (\<lambda>a. f_id a = t) l then Some True else anc fs t (parents_of fs l)) = Some y"
    show "fs = cycle \<longrightarrow> t = ''c'' \<longrightarrow> l \<notin> {[cycle ! 0], [cycle ! 1]}"
    proof (intro impI notI)
      assume "fs = cycle" "t = ''c''" "l \<in> {[cycle ! 0], [cycle ! 1]}"
      moreover from this(3) have "parents_of cycle l \<in> {[cycle ! 0], [cycle ! 1]}" "l \<noteq> []" "\<not> list_ex (\<lambda>a. f_id a = ''c'') l"
        by (auto simp: parents_of_def cycle_def race_row_def)
      ultimately show False using st IH [of cycle "''c''" "parents_of cycle l" y] by simp
    qed
  qed
  with \<open>level \<in> _\<close> show False by simp
qed



text \<open>A folder \<open>d\<close> with a file \<open>f\<close> of one chunk.\<close>

definition lost_chunk :: chunk_row where
  "lost_chunk = \<lparr>c_id = ''k'', c_hash = ''hhhhhhhhhhhh'', c_size = 3, c_refs = 1, c_nodes = [], c_bucket = ''chunks'',
     c_key = ''hh/hh/hhhhhhhhhhhh'', c_status = ChunkStatusActive, c_created = 0\<rparr>"

definition lost_world :: world where
  "lost_world = demo_world\<lparr>files := [race_row ''d'', (race_row ''f'')\<lparr>f_parent := Some ''d'', f_is_dir := False, f_size := 3\<rparr>],
     chunks := [lost_chunk],
     file_chunks := [\<lparr>fc_file = ''f'', fc_chunk = ''k'', fc_index = 0, fc_offset = 0\<rparr>],
     objects := [(''chunks'', ''hh/hh/hhhhhhhhhhhh'') \<mapsto> [1, 2, 3]]\<rparr>"

text \<open>
  C<n>: deleting a folder marks its own row only, yet releases the chunks of every file below it:
  the file is still active and found by its owner, its chunk has no reference left, and the next
  collection removes its content.
\<close>

definition slow_clock :: env where
  "slow_clock = quiet_env\<lparr>now_at := (\<lambda>n. int n * 1000000000000)\<rparr>"

lemma slow_clock_ok [simp]: "fault_free slow_clock" "now_at slow_clock n = int n * 1000000000000"
  by (simp_all add: slow_clock_def fault_free_def)

lemma lost_simps [simp]:
  "c_id lost_chunk = ''k''" "c_hash lost_chunk = ''hhhhhhhhhhhh''" "c_refs lost_chunk = 1" "c_status lost_chunk = ChunkStatusActive"
  by (simp_all add: lost_chunk_def)

lemma lost_manifest [simp]:
  "manifest_rows [lost_chunk] [\<lparr>fc_file = ''f'', fc_chunk = ''k'', fc_index = 0, fc_offset = 0\<rparr>] ''f'' =
     [\<lparr>me_hash = ''hhhhhhhhhhhh'', me_size = c_size lost_chunk, me_index = 0, me_offset = 0\<rparr>]"
  by (simp add: manifest_rows_def chunk_entries_def)

lemma lost_delete:
  "\<exists>w1. DeleteFolder quiet_env ''u'' ''d'' lost_world = Some (Inr (), w1) \<and>
     map (\<lambda>f. (f_id f, f_user f, f_status f)) (files w1) = [(''d'', ''u'', FileStatusDeleted), (''f'', ''u'', FileStatusActive)] \<and>
     chunks w1 = [lost_chunk\<lparr>c_refs := 0\<rparr>] \<and> objects w1 = objects lost_world \<and> redis w1 gcLockKey = None"
  by (simp add: DeleteFolder_def VerifyFolderOwnership_def GetAllDescendantFileIDs_def GetManifest_def GetFileByID_def
      SoftDeleteFile_def UpdateStorageUsed_def DecrementRefCounts_def decrementable_def update_files_def affected_def
      invalidateUserCache_def cache_Delete_def ext_fault_free Let_def gcLockKey_def
      lost_world_def race_row_def demo_world_def demo_user_def empty_world_def children_of_def descendants.simps in_i64_def)

lemma lost_collect:
  assumes "chunks w = [lost_chunk\<lparr>c_refs := 0\<rparr>]" "redis w gcLockKey = None"
  shows "stored demo_store (runCycle slow_clock \<lparr>co_store = demo_store, co_cfg = \<lparr>gc_grace = 86400000000, gc_batch = 10\<rparr>\<rparr> w) ''hhhhhhhhhhhh'' = None"
  using assms
  by (simp add: runCycle_def cache_SetNX_def live_def markOrphans_def sweepMarked_def sweep_candidates_def orphan_count_def
      sweep_one_def delete_file_chunks_def delete_chunk_row_def DeleteChunk_def ext_fault_free Let_def stored_def
      cache_Delete_def Publish_def)



end
