(* ===== verification/Http.thy ===== *)
theory Http
  imports GoText World
begin

text \<open>
  What the API gateway speaks: requests, responses and the request context of its middleware chain,
  the error values of \<^verbatim>\<open>pkg/errors/errors.go\<close>, and the binding of JSON bodies.
\<close>

section \<open>JSON\<close>

text \<open>
  \<open>JLit\<close> is a number with a fraction or an exponent, as it is written; \<open>JTime\<close> is a time stamp (in
  microseconds), printed by \<^verbatim>\<open>time.Time\<close>; \<open>JPercent a b\<close> is the number
  \<^verbatim>\<open>float64(a) / float64(b) * 100\<close>; \<open>JImplDef\<close> is the conversion of an infinite or undefined float to
  an integer, which Go leaves to the implementation.
\<close>

datatype json =
    JNull
  | JBool bool
  | JNum int
  | JStr string
  | JList "json list"
  | JObj "(string \<times> json) list"
  | JTime int
  | JPercent int int
  | JImplDef
  | JLit string

fun json_kind :: "json \<Rightarrow> string" where
  "json_kind JNull = ''null''"
| "json_kind (JBool _) = ''bool''"
| "json_kind (JStr _) = ''string''"
| "json_kind (JList _) = ''array''"
| "json_kind (JObj _) = ''object''"
| "json_kind _ = ''number''"

text \<open>
  \<^verbatim>\<open>json.Unmarshal\<close> of a value into a struct of string fields: a key belongs to the field whose name it
  equals up to case, the last such key counts, \<^verbatim>\<open>null\<close> leaves the field alone, the first value of
  another kind is the error.
\<close>

definition bind_strings :: "string \<Rightarrow> string list \<Rightarrow> json \<Rightarrow> (string \<Rightarrow> string option) result" where
  "bind_strings struct flds j =
     (case j of
        JNull \<Rightarrow> Inr (\<lambda>_. None)
      | JObj kvs \<Rightarrow>
          (case filter (\<lambda>(k, v). list_ex (equal_fold k) flds \<and> json_kind v \<notin> {''string'', ''null''}) kvs of
             (k, v) # _ \<Rightarrow>
               Inl (''json: cannot unmarshal '' @ json_kind v @ '' into Go struct field '' @ struct @ ''.'' @
                    hd (filter (equal_fold k) flds) @ '' of type string'')
           | [] \<Rightarrow>
               Inr (\<lambda>name. case List.map_filter (\<lambda>(k, v). if equal_fold k name
                                 then (case v of JStr s \<Rightarrow> Some s | _ \<Rightarrow> None) else None) kvs of
                             [] \<Rightarrow> None | vs \<Rightarrow> Some (last vs)))
      | _ \<Rightarrow> Inl (''json: cannot unmarshal '' @ json_kind j @ '' into Go value of type '' @ struct))"

definition or_empty :: "string option \<Rightarrow> string" where
  "or_empty x = (case x of None \<Rightarrow> [] | Some s \<Rightarrow> s)"

section \<open>Requests and responses\<close>

text \<open>A file of a multipart form: its name, the \<^verbatim>\<open>Content-Type\<close> of its part, its size and content.\<close>

record form_file =
  ff_name :: string
  ff_mime :: string
  ff_size :: int
  ff_data :: reader

record request =
  rq_method :: string
  rq_params :: "(string \<times> string) list"
  rq_query :: "(string \<times> string) list"
  rq_headers :: "(string \<times> string) list"
  rq_client_ip :: string
  rq_full_path :: string
  rq_body :: reader
  rq_form :: "(string \<times> form_file) list"

datatype body = BJson json | BBytes "byte list" | BNone

record response =
  rs_status :: int
  rs_headers :: "(string \<times> string) list"
  rs_body :: body

text \<open>The keys of the context, as \<^verbatim>\<open>c.Set\<close> leaves them; all values the code sets are strings.\<close>

record ctx =
  cx_req :: request
  cx_keys :: "(string \<times> string) list"

definition ctx_get :: "ctx \<Rightarrow> string \<Rightarrow> string option" where
  "ctx_get c k = map_of (cx_keys c) k"

definition ctx_set :: "string \<Rightarrow> string \<Rightarrow> ctx \<Rightarrow> ctx" where
  "ctx_set k v c = c\<lparr>cx_keys := (k, v) # cx_keys c\<rparr>"

definition GetString :: "ctx \<Rightarrow> string \<Rightarrow> string" where
  "GetString c k = (case ctx_get c k of None \<Rightarrow> [] | Some v \<Rightarrow> v)"

lemma ctx_get_set [simp]: "ctx_get (ctx_set k v c) k' = (if k' = k then Some v else ctx_get c k')"
  by (simp add: ctx_get_def ctx_set_def)

lemma ctx_set_req [simp]: "cx_req (ctx_set k v c) = cx_req c"
  by (simp add: ctx_set_def)

text \<open>Header names are compared without their case; an absent header reads as empty.\<close>

definition header :: "request \<Rightarrow> string \<Rightarrow> string" where
  "header r name =
     (case filter (\<lambda>(k, v). equal_fold k name) (rq_headers r) of [] \<Rightarrow> [] | kv # _ \<Rightarrow> snd kv)"

definition param :: "request \<Rightarrow> string \<Rightarrow> string" where
  "param r name = (case map_of (rq_params r) name of None \<Rightarrow> [] | Some v \<Rightarrow> v)"

definition query_get :: "request \<Rightarrow> string \<Rightarrow> string" where
  "query_get r name = (case map_of (rq_query r) name of None \<Rightarrow> [] | Some v \<Rightarrow> v)"

definition default_query :: "request \<Rightarrow> string \<Rightarrow> string \<Rightarrow> string" where
  "default_query r name d = (case map_of (rq_query r) name of None \<Rightarrow> d | Some v \<Rightarrow> v)"

text \<open>
  A handler answers or, as \<open>None\<close>, never does.  A middleware takes the handlers after it.
\<close>

type_synonym handler = "ctx \<Rightarrow> world \<Rightarrow> (response \<times> world) option"
type_synonym middleware = "handler \<Rightarrow> handler"

definition ok_json :: "int \<Rightarrow> json \<Rightarrow> response" where
  "ok_json status j = \<lparr>rs_status = status, rs_headers = [], rs_body = BJson j\<rparr>"

lemma ok_json_status [simp]: "rs_status (ok_json k j) = k"
  by (simp add: ok_json_def)

section \<open>Middleware that admits or refuses\<close>

text \<open>
  Authentication, role and rate-limit middleware all have one shape: look at the request, then either
  answer and stop the chain (\<^verbatim>\<open>c.AbortWithStatusJSON\<close>), or let the next handler run, perhaps with more
  keys in the context.
\<close>

type_synonym admission = "ctx \<Rightarrow> world \<Rightarrow> (response + ctx) \<times> world"

definition guard :: "admission \<Rightarrow> middleware" where
  "guard admit next c w =
     (case admit c w of (Inl r, w1) \<Rightarrow> Some (r, w1) | (Inr c1, w1) \<Rightarrow> next c1 w1)"

definition and_then :: "admission \<Rightarrow> admission \<Rightarrow> admission" where
  "and_then a b c w = (case a c w of (Inl r, w1) \<Rightarrow> (Inl r, w1) | (Inr c1, w1) \<Rightarrow> b c1 w1)"

lemma guard_and_then: "guard (and_then a b) next = guard a (guard b next)"
  by (auto simp: guard_def and_then_def fun_eq_iff split: prod.splits sum.splits)

locale admission =
  fixes admit :: "ctx \<Rightarrow> world \<Rightarrow> (response + ctx) \<times> world"
    and refusals :: "int set"
  assumes keeps_durable: "durable (snd (admit c w)) = durable w"
    and keeps_request: "fst (admit c w) = Inr c' \<Longrightarrow> cx_req c' = cx_req c"
    and refusal: "fst (admit c w) = Inl r \<Longrightarrow> rs_status r \<in> refusals"
begin

text \<open>A request the guard refuses is answered with one of its status codes and changes nothing that
  lasts; any other is the next handler's.\<close>

lemma guard_cases:
  assumes "guard admit next c w = Some (r, w')"
  obtains (refused) "fst (admit c w) = Inl r" "rs_status r \<in> refusals" "durable w' = durable w"
  | (passed) c' w1 where "admit c w = (Inr c', w1)" "cx_req c' = cx_req c" "durable w1 = durable w"
      "next c' w1 = Some (r, w')"
proof -
  obtain x w1 where x: "admit c w = (x, w1)" by fastforce
  have d: "durable w1 = durable w" using keeps_durable [of c w] by (simp add: x)
  show ?thesis
  proof (cases x)
    case (Inl r1)
    then show ?thesis using assms refusal [of c w r1] d refused by (simp add: guard_def x)
  next
    case (Inr c')
    then show ?thesis using assms keeps_request [of c w c'] d passed by (simp add: guard_def x)
  qed
qed

end

locale two_admissions = one: admission a S + two: admission b T
  for a :: "ctx \<Rightarrow> world \<Rightarrow> (response + ctx) \<times> world" and S :: "int set"
    and b :: "ctx \<Rightarrow> world \<Rightarrow> (response + ctx) \<times> world" and T :: "int set"

sublocale two_admissions \<subseteq> both: admission "and_then a b" "S \<union> T"
proof (unfold_locales, goal_cases)
  case (1 c w)
  then show ?case
    using one.keeps_durable [of c w] two.keeps_durable
    by (auto simp: and_then_def split: prod.splits sum.splits)
next
  case (2 c w c')
  then show ?case
    using one.keeps_request [of c w] two.keeps_request
    by (auto simp: and_then_def split: prod.splits sum.splits)
next
  case (3 c w r)
  then show ?case
    using one.refusal [of c w] two.refusal
    by (auto simp: and_then_def split: prod.splits sum.splits)
qed

section \<open>API errors\<close>

record api_error =
  ae_code :: string
  ae_message :: string
  ae_status :: int
  ae_details :: "json option"
  ae_err :: "go_error option"

abbreviation "CodeAuthInvalidCredentials \<equiv> ''AUTH_INVALID_CREDENTIALS''"
abbreviation "CodeAuthTokenInvalid \<equiv> ''AUTH_TOKEN_INVALID''"
abbreviation "CodeAuthTokenMissing \<equiv> ''AUTH_TOKEN_MISSING''"
abbreviation "CodeAuthForbidden \<equiv> ''AUTH_FORBIDDEN''"
abbreviation "CodeAuthUserExists \<equiv> ''AUTH_USER_EXISTS''"
abbreviation "CodeFileNotFound \<equiv> ''FILE_NOT_FOUND''"
abbreviation "CodeFileTooLarge \<equiv> ''FILE_TOO_LARGE''"
abbreviation "CodeRateLimitExceeded \<equiv> ''RATE_LIMIT_EXCEEDED''"
abbreviation "CodeValidationFailed \<equiv> ''VALIDATION_FAILED''"
abbreviation "CodeInternalError \<equiv> ''INTERNAL_ERROR''"
abbreviation "CodeServiceUnavailable \<equiv> ''SERVICE_UNAVAILABLE''"

definition api_err :: "string \<Rightarrow> string \<Rightarrow> int \<Rightarrow> api_error" where
  "api_err code message status =
     \<lparr>ae_code = code, ae_message = message, ae_status = status, ae_details = None, ae_err = None\<rparr>"

text \<open>\<^verbatim>\<open>Error()\<close>, the text for logs.\<close>

definition api_Error :: "api_error \<Rightarrow> string" where
  "api_Error e =
     ''['' @ ae_code e @ ''] '' @ ae_message e @ (case ae_err e of None \<Rightarrow> [] | Some err \<Rightarrow> '': '' @ err)"

definition api_Unwrap :: "api_error \<Rightarrow> go_error option" where
  "api_Unwrap e = ae_err e"

definition ToResponse :: "api_error \<Rightarrow> string \<Rightarrow> json" where
  "ToResponse e requestID =
     JObj [(''error'', JObj
       ([(''code'', JStr (ae_code e)), (''message'', JStr (ae_message e))] @
        (if requestID = [] then [] else [(''request_id'', JStr requestID)]) @
        (case ae_details e of None \<Rightarrow> [] | Some d \<Rightarrow> [(''details'', d)])))]"

definition NewBadRequest :: "string \<Rightarrow> api_error" where
  "NewBadRequest message = api_err CodeValidationFailed message 400"

definition NewUnauthorized :: "string \<Rightarrow> string \<Rightarrow> api_error" where
  "NewUnauthorized code message = api_err code message 401"

definition NewForbidden :: "string \<Rightarrow> api_error" where
  "NewForbidden message = api_err CodeAuthForbidden message 403"

definition NewNotFound :: "string \<Rightarrow> string \<Rightarrow> api_error" where
  "NewNotFound code message = api_err code message 404"

definition NewConflict :: "string \<Rightarrow> string \<Rightarrow> api_error" where
  "NewConflict code message = api_err code message 409"

definition NewTooLarge :: "string \<Rightarrow> api_error" where
  "NewTooLarge message = api_err CodeFileTooLarge message 413"

definition NewRateLimited :: "string \<Rightarrow> api_error" where
  "NewRateLimited message = api_err CodeRateLimitExceeded message 429"

definition NewInternal :: "go_error \<Rightarrow> api_error" where
  "NewInternal err =
     (api_err CodeInternalError ''An internal error occurred. Please try again later.'' 500)\<lparr>ae_err := Some err\<rparr>"

definition NewServiceUnavailable :: "string \<Rightarrow> api_error" where
  "NewServiceUnavailable message = api_err CodeServiceUnavailable message 503"

definition Wrap :: "go_error \<Rightarrow> api_error \<Rightarrow> api_error" where
  "Wrap err e = e\<lparr>ae_err := Some err\<rparr>"

lemmas api_constructors = api_err_def NewBadRequest_def NewUnauthorized_def NewForbidden_def NewNotFound_def
  NewConflict_def NewTooLarge_def NewRateLimited_def NewInternal_def NewServiceUnavailable_def

text \<open>\<^verbatim>\<open>c.JSON(apiErr.StatusCode, apiErr.ToResponse(c.GetString("request_id")))\<close>\<close>

definition fail_json :: "ctx \<Rightarrow> api_error \<Rightarrow> response" where
  "fail_json c e = ok_json (ae_status e) (ToResponse e (GetString c ''request_id''))"

lemma fail_status [simp]: "rs_status (fail_json c e) = ae_status e"
  by (simp add: fail_json_def ok_json_def)

lemma api_status [simp]:
  "ae_status (NewBadRequest m) = 400" "ae_status (NewUnauthorized k m) = 401" "ae_status (NewForbidden m) = 403"
  "ae_status (NewNotFound k m) = 404" "ae_status (NewConflict k m) = 409" "ae_status (NewTooLarge m) = 413"
  "ae_status (NewRateLimited m) = 429" "ae_status (NewInternal err) = 500" "ae_status (NewServiceUnavailable m) = 503"
  by (simp_all add: api_constructors)

text \<open>
  The answer to an internal failure does not depend on the failure: whatever error the server
  met, the client sees the same status and the same text.
\<close>

lemma NewInternal_hides:
  "fail_json c (NewInternal err) = fail_json c (NewInternal err')"
  by (simp add: fail_json_def NewInternal_def api_err_def ToResponse_def)

section \<open>Searching in texts\<close>

text \<open>\<^verbatim>\<open>contains\<close> and \<^verbatim>\<open>searchString\<close> of the gateway: the window slides over the text.\<close>

definition searchString :: "string \<Rightarrow> string \<Rightarrow> bool" where
  "searchString s sub =
     list_ex (\<lambda>i. take (length sub) (drop i s) = sub) [0..<(length s + 1) - length sub]"

definition text_contains :: "string \<Rightarrow> string \<Rightarrow> bool" where
  "text_contains s sub \<longleftrightarrow> length sub \<le> length s \<and> searchString s sub"

text \<open>
  The hand-written substring search is the substring relation.
\<close>

theorem text_contains_iff: "text_contains s sub \<longleftrightarrow> (\<exists>pre post. s = pre @ sub @ post)"
proof
  assume "text_contains s sub"
  then obtain i where "take (length sub) (drop i s) = sub" by (auto simp: text_contains_def searchString_def list_ex_iff)
  then have "s = take i s @ sub @ drop (length sub) (drop i s)"
    by (metis append_take_drop_id)
  then show "\<exists>pre post. s = pre @ sub @ post" by blast
next
  assume "\<exists>pre post. s = pre @ sub @ post"
  then obtain pre post where s: "s = pre @ sub @ post" by blast
  show "text_contains s sub"
    unfolding text_contains_def searchString_def list_ex_iff
    by (intro conjI bexI [of _ "length pre"]) (simp_all add: s)
qed

end
