(* ===== verification/Auth.thy ===== *)
theory Auth
  imports Http
begin

text \<open>
  Authentication: \<^verbatim>\<open>internal/auth\<close>.  Token pairs and their validation, password hashing, and the
  middleware in front of the protected routes.  The JWT and bcrypt libraries are parameters, with
  what their documentation promises as the predicates \<open>jwt_laws\<close> and \<open>bcrypt_laws\<close>.
\<close>

section \<open>The libraries\<close>

text \<open>
  The JSON object of a token.  It has the fields of both claim structs; an absent field reads as
  empty.  Times are NumericDates: seconds since the epoch.
\<close>

record jwt_claims =
  jc_sub :: string
  jc_email :: string
  jc_role :: string
  jc_family :: string
  jc_exp :: "int option"
  jc_iat :: "int option"
  jc_nbf :: "int option"
  jc_iss :: string
  jc_aud :: "string list"
  jc_id :: string

record parser_options =
  po_issuer :: string
  po_methods :: "string list"
  po_audience :: "string option"

text \<open>
  \<open>jl_sign\<close> takes the randomness of the signature, the private key and the claims; \<open>jl_parse\<close> the
  options, the key function (from the name of the signing method), the time in microseconds and the
  token; \<open>jl_authentic alg key t c\<close> says that \<open>t\<close> carries the claims \<open>c\<close> under a signature by the method
  \<open>alg\<close> that \<open>key\<close> verifies.
\<close>

record jwt_lib =
  jl_sign :: "nat \<Rightarrow> string \<Rightarrow> jwt_claims \<Rightarrow> string result"
  jl_parse :: "parser_options \<Rightarrow> (string \<Rightarrow> string result) \<Rightarrow> int \<Rightarrow> string \<Rightarrow> jwt_claims result"
  jl_authentic :: "string \<Rightarrow> string \<Rightarrow> string \<Rightarrow> jwt_claims \<Rightarrow> bool"

text \<open>The checks of the library's validator that the code asks for: \<^verbatim>\<open>exp\<close> and \<^verbatim>\<open>nbf\<close> where present,
  the issuer unless the expected one is empty, the audience if one is expected.\<close>

definition claims_valid :: "int \<Rightarrow> parser_options \<Rightarrow> jwt_claims \<Rightarrow> bool" where
  "claims_valid now po c \<longleftrightarrow>
     (case jc_exp c of None \<Rightarrow> True | Some t \<Rightarrow> now < t * 1000000) \<and>
     (case jc_nbf c of None \<Rightarrow> True | Some t \<Rightarrow> t * 1000000 \<le> now) \<and>
     (po_issuer po \<noteq> [] \<longrightarrow> jc_iss c = po_issuer po) \<and>
     (case po_audience po of None \<Rightarrow> True | Some a \<Rightarrow> a \<in> set (jc_aud c))"

definition jwt_laws :: "jwt_lib \<Rightarrow> string \<Rightarrow> string \<Rightarrow> bool" where
  "jwt_laws lib priv pub \<longleftrightarrow>
     (\<forall>po kf now t c. jl_parse lib po kf now t = Inr c \<longleftrightarrow>
        (\<exists>alg key. alg \<in> set (po_methods po) \<and> kf alg = Inr key \<and> jl_authentic lib alg key t c \<and>
                   claims_valid now po c)) \<and>
     (\<forall>n c t. jl_sign lib n priv c = Inr t \<longrightarrow> jl_authentic lib ''ES256'' pub t c) \<and>
     (\<forall>alg key alg' key' t c c'. jl_authentic lib alg key t c \<and> jl_authentic lib alg' key' t c' \<longrightarrow> c = c')"

record bcrypt_lib =
  bc_generate :: "nat \<Rightarrow> string \<Rightarrow> int \<Rightarrow> string result"
  bc_compare :: "string \<Rightarrow> string \<Rightarrow> go_error option"

definition bcrypt_laws :: "bcrypt_lib \<Rightarrow> bool" where
  "bcrypt_laws bc \<longleftrightarrow> (\<forall>n p cost h. bc_generate bc n p cost = Inr h \<longrightarrow> bc_compare bc h p = None)"

section \<open>Tokens\<close>

text \<open>Durations are in nanoseconds.\<close>

record jwt_config =
  jw_issuer :: string
  jw_access_ttl :: int
  jw_refresh_ttl :: int

record jwt_service =
  js_lib :: jwt_lib
  js_private :: string
  js_public :: string
  js_cfg :: jwt_config

record token_pair =
  tp_access :: string
  tp_refresh :: string
  tp_expires_in :: int
  tp_type :: string

text \<open>\<^verbatim>\<open>jwt.NewNumericDate(now.Add(ttl))\<close>: whole seconds.\<close>

definition numeric_date :: "int \<Rightarrow> int \<Rightarrow> int" where
  "numeric_date now ttl = (now * 1000 + ttl) div 1000000000"

definition access_claims :: "jwt_service \<Rightarrow> int \<Rightarrow> string \<Rightarrow> string \<Rightarrow> string \<Rightarrow> string \<Rightarrow> jwt_claims" where
  "access_claims s now userID email role jti =
     \<lparr>jc_sub = userID, jc_email = email, jc_role = role, jc_family = [],
      jc_exp = Some (numeric_date now (jw_access_ttl (js_cfg s))), jc_iat = Some (numeric_date now 0),
      jc_nbf = Some (numeric_date now 0), jc_iss = jw_issuer (js_cfg s), jc_aud = [''dfms-api''], jc_id = jti\<rparr>"

definition refresh_claims :: "jwt_service \<Rightarrow> int \<Rightarrow> string \<Rightarrow> string \<Rightarrow> string \<Rightarrow> jwt_claims" where
  "refresh_claims s now userID family jti =
     \<lparr>jc_sub = userID, jc_email = [], jc_role = [], jc_family = family,
      jc_exp = Some (numeric_date now (jw_refresh_ttl (js_cfg s))), jc_iat = Some (numeric_date now 0),
      jc_nbf = None, jc_iss = jw_issuer (js_cfg s), jc_aud = [], jc_id = jti\<rparr>"

text \<open>
  The UUIDs are the environment's; each takes a number.  \<^verbatim>\<open>AccessTTL.Seconds()\<close> converted to \<^verbatim>\<open>int64\<close>
  is the whole seconds of the duration (exact below 97 days, where its \<^verbatim>\<open>float64\<close> cannot round up).
\<close>

definition tick :: "world \<Rightarrow> world" where
  "tick w = w\<lparr>calls := Suc (calls w)\<rparr>"

lemma tick_simps [simp]: "calls (tick w) = Suc (calls w)" "durable (tick w) = durable w" "users (tick w) = users w"
  by (simp_all add: tick_def)

definition GenerateTokenPair ::
  "env \<Rightarrow> jwt_service \<Rightarrow> string \<Rightarrow> string \<Rightarrow> string \<Rightarrow> world \<Rightarrow> token_pair result \<times> world" where
  "GenerateTokenPair e s userID email role w =
     (let now = now_at e (calls w);
          tokenFamily = uuid_at e (calls w);
          w1 = tick w;
          accessClaims = access_claims s now userID email role (uuid_at e (calls w1));
          w2 = tick w1
      in
      case jl_sign (js_lib s) (calls w1) (js_private s) accessClaims of
        Inl err \<Rightarrow> (Inl (wrapf ''failed to sign access token'' err), w2)
      | Inr accessTokenStr \<Rightarrow>
          (let refreshClaims = refresh_claims s now userID tokenFamily (uuid_at e (calls w2));
               w3 = tick w2
           in
           case jl_sign (js_lib s) (calls w2) (js_private s) refreshClaims of
             Inl err \<Rightarrow> (Inl (wrapf ''failed to sign refresh token'' err), w3)
           | Inr refreshTokenStr \<Rightarrow>
               (Inr \<lparr>tp_access = accessTokenStr, tp_refresh = refreshTokenStr,
                     tp_expires_in = go_div (jw_access_ttl (js_cfg s)) 1000000000, tp_type = ''Bearer''\<rparr>, w3)))"

text \<open>The key function: only ECDSA methods get the public key.\<close>

definition ecdsa_key :: "jwt_service \<Rightarrow> string \<Rightarrow> string result" where
  "ecdsa_key s alg =
     (if alg \<in> {''ES256'', ''ES384'', ''ES512''} then Inr (js_public s)
      else Inl (''unexpected signing method: '' @ alg))"

definition access_options :: "jwt_service \<Rightarrow> parser_options" where
  "access_options s = \<lparr>po_issuer = jw_issuer (js_cfg s), po_methods = [''ES256''], po_audience = Some ''dfms-api''\<rparr>"

definition refresh_options :: "jwt_service \<Rightarrow> parser_options" where
  "refresh_options s = \<lparr>po_issuer = jw_issuer (js_cfg s), po_methods = [''ES256''], po_audience = None\<rparr>"

text \<open>A struct of claims has the fields it names; the library's tokens without an error are valid, so
  the second check of the source never fails.\<close>

definition ValidateAccessToken :: "jwt_service \<Rightarrow> int \<Rightarrow> string \<Rightarrow> jwt_claims result" where
  "ValidateAccessToken s now tokenStr =
     (case jl_parse (js_lib s) (access_options s) (ecdsa_key s) now tokenStr of
        Inl err \<Rightarrow> Inl (wrapf ''invalid token'' err)
      | Inr c \<Rightarrow> Inr (c\<lparr>jc_family := []\<rparr>))"

definition ValidateRefreshToken :: "jwt_service \<Rightarrow> int \<Rightarrow> string \<Rightarrow> jwt_claims result" where
  "ValidateRefreshToken s now tokenStr =
     (case jl_parse (js_lib s) (refresh_options s) (ecdsa_key s) now tokenStr of
        Inl err \<Rightarrow> Inl (wrapf ''invalid refresh token'' err)
      | Inr c \<Rightarrow> Inr (c\<lparr>jc_email := [], jc_role := []\<rparr>))"

definition service_laws :: "jwt_service \<Rightarrow> bool" where
  "service_laws s \<longleftrightarrow> jwt_laws (js_lib s) (js_private s) (js_public s)"

lemma parse_iff:
  assumes "service_laws s"
  shows "jl_parse (js_lib s) (access_options s) (ecdsa_key s) now t = Inr c \<longleftrightarrow>
           jl_authentic (js_lib s) ''ES256'' (js_public s) t c \<and> claims_valid now (access_options s) c"
    and "jl_parse (js_lib s) (refresh_options s) (ecdsa_key s) now t = Inr c \<longleftrightarrow>
           jl_authentic (js_lib s) ''ES256'' (js_public s) t c \<and> claims_valid now (refresh_options s) c"
  using assms by (auto simp: service_laws_def jwt_laws_def access_options_def refresh_options_def ecdsa_key_def)

lemma sign_authentic:
  "service_laws s \<Longrightarrow> jl_sign (js_lib s) n (js_private s) c = Inr t \<Longrightarrow>
   jl_authentic (js_lib s) ''ES256'' (js_public s) t c"
  by (auto simp: service_laws_def jwt_laws_def)

lemma authentic_unique:
  "service_laws s \<Longrightarrow> jl_authentic (js_lib s) a k t c \<Longrightarrow> jl_authentic (js_lib s) a' k' t c' \<Longrightarrow> c = c'"
  unfolding service_laws_def jwt_laws_def by blast

lemma GenerateTokenPair_durable [simp]: "durable (snd (GenerateTokenPair e s u em r w)) = durable w"
  by (simp add: GenerateTokenPair_def Let_def split: sum.splits)

lemma GenerateTokenPair_InrE:
  assumes "GenerateTokenPair e s u em r w = (Inr p, w')"
  obtains jti jti' fam where
    "jl_sign (js_lib s) (Suc (calls w)) (js_private s) (access_claims s (now_at e (calls w)) u em r jti) = Inr (tp_access p)"
    "jl_sign (js_lib s) (Suc (Suc (calls w))) (js_private s) (refresh_claims s (now_at e (calls w)) u fam jti') = Inr (tp_refresh p)"
    "tp_expires_in p = go_div (jw_access_ttl (js_cfg s)) 1000000000" "tp_type p = ''Bearer''"
  using assms by (auto simp: GenerateTokenPair_def Let_def split: sum.splits)

lemma numeric_date_le: "numeric_date now 0 * 1000000 \<le> now"
  by (simp add: numeric_date_def)

section \<open>Key files\<close>

text \<open>
  What \<^verbatim>\<open>os.ReadFile\<close>, \<^verbatim>\<open>encoding/pem\<close> and \<^verbatim>\<open>crypto/x509\<close> answer.  A parsed key is its kind
  (\<open>True\<close> for ECDSA) and its material.
\<close>

record key_files =
  kf_read :: "string \<Rightarrow> string result"
  kf_pem :: "string \<Rightarrow> string option"
  kf_ec_private :: "string \<Rightarrow> string result"
  kf_pkcs8 :: "string \<Rightarrow> (bool \<times> string) result"
  kf_pkix :: "string \<Rightarrow> (bool \<times> string) result"

definition loadPrivateKey :: "key_files \<Rightarrow> string \<Rightarrow> string result" where
  "loadPrivateKey k path =
     (case kf_read k path of
        Inl err \<Rightarrow> Inl (wrapf ''failed to read private key file'' err)
      | Inr keyData \<Rightarrow>
          (case kf_pem k keyData of
             None \<Rightarrow> Inl ''failed to decode PEM block from private key''
           | Some der \<Rightarrow>
               (case kf_ec_private k der of
                  Inr key \<Rightarrow> Inr key
                | Inl err \<Rightarrow>
                    (case kf_pkcs8 k der of
                       Inl _ \<Rightarrow> Inl (wrapf ''failed to parse private key (tried EC and PKCS8)'' err)
                     | Inr (ecdsa, key) \<Rightarrow> if ecdsa then Inr key else Inl ''PKCS8 key is not an ECDSA key''))))"

definition loadPublicKey :: "key_files \<Rightarrow> string \<Rightarrow> string result" where
  "loadPublicKey k path =
     (case kf_read k path of
        Inl err \<Rightarrow> Inl (wrapf ''failed to read public key file'' err)
      | Inr keyData \<Rightarrow>
          (case kf_pem k keyData of
             None \<Rightarrow> Inl ''failed to decode PEM block from public key''
           | Some der \<Rightarrow>
               (case kf_pkix k der of
                  Inl err \<Rightarrow> Inl (wrapf ''failed to parse public key'' err)
                | Inr (ecdsa, key) \<Rightarrow> if ecdsa then Inr key else Inl ''public key is not an ECDSA key'')))"

definition NewJWTService :: "jwt_lib \<Rightarrow> key_files \<Rightarrow> string \<Rightarrow> string \<Rightarrow> jwt_config \<Rightarrow> jwt_service result" where
  "NewJWTService lib k private_path public_path cfg =
     (case loadPrivateKey k private_path of
        Inl err \<Rightarrow> Inl (wrapf ''failed to load private key'' err)
      | Inr privateKey \<Rightarrow>
          (case loadPublicKey k public_path of
             Inl err \<Rightarrow> Inl (wrapf ''failed to load public key'' err)
           | Inr publicKey \<Rightarrow>
               Inr \<lparr>js_lib = lib, js_private = privateKey, js_public = publicKey, js_cfg = cfg\<rparr>))"

section \<open>Passwords\<close>

definition HashPassword :: "bcrypt_lib \<Rightarrow> nat \<Rightarrow> string \<Rightarrow> string result" where
  "HashPassword bc n password =
     (if length password < 8 then Inl ''password must be at least 8 characters''
      else if 72 < length password then Inl ''password must be at most 72 characters''
      else (case bc_generate bc n password 12 of
              Inl err \<Rightarrow> Inl (wrapf ''failed to hash password'' err)
            | Inr h \<Rightarrow> Inr h))"

definition VerifyPassword :: "bcrypt_lib \<Rightarrow> string \<Rightarrow> string \<Rightarrow> go_error option" where
  "VerifyPassword bc hashedPassword password = bc_compare bc hashedPassword password"

lemma HashPassword_verifies:
  "bcrypt_laws bc \<Longrightarrow> HashPassword bc n p = Inr h \<Longrightarrow> VerifyPassword bc h p = None"
  by (auto simp: HashPassword_def VerifyPassword_def bcrypt_laws_def split: if_splits sum.splits)

section \<open>Middleware\<close>

definition jwt_admit :: "env \<Rightarrow> jwt_service \<Rightarrow> admission" where
  "jwt_admit e s c w =
     (let authHeader = header (cx_req c) ''Authorization''; refuse = (\<lambda>err. (Inl (fail_json c err), w)) in
      if authHeader = [] then refuse (NewUnauthorized CodeAuthTokenMissing ''Authorization header is required'')
      else
        (case split_n2 CHR '' '' authHeader of
           [scheme, tokenStr] \<Rightarrow>
             if \<not> equal_fold scheme ''bearer''
             then refuse (NewUnauthorized CodeAuthTokenInvalid ''Authorization header must use Bearer scheme'')
             else
               (case ValidateAccessToken s (now_at e (calls w)) tokenStr of
                  Inl _ \<Rightarrow> refuse (NewUnauthorized CodeAuthTokenInvalid ''Invalid or expired access token'')
                | Inr claims \<Rightarrow>
                    (Inr (ctx_set ''user_role'' (jc_role claims)
                           (ctx_set ''user_email'' (jc_email claims) (ctx_set ''user_id'' (jc_sub claims) c))), w))
         | _ \<Rightarrow> refuse (NewUnauthorized CodeAuthTokenInvalid ''Authorization header must use Bearer scheme'')))"

definition JWTAuthMiddleware :: "env \<Rightarrow> jwt_service \<Rightarrow> middleware" where
  "JWTAuthMiddleware e s = guard (jwt_admit e s)"

definition role_admit :: "string list \<Rightarrow> admission" where
  "role_admit roles c w =
     (case ctx_get c ''user_role'' of
        None \<Rightarrow> (Inl (fail_json c (NewForbidden ''Authentication required'')), w)
      | Some userRole \<Rightarrow>
          if userRole \<notin> set roles then (Inl (fail_json c (NewForbidden ''Insufficient permissions'')), w)
          else (Inr c, w))"

definition RequireRole :: "string list \<Rightarrow> middleware" where
  "RequireRole roles = guard (role_admit roles)"

definition GetUserID :: "ctx \<Rightarrow> string" where
  "GetUserID c = (case ctx_get c ''user_id'' of None \<Rightarrow> [] | Some x \<Rightarrow> x)"

definition GetUserEmail :: "ctx \<Rightarrow> string" where
  "GetUserEmail c = (case ctx_get c ''user_email'' of None \<Rightarrow> [] | Some x \<Rightarrow> x)"

lemma jwt_admit_world [simp]: "snd (jwt_admit e s c w) = w"
  by (simp add: jwt_admit_def Let_def split: list.splits sum.splits)

lemma jwt_admit_InlD: "fst (jwt_admit e s c w) = Inl r \<Longrightarrow> rs_status r = 401"
  by (auto simp: jwt_admit_def Let_def split: list.splits sum.splits if_splits)

lemma jwt_admit_InrD:
  assumes "jwt_admit e s c w = (Inr c', w')"
  obtains scheme tok claims where
    "header (cx_req c) ''Authorization'' = scheme @ '' '' @ tok" "equal_fold scheme ''bearer''"
    "ValidateAccessToken s (now_at e (calls w)) tok = Inr claims"
    "c' = ctx_set ''user_role'' (jc_role claims)
            (ctx_set ''user_email'' (jc_email claims) (ctx_set ''user_id'' (jc_sub claims) c))" "w' = w"
proof -
  obtain scheme tok where st: "split_n2 CHR '' '' (header (cx_req c) ''Authorization'') = [scheme, tok]"
    using assms by (auto simp: jwt_admit_def Let_def split: list.splits if_splits)
  have h: "header (cx_req c) ''Authorization'' = scheme @ '' '' @ tok"
    using split_n2_length2 [OF st] by simp
  show ?thesis
    using assms by (auto simp: jwt_admit_def Let_def st split: sum.splits if_splits intro!: that [OF h])
qed

interpretation jwt_guard: admission "jwt_admit e s" "{401}"
proof (unfold_locales, goal_cases)
  case (2 c w c')
  then obtain w1 where "jwt_admit e s c w = (Inr c', w1)" by (metis prod.collapse)
  then show ?case by (auto elim: jwt_admit_InrD)
next
  case (3 c w r)
  then show ?case using jwt_admit_InlD by blast
qed simp

interpretation role_guard: admission "role_admit roles" "{403}"
  by unfold_locales (auto simp: role_admit_def split: option.splits if_splits)

lemma bearer_fold: "equal_fold ''Bearer'' ''bearer''"
  by code_simp

section \<open>Properties\<close>

text \<open>
  C23: no handler behind the authentication middleware runs without a token.  Either the request is
  answered with 401 and the world is as it was, or its header carries, after a bearer scheme, a token
  that the service's key authenticates as an access token of this issuer within its time, and
  the handler sees the user, e-mail and role of that token's claims.
\<close>

theorem JWTAuthMiddleware_safe:
  assumes "service_laws s" "JWTAuthMiddleware e s next c w = Some (r, w')"
  shows "(rs_status r = 401 \<and> w' = w) \<or>
    (\<exists>scheme tok claims c'.
       header (cx_req c) ''Authorization'' = scheme @ '' '' @ tok \<and> equal_fold scheme ''bearer'' \<and>
       jl_authentic (js_lib s) ''ES256'' (js_public s) tok claims \<and>
       claims_valid (now_at e (calls w)) (access_options s) claims \<and>
       GetUserID c' = jc_sub claims \<and> GetUserEmail c' = jc_email claims \<and>
       ctx_get c' ''user_role'' = Some (jc_role claims) \<and> cx_req c' = cx_req c \<and>
       next c' w = Some (r, w'))"
proof (cases rule: jwt_guard.guard_cases [OF assms(2) [unfolded JWTAuthMiddleware_def]])
  case 1
  then have "w' = w"
    using assms(2) by (auto simp: JWTAuthMiddleware_def guard_def split: prod.splits sum.splits)
      (metis jwt_admit_world snd_conv)
  then show ?thesis using 1 by simp
next
  case (2 c' w1)
  from 2(1) obtain scheme tok claims where *:
    "header (cx_req c) ''Authorization'' = scheme @ '' '' @ tok" "equal_fold scheme ''bearer''"
    "ValidateAccessToken s (now_at e (calls w)) tok = Inr claims"
    "c' = ctx_set ''user_role'' (jc_role claims)
            (ctx_set ''user_email'' (jc_email claims) (ctx_set ''user_id'' (jc_sub claims) c))" "w1 = w"
    by (rule jwt_admit_InrD)
  from *(3) obtain full where full: "claims = full\<lparr>jc_family := []\<rparr>"
      "jl_authentic (js_lib s) ''ES256'' (js_public s) tok full"
      "claims_valid (now_at e (calls w)) (access_options s) full"
    by (auto simp: ValidateAccessToken_def parse_iff [OF assms(1)] split: sum.splits)
  have "GetUserID c' = jc_sub full" "GetUserEmail c' = jc_email full" "ctx_get c' ''user_role'' = Some (jc_role full)"
    by (auto simp: *(4) full(1) GetUserID_def GetUserEmail_def)
  then show ?thesis using *(1,2,5) 2(2,4) full(2,3) by blast
qed

text \<open>
  C24: a token pair works for the user it was issued to.  A request that carries the access
  token reaches the handler with that user's id, e-mail and role until the token expires; the refresh
  token validates for the same user until it expires; and a refresh token is never accepted in
  place of an access token.
\<close>

theorem token_roundtrip:
  assumes "service_laws s" "GenerateTokenPair e s u em role w = (Inr p, w1)"
    and "header (cx_req c) ''Authorization'' = ''Bearer '' @ tp_access p"
    and "now_at e (calls w) \<le> now_at e' (calls v)"
    and "now_at e' (calls v) < numeric_date (now_at e (calls w)) (jw_access_ttl (js_cfg s)) * 1000000"
    and "now < numeric_date (now_at e (calls w)) (jw_refresh_ttl (js_cfg s)) * 1000000"
  shows "JWTAuthMiddleware e' s next c v =
           next (ctx_set ''user_role'' role (ctx_set ''user_email'' em (ctx_set ''user_id'' u c))) v \<and>
         (\<exists>claims. ValidateRefreshToken s now (tp_refresh p) = Inr claims \<and> jc_sub claims = u) \<and>
         \<not> is_ok (ValidateAccessToken s t (tp_refresh p))"
proof (intro conjI)
  from assms(2) obtain jti jti' fam where g:
    "jl_sign (js_lib s) (Suc (calls w)) (js_private s) (access_claims s (now_at e (calls w)) u em role jti) = Inr (tp_access p)"
    "jl_sign (js_lib s) (Suc (Suc (calls w))) (js_private s) (refresh_claims s (now_at e (calls w)) u fam jti') = Inr (tp_refresh p)"
    by (rule GenerateTokenPair_InrE)
  note a = sign_authentic [OF assms(1) g(1)] and b = sign_authentic [OF assms(1) g(2)]
  have v: "claims_valid (now_at e' (calls v)) (access_options s) (access_claims s (now_at e (calls w)) u em role jti)"
    using assms(4,5) numeric_date_le [of "now_at e (calls w)"]
    by (simp add: claims_valid_def access_claims_def access_options_def)
  have "jl_parse (js_lib s) (access_options s) (ecdsa_key s) (now_at e' (calls v)) (tp_access p) =
        Inr (access_claims s (now_at e (calls w)) u em role jti)"
    using a v by (simp add: parse_iff [OF assms(1)])
  moreover have "split_n2 CHR '' '' (''Bearer '' @ tp_access p) = [''Bearer'', tp_access p]"
    using split_n2_hit [of "CHR '' ''" "''Bearer''" "tp_access p"] by simp
  ultimately show "JWTAuthMiddleware e' s next c v =
      next (ctx_set ''user_role'' role (ctx_set ''user_email'' em (ctx_set ''user_id'' u c))) v"
    using assms(3)
    by (simp add: JWTAuthMiddleware_def guard_def jwt_admit_def ValidateAccessToken_def access_claims_def
        bearer_fold Let_def)
  have v2: "claims_valid now (refresh_options s) (refresh_claims s (now_at e (calls w)) u fam jti')"
    using assms(6) by (simp add: claims_valid_def refresh_claims_def refresh_options_def)
  have "jl_parse (js_lib s) (refresh_options s) (ecdsa_key s) now (tp_refresh p) =
        Inr (refresh_claims s (now_at e (calls w)) u fam jti')"
    using b v2 by (simp add: parse_iff [OF assms(1)])
  then show "\<exists>claims. ValidateRefreshToken s now (tp_refresh p) = Inr claims \<and> jc_sub claims = u"
    by (simp add: ValidateRefreshToken_def refresh_claims_def)
  have "jl_parse (js_lib s) (access_options s) (ecdsa_key s) t (tp_refresh p) \<noteq> Inr full" for full
  proof
    assume "jl_parse (js_lib s) (access_options s) (ecdsa_key s) t (tp_refresh p) = Inr full"
    then have f: "jl_authentic (js_lib s) ''ES256'' (js_public s) (tp_refresh p) full"
        "claims_valid t (access_options s) full"
      by (simp_all add: parse_iff [OF assms(1)])
    from authentic_unique [OF assms(1) f(1) b] f(2) show False
      by (simp add: claims_valid_def access_options_def refresh_claims_def)
  qed
  then show "\<not> is_ok (ValidateAccessToken s t (tp_refresh p))"
    by (auto simp: ValidateAccessToken_def split: sum.splits elim: is_okE)
qed

text \<open>The converse fails: validating a refresh token asks for no audience, so an access token passes.\<close>

theorem access_passes_as_refresh:
  "service_laws s \<Longrightarrow> ValidateAccessToken s now t = Inr c \<Longrightarrow> is_ok (ValidateRefreshToken s now t)"
proof -
  assume s: "service_laws s" and v: "ValidateAccessToken s now t = Inr c"
  from v obtain full where "jl_parse (js_lib s) (access_options s) (ecdsa_key s) now t = Inr full"
    by (auto simp: ValidateAccessToken_def split: sum.splits)
  then have "jl_authentic (js_lib s) ''ES256'' (js_public s) t full" "claims_valid now (access_options s) full"
    by (simp_all add: parse_iff [OF s])
  moreover from this(2) have "claims_valid now (refresh_options s) full"
    by (simp add: claims_valid_def access_options_def refresh_options_def)
  ultimately have "jl_parse (js_lib s) (refresh_options s) (ecdsa_key s) now t = Inr full"
    by (simp add: parse_iff [OF s])
  then show ?thesis by (simp add: ValidateRefreshToken_def)
qed

section \<open>A concrete service\<close>

definition demo_access :: jwt_claims where
  "demo_access =
     \<lparr>jc_sub = ''u'', jc_email = ''u@x'', jc_role = ''user'', jc_family = [], jc_exp = Some 900, jc_iat = Some 0,
      jc_nbf = Some 0, jc_iss = ''dfms'', jc_aud = [''dfms-api''], jc_id = ''u''\<rparr>"

definition demo_refresh :: jwt_claims where
  "demo_refresh =
     \<lparr>jc_sub = ''u'', jc_email = [], jc_role = [], jc_family = [], jc_exp = Some 604800, jc_iat = Some 0,
      jc_nbf = None, jc_iss = ''dfms'', jc_aud = [], jc_id = ''uu''\<rparr>"

definition demo_jwt_lib :: jwt_lib where
  "demo_jwt_lib =
     \<lparr>jl_sign = (\<lambda>n priv c. if priv = ''priv'' \<and> c = demo_access then Inr ''A''
                 else if priv = ''priv'' \<and> c = demo_refresh then Inr ''R'' else Inl ''cannot sign''),
      jl_parse = (\<lambda>po kf now t.
        if ''ES256'' \<in> set (po_methods po) \<and> kf ''ES256'' = Inr ''pub'' \<and> t = ''A'' \<and> claims_valid now po demo_access
        then Inr demo_access
        else if ''ES256'' \<in> set (po_methods po) \<and> kf ''ES256'' = Inr ''pub'' \<and> t = ''R'' \<and> claims_valid now po demo_refresh
        then Inr demo_refresh else Inl ''token is invalid''),
      jl_authentic = (\<lambda>alg key t c. alg = ''ES256'' \<and> key = ''pub'' \<and>
        (t = ''A'' \<and> c = demo_access \<or> t = ''R'' \<and> c = demo_refresh))\<rparr>"

definition demo_jwt :: jwt_service where
  "demo_jwt =
     \<lparr>js_lib = demo_jwt_lib, js_private = ''priv'', js_public = ''pub'',
      js_cfg = \<lparr>jw_issuer = ''dfms'', jw_access_ttl = 900000000000, jw_refresh_ttl = 604800000000000\<rparr>\<rparr>"

lemma demo_jwt_laws [simp]: "service_laws demo_jwt"
  by (auto simp: service_laws_def jwt_laws_def demo_jwt_def demo_jwt_lib_def split: if_splits)

definition demo_request :: "string \<Rightarrow> string \<Rightarrow> ctx" where
  "demo_request name val =
     \<lparr>cx_req = \<lparr>rq_method = ''GET'', rq_params = [], rq_query = [], rq_headers = [(name, val)], rq_client_ip = [],
                rq_full_path = [], rq_body = reader_of [], rq_form = []\<rparr>, cx_keys = []\<rparr>"

definition demo_handler :: handler where
  "demo_handler c w = Some (ok_json 200 (JStr (GetUserID c)), w)"

lemma demo_header [simp]: "header (cx_req (demo_request name v)) name = v"
  by (simp add: header_def demo_request_def equal_fold_def)

lemma demo_claims:
  "access_claims demo_jwt 0 ''u'' ''u@x'' ''user'' ''u'' = demo_access"
  "refresh_claims demo_jwt 0 ''u'' [] ''uu'' = demo_refresh"
  by (simp_all add: access_claims_def refresh_claims_def demo_jwt_def numeric_date_def demo_access_def demo_refresh_def)

lemma demo_sign:
  "jl_sign (js_lib demo_jwt) n (js_private demo_jwt) demo_access = Inr ''A''"
  "jl_sign (js_lib demo_jwt) n (js_private demo_jwt) demo_refresh = Inr ''R''"
  by (simp_all add: demo_jwt_def demo_jwt_lib_def) (simp add: demo_access_def demo_refresh_def)

lemma demo_pair:
  "GenerateTokenPair quiet_env demo_jwt ''u'' ''u@x'' ''user'' empty_world =
     (Inr \<lparr>tp_access = ''A'', tp_refresh = ''R'', tp_expires_in = 900, tp_type = ''Bearer''\<rparr>,
      tick (tick (tick empty_world)))"
proof -
  have c: "calls empty_world = 0" by (simp add: empty_world_def)
  have u: "uuid_at quiet_env (Suc 0) = ''u''" "uuid_at quiet_env (Suc (Suc 0)) = ''uu''" "uuid_at quiet_env 0 = []"
    by simp_all
  have t: "go_div (jw_access_ttl (js_cfg demo_jwt)) 1000000000 = 900" by (simp add: demo_jwt_def)
  show ?thesis
    unfolding GenerateTokenPair_def Let_def tick_simps c u
    by (simp add: demo_claims demo_sign t)
qed

theorem token_roundtrip_witness:
  "rs_status (fst (the (JWTAuthMiddleware quiet_env demo_jwt demo_handler
     (demo_request ''Authorization'' ''Bearer A'') empty_world))) = 200"
  using token_roundtrip [OF demo_jwt_laws demo_pair, of "demo_request ''Authorization'' ''Bearer A''" quiet_env
      empty_world 0 demo_handler]
  by (simp add: empty_world_def numeric_date_def demo_jwt_def demo_handler_def)

theorem JWTAuthMiddleware_safe_witness:
  "\<exists>r w'. JWTAuthMiddleware quiet_env demo_jwt demo_handler (demo_request ''Authorization'' ''Basic x'') empty_world
           = Some (r, w') \<and> w' = empty_world"
proof -
  let ?r = "fail_json (demo_request ''Authorization'' ''Basic x'')
      (NewUnauthorized CodeAuthTokenInvalid ''Authorization header must use Bearer scheme'')"
  have f: "\<not> equal_fold ''Basic'' ''bearer''" "split_n2 CHR '' '' ''Basic x'' = [''Basic'', ''x'']" by code_simp+
  have r: "JWTAuthMiddleware quiet_env demo_jwt demo_handler (demo_request ''Authorization'' ''Basic x'') empty_world =
      Some (?r, empty_world)"
    by (simp add: JWTAuthMiddleware_def guard_def jwt_admit_def Let_def f)
  show ?thesis
    using JWTAuthMiddleware_safe [OF demo_jwt_laws r] r f by (auto simp: demo_handler_def)
qed

end
