(* ===== verification/RateLimit.thy ===== *)
theory RateLimit
  imports Auth Cache
begin

text \<open>
  The sliding-window rate limiter: \<^verbatim>\<open>internal/ratelimit/limiter.go\<close>, its Lua script included.  The
  script runs in Redis as one step; a window holds the admitted requests of a key as a sorted set
  from members to time stamps.
\<close>

section \<open>The script\<close>

text \<open>
  Lua turns a number into text with \<^verbatim>\<open>%.14g\<close>: an integer of up to 14 digits in full, a longer one
  rounded to 14 significant digits with an exponent.  The script builds the member of a request from
  such a text, so time stamps in microseconds (16 digits) keep their first 14.
\<close>

definition strip_zeros :: "string \<Rightarrow> string" where
  "strip_zeros s = rev (dropWhile (\<lambda>c. c = CHR ''0'') (rev s))"

definition lua_number :: "int \<Rightarrow> string" where
  "lua_number n =
     (let a = \<bar>n\<bar>; k = length (nat_digits (nat a)) in
      (if n < 0 then ''-'' else []) @
      (if k \<le> 14 then nat_digits (nat a)
       else
         (let q0 = div_half_even a (10 ^ (k - 14));
              q = (if q0 = 10 ^ 14 then 10 ^ 13 else q0);
              ex = (if q0 = 10 ^ 14 then k else k - 1);
              ds = nat_digits (nat q); frac = strip_zeros (tl ds)
          in hd ds # (if frac = [] then [] else ''.'' @ frac) @ ''e+'' @ pad_int 2 ex)))"

text \<open>\<open>lm_random\<close> is what \<^verbatim>\<open>math.random(1000000)\<close> gives in the \<open>n\<close>-th call.\<close>

record limiter =
  lm_random :: "nat \<Rightarrow> int"

definition member_of :: "limiter \<Rightarrow> nat \<Rightarrow> int \<Rightarrow> string" where
  "member_of l n now = lua_number now @ ''-'' @ itoa (lm_random l n)"

definition window_of :: "rval option \<Rightarrow> (string \<times> int) list option" where
  "window_of x = (case x of None \<Rightarrow> Some [] | Some (RZset zs) \<Rightarrow> Some zs | Some _ \<Rightarrow> None)"

text \<open>
  \<^verbatim>\<open>ZREMRANGEBYSCORE key -inf window_start\<close>, \<^verbatim>\<open>ZCARD\<close>, and for an admitted request \<^verbatim>\<open>ZADD\<close> and
  \<^verbatim>\<open>EXPIRE\<close>.  \<^verbatim>\<open>EXPIRE\<close> takes seconds and is given the microseconds of the window.  A sorted set that
  becomes empty is removed.
\<close>

definition sliding_window :: "env \<Rightarrow> string \<Rightarrow> string \<Rightarrow> int \<Rightarrow> int \<Rightarrow> int \<Rightarrow> world \<Rightarrow> int result \<times> world" where
  "sliding_window e mem key window limit now v =
     (let server_now = now_at e (calls v) in
      case window_of (live server_now (redis v) key) of
        None \<Rightarrow> (Inl ''WRONGTYPE'', v)
      | Some zs \<Rightarrow>
          (let kept = filter (\<lambda>(_, score). now - window < score) zs in
           if int (length kept) < limit
           then (Inr 1, v\<lparr>redis := (redis v)(key \<mapsto>
                   (RZset (AList.update mem now kept), Some (server_now + window * 1000000)))\<rparr>)
           else (Inr 0, v\<lparr>redis := (redis v)(key :=
                   (if kept = [] then None else Some (RZset kept, snd (the (redis v key)))))\<rparr>)))"

section \<open>The limiter\<close>

text \<open>\<^verbatim>\<open>Allow\<close>: an error of the store lets the request pass.  The window is in microseconds.\<close>

definition Allow :: "env \<Rightarrow> limiter \<Rightarrow> string \<Rightarrow> int \<Rightarrow> int \<Rightarrow> world \<Rightarrow> bool \<times> world" where
  "Allow e l key limit window w =
     (let now = now_at e (calls w) in
      case ext e (sliding_window e (member_of l (calls w) now) key window limit now) w of
        (Inl _, w1) \<Rightarrow> (True, w1)
      | (Inr result, w1) \<Rightarrow> (result = 1, w1))"

abbreviation "minute \<equiv> (60000000::int)"

definition rate_admit :: "env \<Rightarrow> limiter \<Rightarrow> (ctx \<Rightarrow> string) \<Rightarrow> string \<Rightarrow> int \<Rightarrow> admission" where
  "rate_admit e l key_of msg rpm c w =
     (case Allow e l (key_of c) rpm minute w of
        (True, w1) \<Rightarrow> (Inr c, w1)
      | (False, w1) \<Rightarrow> (Inl (fail_json c (NewRateLimited msg)), w1))"

definition global_admit :: "env \<Rightarrow> limiter \<Rightarrow> int \<Rightarrow> admission" where
  "global_admit e l rpm =
     rate_admit e l (\<lambda>_. ''rl:global'') ''Global rate limit exceeded. Please try again later.'' rpm"

definition GlobalRateLimitMiddleware :: "env \<Rightarrow> limiter \<Rightarrow> int \<Rightarrow> middleware" where
  "GlobalRateLimitMiddleware e l rpm = guard (global_admit e l rpm)"

definition user_admit :: "env \<Rightarrow> limiter \<Rightarrow> int \<Rightarrow> admission" where
  "user_admit e l rpm c w =
     (case ctx_get c ''user_id'' of
        None \<Rightarrow> (Inr c, w)
      | Some userID \<Rightarrow>
          rate_admit e l (\<lambda>_. ''rl:user:'' @ userID) ''Per-user rate limit exceeded. Please slow down.'' rpm c w)"

definition UserRateLimitMiddleware :: "env \<Rightarrow> limiter \<Rightarrow> int \<Rightarrow> middleware" where
  "UserRateLimitMiddleware e l rpm = guard (user_admit e l rpm)"

definition endpoint_key :: "ctx \<Rightarrow> string" where
  "endpoint_key c =
     ''rl:ep:'' @ rq_full_path (cx_req c) @ '':'' @
     (case ctx_get c ''user_id'' of None \<Rightarrow> rq_client_ip (cx_req c) | Some userID \<Rightarrow> userID)"

definition endpoint_admit :: "env \<Rightarrow> limiter \<Rightarrow> int \<Rightarrow> admission" where
  "endpoint_admit e l rpm =
     rate_admit e l endpoint_key ''Endpoint rate limit exceeded. Please try again later.'' rpm"

definition EndpointRateLimitMiddleware :: "env \<Rightarrow> limiter \<Rightarrow> int \<Rightarrow> middleware" where
  "EndpointRateLimitMiddleware e l rpm = guard (endpoint_admit e l rpm)"

lemma sliding_window_durable [simp]: "durable (snd (sliding_window e m k win limit now v)) = durable v"
  by (simp add: sliding_window_def Let_def split: option.splits)

lemma Allow_durable [simp]: "durable (snd (Allow e l k limit win w)) = durable w"
proof -
  have "durable (snd (ext e (sliding_window e m k win limit now) w)) = durable w" for m now
    by (rule ext_durable) simp
  then show ?thesis
    unfolding Allow_def Let_def
    by (auto split: prod.splits sum.splits) (metis snd_conv)+
qed

lemma rate_admit_durable: "durable (snd (rate_admit e l kf msg rpm c w)) = durable w"
  using Allow_durable [of e l "kf c" rpm minute w]
  by (cases "Allow e l (kf c) rpm minute w") (simp add: rate_admit_def split: bool.splits)

lemma rate_admit_cases:
  "fst (rate_admit e l kf msg rpm c w) = Inr c' \<Longrightarrow> c' = c"
  "fst (rate_admit e l kf msg rpm c w) = Inl r \<Longrightarrow> rs_status r = 429"
  by (auto simp: rate_admit_def split: prod.splits bool.splits)

interpretation global_guard: admission "global_admit e l rpm" "{429}"
  unfolding global_admit_def by unfold_locales (auto simp: rate_admit_durable dest: rate_admit_cases)

interpretation user_guard: admission "user_admit e l rpm" "{429}"
  by unfold_locales (auto simp: user_admit_def rate_admit_durable split: option.splits dest: rate_admit_cases)

interpretation endpoint_guard: admission "endpoint_admit e l rpm" "{429}"
  unfolding endpoint_admit_def by unfold_locales (auto simp: rate_admit_durable dest: rate_admit_cases)

section \<open>Runs\<close>

text \<open>
  The history of a key: the requests that asked for it, with their time stamps and answers, between
  whatever else happens that leaves the key alone.
\<close>

inductive rl_run :: "env \<Rightarrow> limiter \<Rightarrow> string \<Rightarrow> int \<Rightarrow> int \<Rightarrow> (int \<times> bool) list \<Rightarrow> world \<Rightarrow> bool"
  for e l key limit window where
  rl_start: "redis w key = None \<Longrightarrow> rl_run e l key limit window [] w"
| rl_other: "\<lbrakk>rl_run e l key limit window h w; redis w' key = redis w key; calls w \<le> calls w'\<rbrakk> \<Longrightarrow>
    rl_run e l key limit window h w'"
| rl_request: "\<lbrakk>rl_run e l key limit window h w; Allow e l key limit window w = (ok, w')\<rbrakk> \<Longrightarrow>
    rl_run e l key limit window (h @ [(now_at e (calls w), ok)]) w'"

definition admitted :: "(int \<times> bool) list \<Rightarrow> int \<Rightarrow> int \<Rightarrow> nat" where
  "admitted h a b = length (filter (\<lambda>(t, ok). ok \<and> a < t \<and> t \<le> b) h)"

text \<open>No two requests made so far share a member of the sorted set.\<close>

definition distinct_members :: "env \<Rightarrow> limiter \<Rightarrow> nat \<Rightarrow> bool" where
  "distinct_members e l n \<longleftrightarrow>
     (\<forall>i < n. \<forall>j < n. i \<noteq> j \<longrightarrow> member_of l i (now_at e i) \<noteq> member_of l j (now_at e j))"

text \<open>Time does not run backwards, and no call takes 999999 windows.\<close>

definition clock :: "env \<Rightarrow> int \<Rightarrow> bool" where
  "clock e window \<longleftrightarrow>
     (\<forall>m n. m \<le> n \<longrightarrow> now_at e m \<le> now_at e n) \<and> (\<forall>n. now_at e (Suc n) \<le> now_at e n + 999999 * window)"

definition fresh :: "(int \<times> bool) list \<Rightarrow> int \<Rightarrow> nat" where
  "fresh h a = length (filter (\<lambda>(t, ok). ok \<and> a < t) h)"

abbreviation "younger x zs \<equiv> filter (\<lambda>(_, s). (x::int) < s) zs"

text \<open>
  What the window knows: its members come from earlier requests, and every admitted request younger
  than a window is in it, unexpired.
\<close>

definition covers :: "env \<Rightarrow> limiter \<Rightarrow> int \<Rightarrow> (int \<times> bool) list \<Rightarrow> nat \<Rightarrow> (string \<times> int) list \<Rightarrow> bool" where
  "covers e l window h n zs \<longleftrightarrow>
     fst ` set zs \<subseteq> (\<lambda>i. member_of l i (now_at e i)) ` {..< n} \<and>
     (\<forall>x \<ge> now_at e n - window. fresh h x \<le> length (younger x zs))"

definition window_inv ::
  "env \<Rightarrow> limiter \<Rightarrow> string \<Rightarrow> int \<Rightarrow> (int \<times> bool) list \<Rightarrow> world \<Rightarrow> bool" where
  "window_inv e l key window h w \<longleftrightarrow>
     (\<forall>t ok. (t, ok) \<in> set h \<longrightarrow> t \<le> now_at e (calls w)) \<and>
     (case redis w key of
        None \<Rightarrow> covers e l window h (calls w) []
      | Some (RZset zs, Some ex) \<Rightarrow>
          covers e l window h (calls w) zs \<and> (\<forall>t. (t, True) \<in> set h \<longrightarrow> t + window * 1000000 \<le> ex)
      | _ \<Rightarrow> False)"

lemma clockD:
  assumes "clock e window"
  shows "m \<le> n \<Longrightarrow> now_at e m \<le> now_at e n" "now_at e (Suc n) \<le> now_at e n + 999999 * window"
  using assms by (auto simp: clock_def)

lemma covers_mono:
  assumes "covers e l window h n zs" "n \<le> m" "clock e window"
  shows "covers e l window h m zs"
proof -
  have "now_at e n - window \<le> now_at e m - window" using clockD(1) [OF assms(3,2)] by simp
  moreover have "(\<lambda>i. member_of l i (now_at e i)) ` {..< n} \<subseteq> (\<lambda>i. member_of l i (now_at e i)) ` {..< m}"
    using assms(2) by (intro image_mono) simp
  ultimately show ?thesis using assms(1) unfolding covers_def by (meson order_trans)
qed

lemma fresh_zero: "(\<And>t. (t, True) \<in> set h \<Longrightarrow> t \<le> x) \<Longrightarrow> fresh h x = 0"
  by (fastforce simp: fresh_def filter_empty_conv)

lemma fresh_snoc [simp]: "fresh (h @ [(t, ok)]) x = fresh h x + (if ok \<and> x < t then 1 else 0)"
  by (simp add: fresh_def)

lemma admitted_snoc [simp]:
  "admitted (h @ [(t, ok)]) a b = admitted h a b + (if ok \<and> a < t \<and> t \<le> b then 1 else 0)"
  by (simp add: admitted_def)

lemma admitted_le_fresh: "admitted h a b \<le> fresh h a"
  unfolding admitted_def fresh_def by (rule length_filter_mono) auto

lemma update_new: "k \<notin> fst ` set zs \<Longrightarrow> AList.update k v zs = zs @ [(k, v)]"
  by (induction zs) auto

text \<open>The set the script works on covers the history, expired or not.\<close>

lemma window_at_request:
  assumes "window_inv e l key window h w" "clock e window"
  obtains zs where "window_of (live (now_at e (Suc (calls w))) (redis w) key) = Some zs"
    "covers e l window h (calls w) zs"
proof (cases "redis w key")
  case None
  then show ?thesis using assms that [of "[]"] by (simp add: window_inv_def live_def window_of_def)
next
  case (Some v)
  with assms obtain zs ex where v: "v = (RZset zs, Some ex)" "covers e l window h (calls w) zs"
      "\<And>t. (t, True) \<in> set h \<Longrightarrow> t + window * 1000000 \<le> ex"
    by (auto simp: window_inv_def split: prod.splits rval.splits option.splits)
  show ?thesis
  proof (cases "now_at e (Suc (calls w)) < ex")
    case True
    then show ?thesis using that [of zs] v Some by (simp add: live_def window_of_def)
  next
    case False
    have "t \<le> now_at e (calls w) - window" if "(t, True) \<in> set h" for t
      using v(3) [OF that] False clockD(2) [OF assms(2), of "calls w"] by simp
    then have "fresh h x = 0" if "now_at e (calls w) - window \<le> x" for x
      using that by (intro fresh_zero) force
    then have "covers e l window h (calls w) []" by (simp add: covers_def)
    then show ?thesis using that [of "[]"] v False Some by (simp add: live_def window_of_def)
  qed
qed

lemma younger_younger: "a \<le> x \<Longrightarrow> younger x (younger a zs) = younger x zs"
  by (simp add: conj_ac) (rule filter_cong, auto)

lemma Allow_fault_free:
  assumes "fault_free e" "Allow e l key limit window w = (ok, w')"
    and "window_of (live (now_at e (Suc (calls w))) (redis w) key) = Some zs"
  defines "now \<equiv> now_at e (calls w)"
  defines "kept \<equiv> younger (now - window) zs"
  shows "calls w' = Suc (calls w)" "ok \<longleftrightarrow> int (length kept) < limit"
    "ok \<Longrightarrow> redis w' key = Some (RZset (AList.update (member_of l (calls w) now) now kept),
                                 Some (now_at e (Suc (calls w)) + window * 1000000))"
    "\<not> ok \<Longrightarrow> redis w' key = (if kept = [] then None else Some (RZset kept, snd (the (redis w key))))"
  using assms(1-3)
  by (auto simp: Allow_def sliding_window_def ext_fault_free Let_def now_def kept_def split: if_splits)

lemma window_inv_request:
  assumes "fault_free e" "clock e window" "0 \<le> window" "distinct_members e l (Suc (calls w))"
    and "window_inv e l key window h w" "Allow e l key limit window w = (ok, w')"
  shows "window_inv e l key window (h @ [(now_at e (calls w), ok)]) w'"
    and "ok \<Longrightarrow> now_at e (calls w) - window \<le> a \<Longrightarrow> int (fresh h a) < limit"
proof -
  let ?n = "calls w" and ?now = "now_at e (calls w)"
  obtain zs where zs: "window_of (live (now_at e (Suc ?n)) (redis w) key) = Some zs" "covers e l window h ?n zs"
    using window_at_request [OF assms(5,2)] .
  note al = Allow_fault_free [OF assms(1,6) zs(1)]
  let ?kept = "younger (?now - window) zs"
  have times: "\<And>t ok. (t, ok) \<in> set h \<Longrightarrow> t \<le> ?now" using assms(5) by (auto simp: window_inv_def)
  have step: "?now \<le> now_at e (Suc ?n)" using clockD(1) [OF assms(2), of ?n "Suc ?n"] by simp
  have mems: "fst ` set ?kept \<subseteq> (\<lambda>i. member_of l i (now_at e i)) ` {..< ?n}"
    using zs(2) image_mono [of "set ?kept" "set zs" fst] unfolding covers_def by (metis filter_is_subset order_trans)
  have len: "fresh h x \<le> length (younger x ?kept)" if "?now - window \<le> x" for x
    using zs(2) that unfolding covers_def younger_younger [OF that] by blast
  show "int (fresh h a) < limit" if "ok" "?now - window \<le> a"
    using len [OF that(2)] al(2) that(1) length_filter_le [of "\<lambda>(_, s). a < s" ?kept] by linarith
  show "window_inv e l key window (h @ [(?now, ok)]) w'"
  proof (cases ok)
    case True
    let ?mem = "member_of l ?n ?now"
    have "?mem \<notin> fst ` set ?kept"
    proof
      assume "?mem \<in> fst ` set ?kept"
      with mems obtain i where "i < ?n" "?mem = member_of l i (now_at e i)" by blast
      then show False using assms(4) [unfolded distinct_members_def, rule_format, of i ?n] by simp
    qed
    then have upd: "AList.update ?mem ?now ?kept = ?kept @ [(?mem, ?now)]" by (rule update_new)
    have "covers e l window (h @ [(?now, ok)]) (Suc ?n) (?kept @ [(?mem, ?now)])"
      unfolding covers_def
    proof (intro conjI allI impI)
      show "fst ` set (?kept @ [(?mem, ?now)]) \<subseteq> (\<lambda>i. member_of l i (now_at e i)) ` {..< Suc ?n}"
        using mems by (auto simp: lessThan_Suc)
      show "fresh (h @ [(?now, ok)]) x \<le> length (younger x (?kept @ [(?mem, ?now)]))"
        if "now_at e (Suc ?n) - window \<le> x" for x
        using len [of x] that step by simp
    qed
    moreover have "t + window * 1000000 \<le> now_at e (Suc ?n) + window * 1000000"
      if "(t, True) \<in> set (h @ [(?now, ok)])" for t
      using times [of t True] that step by auto
    moreover have "t \<le> now_at e (Suc ?n)" if "(t, b) \<in> set (h @ [(?now, ok)])" for t b
      using times [of t b] that step by auto
    ultimately show ?thesis
      using al(1) al(3) [OF True] by (simp add: window_inv_def upd)
  next
    case False
    have cov: "covers e l window (h @ [(?now, ok)]) (Suc ?n) ?kept"
      unfolding covers_def
    proof (intro conjI allI impI)
      show "fst ` set ?kept \<subseteq> (\<lambda>i. member_of l i (now_at e i)) ` {..< Suc ?n}"
        using mems image_mono [of "{..< ?n}" "{..< Suc ?n}"] by (meson lessThan_subset_iff le_SucI order_refl order_trans)
      show "fresh (h @ [(?now, ok)]) x \<le> length (younger x ?kept)" if "now_at e (Suc ?n) - window \<le> x" for x
        using len [of x] that step False by simp
    qed
    have ts: "t \<le> now_at e (Suc ?n)" if "(t, b) \<in> set (h @ [(?now, ok)])" for t b
      using times [of t b] that step by auto
    show ?thesis
    proof (cases "?kept = []")
      case True
      then show ?thesis using al(1) al(4) [OF False] cov ts by (simp add: window_inv_def)
    next
      case nonempty: False
      then obtain ex where "redis w key = Some (RZset zs, Some ex)"
          "\<And>t. (t, True) \<in> set h \<Longrightarrow> t + window * 1000000 \<le> ex"
        using assms(5) zs(1)
        by (auto simp: window_inv_def live_def window_of_def split: option.splits prod.splits rval.splits if_splits)
      then show ?thesis
        using al(1) al(4) [OF False] cov ts nonempty False by (auto simp: window_inv_def)
    qed
  qed
qed

lemma rl_run_inv:
  assumes "rl_run e l key limit window h w" "distinct_members e l (calls w)"
    and "fault_free e" "clock e window" "0 \<le> window"
  shows "window_inv e l key window h w \<and> (\<forall>a. admitted h a (a + window) \<le> nat limit)"
  using assms(1,2)
proof (induction rule: rl_run.induct)
  case (rl_start w)
  then show ?case by (simp add: window_inv_def covers_def fresh_def admitted_def)
next
  case (rl_other h w w')
  have "distinct_members e l (calls w)"
    using rl_other.prems rl_other.hyps(3) by (auto simp: distinct_members_def)
  with rl_other.IH have IH: "window_inv e l key window h w" "\<forall>a. admitted h a (a + window) \<le> nat limit" by auto
  have "now_at e (calls w) \<le> now_at e (calls w')" using clockD(1) [OF assms(4) rl_other.hyps(3)] .
  then have "window_inv e l key window h w'"
    using IH(1) covers_mono [OF _ rl_other.hyps(3) assms(4)]
    by (auto simp: window_inv_def rl_other.hyps(2) split: option.splits prod.splits rval.splits intro: order_trans)
  with IH(2) show ?case by blast
next
  case (rl_request h w ok w')
  obtain zs where "window_of (live (now_at e (Suc (calls w))) (redis w) key) = Some zs" if "window_inv e l key window h w"
    using window_at_request [OF _ assms(4), of l key h w] by blast
  have calls: "calls w' = Suc (calls w)"
    using rl_request.hyps(2)
    by (auto simp: Allow_def sliding_window_def ext_fault_free [OF assms(3)] Let_def split: option.splits if_splits)
  then have d: "distinct_members e l (Suc (calls w))" "distinct_members e l (calls w)"
    using rl_request.prems by (auto simp: distinct_members_def)
  with rl_request.IH have IH: "window_inv e l key window h w" "\<forall>a. admitted h a (a + window) \<le> nat limit" by auto
  note req = window_inv_request [OF assms(3,4,5) d(1) IH(1) rl_request.hyps(2)]
  have "admitted (h @ [(now_at e (calls w), ok)]) a (a + window) \<le> nat limit" for a
  proof (cases "ok \<and> a < now_at e (calls w) \<and> now_at e (calls w) \<le> a + window")
    case True
    then have "int (fresh h a) < limit" by (intro req(2)) auto
    then show ?thesis using True admitted_le_fresh [of h a "a + window"] by simp
  next
    case False
    then have "admitted (h @ [(now_at e (calls w), ok)]) a (a + window) = admitted h a (a + window)"
      unfolding admitted_snoc by (simp only: if_False add_0_right)
    then show ?thesis using IH(2) by simp
  qed
  with req(1) show ?case by blast
qed


definition demo_limiter :: limiter where
  "demo_limiter = \<lparr>lm_random = (\<lambda>_. 7)\<rparr>"


section \<open>Members that collide\<close>

text \<open>
  The hypothesis on members is not idle.  Time stamps in microseconds have 16 digits, the text of a
  number in Lua keeps 14, and Redis seeds \<^verbatim>\<open>math.random\<close> alike for every run of a script: requests
  within a tenth of a millisecond share one member, and count as one.
\<close>

definition burst_env :: env where
  "burst_env = quiet_env\<lparr>now_at := (\<lambda>n. 1700000000000000 + int n)\<rparr>"

lemma digit_chars:
  "digit_char 0 = CHR ''0''" "digit_char 1 = CHR ''1''" "digit_char (Suc 0) = CHR ''1''" "digit_char 5 = CHR ''5''"
  "digit_char 7 = CHR ''7''"
  by code_simp+

lemma length_nat_digits: "10 ^ k \<le> n \<Longrightarrow> n < 10 ^ Suc k \<Longrightarrow> length (nat_digits n) = Suc k"
proof (induction k arbitrary: n)
  case 0
  then show ?case by (subst nat_digits.simps) simp
next
  case (Suc k)
  then have "10 ^ k \<le> n div 10" "n div 10 < 10 ^ Suc k" by auto
  moreover have "10 \<le> n" using Suc.prems(1) one_le_power [of "10::nat" k] by (simp only: power_Suc) linarith
  ultimately show ?case using Suc.IH [of "n div 10"] by (subst nat_digits.simps) simp
qed

lemma digits_17: "nat_digits 17000000000000 = ''17000000000000''"
  by (simp add: nat_digits.simps digit_chars)

lemma lua_17: "div_half_even n 100 = 17000000000000 \<Longrightarrow> 10 ^ 15 \<le> n \<Longrightarrow> n < 10 ^ 16 \<Longrightarrow> lua_number n = ''1.7e+15''"
  using length_nat_digits [of 15 "nat n"]
  by (simp add: lua_number_def digits_17 strip_zeros_def Let_def pad_int_def nat_digits.simps [of 15]
      nat_digits.simps [of "Suc 0"] digit_chars)

lemma lua_burst:
  "lua_number 1700000000000000 = ''1.7e+15''"
  "lua_number 1700000000000001 = ''1.7e+15''"
  "lua_number 1700000000000002 = ''1.7e+15''"
  by (rule lua_17; simp add: div_half_even_def Let_def)+

theorem members_collide:
  "member_of demo_limiter 0 (now_at burst_env 0) = member_of demo_limiter 1 (now_at burst_env 1)"
  by (simp add: member_of_def burst_env_def demo_limiter_def lua_burst)

theorem burst_passes:
  "\<exists>w1 w2 w3. Allow burst_env demo_limiter ''k'' 2 minute empty_world = (True, w1) \<and>
     Allow burst_env demo_limiter ''k'' 2 minute w1 = (True, w2) \<and>
     Allow burst_env demo_limiter ''k'' 2 minute w2 = (True, w3)"
  by (simp add: Allow_def sliding_window_def ext_def burst_env_def quiet_env_def empty_world_def live_def
      window_of_def member_of_def demo_limiter_def lua_burst Let_def eval_nat_numeral)

end
