(* ===== verification/Multipart.thy ===== *)
theory Multipart
  imports Durability
begin

text \<open>
  Multipart uploads: \<^verbatim>\<open>internal/metadata/multipart.go\<close>.  A session is a Redis document, its parts are
  objects of the bucket for temporary uploads, listed by number in a Redis hash; completing the
  session sends the parts, in the order of their numbers, through the upload of the file service.
\<close>

section \<open>Operations\<close>

record multipart_service =
  mp_temp :: minio_store
  mp_files :: file_service

abbreviation "multipartPrefix \<equiv> ''multipart:''"
abbreviation "multipartPartsKey \<equiv> ''parts:''"
abbreviation "multipartSessionTTL \<equiv> (86400000000::int)"
abbreviation "maxPartNumber \<equiv> (10000::int)"

definition session_key :: "string \<Rightarrow> string" where
  "session_key uploadID = multipartPrefix @ uploadID"

definition parts_key :: "string \<Rightarrow> string" where
  "parts_key uploadID = multipartPrefix @ multipartPartsKey @ uploadID"

definition part_key :: "string \<Rightarrow> int \<Rightarrow> string" where
  "part_key uploadID partNum = uploadID @ ''/part_'' @ pad_int 5 (nat partNum)"

definition InitUpload :: "env \<Rightarrow> string \<Rightarrow> string \<Rightarrow> string \<Rightarrow> world \<Rightarrow> string result \<times> world" where
  "InitUpload e userID fileName mimeType w =
     (let uploadID = uuid_at e (calls w);
          session = \<lparr>ms_upload_id = uploadID, ms_user = userID, ms_file_name = fileName, ms_mime = mimeType,
                     ms_created = now_at e (calls w)\<rparr>
      in
      case cache_Set e (session_key uploadID) (JSession session) multipartSessionTTL w of
        (Inl err, w1) \<Rightarrow> (Inl (wrapf ''save session'' err), w1)
      | (Inr _, w1) \<Rightarrow> (Inr uploadID, w1))"

text \<open>
  \<^verbatim>\<open>json.Unmarshal\<close> of the documents Redis can hold into a session and into a part: fields of the
  same name are filled, a field of another type is an error (\<^verbatim>\<open>created_at\<close> of a file is text).
\<close>

definition decode_session :: "jdoc \<Rightarrow> multipart_session result" where
  "decode_session d =
     (case d of
        JSession s \<Rightarrow> Inr s
      | JPart _ \<Rightarrow> Inr \<lparr>ms_upload_id = [], ms_user = [], ms_file_name = [], ms_mime = [], ms_created = 0\<rparr>
      | _ \<Rightarrow> Inl ''json: cannot unmarshal'')"

definition decode_part :: "jdoc \<Rightarrow> part_info option" where
  "decode_part d =
     (case d of
        JPart p \<Rightarrow> Some p
      | JSession _ \<Rightarrow> Some \<lparr>p_num = 0, p_size = 0, p_key = []\<rparr>
      | JFile f \<Rightarrow> Some \<lparr>p_num = 0, p_size = f_size f, p_key = []\<rparr>
      | _ \<Rightarrow> None)"

text \<open>Any error of Redis counts as a session that is not there.\<close>

definition getSession :: "env \<Rightarrow> string \<Rightarrow> world \<Rightarrow> multipart_session option result \<times> world" where
  "getSession e uploadID w =
     (case cache_Get e (session_key uploadID) w of
        (Inl _, w1) \<Rightarrow> (Inr None, w1)
      | (Inr d, w1) \<Rightarrow>
          (case decode_session d of
             Inl err \<Rightarrow> (Inl (wrapf ''unmarshal session'' err), w1)
           | Inr s \<Rightarrow> (Inr (Some s), w1)))"

definition UploadPart ::
  "env \<Rightarrow> multipart_service \<Rightarrow> string \<Rightarrow> int \<Rightarrow> reader \<Rightarrow> world \<Rightarrow> part_info result \<times> world" where
  "UploadPart e m uploadID partNum rd w =
     (case getSession e uploadID w of
        (Inl err, w1) \<Rightarrow> (Inl err, w1)
      | (Inr None, w1) \<Rightarrow> (Inl (wrapf ''upload session not found or expired'' uploadID), w1)
      | (Inr (Some session), w1) \<Rightarrow>
          if partNum < 1 \<or> maxPartNumber < partNum then
            (Inl (''invalid part number '' @ itoa partNum @ '' (must be 1-'' @ itoa maxPartNumber @ '')''), w1)
          else
            (case read_all rd of
               Inl err \<Rightarrow> (Inl (wrapf ''read part data'' err), w1)
             | Inr data \<Rightarrow>
                 (let objKey = part_key uploadID partNum;
                      info = \<lparr>p_num = partNum, p_size = int (length data), p_key = objKey\<rparr>
                  in
                  case PutChunk e (mp_temp m) objKey data w1 of
                    (Inl err, w2) \<Rightarrow> (Inl (wrapf ''store part'' err), w2)
                  | (Inr _, w2) \<Rightarrow>
                      (case cache_HSet e (parts_key uploadID) (itoa partNum) (JPart info) w2 of
                         (Inl err, w3) \<Rightarrow> (Inl (wrapf ''record part'' err), w3)
                       | (Inr _, w3) \<Rightarrow>
                           (Inr info, snd (cache_Expire e (parts_key uploadID) multipartSessionTTL w3))))))"

text \<open>The parts that decode, by number.\<close>

definition sorted_parts :: "(string \<times> jdoc) list \<Rightarrow> part_info list" where
  "sorted_parts es = sort_key p_num (List.map_filter (\<lambda>(_, d). decode_part d) es)"

fun open_parts :: "env \<Rightarrow> minio_store \<Rightarrow> part_info list \<Rightarrow> world \<Rightarrow> reader list result \<times> world" where
  "open_parts e s [] w = (Inr [], w)"
| "open_parts e s (p # ps) w =
     (case GetChunk e s (p_key p) w of
        (Inl err, w1) \<Rightarrow> (Inl (wrapf (''read part '' @ itoa (p_num p)) err), w1)
      | (Inr (data, _), w1) \<Rightarrow>
          (case open_parts e s ps w1 of
             (Inl err, w2) \<Rightarrow> (Inl err, w2)
           | (Inr rds, w2) \<Rightarrow> (Inr (read_at e (calls w1) data # rds), w2)))"

fun delete_parts :: "env \<Rightarrow> minio_store \<Rightarrow> part_info list \<Rightarrow> world \<Rightarrow> world" where
  "delete_parts e s [] w = w"
| "delete_parts e s (p # ps) w = delete_parts e s ps (snd (DeleteChunk e s (p_key p) w))"

definition cleanup :: "env \<Rightarrow> multipart_service \<Rightarrow> string \<Rightarrow> part_info list \<Rightarrow> world \<Rightarrow> world" where
  "cleanup e m uploadID parts w =
     snd (cache_Delete e [parts_key uploadID]
       (snd (cache_Delete e [session_key uploadID] (delete_parts e (mp_temp m) parts w))))"

text \<open>
  \<^verbatim>\<open>CompleteUpload\<close>; the clean-up, which the code starts as a goroutine after a successful upload,
  is the last thing that happens.
\<close>

definition CompleteUpload ::
  "env \<Rightarrow> multipart_service \<Rightarrow> upload_run \<Rightarrow> string \<Rightarrow> world \<Rightarrow> (file_response result \<times> world) option" where
  "CompleteUpload e m server uploadID w =
     (case getSession e uploadID w of
        (Inl err, w1) \<Rightarrow> Some (Inl err, w1)
      | (Inr None, w1) \<Rightarrow> Some (Inl (wrapf ''upload session not found or expired'' uploadID), w1)
      | (Inr (Some session), w1) \<Rightarrow>
          (case cache_HGetAll e (parts_key uploadID) w1 of
             (Inl err, w2) \<Rightarrow> Some (Inl (wrapf ''get parts'' err), w2)
           | (Inr es, w2) \<Rightarrow>
               if es = [] then Some (Inl (''no parts uploaded for session '' @ uploadID), w2)
               else
                 (let parts = sorted_parts es in
                  case open_parts e (mp_temp m) parts w2 of
                    (Inl err, w3) \<Rightarrow> Some (Inl err, w3)
                  | (Inr rds, w3) \<Rightarrow>
                      (case Upload e (mp_files m) server (ms_user session) (ms_file_name session) (ms_mime session)
                              (multi_reader rds) w3 of
                         None \<Rightarrow> None
                       | Some (Inl err, w4) \<Rightarrow> Some (Inl (wrapf ''process upload'' err), w4)
                       | Some (Inr resp, w4) \<Rightarrow> Some (Inr resp, cleanup e m uploadID parts w4)))))"

definition AbortUpload :: "env \<Rightarrow> multipart_service \<Rightarrow> string \<Rightarrow> string \<Rightarrow> world \<Rightarrow> unit result \<times> world" where
  "AbortUpload e m uploadID userID w =
     (case getSession e uploadID w of
        (Inl err, w1) \<Rightarrow> (Inl err, w1)
      | (Inr None, w1) \<Rightarrow> (Inl (wrapf ''upload session not found'' uploadID), w1)
      | (Inr (Some session), w1) \<Rightarrow>
          if ms_user session \<noteq> userID then (Inl ''upload session not owned by user'', w1)
          else
            (case cache_HGetAll e (parts_key uploadID) w1 of
               (Inl err, w2) \<Rightarrow> (Inl (wrapf ''get parts for cleanup'' err), w2)
             | (Inr es, w2) \<Rightarrow>
                 (Inr (), cleanup e m uploadID (List.map_filter (\<lambda>(_, d). decode_part d) es) w2)))"

section \<open>The parts of a session\<close>

text \<open>
  What a session holds, as a map from part numbers to contents: the hash has one entry per part,
  under its number, and the object of each part is in the temporary bucket.
\<close>

definition part_doc :: "string \<Rightarrow> int \<Rightarrow> byte list \<Rightarrow> jdoc" where
  "part_doc uploadID n d = JPart \<lparr>p_num = n, p_size = int (length d), p_key = part_key uploadID n\<rparr>"

definition hash_of :: "world \<Rightarrow> string \<Rightarrow> (string \<times> jdoc) list" where
  "hash_of w uploadID = (case redis w (parts_key uploadID) of Some (RHash es, _) \<Rightarrow> es | _ \<Rightarrow> [])"

definition parts_are :: "multipart_service \<Rightarrow> string \<Rightarrow> (int \<Rightarrow> byte list option) \<Rightarrow> world \<Rightarrow> bool" where
  "parts_are m uploadID ps w \<longleftrightarrow>
     dom ps \<subseteq> {1..maxPartNumber} \<and>
     (case redis w (parts_key uploadID) of None \<Rightarrow> True | Some (v, _) \<Rightarrow> (\<exists>es. v = RHash es)) \<and>
     distinct (map fst (hash_of w uploadID)) \<and>
     set (hash_of w uploadID) = {(itoa n, part_doc uploadID n d) | n d. ps n = Some d} \<and>
     (\<forall>n d. ps n = Some d \<longrightarrow> stored (mp_temp m) w (part_key uploadID n) = Some d)"

text \<open>The hash has not expired at any time the environment shows.\<close>

definition parts_live :: "env \<Rightarrow> string \<Rightarrow> world \<Rightarrow> bool" where
  "parts_live e uploadID w \<longleftrightarrow>
     (\<forall>v t n. redis w (parts_key uploadID) = Some (v, Some t) \<longrightarrow> now_at e n < t)"

lemma part_key_inj:
  assumes "part_key u m = part_key u n" "m \<in> {1..maxPartNumber}" "n \<in> {1..maxPartNumber}" shows "m = n"
proof -
  have "pad_int 5 (nat m) = pad_int 5 (nat n)" using assms(1) by (simp add: part_key_def)
  then have "nat m = nat n" by (rule pad_int_inj) (use assms(2,3) in auto)
  then show ?thesis using assms(2,3) by auto
qed

lemma itoa_part_inj: "itoa m = itoa n \<Longrightarrow> m \<in> {1..maxPartNumber} \<Longrightarrow> n \<in> {1..maxPartNumber} \<Longrightarrow> m = n"
  by (rule itoa_inj) (auto simp: in_i64_def)

lemma set_update_distinct:
  "distinct (map fst es) \<Longrightarrow> set (AList.update k v es) = insert (k, v) {x \<in> set es. fst x \<noteq> k}"
  by (induction es) (auto simp: rev_image_eqI)

lemma getSession_frame:
  "redis (snd (getSession e u w)) = redis w" "stored s (snd (getSession e u w)) = stored s w"
  "durable (snd (getSession e u w)) = durable w"
proof -
  have *: "redis (snd (cache_Get e k w)) = redis w \<and> durable (snd (cache_Get e k w)) = durable w" for k
    by (cases "outcome_at e (calls w)") (simp_all add: cache_Get_def ext_def Let_def split: option.splits rval.splits)
  have snd: "snd (getSession e u w) = snd (cache_Get e (session_key u) w)"
    by (auto simp: getSession_def split: prod.splits sum.splits)
  show "redis (snd (getSession e u w)) = redis w" "durable (snd (getSession e u w)) = durable w"
    using * snd by simp_all
  from durable_eqD(6) [OF this(2)] show "stored s (snd (getSession e u w)) = stored s w"
    by (simp add: stored_def fun_eq_iff)
qed

lemma parts_are_frame:
  "redis w' = redis w \<Longrightarrow> stored (mp_temp m) w' = stored (mp_temp m) w \<Longrightarrow> parts_are m u ps w' = parts_are m u ps w"
  by (simp add: parts_are_def hash_of_def)

lemma parts_live_frame: "redis w' = redis w \<Longrightarrow> parts_live e u w' = parts_live e u w"
  by (simp add: parts_live_def)

text \<open>Recording a part: the hash gains or replaces the entry of its number.\<close>

lemma cache_HSet_hash:
  assumes "cache_HSet e (parts_key u) f d w = (Inr (), w')" "parts_live e u w"
    and "redis w (parts_key u) = None \<or> (\<exists>es t. redis w (parts_key u) = Some (RHash es, t))"
  shows "(\<exists>t. redis w' (parts_key u) = Some (RHash (AList.update f d (hash_of w u)), t)) \<and> stored s w' = stored s w"
  using assms(3)
proof
  assume none: "redis w (parts_key u) = None"
  then have "live t (redis w) (parts_key u) = None" for t by (simp add: live_def)
  then have "w' = w\<lparr>calls := Suc (calls w), redis := (redis w)(parts_key u \<mapsto> (RHash [(f, d)], None))\<rparr>"
    using assms(1) by (simp add: cache_HSet_def ext_def Let_def split: outcome.splits)
  then show ?thesis using none by (simp add: hash_of_def stored_def fun_eq_iff)
next
  assume "\<exists>es t. redis w (parts_key u) = Some (RHash es, t)"
  then obtain es t where some: "redis w (parts_key u) = Some (RHash es, t)" by blast
  then have "live n (redis w) (parts_key u) = Some (RHash es)" if "\<And>x. t = Some x \<Longrightarrow> n < x" for n
    using that by (simp add: live_def split: option.splits)
  moreover have "now_at e (Suc (calls w)) < x" if "t = Some x" for x
    using assms(2) some that by (simp add: parts_live_def)
  ultimately have "live (now_at e (Suc (calls w))) (redis w) (parts_key u) = Some (RHash es)" by blast
  then have "w' = w\<lparr>calls := Suc (calls w), redis := (redis w)(parts_key u \<mapsto> (RHash (AList.update f d es), t))\<rparr>"
    using assms(1) some by (simp add: cache_HSet_def ext_def Let_def split: outcome.splits)
  then show ?thesis using some by (simp add: hash_of_def stored_def fun_eq_iff)
qed

lemma cache_Expire_hash:
  assumes "redis w (parts_key u) = Some (RHash es, t)"
  shows "\<exists>t'. redis (snd (cache_Expire e (parts_key u) ttl w)) (parts_key u) = Some (RHash es, t')"
    "stored s (snd (cache_Expire e (parts_key u) ttl w)) = stored s w"
proof -
  have l: "live n (redis w) (parts_key u) \<in> {None, Some (RHash es)}" for n
    using assms by (simp add: live_def split: option.splits)
  let ?f = "\<lambda>v. let now = now_at e (calls v) in case live now (redis v) (parts_key u) of
      None \<Rightarrow> (Inr () :: unit result, v) | Some x \<Rightarrow> (Inr (), v\<lparr>redis := (redis v)(parts_key u \<mapsto> (x, Some (now + ttl)))\<rparr>)"
  have f: "\<exists>t'. redis (snd (?f v)) (parts_key u) = Some (RHash es, t')" "stored s (snd (?f v)) = stored s w"
    if "v = w\<lparr>calls := Suc (calls w)\<rparr>" for v
    using l [of "now_at e (Suc (calls w))"] assms that by (auto simp: Let_def stored_def fun_eq_iff)
  show "\<exists>t'. redis (snd (cache_Expire e (parts_key u) ttl w)) (parts_key u) = Some (RHash es, t')"
    using f(1) [OF refl] assms unfolding cache_Expire_def ext_def by (simp only: Let_def [of "w\<lparr>calls := Suc (calls w)\<rparr>"] split: outcome.splits) simp
  show "stored s (snd (cache_Expire e (parts_key u) ttl w)) = stored s w"
    using f(2) [OF refl] unfolding cache_Expire_def ext_def by (simp only: Let_def [of "w\<lparr>calls := Suc (calls w)\<rparr>"] split: outcome.splits) simp
qed

lemma parts_are_update:
  assumes "parts_are m u ps w" "n \<in> {1..maxPartNumber}"
    and "redis w' (parts_key u) = Some (RHash (AList.update (itoa n) (part_doc u n d) (hash_of w u)), t)"
    and "stored (mp_temp m) w' = (stored (mp_temp m) w)(part_key u n \<mapsto> d)"
  shows "parts_are m u (ps(n \<mapsto> d)) w'"
proof -
  have dom: "dom ps \<subseteq> {1..maxPartNumber}" and dist: "distinct (map fst (hash_of w u))"
    and es: "set (hash_of w u) = {(itoa k, part_doc u k c) | k c. ps k = Some c}"
    and objs: "\<And>k c. ps k = Some c \<Longrightarrow> stored (mp_temp m) w (part_key u k) = Some c"
    using assms(1) by (auto simp: parts_are_def)
  have h: "hash_of w' u = AList.update (itoa n) (part_doc u n d) (hash_of w u)"
    using assms(3) by (simp add: hash_of_def)
  have ne: "itoa k = itoa n \<longleftrightarrow> k = n" if "ps k = Some c" for k c
    using itoa_part_inj [of k n] dom assms(2) that by auto
  have "{x \<in> set (hash_of w u). fst x \<noteq> itoa n} = {(itoa k, part_doc u k c) | k c. ps k = Some c \<and> k \<noteq> n}"
    unfolding es using ne by (auto, blast)
  then have "set (hash_of w' u) = {(itoa k, part_doc u k c) | k c. (ps(n \<mapsto> d)) k = Some c}"
    unfolding h set_update_distinct [OF dist] by auto
  moreover have "stored (mp_temp m) w' (part_key u k) = Some c" if "(ps(n \<mapsto> d)) k = Some c" for k c
    using that objs assms(2,4) dom part_key_inj [of u k n] by (auto split: if_splits)
  ultimately show ?thesis
    using dom assms(2,3) by (auto simp: parts_are_def h AList.distinct_update dist)
qed

lemma UploadPart_parts:
  assumes "UploadPart e m u n rd w = (Inr p, w')" "parts_are m u ps w" "parts_live e u w"
  shows "parts_are m u (ps(n \<mapsto> rd_content rd)) w' \<and> rd_err rd = None \<and>
    p = \<lparr>p_num = n, p_size = int (length (rd_content rd)), p_key = part_key u n\<rparr>"
proof -
  obtain x w1 where x: "getSession e u w = (x, w1)" by force
  have w1: "redis w1 = redis w" "stored (mp_temp m) w1 = stored (mp_temp m) w"
    using getSession_frame [where e = e and u = u and w = w] x by auto
  obtain ses where ses: "x = Inr (Some ses)" and n: "n \<in> {1..maxPartNumber}" and rd: "read_all rd = Inr (rd_content rd)"
    using assms(1) x by (auto simp: UploadPart_def read_all_Inr_iff split: sum.splits option.splits if_splits)
  let ?d = "rd_content rd" and ?key = "part_key u n"
  let ?info = "\<lparr>p_num = n, p_size = int (length ?d), p_key = ?key\<rparr>"
  obtain y w2 where y: "PutChunk e (mp_temp m) ?key ?d w1 = (y, w2)" by force
  obtain z w3 where z: "cache_HSet e (parts_key u) (itoa n) (JPart ?info) w2 = (z, w3)" by force
  have ok: "y = Inr ()" "z = Inr ()" "p = ?info" "w' = snd (cache_Expire e (parts_key u) multipartSessionTTL w3)"
    using assms(1) x ses n rd y z by (auto simp: UploadPart_def Let_def split: sum.splits)
  have st2: "stored (mp_temp m) w2 = (stored (mp_temp m) w)(?key \<mapsto> ?d)"
    using minio.put_ok [OF y [unfolded ok(1)]] w1(2) by simp
  have r2: "redis w2 = redis w"
  proof -
    have "redis (snd (PutChunk e (mp_temp m) ?key ?d w1)) = redis w1"
      by (cases "outcome_at e (calls w1)") (simp_all add: PutChunk_def ext_def Let_def)
    then show ?thesis using y w1(1) by simp
  qed
  have kind: "redis w2 (parts_key u) = None \<or> (\<exists>es t. redis w2 (parts_key u) = Some (RHash es, t))"
    using assms(2) unfolding r2 parts_are_def by (auto split: option.splits)
  have hz: "cache_HSet e (parts_key u) (itoa n) (part_doc u n ?d) w2 = (Inr (), w3)"
    using z ok(2) by (simp add: part_doc_def)
  have live2: "parts_live e u w2" using assms(3) parts_live_frame [OF r2] by simp
  have h2: "hash_of w2 u = hash_of w u" by (simp add: hash_of_def r2)
  obtain t where w3: "redis w3 (parts_key u) = Some (RHash (AList.update (itoa n) (part_doc u n ?d) (hash_of w u)), t)"
    "stored (mp_temp m) w3 = stored (mp_temp m) w2"
    using cache_HSet_hash [OF hz live2 kind] unfolding h2 by blast
  obtain t' where w': "redis w' (parts_key u) = Some (RHash (AList.update (itoa n) (part_doc u n ?d) (hash_of w u)), t')"
    "stored (mp_temp m) w' = stored (mp_temp m) w3"
    using cache_Expire_hash [OF w3(1)] ok(4) by blast
  have "stored (mp_temp m) w' = (stored (mp_temp m) w)(?key \<mapsto> ?d)" using w'(2) w3(2) st2 by simp
  from parts_are_update [OF assms(2) n w'(1) this] show ?thesis
    using ok(3) rd by (simp add: read_all_Inr_iff)
qed

section \<open>Completion\<close>

definition part_of :: "string \<Rightarrow> (int \<Rightarrow> byte list option) \<Rightarrow> int \<Rightarrow> part_info" where
  "part_of u ps n = \<lparr>p_num = n, p_size = int (length (the (ps n))), p_key = part_key u n\<rparr>"

lemma sort_key_map: "sort_key k (map f xs) = map f (sort_key (\<lambda>x. k (f x)) xs)"
proof -
  have "insort_key k (f x) (map f xs) = map f (insort_key (\<lambda>x. k (f x)) x xs)" for x xs
    by (induction xs) auto
  then show ?thesis by (induction xs) auto
qed

lemma sorted_parts_are:
  assumes "parts_are m u ps w"
  shows "finite (dom ps)" "sorted_parts (hash_of w u) = map (part_of u ps) (sorted_list_of_set (dom ps))"
proof -
  let ?es = "hash_of w u"
  have dom: "dom ps \<subseteq> {1..maxPartNumber}" and dist: "distinct (map fst ?es)"
    and es: "set ?es = {(itoa k, part_doc u k c) | k c. ps k = Some c}"
    using assms by (auto simp: parts_are_def)
  show fin: "finite (dom ps)" by (rule finite_subset [OF dom]) simp
  define num where "num = (\<lambda>x :: string \<times> jdoc. case snd x of JPart p \<Rightarrow> p_num p | _ \<Rightarrow> 0)"
  have elem: "\<exists>k c. x = (itoa k, part_doc u k c) \<and> ps k = Some c \<and> num x = k \<and> decode_part (snd x) = Some (part_of u ps k)"
    if "x \<in> set ?es" for x
    using that es by (auto simp: num_def part_doc_def decode_part_def part_of_def)
  have filt: "List.map_filter (\<lambda>(_, d). decode_part d) xs = map (part_of u ps) (map num xs)" if "set xs \<subseteq> set ?es" for xs
    using that
  proof (induction xs)
    case (Cons x xs)
    then obtain k where "decode_part (snd x) = Some (part_of u ps k)" "num x = k" using elem [of x] by auto
    then show ?case using Cons by (auto simp: map_filter_simps split: prod.splits)
  qed (simp add: map_filter_simps)
  have nums: "set (map num ?es) = dom ps"
  proof
    show "set (map num ?es) \<subseteq> dom ps" using elem by fastforce
    show "dom ps \<subseteq> set (map num ?es)"
    proof
      fix k assume "k \<in> dom ps"
      then obtain c where c: "ps k = Some c" by blast
      then have "(itoa k, part_doc u k c) \<in> set ?es" using es by blast
      moreover have "num (itoa k, part_doc u k c) = k" by (simp add: num_def part_doc_def)
      ultimately show "k \<in> set (map num ?es)" by force
    qed
  qed
  have inj: "inj_on num (set ?es)"
  proof (rule inj_onI)
    fix x y assume "x \<in> set ?es" "y \<in> set ?es" "num x = num y"
    then show "x = y" using elem [of x] elem [of y] by auto
  qed
  have dnum: "distinct (map num ?es)" using dist inj by (simp add: distinct_map)
  have srt: "sort_key p_num (map (part_of u ps) ns) = map (part_of u ps) (sort ns)" for ns
    by (simp add: sort_key_map comp_def part_of_def)
  have "sorted_parts ?es = map (part_of u ps) (sort (map num ?es))"
    by (simp add: sorted_parts_def filt [OF order_refl] srt del: map_map)
  also have "sort (map num ?es) = sorted_list_of_set (dom ps)"
    using dnum nums fin by (metis sorted_list_of_set_sort_remdups distinct_remdups_id)
  finally show "sorted_parts ?es = map (part_of u ps) (sorted_list_of_set (dom ps))" .
qed

lemma open_parts_ok:
  assumes "sound_reads e"
  shows "open_parts e s ps w = (Inr rds, w') \<Longrightarrow> rd_err (multi_reader rds) = None \<Longrightarrow>
    (\<forall>p \<in> set ps. stored s w (p_key p) \<noteq> None) \<and>
    rd_content (multi_reader rds) = concat (map (\<lambda>p. the (stored s w (p_key p))) ps)"
proof (induction ps arbitrary: w rds w')
  case (Cons p ps)
  obtain x w1 where x: "GetChunk e s (p_key p) w = (x, w1)" by force
  obtain d n where dn: "x = Inr (d, n)" using Cons.prems(1) x by (auto split: sum.splits)
  obtain rds' w2 where rest: "open_parts e s ps w1 = (Inr rds', w2)" "rds = read_at e (calls w1) d # rds'"
    using Cons.prems(1) x dn by (auto split: sum.splits prod.splits)
  have "stored s w (p_key p) = Some d" using minio.get_ok x dn by blast
  moreover have "stored s w1 = stored s w" using minio.get_frame [of s e "p_key p" w] x by simp
  moreover have err: "rd_err (read_at e (calls w1) d) = None" "rd_err (multi_reader rds') = None"
    using Cons.prems(2) rest(2) by (auto simp: Let_def split: option.splits)
  moreover have "rd_content (read_at e (calls w1) d) = d" using assms err(1) by (simp add: sound_reads_def)
  ultimately show ?case
    using Cons.IH [OF rest(1) err(2)] rest(2) by (simp add: Let_def rd_content_def)
qed (simp add: rd_content_def)

lemma send_all_sent: "send_all e ds w = (None, sent, w') \<Longrightarrow> sent = ds"
proof (induction ds arbitrary: w sent w')
  case (Cons d ds)
  obtain x w1 where x: "ext e (\<lambda>v. (Inr () :: unit result, v)) w = (x, w1)" by force
  obtain r2 s2 w2 where y: "send_all e ds w1 = (r2, s2, w2)" by (cases "send_all e ds w1") auto
  show ?case using Cons.prems x y Cons.IH [of w1 s2 w2] by (cases x) (auto simp: Let_def)
qed simp

lemma recv_data_all: "recv_data (map UData ds) = concat ds"
  by (induction ds) auto

text \<open>A successful upload has read its whole input, and answers with its checksum.\<close>

lemma Upload_checksum:
  assumes "Upload e s server u name mime file w = Some (Inr fr, w')"
  shows "fr_checksum fr = SHA256Hash (rd_content file) \<and> fr_name fr = name \<and> rd_err file = None"
proof -
  obtain r n where run: "Upload_run e s server u name mime file w = Some (r, n, w')" "r = Inr fr"
    using assms by (auto simp: Upload_def)
  obtain used quota w1 where w1: "GetStorageUsage e u w = (Inr (used, quota), w1)"
    using run by (auto simp: Upload_run_def split: sum.splits prod.splits)
  let ?meta = "\<lparr>um_file_name = name, um_user = u, um_mime = mime\<rparr>"
  obtain resp w2 where w2: "stream_upload e s server ?meta file w1 = Some (Inr resp, w2)"
    and rec: "record_upload e s u name mime used quota resp w2 = (Inr fr, n, w')"
    using run w1 by (auto simp: Upload_run_def split: option.splits sum.splits prod.splits if_splits)
  have out: "fr_checksum fr = ur_checksum resp \<and> fr_name fr = name"
    using rec by (auto simp: record_upload_def Let_def response_of_def split: sum.splits prod.splits if_splits)
  obtain w3 w4 w5 sent where st: "send_all e (read_frames streamFrameSize file) w3 = (None, sent, w4)" "rd_err file = None"
    and up: "UploadFile e (fs_store s) (fs_pieces s) (server_run server (UMeta ?meta # map UData sent) None) w4 = Some (Inr resp, w5)"
    using w2 by (auto simp: stream_upload_def abort_upload_def split: option.splits sum.splits prod.splits)
  have "sent = read_frames streamFrameSize file" by (rule send_all_sent [OF st(1)])
  then have "ur_checksum resp = SHA256Hash (rd_content file)"
    using up by (auto simp: UploadFile_def server_run_def Let_def recv_data_all split: if_splits option.splits)
  then show ?thesis using out st(2) by simp
qed

lemma cache_HGetAll_parts:
  assumes "cache_HGetAll e (parts_key u) w = (Inr es, w')" "parts_are m u ps w" "parts_live e u w"
  shows "es = hash_of w u" "durable w' = durable w" "redis w' = redis w"
proof -
  have kind: "redis w (parts_key u) = None \<or> (\<exists>es t. redis w (parts_key u) = Some (RHash es, t))"
    using assms(2) unfolding parts_are_def by (auto split: option.splits)
  have "live n (redis w) (parts_key u) = map_option fst (redis w (parts_key u))" if "n = now_at e (Suc (calls w))" for n
    using assms(3) kind that by (auto simp: live_def parts_live_def split: option.splits)
  then show "es = hash_of w u" "durable w' = durable w" "redis w' = redis w"
    using assms(1) kind
    by (auto simp: cache_HGetAll_def hash_of_def dest!: ext_InrD split: option.splits)
qed

section \<open>Properties\<close>

text \<open>
  C8: uploading a part refines the update of a map from part numbers to contents: after a success
  the session holds the new content under that number and all other parts as before, whatever was
  uploaded under it earlier and in whatever order the parts come; the answer names number and size.
\<close>

theorem UploadPart_refines:
  assumes "UploadPart e m u n rd w = (Inr p, w')" "parts_are m u ps w" "parts_live e u w"
  shows "parts_are m u (ps(n \<mapsto> rd_content rd)) w' \<and> n \<in> {1..maxPartNumber} \<and>
    p_num p = n \<and> p_size p = int (length (rd_content rd))"
proof -
  have "parts_are m u (ps(n \<mapsto> rd_content rd)) w'" "p_num p = n" "p_size p = int (length (rd_content rd))"
    using UploadPart_parts [OF assms] by auto
  then show ?thesis by (auto simp: parts_are_def)
qed

text \<open>
  C9: completing a session gives the upload the parts' contents in the order of their numbers: a
  success has the checksum of their concatenation, and there is at least one part.
\<close>

theorem CompleteUpload_content:
  assumes "CompleteUpload e m server u w = Some (Inr fr, w')" "parts_are m u ps w" "parts_live e u w" "sound_reads e"
  shows "fr_checksum fr = SHA256Hash (concat (map (\<lambda>n. the (ps n)) (sorted_list_of_set (dom ps)))) \<and> ps \<noteq> Map.empty"
proof -
  obtain x w1 where x: "getSession e u w = (x, w1)" by force
  have w1: "redis w1 = redis w" "stored (mp_temp m) w1 = stored (mp_temp m) w"
    using getSession_frame [where e = e and u = u and w = w] x by auto
  have pa1: "parts_are m u ps w1" "parts_live e u w1"
    using assms(2,3) parts_are_frame [OF w1] parts_live_frame [OF w1(1)] by auto
  obtain y w2 where y: "cache_HGetAll e (parts_key u) w1 = (y, w2)" by force
  obtain ses es where ok: "x = Inr (Some ses)" "y = Inr es" "es \<noteq> []"
    using assms(1) x y by (auto simp: CompleteUpload_def split: sum.splits option.splits if_splits)
  note all = cache_HGetAll_parts [OF y [unfolded ok(2)] pa1]
  have es: "es = hash_of w u" using all(1) w1(1) by (simp add: hash_of_def)
  have st2: "stored (mp_temp m) w2 = stored (mp_temp m) w"
    using durable_eqD(6) [OF all(2)] w1(2) by (simp add: stored_def fun_eq_iff)
  obtain z w3 where z: "open_parts e (mp_temp m) (sorted_parts es) w2 = (z, w3)" by force
  obtain rds w4 where up: "z = Inr rds" "Upload e (mp_files m) server (ms_user ses) (ms_file_name ses) (ms_mime ses) (multi_reader rds) w3 = Some (Inr fr, w4)"
    using assms(1) x y ok z by (auto simp: CompleteUpload_def Let_def split: sum.splits option.splits)
  note cs = Upload_checksum [OF up(2)]
  have "rd_content (multi_reader rds) = concat (map (\<lambda>p. the (stored (mp_temp m) w (p_key p))) (sorted_parts es))"
    using open_parts_ok [OF assms(4) z [unfolded up(1)]] cs st2 by simp
  also have "\<dots> = concat (map (\<lambda>n. the (stored (mp_temp m) w (part_key u n))) (sorted_list_of_set (dom ps)))"
    unfolding es sorted_parts_are(2) [OF assms(2)] by (simp add: comp_def part_of_def)
  also have "map (\<lambda>n. the (stored (mp_temp m) w (part_key u n))) (sorted_list_of_set (dom ps)) =
      map (\<lambda>n. the (ps n)) (sorted_list_of_set (dom ps))"
    using assms(2) sorted_parts_are(1) [OF assms(2)] by (intro map_cong) (auto simp: parts_are_def)
  finally have "rd_content (multi_reader rds) = concat (map (\<lambda>n. the (ps n)) (sorted_list_of_set (dom ps)))" .
  moreover have "ps \<noteq> Map.empty" using assms(2) ok(3) es by (auto simp: parts_are_def)
  ultimately show ?thesis using cs by simp
qed

text \<open>
  C10: another user's abort of a session is an error and changes neither Redis nor the objects nor
  the tables.
\<close>

theorem AbortUpload_owner:
  assumes "redis w (session_key u) = Some (RStr (JSession ses), t)" "ms_user ses \<noteq> userID"
  shows "\<exists>err. fst (AbortUpload e m u userID w) = Inl err \<and>
    redis (snd (AbortUpload e m u userID w)) = redis w \<and> durable (snd (AbortUpload e m u userID w)) = durable w"
proof -
  obtain x w1 where x: "getSession e u w = (x, w1)" by force
  have fr: "redis w1 = redis w" "durable w1 = durable w"
    using getSession_frame [where e = e and u = u and w = w] x by auto
  have "x = Inr None \<or> x = Inr (Some ses)"
    using x assms(1)
    by (auto simp: getSession_def cache_Get_def live_def decode_session_def ext_def Let_def
        split: outcome.splits option.splits if_splits)
  then show ?thesis using x fr assms(2) by (auto simp: AbortUpload_def)
qed

lemma delete_parts_gone:
  assumes "fault_free e"
  shows "(\<forall>h. stored s (delete_parts e s ps w) h = (if h \<in> p_key ` set ps then None else stored s w h)) \<and>
    redis (delete_parts e s ps w) = redis w"
proof (induction ps arbitrary: w)
  case (Cons p ps)
  obtain w1 where w1: "DeleteChunk e s (p_key p) w = (Inr (), w1)"
    by (simp add: DeleteChunk_def ext_fault_free [OF assms])
  have "redis w1 = redis w" using w1 by (auto simp: DeleteChunk_def ext_fault_free [OF assms])
  then show ?case using Cons.IH [of w1] minio.del_ok [OF w1] w1 by auto
qed simp

text \<open>
  When nothing fails, the owner's abort of a live session removes the session, the list of its
  parts and every part's object.
\<close>

theorem AbortUpload_cleans:
  assumes "fault_free e" "parts_are m u ps w" "parts_live e u w"
    and "redis w (session_key u) = Some (RStr (JSession ses), t)" "\<And>x n. t = Some x \<Longrightarrow> now_at e n < x" "ms_user ses = userID"
  shows "\<exists>w'. AbortUpload e m u userID w = (Inr (), w') \<and> redis w' (session_key u) = None \<and>
    redis w' (parts_key u) = None \<and> (\<forall>n \<in> dom ps. stored (mp_temp m) w' (part_key u n) = None)"
proof -
  let ?w1 = "w\<lparr>calls := Suc (calls w)\<rparr>"
  have ses: "getSession e u w = (Inr (Some ses), ?w1)"
    using assms(4,5) by (simp add: getSession_def cache_Get_def ext_fault_free [OF assms(1)] live_def decode_session_def split: option.splits)
  have pa1: "parts_are m u ps ?w1" "parts_live e u ?w1"
    using assms(2,3) parts_are_frame [of ?w1 w m u ps] parts_live_frame [of ?w1 w e u] by simp_all
  obtain y w2 where y: "cache_HGetAll e (parts_key u) ?w1 = (y, w2)" by force
  have kind: "redis w (parts_key u) = None \<or> (\<exists>es t. redis w (parts_key u) = Some (RHash es, t))"
    using assms(2) unfolding parts_are_def by (auto split: option.splits)
  obtain es where es: "y = Inr es"
    using y kind by (auto simp: cache_HGetAll_def ext_fault_free [OF assms(1)] live_def split: option.splits if_splits)
  note all = cache_HGetAll_parts [OF y [unfolded es] pa1]
  let ?ps = "List.map_filter (\<lambda>(_, d). decode_part d) es"
  define w3 where "w3 = delete_parts e (mp_temp m) ?ps w2"
  define w' where "w' = cleanup e m u ?ps w2"
  have run: "AbortUpload e m u userID w = (Inr (), w')"
    using ses y es assms(6) by (simp add: AbortUpload_def w'_def)
  have w': "redis w' k = (if k \<in> {session_key u, parts_key u} then None else redis w3 k)"
    "stored (mp_temp m) w' = stored (mp_temp m) w3" for k
    by (simp_all add: w'_def cleanup_def w3_def [symmetric] cache_Delete_def ext_fault_free [OF assms(1)] stored_def fun_eq_iff)
  have "part_key u n \<in> p_key ` set ?ps" if "n \<in> dom ps" for n
  proof -
    have es': "es = hash_of w u" using all(1) by (simp add: hash_of_def)
    have "set ?ps = set (sorted_parts es)" by (simp add: sorted_parts_def)
    also have "\<dots> = part_of u ps ` dom ps"
      unfolding es' sorted_parts_are(2) [OF assms(2)] using sorted_parts_are(1) [OF assms(2)] by simp
    finally have "part_of u ps n \<in> set ?ps" using that by blast
    moreover have "p_key (part_of u ps n) = part_key u n" by (simp add: part_of_def)
    ultimately show ?thesis by (metis imageI)
  qed
  then have "stored (mp_temp m) w' (part_key u n) = None" if "n \<in> dom ps" for n
    using that delete_parts_gone [OF assms(1), of "mp_temp m" ?ps w2] w'(2) by (simp add: w3_def)
  then show ?thesis using run w'(1) by auto
qed

text \<open>A session with the parts 2 and 10, and one without parts.\<close>

definition demo_mp :: multipart_service where
  "demo_mp = \<lparr>mp_temp = \<lparr>st_bucket = ''temp-uploads''\<rparr>, mp_files = demo_service\<rparr>"

definition demo_session :: multipart_session where
  "demo_session = \<lparr>ms_upload_id = ''s'', ms_user = ''u'', ms_file_name = ''a'', ms_mime = [], ms_created = 0\<rparr>"

definition demo_start :: world where
  "demo_start = demo_world\<lparr>redis := [session_key ''s'' \<mapsto> (RStr (JSession demo_session), None)]\<rparr>"

definition demo_parts :: world where
  "demo_parts = demo_world\<lparr>
     redis := [session_key ''s'' \<mapsto> (RStr (JSession demo_session), None),
               parts_key ''s'' \<mapsto> (RHash [(itoa 10, part_doc ''s'' 10 [3]), (itoa 2, part_doc ''s'' 2 [1, 2])], None)],
     objects := [(''temp-uploads'', chunkKey (part_key ''s'' 10)) \<mapsto> [3], (''temp-uploads'', chunkKey (part_key ''s'' 2)) \<mapsto> [1, 2]]\<rparr>"

lemma demo_keys [simp]: "parts_key ''s'' \<noteq> session_key ''s''" "session_key ''s'' \<noteq> parts_key ''s''"
  by (simp_all add: parts_key_def session_key_def)

lemma demo_part_keys [simp]: "part_key ''s'' 2 \<noteq> part_key ''s'' 10" "part_key ''s'' 10 \<noteq> part_key ''s'' 2"
  using part_key_inj [of "''s''" 2 10] by auto

lemma demo_part_nums [simp]: "itoa 2 \<noteq> itoa 10" "itoa 10 \<noteq> itoa 2"
  using itoa_part_inj [of 2 10] by auto

lemma demo_mp_simps [simp]: "mp_temp demo_mp = \<lparr>st_bucket = ''temp-uploads''\<rparr>" "mp_files demo_mp = demo_service"
  by (simp_all add: demo_mp_def)

lemma demo_parts_are: "parts_are demo_mp ''s'' [2 \<mapsto> [1, 2], 10 \<mapsto> [3]] demo_parts"
proof -
  have "chunkKey (part_key ''s'' 2) \<noteq> chunkKey (part_key ''s'' 10)"
    using chunkKey_inj [of "part_key ''s'' 2" "part_key ''s'' 10"] by auto
  then show ?thesis
    by (auto simp: parts_are_def demo_parts_def hash_of_def stored_def split: if_splits) (rule exI [of _ 10], simp)
qed

lemma demo_parts_live: "parts_live quiet_env ''s'' demo_parts" "parts_live quiet_env ''s'' demo_start"
  by (simp_all add: parts_live_def demo_parts_def demo_start_def)

lemma UploadPart_refines_witness:
  "\<exists>p w'. UploadPart quiet_env demo_mp ''s'' 2 (reader_of [1, 2]) demo_start = (Inr p, w') \<and>
     parts_are demo_mp ''s'' [2 \<mapsto> [1, 2]] w' \<and> p_size p = 2"
proof -
  have "getSession quiet_env ''s'' demo_start = (Inr (Some demo_session), demo_start\<lparr>calls := 1\<rparr>)"
    by (simp add: getSession_def cache_Get_def ext_fault_free live_def demo_start_def decode_session_def
        demo_world_def empty_world_def)
  then obtain p w' where run: "UploadPart quiet_env demo_mp ''s'' 2 (reader_of [1, 2]) demo_start = (Inr p, w')"
    by (simp add: UploadPart_def PutChunk_def ext_fault_free cache_HSet_def live_def demo_start_def
        demo_world_def empty_world_def Let_def)
  have "parts_are demo_mp ''s'' Map.empty demo_start"
    by (simp add: parts_are_def demo_start_def demo_world_def empty_world_def hash_of_def)
  from UploadPart_refines [OF run this demo_parts_live(2)] run show ?thesis by auto
qed

lemma demo_open:
  "\<exists>k. open_parts quiet_env \<lparr>st_bucket = ''temp-uploads''\<rparr> (sorted_parts (hash_of demo_parts ''s'')) w =
     (Inr [reader_of [1, 2], reader_of [3]], w\<lparr>calls := k\<rparr>)"
  if "objects w = objects demo_parts"
proof -
  have "chunkKey (part_key ''s'' 2) \<noteq> chunkKey (part_key ''s'' 10)"
    using chunkKey_inj [of "part_key ''s'' 2" "part_key ''s'' 10"] by auto
  moreover have "sorted_parts (hash_of demo_parts ''s'') = map (part_of ''s'' [2 \<mapsto> [1, 2], 10 \<mapsto> [3]]) [2, 10]"
    using sorted_parts_are(2) [OF demo_parts_are] by simp
  ultimately show ?thesis
    using that by (auto simp: part_of_def GetChunk_def ext_fault_free demo_parts_def)
qed

lemma CompleteUpload_content_witness:
  "\<exists>fr w'. CompleteUpload quiet_env demo_mp demo_server ''s'' demo_parts = Some (Inr fr, w') \<and>
     fr_checksum fr = SHA256Hash [1, 2, 3]"
proof -
  have ses: "getSession quiet_env ''s'' demo_parts = (Inr (Some demo_session), demo_parts\<lparr>calls := 1\<rparr>)"
    by (simp add: getSession_def cache_Get_def ext_fault_free live_def demo_parts_def decode_session_def
        demo_world_def empty_world_def)
  have all: "cache_HGetAll quiet_env (parts_key ''s'') (demo_parts\<lparr>calls := 1\<rparr>) = (Inr (hash_of demo_parts ''s''), demo_parts\<lparr>calls := 2\<rparr>)"
    by (simp add: cache_HGetAll_def ext_fault_free live_def demo_parts_def hash_of_def)
  obtain k where op: "open_parts quiet_env \<lparr>st_bucket = ''temp-uploads''\<rparr> (sorted_parts (hash_of demo_parts ''s'')) (demo_parts\<lparr>calls := 2\<rparr>) =
      (Inr [reader_of [1, 2], reader_of [3]], demo_parts\<lparr>calls := k\<rparr>)"
    using demo_open [of "demo_parts\<lparr>calls := 2\<rparr>"] by auto
  let ?rd = "multi_reader [reader_of [1, 2], reader_of [3]]"
  have rd: "rd_content ?rd = [1, 2, 3]" "rd_err ?rd = None"
    by (simp_all add: reader_of_def Let_def rd_content_def)
  have w: "fresh_ids quiet_env (demo_parts\<lparr>calls := k\<rparr>)" "users (demo_parts\<lparr>calls := k\<rparr>) = [demo_user]"
    "chunks (demo_parts\<lparr>calls := k\<rparr>) = []"
    using demo_ids by (simp_all add: fresh_ids_def demo_parts_def)
  obtain fr w' where "Upload_run quiet_env demo_service demo_server ''u'' ''a'' [] ?rd (demo_parts\<lparr>calls := k\<rparr>) = Some (Inr fr, 0, w')"
    using Upload_run_fault_free [OF fault_free_quiet w(1), of demo_server ?rd "''u''" demo_user demo_service "''a''" "[]"] w(2,3)
    by (auto simp: rd demo_user_def in_i64_def simp del: multi_reader.simps)
  then have "\<exists>w''. CompleteUpload quiet_env demo_mp demo_server ''s'' demo_parts = Some (Inr fr, w'')"
    using ses all op
    by (simp add: CompleteUpload_def Let_def Upload_def demo_session_def hash_of_def demo_parts_def del: multi_reader.simps)
  then obtain w'' where run: "CompleteUpload quiet_env demo_mp demo_server ''s'' demo_parts = Some (Inr fr, w'')" by blast
  have "sorted_list_of_set (dom [2 :: int \<mapsto> [1 :: byte, 2], 10 \<mapsto> [3]]) = [2, 10]" by simp
  then show ?thesis
    using CompleteUpload_content [OF run demo_parts_are demo_parts_live(1)] run by simp
qed

lemma AbortUpload_owner_witness:
  "\<exists>err. fst (AbortUpload quiet_env demo_mp ''s'' ''other'' demo_parts) = Inl err \<and>
     redis (snd (AbortUpload quiet_env demo_mp ''s'' ''other'' demo_parts)) = redis demo_parts"
  using AbortUpload_owner [of demo_parts "''s''" demo_session None "''other''" quiet_env demo_mp]
  by (auto simp: demo_parts_def demo_session_def)

lemma AbortUpload_cleans_witness:
  "\<exists>w'. AbortUpload quiet_env demo_mp ''s'' ''u'' demo_parts = (Inr (), w') \<and> redis w' (session_key ''s'') = None \<and>
     stored (mp_temp demo_mp) w' (part_key ''s'' 2) = None"
  using AbortUpload_cleans [OF fault_free_quiet demo_parts_are demo_parts_live(1), of demo_session None "''u''"]
  by (auto simp: demo_parts_def demo_session_def)

end
