(* ===== verification/AuthApi.thy ===== *)
theory AuthApi
  imports RateLimit Multipart
begin

text \<open>
  The API gateway, first part (\<^verbatim>\<open>cmd/api-gateway/main.go\<close>): the services a handler reaches, the
  middleware of every request, health and documentation, registration, login, token refresh and the
  storage report.
\<close>

section \<open>The gateway\<close>

text \<open>
  \<open>gw_decode\<close>, \<open>gw_email\<close>, \<open>gw_invalid\<close> are the request binding and validation libraries: the JSON value a
  body starts with, the \<^verbatim>\<open>email\<close> rule, the text for the fields that failed and the rule each failed.
  \<open>gw_time\<close> is \<^verbatim>\<open>time.Parse(time.RFC3339, _)\<close>.
\<close>

record gateway =
  gw_files :: file_service
  gw_multipart :: multipart_service
  gw_jwt :: jwt_service
  gw_bcrypt :: bcrypt_lib
  gw_limiter :: limiter
  gw_decode :: "reader \<Rightarrow> json result"
  gw_email :: "string \<Rightarrow> bool"
  gw_invalid :: "(string \<times> string) list \<Rightarrow> go_error"
  gw_time :: "string \<Rightarrow> int option"
  gw_default_quota :: int
  gw_max_upload :: int
  gw_global_rpm :: int
  gw_user_rpm :: int
  gw_auth_rpm :: int
  gw_version :: string
  gw_docs_page :: "byte list"
  gw_openapi :: "byte list"

text \<open>\<^verbatim>\<open>ShouldBindJSON\<close> and the \<^verbatim>\<open>binding\<close> rules.  Lengths count runes: the bytes that do not continue one.\<close>

definition bind_body :: "gateway \<Rightarrow> string \<Rightarrow> string list \<Rightarrow> ctx \<Rightarrow> (string \<Rightarrow> string option) result" where
  "bind_body g struct flds c =
     (case gw_decode g (rq_body (cx_req c)) of Inl err \<Rightarrow> Inl err | Inr j \<Rightarrow> bind_strings struct flds j)"

definition rune_count :: "string \<Rightarrow> nat" where
  "rune_count s = length (filter (\<lambda>ch. \<not> (128 \<le> (of_char ch :: nat) \<and> (of_char ch :: nat) < 192)) s)"

definition rule_required :: "string \<Rightarrow> string \<Rightarrow> string option" where
  "rule_required tag s = (if s = [] then Some tag else None)"

definition rule_min :: "nat \<Rightarrow> string \<Rightarrow> string option" where
  "rule_min n s = (if rune_count s < n then Some ''min'' else None)"

definition rule_max :: "nat \<Rightarrow> string \<Rightarrow> string option" where
  "rule_max n s = (if n < rune_count s then Some ''max'' else None)"

definition rule_email :: "gateway \<Rightarrow> string \<Rightarrow> string option" where
  "rule_email g s = (if gw_email g s then None else Some ''email'')"

text \<open>The first rule a field fails; the error names all fields that fail one.\<close>

fun first_failed :: "(string \<Rightarrow> string option) list \<Rightarrow> string \<Rightarrow> string option" where
  "first_failed [] s = None"
| "first_failed (r # rs) s = (case r s of Some t \<Rightarrow> Some t | None \<Rightarrow> first_failed rs s)"

definition validate ::
  "gateway \<Rightarrow> (string \<times> (string \<Rightarrow> string option) list \<times> string) list \<Rightarrow> go_error option" where
  "validate g flds =
     (case List.map_filter (\<lambda>(name, rules, s). map_option (Pair name) (first_failed rules s)) flds of
        [] \<Rightarrow> None
      | failed \<Rightarrow> Some (gw_invalid g failed))"

definition answer :: "ctx \<Rightarrow> api_error \<Rightarrow> world \<Rightarrow> (response \<times> world) option" where
  "answer c err w = Some (fail_json c err, w)"

definition reply :: "int \<Rightarrow> json \<Rightarrow> world \<Rightarrow> (response \<times> world) option" where
  "reply status j w = Some (ok_json status j, w)"

lemmas answer_defs = answer_def reply_def

definition with_headers :: "(string \<times> string) list \<Rightarrow> response \<Rightarrow> response" where
  "with_headers hs r = r\<lparr>rs_headers := hs @ rs_headers r\<rparr>"

lemma with_headers_simps [simp]:
  "rs_status (with_headers hs r) = rs_status r" "rs_body (with_headers hs r) = rs_body r"
  by (simp_all add: with_headers_def)

section \<open>Middleware of every request\<close>

definition requestIDMiddleware :: "env \<Rightarrow> middleware" where
  "requestIDMiddleware e next c w =
     (let given = header (cx_req c) ''X-Request-ID'';
          (requestID, w1) = (if given = [] then (uuid_at e (calls w), tick w) else (given, w))
      in map_option (\<lambda>(r, w2). (with_headers [(''X-Request-ID'', requestID)] r, w2))
           (next (ctx_set ''request_id'' requestID c) w1))"

definition cors_headers :: "(string \<times> string) list" where
  "cors_headers =
     [(''Access-Control-Allow-Origin'', ''*''),
      (''Access-Control-Allow-Methods'', ''GET, POST, PUT, DELETE, OPTIONS''),
      (''Access-Control-Allow-Headers'', ''Origin, Content-Type, Authorization, X-Request-ID''),
      (''Access-Control-Max-Age'', ''86400'')]"

definition corsMiddleware :: middleware where
  "corsMiddleware next c w =
     map_option (\<lambda>(r, w1). (with_headers cors_headers r, w1))
       (if rq_method (cx_req c) = ''OPTIONS''
        then Some (\<lparr>rs_status = 204, rs_headers = [], rs_body = BNone\<rparr>, w)
        else next c w)"

section \<open>Health and documentation\<close>

definition healthHandler :: "gateway \<Rightarrow> handler" where
  "healthHandler g c w =
     reply 200 (JObj [(''status'', JStr ''ok''), (''service'', JStr ''api-gateway''), (''version'', JStr (gw_version g))]) w"

text \<open>Both checks are a ping.\<close>

abbreviation "ping e \<equiv> ext e (\<lambda>v. (Inr () :: unit result, v))"

definition readinessHandler :: "env \<Rightarrow> handler" where
  "readinessHandler e c w =
     (case ping e w of (db, w1) \<Rightarrow>
        (case ping e w1 of (redis_check, w2) \<Rightarrow>
           (let word = (\<lambda>r. JStr (if is_ok r then ''healthy'' else ''unhealthy''));
                ready = is_ok db \<and> is_ok redis_check
            in reply (if ready then 200 else 503)
                 (JObj [(''status'', JStr (if ready then ''ready'' else ''not_ready'')),
                        (''checks'', JObj [(''database'', word db), (''redis'', word redis_check)])]) w2)))"

definition bytes_response :: "string \<Rightarrow> byte list \<Rightarrow> response" where
  "bytes_response mime d = \<lparr>rs_status = 200, rs_headers = [(''Content-Type'', mime)], rs_body = BBytes d\<rparr>"

definition docsHandler :: "gateway \<Rightarrow> handler" where
  "docsHandler g c w = Some (bytes_response ''text/html; charset=utf-8'' (gw_docs_page g), w)"

definition openAPISpecHandler :: "gateway \<Rightarrow> handler" where
  "openAPISpecHandler g c w = Some (bytes_response ''application/yaml; charset=utf-8'' (gw_openapi g), w)"

section \<open>Accounts\<close>

text \<open>The \<^verbatim>\<open>INSERT\<close> of a user: the e-mail is unique, the columns have their widths and defaults.\<close>

definition insert_user :: "env \<Rightarrow> string \<Rightarrow> string \<Rightarrow> string \<Rightarrow> int \<Rightarrow> world \<Rightarrow> string result \<times> world" where
  "insert_user e email hashed display quota =
     ext e (\<lambda>v.
       let uid = uuid_at e (calls v) in
       if 255 < rune_count email \<or> 255 < rune_count hashed \<or> 100 < rune_count display
       then (Inl ''ERROR: value too long for type character varying (SQLSTATE 22001)'', v)
       else if list_ex (\<lambda>u. u_email u = email \<or> u_id u = uid) (users v)
       then (Inl ''ERROR: duplicate key value violates unique constraint (SQLSTATE 23505)'', v)
       else (Inr uid, v\<lparr>users := users v @
               [\<lparr>u_id = uid, u_email = email, u_password = hashed, u_display = display, u_role = ''user'',
                 u_quota = quota, u_used = 0, u_active = True\<rparr>]\<rparr>))"

definition isDuplicateKeyError :: "go_error \<Rightarrow> bool" where
  "isDuplicateKeyError err \<longleftrightarrow> text_contains err ''23505'' \<or> text_contains err ''duplicate key''"

definition tokens_json :: "token_pair \<Rightarrow> json" where
  "tokens_json t =
     JObj [(''access_token'', JStr (tp_access t)), (''refresh_token'', JStr (tp_refresh t)),
           (''expires_in'', JNum (tp_expires_in t)), (''token_type'', JStr (tp_type t))]"

definition registerHandler :: "env \<Rightarrow> gateway \<Rightarrow> handler" where
  "registerHandler e g c w =
     (case bind_body g ''registerRequest'' [''email'', ''password'', ''display_name''] c of
        Inl err \<Rightarrow> answer c (NewBadRequest (''Invalid input: '' @ err)) w
      | Inr get \<Rightarrow>
          (let email = or_empty (get ''email''); password = or_empty (get ''password'');
               display = or_empty (get ''display_name'')
           in
           case validate g
                  [(''Email'', [rule_required ''required'', rule_email g], email),
                   (''Password'', [rule_required ''required'', rule_min 8, rule_max 72], password),
                   (''DisplayName'', [rule_required ''required'', rule_min 1, rule_max 100], display)] of
             Some err \<Rightarrow> answer c (NewBadRequest (''Invalid input: '' @ err)) w
           | None \<Rightarrow>
               (case HashPassword (gw_bcrypt g) (calls w) password of
                  Inl err \<Rightarrow> answer c (NewBadRequest err) w
                | Inr hashed \<Rightarrow>
                    (case insert_user e email hashed display (gw_default_quota g) w of
                       (Inl err, w1) \<Rightarrow>
                         if isDuplicateKeyError err
                         then answer c (NewConflict CodeAuthUserExists ''A user with this email already exists'') w1
                         else answer c (NewInternal err) w1
                     | (Inr userID, w1) \<Rightarrow>
                         (case GenerateTokenPair e (gw_jwt g) userID email ''user'' w1 of
                            (Inl err, w2) \<Rightarrow> answer c (NewInternal err) w2
                          | (Inr tokens, w2) \<Rightarrow>
                              reply 201
                                (JObj [(''user'', JObj [(''id'', JStr userID), (''email'', JStr email),
                                                      (''display_name'', JStr display)]),
                                       (''tokens'', tokens_json tokens)]) w2)))))"

definition find_user :: "env \<Rightarrow> (user_row \<Rightarrow> bool) \<Rightarrow> world \<Rightarrow> user_row result \<times> world" where
  "find_user e P =
     ext e (\<lambda>v. (case first_row P (users v) of
                   None \<Rightarrow> (Inl ''no rows in result set'', v)
                 | Some u \<Rightarrow> (Inr u, v)))"

definition loginHandler :: "env \<Rightarrow> gateway \<Rightarrow> handler" where
  "loginHandler e g c w =
     (case bind_body g ''loginRequest'' [''email'', ''password''] c of
        Inl err \<Rightarrow> answer c (NewBadRequest (''Invalid input: '' @ err)) w
      | Inr get \<Rightarrow>
          (let email = or_empty (get ''email''); password = or_empty (get ''password'') in
           case validate g
                  [(''Email'', [rule_required ''required'', rule_email g], email),
                   (''Password'', [rule_required ''required''], password)] of
             Some err \<Rightarrow> answer c (NewBadRequest (''Invalid input: '' @ err)) w
           | None \<Rightarrow>
               (case find_user e (\<lambda>u. u_email u = email) w of
                  (Inl _, w1) \<Rightarrow>
                    answer c (NewUnauthorized CodeAuthInvalidCredentials ''Invalid email or password'') w1
                | (Inr u, w1) \<Rightarrow>
                    if \<not> u_active u
                    then answer c (NewUnauthorized CodeAuthInvalidCredentials ''Account is deactivated'') w1
                    else if VerifyPassword (gw_bcrypt g) (u_password u) password \<noteq> None
                    then answer c (NewUnauthorized CodeAuthInvalidCredentials ''Invalid email or password'') w1
                    else
                      (case GenerateTokenPair e (gw_jwt g) (u_id u) email (u_role u) w1 of
                         (Inl err, w2) \<Rightarrow> answer c (NewInternal err) w2
                       | (Inr tokens, w2) \<Rightarrow>
                           reply 200
                             (JObj [(''user'', JObj [(''id'', JStr (u_id u)), (''email'', JStr email),
                                       (''display_name'', JStr (u_display u)), (''role'', JStr (u_role u))]),
                                    (''tokens'', tokens_json tokens)]) w2))))"

definition refreshHandler :: "env \<Rightarrow> gateway \<Rightarrow> handler" where
  "refreshHandler e g c w =
     (let bad = answer c (NewBadRequest ''refresh_token is required'') w in
      case bind_body g ''refreshRequest'' [''refresh_token''] c of
        Inl _ \<Rightarrow> bad
      | Inr get \<Rightarrow>
          (let token = or_empty (get ''refresh_token'') in
           if validate g [(''RefreshToken'', [rule_required ''required''], token)] \<noteq> None then bad
           else
             (case ValidateRefreshToken (gw_jwt g) (now_at e (calls w)) token of
                Inl _ \<Rightarrow> answer c (NewUnauthorized CodeAuthTokenInvalid ''Invalid or expired refresh token'') w
              | Inr claims \<Rightarrow>
                  (case GenerateTokenPair e (gw_jwt g) (jc_sub claims) [] ''user'' w of
                     (Inl err, w1) \<Rightarrow> answer c (NewInternal err) w1
                   | (Inr tokens, w1) \<Rightarrow> reply 200 (JObj [(''tokens'', tokens_json tokens)]) w1))))"

text \<open>A quota of zero makes the percentage a value JSON cannot express: the status goes out with no body.\<close>

definition storageUsageHandler :: "env \<Rightarrow> handler" where
  "storageUsageHandler e c w =
     (let userID = GetUserID c in
      if userID = [] then answer c (NewUnauthorized CodeAuthTokenInvalid ''User not found in context'') w
      else
        (case find_user e (\<lambda>u. u_id u = userID) w of
           (Inl err, w1) \<Rightarrow> answer c (NewInternal err) w1
         | (Inr u, w1) \<Rightarrow>
             if u_quota u = 0 then Some (\<lparr>rs_status = 200, rs_headers = [], rs_body = BNone\<rparr>, w1)
             else
               reply 200
                 (JObj [(''used'', JNum (u_used u)), (''quota'', JNum (u_quota u)),
                        (''available'', JNum (i64 (u_quota u - u_used u))),
                        (''used_pct'', JPercent (u_used u) (u_quota u))]) w1))"

definition listNodesPlaceholder :: handler where
  "listNodesPlaceholder c w =
     reply 200 (JObj [(''nodes'', JList []), (''message'', JStr ''Node listing will be implemented in Phase 5'')]) w"

section \<open>A concrete gateway\<close>

definition demo_gateway :: gateway where
  "demo_gateway =
     \<lparr>gw_files = demo_service, gw_multipart = demo_mp, gw_jwt = demo_jwt,
      gw_bcrypt = \<lparr>bc_generate = (\<lambda>_ p _. Inr (CHR ''h'' # p)),
                   bc_compare = (\<lambda>h p. if h = CHR ''h'' # p then None else Some ''mismatch'')\<rparr>,
      gw_limiter = demo_limiter, 
      gw_decode = (\<lambda>_. Inr (JObj [(''email'', JStr ''u@x''), (''password'', JStr ''password''),
                                   (''display_name'', JStr ''U''), (''name'', JStr ''n'')])),
      gw_email = (\<lambda>_. True), gw_invalid = (\<lambda>_. ''invalid''), gw_time = (\<lambda>_. None), gw_default_quota = 1000,
      gw_max_upload = 1000, gw_global_rpm = 100, gw_user_rpm = 100, gw_auth_rpm = 100, gw_version = ''1'',
      gw_docs_page = [], gw_openapi = []\<rparr>"

definition demo_call :: "string \<Rightarrow> (string \<times> string) list \<Rightarrow> (string \<times> string) list \<Rightarrow> ctx" where
  "demo_call fid hs ks =
     \<lparr>cx_req = \<lparr>rq_method = ''GET'', rq_params = [(''id'', fid)], rq_query = [], rq_headers = hs, rq_client_ip = [],
                rq_full_path = [], rq_body = reader_of [], rq_form = []\<rparr>, cx_keys = ks\<rparr>"

lemma demo_call_simps [simp]:
  "param (cx_req (demo_call fid hs ks)) ''id'' = fid"
  "GetUserID (demo_call fid hs [(''user_id'', u)]) = u"
  "header (cx_req (demo_call fid [(name, v)] ks)) name = v"
  "header (cx_req (demo_call fid [] ks)) name = []"
  by (simp_all add: demo_call_def param_def GetUserID_def ctx_get_def header_def equal_fold_def)

lemma demo_gateway_files [simp]: "gw_files demo_gateway = demo_service"
  by (simp add: demo_gateway_def)

section \<open>Registration and login\<close>

lemma first_failed_None: "first_failed rs s = None \<longleftrightarrow> (\<forall>r \<in> set rs. r s = None)"
  by (induction rs) (auto split: option.splits)

lemma map_filter_Nil: "List.map_filter f xs = [] \<longleftrightarrow> (\<forall>x \<in> set xs. f x = None)"
  by (simp add: List.map_filter_def filter_empty_conv)

lemma validate_None:
  "validate g flds = None \<longleftrightarrow> (\<forall>(name, rules, s) \<in> set flds. \<forall>r \<in> set rules. r s = None)"
proof -
  note e = map_filter_Nil [of "\<lambda>(name, rules, s). map_option (Pair name) (first_failed rules s)" flds]
  have "validate g flds = None \<longleftrightarrow>
      List.map_filter (\<lambda>(name, rules, s). map_option (Pair name) (first_failed rules s)) flds = []"
    by (simp add: validate_def split: list.splits)
  then show ?thesis unfolding e by (simp add: first_failed_None case_prod_beta)
qed

text \<open>What an account needs, and the row it becomes.\<close>

lemma registerHandler_201:
  assumes "registerHandler e g c w = Some (r, w')" "rs_status r = 201"
  obtains get uid hashed where
    "bind_body g ''registerRequest'' [''email'', ''password'', ''display_name''] c = Inr get"
    "HashPassword (gw_bcrypt g) (calls w) (or_empty (get ''password'')) = Inr hashed"
    "gw_email g (or_empty (get ''email''))" "or_empty (get ''email'') \<noteq> []" "or_empty (get ''password'') \<noteq> []"
    "\<And>u. u \<in> set (users w) \<Longrightarrow> u_email u \<noteq> or_empty (get ''email'')"
    "users w' = users w @ [\<lparr>u_id = uid, u_email = or_empty (get ''email''), u_password = hashed,
       u_display = or_empty (get ''display_name''), u_role = ''user'', u_quota = gw_default_quota g, u_used = 0,
       u_active = True\<rparr>]"
proof -
  obtain get where get: "bind_body g ''registerRequest'' [''email'', ''password'', ''display_name''] c = Inr get"
    using assms by (auto simp: registerHandler_def answer_defs Let_def split: sum.splits)
  let ?em = "or_empty (get ''email'')" and ?pw = "or_empty (get ''password'')" and ?dn = "or_empty (get ''display_name'')"
  have v: "validate g [(''Email'', [rule_required ''required'', rule_email g], ?em),
      (''Password'', [rule_required ''required'', rule_min 8, rule_max 72], ?pw),
      (''DisplayName'', [rule_required ''required'', rule_min 1, rule_max 100], ?dn)] = None"
    using assms get by (auto simp: registerHandler_def answer_defs Let_def split: option.splits)
  obtain hashed where hashed: "HashPassword (gw_bcrypt g) (calls w) ?pw = Inr hashed"
    using assms get v by (auto simp: registerHandler_def answer_defs Let_def split: sum.splits)
  obtain uid w1 where ins: "insert_user e ?em hashed ?dn (gw_default_quota g) w = (Inr uid, w1)"
    using assms get v hashed
    by (auto simp: registerHandler_def answer_defs Let_def split: sum.splits prod.splits if_splits)
  have w': "users w' = users w1"
    using assms get v hashed ins
    by (auto simp: registerHandler_def answer_defs Let_def GenerateTokenPair_def split: sum.splits prod.splits)
  have row: "\<And>u. u \<in> set (users w) \<Longrightarrow> u_email u \<noteq> ?em"
    "users w1 = users w @ [\<lparr>u_id = uid, u_email = ?em, u_password = hashed, u_display = ?dn, u_role = ''user'',
       u_quota = gw_default_quota g, u_used = 0, u_active = True\<rparr>]"
    using ext_InrD [OF ins [unfolded insert_user_def]]
    by (auto simp: Let_def list_ex_iff split: if_splits)
  have "gw_email g ?em" "?em \<noteq> []" "?pw \<noteq> []"
    using v by (auto simp: validate_None rule_required_def rule_email_def split: if_splits)
  then show ?thesis using that [OF get hashed] row w' by metis
qed

text \<open>
  C25: an account can be used.  After a registration that was answered with 201, a login with the same
  e-mail and password, at any later time at which the user table still reads the same, is answered
  with 200, with the role and the id of the account; and every password so stored has 8 to 72 bytes.
\<close>

theorem register_then_login:
  assumes "registerHandler e g c w = Some (r, w1)" "rs_status r = 201"
    and "bind_body g ''registerRequest'' [''email'', ''password'', ''display_name''] c = Inr get"
    and "bind_body g ''loginRequest'' [''email'', ''password''] c' = Inr get'"
    and "get' ''email'' = get ''email''" "get' ''password'' = get ''password''"
    and "users v = users w1" "fault_free e'" "bcrypt_laws (gw_bcrypt g)"
    and "\<And>n claims. is_ok (jl_sign (js_lib (gw_jwt g)) n (js_private (gw_jwt g)) claims)"
  shows "\<exists>r' v' u tokens. loginHandler e' g c' v = Some (r', v') \<and> rs_status r' = 200 \<and>
    u \<in> set (users w1) \<and> u \<notin> set (users w) \<and> u_email u = or_empty (get ''email'') \<and>
    rs_body r' = BJson (JObj [(''user'', JObj [(''id'', JStr (u_id u)), (''email'', JStr (u_email u)),
        (''display_name'', JStr (u_display u)), (''role'', JStr ''user'')]), (''tokens'', tokens_json tokens)]) \<and>
    8 \<le> length (or_empty (get ''password'')) \<and> length (or_empty (get ''password'')) \<le> 72"
proof -
  from assms(1,2) obtain get0 uid hashed where reg:
    "bind_body g ''registerRequest'' [''email'', ''password'', ''display_name''] c = Inr get0"
    "HashPassword (gw_bcrypt g) (calls w) (or_empty (get0 ''password'')) = Inr hashed"
    "gw_email g (or_empty (get0 ''email''))" "or_empty (get0 ''email'') \<noteq> []" "or_empty (get0 ''password'') \<noteq> []"
    "\<And>u. u \<in> set (users w) \<Longrightarrow> u_email u \<noteq> or_empty (get0 ''email'')"
    "users w1 = users w @ [\<lparr>u_id = uid, u_email = or_empty (get0 ''email''), u_password = hashed,
       u_display = or_empty (get0 ''display_name''), u_role = ''user'', u_quota = gw_default_quota g, u_used = 0,
       u_active = True\<rparr>]"
    by (rule registerHandler_201) blast
  have g: "get0 = get" using reg(1) assms(3) by simp
  define u where "u = \<lparr>u_id = uid, u_email = or_empty (get ''email''), u_password = hashed,
       u_display = or_empty (get ''display_name''), u_role = ''user'', u_quota = gw_default_quota g, u_used = 0,
       u_active = True\<rparr>"
  have us: "users w1 = users w @ [u]" using reg(7) by (simp add: g u_def)
  have "first_row P (xs @ [y]) = Some y" if "\<And>x. x \<in> set xs \<Longrightarrow> \<not> P x" "P y" for P :: "user_row \<Rightarrow> bool" and xs y
    using that by (induction xs) auto
  then have "first_row (\<lambda>x. u_email x = or_empty (get ''email'')) (users v) = Some u"
    using reg(6) us assms(7) by (simp add: g u_def)
  then have find: "find_user e' (\<lambda>x. u_email x = or_empty (get ''email'')) v = (Inr u, v\<lparr>calls := Suc (calls v)\<rparr>)"
    by (simp add: find_user_def ext_fault_free [OF assms(8)])
  have pw: "VerifyPassword (gw_bcrypt g) hashed (or_empty (get ''password'')) = None"
    using HashPassword_verifies [OF assms(9)] reg(2) by (simp add: g)
  have val: "validate g [(''Email'', [rule_required ''required'', rule_email g], or_empty (get ''email'')),
      (''Password'', [rule_required ''required''], or_empty (get ''password''))] = None"
    using reg(3-5) by (simp add: g validate_None rule_required_def rule_email_def)
  obtain tokens v' where tok: "GenerateTokenPair e' (gw_jwt g) uid (or_empty (get ''email'')) ''user''
      (v\<lparr>calls := Suc (calls v)\<rparr>) = (Inr tokens, v')"
    using assms(10) by (fastforce simp: GenerateTokenPair_def Let_def is_ok_def split: sum.splits)
  have "u_email u = or_empty (get ''email'')" by (simp add: u_def)
  then have "u \<notin> set (users w)" using reg(6) by (auto simp: g)
  moreover have "8 \<le> length (or_empty (get ''password''))" "length (or_empty (get ''password'')) \<le> 72"
    using reg(2) by (auto simp: g HashPassword_def split: if_splits)
  moreover have "loginHandler e' g c' v = Some (ok_json 200 (JObj [(''user'', JObj [(''id'', JStr (u_id u)),
      (''email'', JStr (u_email u)), (''display_name'', JStr (u_display u)), (''role'', JStr ''user'')]),
      (''tokens'', tokens_json tokens)]), v')"
    using find pw val tok by (simp add: loginHandler_def assms(4-6) reply_def Let_def u_def)
  ultimately show ?thesis
    using us \<open>u_email u = or_empty (get ''email'')\<close>
    by (intro exI [of _ v'] exI [of _ u] exI [of _ tokens] exI conjI) (auto simp: ok_json_def)
qed

text \<open>A signer that always signs, for the concrete run.\<close>

definition signing_gateway :: gateway where
  "signing_gateway = demo_gateway\<lparr>gw_jwt := demo_jwt\<lparr>js_lib := demo_jwt_lib\<lparr>jl_sign := (\<lambda>_ _ _. Inr ''T'')\<rparr>\<rparr>\<rparr>"

theorem register_then_login_witness:
  "\<exists>r' v'. loginHandler quiet_env signing_gateway (demo_call [] [] [])
     (snd (the (registerHandler quiet_env signing_gateway (demo_call [] [] []) empty_world))) = Some (r', v') \<and> rs_status r' = 200"
proof -
  let ?g = signing_gateway and ?c = "demo_call [] [] []"
  have eq: "equal_fold ''email'' ''email''" "equal_fold ''password'' ''password''"
    "equal_fold ''display_name'' ''display_name''" "\<not> equal_fold ''email'' ''password''" "\<not> equal_fold ''password'' ''email''"
    "\<not> equal_fold ''email'' ''display_name''" "\<not> equal_fold ''display_name'' ''email''"
    "\<not> equal_fold ''password'' ''display_name''" "\<not> equal_fold ''display_name'' ''password''"
    "\<not> equal_fold ''name'' ''email''" "\<not> equal_fold ''name'' ''password''" "\<not> equal_fold ''name'' ''display_name''"
    by code_simp+
  obtain get where get: "bind_body ?g ''registerRequest'' [''email'', ''password'', ''display_name''] ?c = Inr get"
      "get ''email'' = Some ''u@x''" "get ''password'' = Some ''password''" "get ''display_name'' = Some ''U''"
    by (simp add: bind_body_def bind_strings_def signing_gateway_def demo_gateway_def eq List.map_filter_def)
  obtain get' where get': "bind_body ?g ''loginRequest'' [''email'', ''password''] ?c = Inr get'"
      "get' ''email'' = Some ''u@x''" "get' ''password'' = Some ''password''"
    by (simp add: bind_body_def bind_strings_def signing_gateway_def demo_gateway_def eq List.map_filter_def)
  have rc: "rune_count ''u@x'' = 3" "rune_count ''password'' = 8" "rune_count ''U'' = 1" "rune_count ''hpassword'' = 9"
    by code_simp+
  have val: "validate ?g [(''Email'', [rule_required ''required'', rule_email ?g], ''u@x''),
      (''Password'', [rule_required ''required'', rule_min 8, rule_max 72], ''password''),
      (''DisplayName'', [rule_required ''required'', rule_min 1, rule_max 100], ''U'')] = None"
    by (simp add: validate_None rule_required_def rule_email_def rule_min_def rule_max_def rc signing_gateway_def demo_gateway_def)
  have bc: "gw_bcrypt ?g = gw_bcrypt demo_gateway" by (simp add: signing_gateway_def)
  have hp: "HashPassword (gw_bcrypt ?g) 0 ''password'' = Inr ''hpassword''"
    by (simp add: HashPassword_def bc demo_gateway_def)
  have bl: "bcrypt_laws (gw_bcrypt ?g)" by (simp add: bcrypt_laws_def bc demo_gateway_def)
  have sign: "jl_sign (js_lib (gw_jwt ?g)) n priv claims = Inr ''T''" for n priv claims by (simp add: signing_gateway_def)
  have c0: "calls empty_world = 0" by (simp add: empty_world_def)
  obtain w0 where ins: "insert_user quiet_env ''u@x'' ''hpassword'' ''U'' (gw_default_quota ?g) empty_world = (Inr ''u'', w0)"
    by (simp add: insert_user_def ext_fault_free rc empty_world_def Let_def)
  obtain tokens w1 where tok: "GenerateTokenPair quiet_env (gw_jwt ?g) ''u'' ''u@x'' ''user'' w0 = (Inr tokens, w1)"
    by (simp add: GenerateTokenPair_def sign Let_def)
  obtain r where reg: "registerHandler quiet_env ?g ?c empty_world = Some (r, w1)" "rs_status r = 201"
    using get val hp ins tok by (simp add: registerHandler_def or_empty_def reply_def c0 Let_def)
  show ?thesis
    using register_then_login [OF reg get(1) get'(1) _ _ refl fault_free_quiet bl] get get' reg by (auto simp: sign)
qed

end
