(* ===== verification/FileApi.thy ===== *)
theory FileApi
  imports AuthApi
begin

text \<open>
  The API gateway, second part (\<^verbatim>\<open>cmd/api-gateway/main.go\<close>): upload, listing, metadata, deletion, and
  the download with its \<^verbatim>\<open>Range\<close> header.
\<close>

section \<open>Rendering\<close>

definition file_json :: "file_row \<Rightarrow> json" where
  "file_json f =
     JObj ([(''id'', JStr (f_id f)), (''user_id'', JStr (f_user f))] @
           (case f_parent f of None \<Rightarrow> [] | Some p \<Rightarrow> [(''parent_id'', JStr p)]) @
           [(''name'', JStr (f_name f)), (''is_directory'', JBool (f_is_dir f)), (''size'', JNum (f_size f))] @
           (case f_mime f of None \<Rightarrow> [] | Some m \<Rightarrow> [(''mime_type'', JStr m)]) @
           (case f_checksum f of None \<Rightarrow> [] | Some k \<Rightarrow> [(''checksum'', JStr k)]) @
           [(''version'', JNum (f_version f)), (''status'', JStr (f_status f)),
            (''created_at'', JTime (f_created f)), (''updated_at'', JTime (f_updated f))])"

definition upload_json :: "file_response \<Rightarrow> json" where
  "upload_json r =
     JObj ([(''id'', JStr (fr_id r)), (''name'', JStr (fr_name r)), (''size'', JNum (fr_size r))] @
           (if fr_mime r = [] then [] else [(''mime_type'', JStr (fr_mime r))]) @
           [(''checksum'', JStr (fr_checksum r)), (''version'', JNum (fr_version r)),
            (''chunk_count'', JNum (fr_chunk_count r)), (''new_chunks'', JNum (fr_new_chunks r)),
            (''dedup_chunks'', JNum (fr_dedup_chunks r)), (''created_at'', JTime (fr_created r))])"

text \<open>A list with no row is a nil slice, which JSON prints as \<^verbatim>\<open>null\<close>.\<close>

definition rows_json :: "file_row list \<Rightarrow> json" where
  "rows_json fs = (if fs = [] then JNull else JList (map file_json fs))"

definition list_json :: "list_response \<Rightarrow> json" where
  "list_json r =
     JObj [(''files'', rows_json (lr_files r)), (''total'', JNum (lr_total r)), (''page'', JNum (lr_page r)),
           (''page_size'', JNum (lr_page_size r)), (''total_pages'', JNum (lr_total_pages r))]"

section \<open>Upload, list, get, delete\<close>

definition uploadHandler :: "env \<Rightarrow> gateway \<Rightarrow> upload_run \<Rightarrow> handler" where
  "uploadHandler e g server c w =
     (case map_of (rq_form (cx_req c)) ''file'' of
        None \<Rightarrow> answer c (NewBadRequest ''file field is required'') w
      | Some form \<Rightarrow>
          if gw_max_upload g < ff_size form
          then answer c (NewTooLarge (''file exceeds max size of '' @ itoa (gw_max_upload g) @ '' bytes'')) w
          else
            (let mimeType = (if ff_mime form = [] then ''application/octet-stream'' else ff_mime form) in
             case Upload e (gw_files g) server (GetUserID c) (ff_name form) mimeType (ff_data form) w of
               None \<Rightarrow> None
             | Some (Inl err, w1) \<Rightarrow>
                 if text_contains err ''QUOTA_EXCEEDED'' then answer c (NewTooLarge err) w1
                 else answer c (NewInternal err) w1
             | Some (Inr resp, w1) \<Rightarrow> reply 201 (JObj [(''file'', upload_json resp)]) w1))"

definition query_int :: "ctx \<Rightarrow> string \<Rightarrow> string \<Rightarrow> int" where
  "query_int c name d = fst (atoi (default_query (cx_req c) name d))"

definition page_args :: "ctx \<Rightarrow> int \<times> int" where
  "page_args c =
     (let page = query_int c ''page'' ''1''; page_size = query_int c ''page_size'' ''20'' in
      (if page < 1 then 1 else page, if page_size < 1 \<or> 100 < page_size then 20 else page_size))"

definition listFilesHandler :: "env \<Rightarrow> handler" where
  "listFilesHandler e c w =
     (case page_args c of
        (page, page_size) \<Rightarrow>
          (case ListFiles e (GetUserID c) page page_size w of
             (Inl err, w1) \<Rightarrow> answer c (NewInternal err) w1
           | (Inr resp, w1) \<Rightarrow> reply 200 (list_json resp) w1))"

abbreviation "file_not_found \<equiv> NewNotFound CodeFileNotFound ''File not found''"

definition getFileHandler :: "env \<Rightarrow> handler" where
  "getFileHandler e c w =
     (case GetFile e (GetUserID c) (param (cx_req c) ''id'') w of
        (Inl err, w1) \<Rightarrow> answer c (NewInternal err) w1
      | (Inr None, w1) \<Rightarrow> answer c file_not_found w1
      | (Inr (Some file), w1) \<Rightarrow> reply 200 (JObj [(''file'', file_json file)]) w1)"

definition deleteFileHandler :: "env \<Rightarrow> gateway \<Rightarrow> handler" where
  "deleteFileHandler e g c w =
     (case DeleteFile e (gw_files g) (GetUserID c) (param (cx_req c) ''id'') w of
        (Inl err, w1) \<Rightarrow>
          if text_contains err ''not found'' then answer c file_not_found w1 else answer c (NewInternal err) w1
      | (Inr _, w1) \<Rightarrow> reply 200 (JObj [(''message'', JStr ''File deleted successfully'')]) w1)"

section \<open>The Range header\<close>

definition range_bounds :: "string \<Rightarrow> int \<Rightarrow> (int \<times> int) option" where
  "range_bounds hdr fileSize =
     (if length hdr < 7 \<or> take 6 hdr \<noteq> ''bytes='' then None
      else
        (let rangeSpec = drop 6 hdr; startStr = takeWhile (\<lambda>ch. ch \<noteq> CHR ''-'') rangeSpec in
         if CHR ''-'' \<notin> set rangeSpec then None
         else
           (let endStr = drop (length startStr + 1) rangeSpec in
            if startStr = [] then
              (case parse_int endStr of
                 (suffixLen, err) \<Rightarrow>
                   if err \<noteq> None \<or> suffixLen \<le> 0 then None
                   else (let start = i64 (fileSize - suffixLen) in
                         Some (if start < 0 then 0 else start, i64 (fileSize - 1))))
            else
              (case parse_int startStr of
                 (start, err) \<Rightarrow>
                   if err \<noteq> None then None
                   else if endStr = [] then Some (start, i64 (fileSize - 1))
                   else (case parse_int endStr of
                           (end, err2) \<Rightarrow> if err2 \<noteq> None then None else Some (start, end))))))"

definition parseRangeHeader :: "string \<Rightarrow> int \<Rightarrow> (int \<times> int) option" where
  "parseRangeHeader hdr fileSize =
     (case range_bounds hdr fileSize of
        None \<Rightarrow> None
      | Some (start, end) \<Rightarrow>
          if start < 0 \<or> fileSize \<le> start \<or> end < start then None
          else Some (start, if fileSize \<le> end then i64 (fileSize - 1) else end))"

section \<open>Streaming\<close>

text \<open>
  The download call as the gateway sees it: it may fail to start; the frames arrive in order, perhaps
  not all of them, and an end that is not the server's is an error.
\<close>

definition call_DownloadFile ::
  "env \<Rightarrow> gateway \<Rightarrow> string list \<Rightarrow> world \<Rightarrow> (byte list list \<times> go_error option) result \<times> world" where
  "call_DownloadFile e g hashes w =
     (case ext e (\<lambda>v. (Inr () :: unit result, v)) w of
        (Inl err, w1) \<Rightarrow> (Inl err, w1)
      | (Inr _, w1) \<Rightarrow>
          (case DownloadFile e (fs_store (gw_files g)) hashes w1 of
             (status, frames, w2) \<Rightarrow>
               (let got = rows e (calls w2) frames in
                (Inr (map df_data got, if length got < length frames then Some ''rpc error: code = Unavailable'' else status),
                 tick w2))))"

text \<open>\<^verbatim>\<open>c.Writer.Write\<close>: the client may be gone.  The result says whether all was written.\<close>

fun write_all :: "env \<Rightarrow> byte list list \<Rightarrow> world \<Rightarrow> bool \<times> byte list \<times> world" where
  "write_all e [] w = (True, [], w)"
| "write_all e (d # ds) w =
     (case ext e (\<lambda>v. (Inr () :: unit result, v)) w of
        (Inl _, w1) \<Rightarrow> (False, [], w1)
      | (Inr _, w1) \<Rightarrow> (case write_all e ds w1 of (ok, bs, w2) \<Rightarrow> (ok, d @ bs, w2)))"

text \<open>
  What the loop over one chunk of a range writes, frame by frame: bytes before \<^verbatim>\<open>SkipBytes\<close> are dropped,
  the rest is cut to what remains of \<^verbatim>\<open>ReadBytes\<close>.  \<open>None\<close> is the panic of a slice with a negative bound.
  The numbers count bytes of one chunk and cannot overflow.
\<close>

fun range_pieces :: "int \<Rightarrow> int \<Rightarrow> int \<Rightarrow> byte list list \<Rightarrow> byte list list option" where
  "range_pieces skip rd bytesRead [] = Some []"
| "range_pieces skip rd bytesRead (d # ds) =
     (let s = (if bytesRead < skip then skip - bytesRead else 0) in
      if bytesRead < skip \<and> int (length d) \<le> s then range_pieces skip rd (bytesRead + int (length d)) ds
      else
        (let data = drop (nat s) d;
             remaining = rd - (bytesRead + s - skip)
         in
         if remaining < 0 then None
         else
           (let piece = (if remaining < int (length data) then take (nat remaining) data else data);
                bytesRead' = bytesRead + s + int (length piece)
            in if rd \<le> bytesRead' - skip then Some [piece]
               else map_option (Cons piece) (range_pieces skip rd bytesRead' ds))))"

text \<open>The chunks of a plan one after the other: a call that does not start ends the answer, a stream that
  breaks only ends its chunk.  The flag says that the code panicked.\<close>

fun range_stream :: "env \<Rightarrow> gateway \<Rightarrow> range_chunk list \<Rightarrow> world \<Rightarrow> byte list \<times> bool \<times> world" where
  "range_stream e g [] w = ([], False, w)"
| "range_stream e g (k # ks) w =
     (case call_DownloadFile e g [rc_hash k] w of
        (Inl _, w1) \<Rightarrow> ([], False, w1)
      | (Inr (frames, _), w1) \<Rightarrow>
          (case range_pieces (rc_skip k) (rc_read k) 0 frames of
             None \<Rightarrow> ([], True, w1)
           | Some ps \<Rightarrow>
               (case write_all e ps w1 of
                  (False, bs, w2) \<Rightarrow> (bs, False, w2)
                | (True, bs, w2) \<Rightarrow>
                    (case range_stream e g ks w2 of (bs', p, w3) \<Rightarrow> (bs @ bs', p, w3)))))"

section \<open>Download\<close>

definition bytes_answer :: "int \<Rightarrow> (string \<times> string) list \<Rightarrow> byte list \<Rightarrow> response" where
  "bytes_answer status hs bs = \<lparr>rs_status = status, rs_headers = hs, rs_body = BBytes bs\<rparr>"

text \<open>\<^verbatim>\<open>gin.Recovery\<close>: status 500 unless the first byte went out before the panic.\<close>

definition recovered :: "int \<Rightarrow> (string \<times> string) list \<Rightarrow> byte list \<Rightarrow> response" where
  "recovered status hs bs = bytes_answer (if bs = [] then 500 else status) hs bs"

definition range_answer ::
  "env \<Rightarrow> gateway \<Rightarrow> (string \<times> string) list \<Rightarrow> range_result \<Rightarrow> world \<Rightarrow> (response \<times> world) option" where
  "range_answer e g hs r w =
     (let hs' = hs @ [(''Content-Range'', ''bytes '' @ itoa (rr_start r) @ ''-'' @ itoa (rr_end r) @ ''/'' @ itoa (rr_file_size r)),
                      (''Content-Length'', itoa (rr_content_len r))]
      in case range_stream e g (rr_plan r) w of
           (bs, panicked, w1) \<Rightarrow> Some (if panicked then recovered 206 hs' bs else bytes_answer 206 hs' bs, w1))"

definition download_headers :: "string \<Rightarrow> string \<Rightarrow> (string \<times> string) list" where
  "download_headers name mime =
     [(''Accept-Ranges'', ''bytes''),
      (''Content-Type'', if mime = [] then ''application/octet-stream'' else mime),
      (''Content-Disposition'', ''attachment; filename='' @ [CHR 0x22] @ name @ [CHR 0x22])]"

definition downloadHandler :: "env \<Rightarrow> gateway \<Rightarrow> handler" where
  "downloadHandler e g c w =
     (let userID = GetUserID c; fileID = param (cx_req c) ''id'' in
      case PrepareDownload e userID fileID w of
        (Inl err, w1) \<Rightarrow> answer c (NewInternal err) w1
      | (Inr None, w1) \<Rightarrow> answer c file_not_found w1
      | (Inr (Some result), w1) \<Rightarrow>
          (let hs = download_headers (dr_name result) (dr_mime result); rangeHeader = header (cx_req c) ''Range'' in
           if rangeHeader \<noteq> [] then
             (case parseRangeHeader rangeHeader (dr_size result) of
                None \<Rightarrow>
                  Some (\<lparr>rs_status = 416, rs_headers = hs @ [(''Content-Range'', ''bytes */'' @ itoa (dr_size result))],
                         rs_body = BNone\<rparr>, w1)
              | Some (rangeStart, rangeEnd) \<Rightarrow>
                  (case PrepareRangeDownload e userID fileID rangeStart rangeEnd w1 of
                     (Inl err, w2) \<Rightarrow> Some (with_headers hs (fail_json c (NewInternal err)), w2)
                   | (Inr None, w2) \<Rightarrow> Some (recovered 200 hs [], w2)
                   | (Inr (Some r), w2) \<Rightarrow> range_answer e g hs r w2))
           else
             (let hs' = hs @ [(''Content-Length'', itoa (dr_size result))] in
              case call_DownloadFile e g (dr_hashes result) w1 of
                (Inl err, w2) \<Rightarrow> Some (with_headers hs' (fail_json c (NewInternal err)), w2)
              | (Inr (frames, _), w2) \<Rightarrow>
                  (case write_all e frames w2 of
                     (_, bs, w3) \<Rightarrow> Some (bytes_answer 200 hs' bs, w3)))))"

section \<open>What the Range header selects\<close>

text \<open>
  C21: a range the gateway accepts lies within the file, whatever the header says: the start is not
  negative, the end not before the start, and the end is before the file's size.
\<close>

theorem parseRangeHeader_bounds:
  assumes "parseRangeHeader hdr n = Some (a, b)" "in_i64 n"
  shows "0 \<le> a \<and> a \<le> b \<and> b < n"
proof -
  obtain x b0 where "range_bounds hdr n = Some (x, b0)"
    using assms(1) by (auto simp: parseRangeHeader_def split: option.splits)
  with assms(1) have b0: "0 \<le> a" "a < n" "a \<le> b0" "b = (if n \<le> b0 then i64 (n - 1) else b0)"
    by (auto simp: parseRangeHeader_def split: if_splits)
  moreover have "i64 (n - 1) = n - 1"
    using assms(2) b0(1,2) by (intro i64_id) (auto simp: in_i64_def)
  ultimately show ?thesis by (auto split: if_splits)
qed

lemma digits_no_dash: "CHR ''-'' \<notin> set (nat_digits n)"
  using nat_digits_are_digits [of "CHR ''-''" n] by (auto simp: is_digit_def)

lemma itoa_nonneg: "0 \<le> n \<Longrightarrow> CHR ''-'' \<notin> set (itoa n) \<and> itoa n \<noteq> []"
  using digits_no_dash by (simp add: itoa_def)

lemma takeWhile_dash:
  "CHR ''-'' \<notin> set s \<Longrightarrow> takeWhile (\<lambda>ch. ch \<noteq> CHR ''-'') (s @ CHR ''-'' # t) = s"
  by (induction s) auto

lemma range_bounds_spec:
  assumes "CHR ''-'' \<notin> set s" "s @ t \<noteq> []"
  shows "range_bounds (''bytes='' @ s @ CHR ''-'' # t) n =
     (if s = [] then
        (if snd (parse_int t) \<noteq> None \<or> fst (parse_int t) \<le> 0 then None
         else Some (if i64 (n - fst (parse_int t)) < 0 then 0 else i64 (n - fst (parse_int t)), i64 (n - 1)))
      else if snd (parse_int s) \<noteq> None then None
      else if t = [] then Some (fst (parse_int s), i64 (n - 1))
      else if snd (parse_int t) \<noteq> None then None else Some (fst (parse_int s), fst (parse_int t)))"
proof -
  have "\<not> length (''bytes='' @ s @ CHR ''-'' # t) < 7" "take 6 (''bytes='' @ s @ CHR ''-'' # t) = ''bytes=''"
    "drop 6 (''bytes='' @ s @ CHR ''-'' # t) = s @ CHR ''-'' # t" by simp_all
  then show ?thesis
    unfolding range_bounds_def Let_def using takeWhile_dash [OF assms(1), of t]
    by (simp add: case_prod_beta del: append_assoc)
qed

lemma range_bounds_itoa:
  assumes "0 \<le> a" "in_i64 a" "0 \<le> b" "in_i64 b"
  shows "range_bounds (''bytes='' @ itoa a @ ''-'' @ itoa b) n = Some (a, b)"
    and "range_bounds (''bytes='' @ itoa a @ ''-'') n = Some (a, i64 (n - 1))"
    and "0 < b \<Longrightarrow> range_bounds (''bytes=-'' @ itoa b) n = Some (if i64 (n - b) < 0 then 0 else i64 (n - b), i64 (n - 1))"
  using range_bounds_spec [of "itoa a" "itoa b" n] range_bounds_spec [of "itoa a" "[]" n]
    range_bounds_spec [of "[]" "itoa b" n] itoa_nonneg [OF assms(1)] itoa_nonneg [OF assms(3)]
    parse_int_itoa [OF assms(2)] parse_int_itoa [OF assms(4)]
  by simp_all

theorem parseRangeHeader_bounds_witness:
  "parseRangeHeader (''bytes='' @ itoa 2 @ ''-'' @ itoa 99) 10 = Some (2, 9) \<and>
   (0::int) \<le> 2 \<and> (2::int) \<le> 9 \<and> (9::int) < 10"
proof -
  have r: "parseRangeHeader (''bytes='' @ itoa 2 @ ''-'' @ itoa 99) 10 = Some (2, 9)"
    using range_bounds_itoa(1) [of 2 99 10] by (simp add: parseRangeHeader_def in_i64_def)
  show ?thesis using parseRangeHeader_bounds [OF r] r by (simp add: in_i64_def)
qed

text \<open>
  Every form of the header means what RFC 7233 says: \<^verbatim>\<open>bytes=a-b\<close>, \<^verbatim>\<open>bytes=a-\<close> and \<^verbatim>\<open>bytes=-k\<close>
  of a file of \<open>n\<close> bytes select from \<open>a\<close> to \<open>b\<close>, from \<open>a\<close> to the end, and the last \<open>k\<close> bytes.
\<close>

theorem parseRangeHeader_forms:
  assumes "0 \<le> a" "a \<le> b" "b < n" "0 < k" "k \<le> n" "in_i64 n"
  shows "parseRangeHeader (''bytes='' @ itoa a @ ''-'' @ itoa b) n = Some (a, b) \<and>
         parseRangeHeader (''bytes='' @ itoa a @ ''-'') n = Some (a, n - 1) \<and>
         parseRangeHeader (''bytes=-'' @ itoa k) n = Some (n - k, n - 1)"
proof -
  have i: "in_i64 a" "in_i64 b" "in_i64 k" "i64 (n - 1) = n - 1" "i64 (n - k) = n - k"
    using assms by (auto simp: in_i64_def intro!: i64_id)
  show ?thesis
    unfolding parseRangeHeader_def
    using range_bounds_itoa [of a b n] range_bounds_itoa(3) [of a k n] i assms by simp
qed

theorem parseRangeHeader_forms_witness:
  "parseRangeHeader (''bytes=-'' @ itoa 3) 10 = Some (7, 9)"
  using parseRangeHeader_forms [of 0 1 10 3] by (simp add: in_i64_def)

section \<open>What a download writes\<close>

lemma range_pieces_content:
  assumes "0 \<le> br" "0 \<le> skip" "max 0 (br - skip) < rd"
  shows "\<exists>ps. range_pieces skip rd br ds = Some ps \<and>
    concat ps = take (nat (rd - max 0 (br - skip))) (drop (nat (skip - br)) (concat ds))"
  using assms
proof (induction ds arbitrary: br)
  case (Cons d ds)
  define s where "s = (if br < skip then skip - br else 0)"
  show ?case
  proof (cases "br < skip \<and> int (length d) \<le> s")
    case True
    then have z: "max 0 (br + int (length d) - skip) = 0" "max 0 (br - skip) = 0" by (auto simp: s_def)
    have n: "nat (skip - br) = length d + nat (skip - (br + int (length d)))" using True by (auto simp: s_def)
    have t: "br < skip" "int (length d) \<le> skip - br" using True by (auto simp: s_def)
    have "range_pieces skip rd br (d # ds) = range_pieces skip rd (br + int (length d)) ds"
      by (simp only: range_pieces.simps Let_def t simp_thms if_True)
    then show ?thesis
      using Cons.IH [of "br + int (length d)"] Cons.prems unfolding z n by simp
  next
    case False
    let ?data = "drop (nat s) d" and ?rem = "rd - (br + s - skip)"
    have m: "br + s - skip = max 0 (br - skip)" "nat (skip - br) = nat s" "nat s \<le> length d" "0 \<le> s"
      using False by (auto simp: s_def)
    have rem: "0 < ?rem" using Cons.prems(3) m(1) by simp
    define piece where "piece = (if ?rem < int (length ?data) then take (nat ?rem) ?data else ?data)"
    have f: "(br < skip \<and> int (length d) \<le> s) = False" using False by simp
    have step: "range_pieces skip rd br (d # ds) =
        (if rd \<le> br + s + int (length piece) - skip then Some [piece]
         else map_option (Cons piece) (range_pieces skip rd (br + s + int (length piece)) ds))"
      unfolding range_pieces.simps Let_def s_def [symmetric] f if_False piece_def [symmetric] using rem by simp
    have target: "take (nat (rd - max 0 (br - skip))) (drop (nat (skip - br)) (concat (d # ds))) =
        take (nat ?rem) (?data @ concat ds)"
      using m by simp
    show ?thesis
    proof (cases "rd \<le> br + s + int (length piece) - skip")
      case stop: True
      then have "nat ?rem \<le> length ?data" using rem by (auto simp: piece_def split: if_splits)
      moreover have "piece = take (nat ?rem) ?data" using rem by (auto simp: piece_def)
      ultimately show ?thesis unfolding step target using stop by simp
    next
      case go: False
      have "\<not> ?rem < int (length ?data)"
      proof
        assume less: "?rem < int (length ?data)"
        then have "length piece = nat ?rem" by (simp add: piece_def)
        then show False using go rem by simp
      qed
      then have p: "piece = ?data" by (simp add: piece_def)
      have "0 \<le> br + s + int (length piece) - skip" using m(1) by linarith
      then obtain ps where ps: "range_pieces skip rd (br + s + int (length piece)) ds = Some ps"
          "concat ps = take (nat (rd - (br + s + int (length piece) - skip))) (concat ds)"
        using Cons.IH [of "br + s + int (length piece)"] Cons.prems(1,2) m(4) go by auto
      have "take (nat ?rem) (?data @ concat ds) = ?data @ take (nat ?rem - length ?data) (concat ds)"
        using go p rem by (simp add: take_append)
      moreover have "nat ?rem - length ?data = nat (rd - (br + s + int (length piece) - skip))"
        unfolding p by linarith
      ultimately show ?thesis unfolding step target using go ps p by simp
    qed
  qed
qed simp

lemma write_all_fault_free:
  "fault_free e \<Longrightarrow> \<exists>w'. write_all e ds w = (True, concat ds, w') \<and> durable w' = durable w"
proof (induction ds arbitrary: w)
  case (Cons d ds)
  from Cons.IH [OF Cons.prems, of "w\<lparr>calls := Suc (calls w)\<rparr>"] show ?case
    using Cons.prems by (auto simp: ext_fault_free)
qed simp

lemma call_DownloadFile_fault_free:
  assumes "fault_free e" "hs \<noteq> []" "\<And>h. h \<in> set hs \<Longrightarrow> stored (fs_store (gw_files g)) w h = Some (obj h)"
  shows "\<exists>frames r w'. call_DownloadFile e g hs w = (Inr (frames, r), w') \<and>
    concat frames = concat (map obj hs) \<and> stored (fs_store (gw_files g)) w' = stored (fs_store (gw_files g)) w"
proof -
  let ?s = "fs_store (gw_files g)" and ?w1 = "w\<lparr>calls := Suc (calls w)\<rparr>"
  have st: "stored ?s ?w1 = stored ?s w" by (rule stored_durable) simp
  obtain r frames w2 where d: "DownloadFile e ?s hs ?w1 = (r, frames, w2)" by (metis prod_cases3)
  have "r = None" using DownloadFile_fault_free [OF assms(1,2), of ?s ?w1] assms(3) d st by simp
  with d have ok: "concat (map df_data frames) = concat (map (\<lambda>h. the (stored ?s ?w1 h)) hs)" "stored ?s w2 = stored ?s ?w1"
    using DownloadFile_ok [of e ?s hs ?w1 frames w2] assms(1) by auto
  have "map (\<lambda>h. the (stored ?s ?w1 h)) hs = map obj hs" using assms(3) st by simp
  with ok(1) have "concat (map df_data frames) = concat (map obj hs)" by (simp only:)
  moreover have "stored ?s (tick w2) = stored ?s w2" by (rule stored_durable) simp
  ultimately show ?thesis
    using ok(2) st d by (simp add: call_DownloadFile_def ext_fault_free [OF assms(1)] Let_def assms(1))
qed

lemma range_stream_fault_free:
  assumes "fault_free e" "\<And>k. k \<in> set ks \<Longrightarrow> 0 \<le> rc_skip k \<and> 0 < rc_read k"
    and "\<And>k. k \<in> set ks \<Longrightarrow> stored (fs_store (gw_files g)) w (rc_hash k) = Some (obj (rc_hash k))"
  shows "\<exists>w'. range_stream e g ks w = (plan_bytes obj ks, False, w')"
  using assms(2,3)
proof (induction ks arbitrary: w)
  case (Cons k ks)
  let ?s = "fs_store (gw_files g)"
  obtain frames r w1 where d: "call_DownloadFile e g [rc_hash k] w = (Inr (frames, r), w1)"
      "concat frames = obj (rc_hash k)" "stored ?s w1 = stored ?s w"
    using call_DownloadFile_fault_free [OF assms(1), of "[rc_hash k]" g w obj] Cons.prems(2) by auto
  obtain ps where ps: "range_pieces (rc_skip k) (rc_read k) 0 frames = Some ps"
      "concat ps = take (nat (rc_read k)) (drop (nat (rc_skip k)) (concat frames))"
    using range_pieces_content [of 0 "rc_skip k" "rc_read k" frames] Cons.prems(1) by auto
  obtain w2 where w2: "write_all e ps w1 = (True, concat ps, w2)" "durable w2 = durable w1"
    using write_all_fault_free [OF assms(1), of ps w1] by blast
  have "\<exists>w'. range_stream e g ks w2 = (plan_bytes obj ks, False, w')"
    using Cons.prems d(3) stored_durable [OF w2(2), of ?s] by (intro Cons.IH) auto
  then show ?case using d ps w2 by auto
qed simp

section \<open>Serving a file\<close>

text \<open>A file the user owns, and no cached copy of its row or manifest.\<close>

definition serves_from_db :: "string \<Rightarrow> file_row \<Rightarrow> world \<Rightarrow> bool" where
  "serves_from_db userID f w \<longleftrightarrow>
     f \<in> set (files w) \<and> distinct (map f_id (files w)) \<and> f_user f = userID \<and> f_status f = FileStatusActive \<and>
     redis w (file_key (f_id f)) = None \<and> redis w (manifest_key (f_id f)) = None"

lemma first_row_unique:
  assumes "f \<in> set fs" "P f" "\<And>g. g \<in> set fs \<Longrightarrow> P g \<Longrightarrow> g = f"
  shows "first_row P fs = Some f"
proof (cases "first_row P fs")
  case None
  then show ?thesis using assms(1,2) by (auto simp: first_row_None)
next
  case (Some g)
  then show ?thesis using assms(3) first_row_Some [OF Some] by simp
qed

lemma find_active:
  assumes "f \<in> set fs" "distinct (map f_id fs)" "f_user f = u" "f_status f = FileStatusActive"
  shows "first_row (\<lambda>g. f_id g = f_id f \<and> f_user g = u \<and> f_status g = FileStatusActive) fs = Some f"
proof (rule first_row_unique [OF assms(1)])
  show "g = f" if "g \<in> set fs" "f_id g = f_id f \<and> f_user g = u \<and> f_status g = FileStatusActive" for g
    using that assms(1,2) by (metis distinct_map inj_onD)
qed (use assms(3,4) in auto)

lemma keys_differ [simp]: "file_key a \<noteq> manifest_key b" "manifest_key b \<noteq> file_key a"
  by (simp_all add: file_key_def manifest_key_def)

lemma cache_miss: "fault_free e \<Longrightarrow> redis w k = None \<Longrightarrow>
    cache_Get e k w = (Inl ''redis: nil'', w\<lparr>calls := Suc (calls w)\<rparr>)"
  by (simp add: cache_Get_def ext_fault_free live_def)

lemma GetFileByID_finds:
  assumes "fault_free e" "f \<in> set (files w)" "distinct (map f_id (files w))" "f_user f = u" "f_status f = FileStatusActive"
  shows "GetFileByID e u (f_id f) w = (Inr (Some f), w\<lparr>calls := Suc (calls w)\<rparr>)"
  using find_active [OF assms(2-5)] assms(1) by (simp add: GetFileByID_def with_err_def)

lemma GetFile_finds:
  assumes "fault_free e" "serves_from_db u f w"
  shows "\<exists>w'. GetFile e u (f_id f) w = (Inr (Some f), w') \<and> durable w' = durable w \<and>
    redis w' (manifest_key (f_id f)) = None"
  using assms GetFileByID_finds [OF assms(1), of f "w\<lparr>calls := Suc (calls w)\<rparr>" u]
  by (auto simp: serves_from_db_def GetFile_def cache_miss Let_def cache_Set_def ext_fault_free)

text \<open>The cache of a manifest holds it or nothing; whether an entry has expired does not matter.\<close>

definition manifest_fresh :: "string \<Rightarrow> world \<Rightarrow> bool" where
  "manifest_fresh fid w \<longleftrightarrow>
     redis w (manifest_key fid) = None \<or>
     (\<exists>t. redis w (manifest_key fid) = Some (RStr (JManifest (mrows w fid)), t))"

lemma cache_Get_read:
  assumes "fault_free e"
  shows "cache_Get e k w = (case live (now_at e (Suc (calls w))) (redis w) k of
           None \<Rightarrow> Inl ''redis: nil'' | Some (RStr d) \<Rightarrow> Inr d | Some _ \<Rightarrow> Inl ''WRONGTYPE'', w\<lparr>calls := Suc (calls w)\<rparr>)"
  using assms by (auto simp: cache_Get_def ext_fault_free split: option.splits rval.splits)

lemma getManifestCached_finds:
  assumes "fault_free e" "manifest_fresh fid w"
  shows "\<exists>w'. getManifestCached e fid w = (Inr (mrows w fid), w') \<and> durable w' = durable w \<and> manifest_fresh fid w'"
proof (cases "live (now_at e (Suc (calls w))) (redis w) (manifest_key fid)")
  case None
  then have "cache_Get e (manifest_key fid) w = (Inl ''redis: nil'', w\<lparr>calls := Suc (calls w)\<rparr>)"
    by (simp add: cache_Get_read [OF assms(1)])
  then show ?thesis
    using assms(1)
    by (auto simp: getManifestCached_def GetManifest_def with_err_def cache_Set_def ext_fault_free manifest_fresh_def)
next
  case (Some v)
  then have v: "v = RStr (JManifest (mrows w fid))"
    using assms(2) by (auto simp: manifest_fresh_def live_def split: option.splits if_splits)
  then have "cache_Get e (manifest_key fid) w = (Inr (JManifest (mrows w fid)), w\<lparr>calls := Suc (calls w)\<rparr>)"
    using Some by (simp add: cache_Get_read [OF assms(1)])
  then show ?thesis using assms(2) by (simp add: getManifestCached_def manifest_fresh_def)
qed

lemma mrows_durable: "durable w' = durable w \<Longrightarrow> mrows w' fid = mrows w fid"
  using durable_eqD [of w' w] by simp

lemma PrepareDownload_finds:
  assumes "fault_free e" "serves_from_db u f w"
  shows "\<exists>w'. PrepareDownload e u (f_id f) w =
      (Inr (Some \<lparr>dr_name = f_name f, dr_mime = mime_of f, dr_size = f_size f,
                  dr_hashes = map me_hash (mrows w (f_id f))\<rparr>), w') \<and>
      durable w' = durable w \<and> manifest_fresh (f_id f) w'"
proof -
  obtain w1 where w1: "GetFile e u (f_id f) w = (Inr (Some f), w1)" "durable w1 = durable w"
      "redis w1 (manifest_key (f_id f)) = None"
    using GetFile_finds [OF assms] by blast
  then have "manifest_fresh (f_id f) w1" by (simp add: manifest_fresh_def)
  then obtain w2 where "getManifestCached e (f_id f) w1 = (Inr (mrows w1 (f_id f)), w2)" "durable w2 = durable w1"
      "manifest_fresh (f_id f) w2"
    using getManifestCached_finds [OF assms(1)] by blast
  then show ?thesis using w1 mrows_durable [OF w1(2)] by (simp add: PrepareDownload_def)
qed

lemma PrepareRangeDownload_finds:
  assumes "fault_free e" "f \<in> set (files w)" "distinct (map f_id (files w))" "f_user f = u" "f_status f = FileStatusActive"
    and "manifest_fresh (f_id f) w" "0 \<le> a" "a \<le> b" "b < f_size f" "in_i64 (f_size f)"
  shows "\<exists>w'. PrepareRangeDownload e u (f_id f) a b w =
      (Inr (Some \<lparr>rr_name = f_name f, rr_mime = mime_of f, rr_file_size = f_size f, rr_start = a, rr_end = b,
                  rr_content_len = b - a + 1, rr_plan = plan_range a b (mrows w (f_id f))\<rparr>), w') \<and>
      durable w' = durable w"
proof -
  let ?w1 = "w\<lparr>calls := Suc (calls w)\<rparr>"
  have g: "GetFileByID e u (f_id f) w = (Inr (Some f), ?w1)" using GetFileByID_finds [OF assms(1-5)] .
  have "manifest_fresh (f_id f) ?w1" using assms(6) by (simp add: manifest_fresh_def)
  then obtain w2 where w2: "getManifestCached e (f_id f) ?w1 = (Inr (mrows ?w1 (f_id f)), w2)" "durable w2 = durable ?w1"
    using getManifestCached_finds [OF assms(1)] by blast
  have i: "i64 (b - a) = b - a" "i64 (b - a + 1) = b - a + 1"
    using assms(7-10) by (auto simp: in_i64_def intro!: i64_id)
  have "clamp_range (f_size f) a b = (a, b)" using assms(7-9) by (simp add: clamp_range_def)
  then show ?thesis using g w2 i assms(8) by (simp add: PrepareRangeDownload_def)
qed


lemma plan_entries:
  assumes "lies_over ms ds off" "0 \<le> off" "0 \<le> a" "a \<le> b" "b \<le> max_exact"
    and "off + int (length (concat ds)) \<le> max_exact" "[] \<notin> set ds" "k \<in> set (plan_range a b ms)"
  shows "rc_hash k \<in> SHA256Hash ` set ds \<and> 0 \<le> rc_skip k \<and> 0 < rc_read k"
  using assms(1,2,6-8)
proof (induction ms ds off rule: lies_over.induct)
  case (2 m ms d ds off)
  have m: "me_offset m = off" "me_size m = int (length d)" "me_hash m = SHA256Hash d" "1 \<le> length d"
    using "2.prems" by (auto simp: Suc_le_eq)
  have len: "off + int (length d) \<le> max_exact" using "2.prems" by simp
  have small: "in_i64 x" if "- max_exact \<le> x" "x \<le> 2 * max_exact" for x
    using that by (intro in_i64I) auto
  have ce: "i64 (i64 (off + int (length d)) - 1) = off + int (length d) - 1"
    using small [of "off + int (length d)"] small [of "off + int (length d) - 1"] "2.prems" len by simp
  have tail: "rc_hash k \<in> SHA256Hash ` set (d # ds) \<and> 0 \<le> rc_skip k \<and> 0 < rc_read k" if "k \<in> set (plan_range a b ms)"
    using "2.IH" "2.prems" that by auto
  consider "off + int (length d) - 1 < a" | "\<not> off + int (length d) - 1 < a" "b < off"
    | "\<not> off + int (length d) - 1 < a" "\<not> b < off" by blast
  then show ?case
  proof cases
    case 3
    have f: "f64_of_int (off + int (length d) - 1) = off + int (length d) - 1" "f64_of_int b = b"
      using 3 assms(3-5) len "2.prems"(2) by (auto intro!: f64_of_int_exact)
    define skip where "skip = (if off < a then a - off else 0)"
    have skip: "(if off < a then i64 (a - off) else 0) = skip" "0 \<le> skip" "off + skip = max off a"
      using 3 assms(3-5) len "2.prems"(2) small [of "a - off"] by (auto simp: skip_def)
    define en where "en = min (off + int (length d) - 1) b"
    have en: "max off a \<le> en" "en \<le> max_exact" "i64 en = en"
      using 3 assms(3-5) len "2.prems"(2) m(4) by (auto simp: en_def intro!: i64_id small)
    have rd: "i64 (i64 (en - i64 (off + skip)) + 1) = en - (off + skip) + 1"
      using small [of "off + skip"] small [of "en - (off + skip)"] small [of "en - (off + skip) + 1"] skip en
        assms(3) "2.prems"(2) by simp
    have "k = \<lparr>rc_hash = SHA256Hash d, rc_skip = skip, rc_read = en - (off + skip) + 1\<rparr> \<or> k \<in> set (plan_range a b ms)"
      using "2.prems"(5) 3 by (simp add: m ce f skip(1) rd Let_def en(3) flip: en_def)
    then show ?thesis using tail skip en by auto
  qed (use "2.prems"(5) tail in \<open>auto simp: m ce Let_def\<close>)
qed simp_all


section \<open>Witnesses\<close>


definition demo_file :: file_row where
  "demo_file =
     \<lparr>f_id = ''f'', f_user = ''u'', f_parent = None, f_name = ''a'', f_is_dir = False, f_size = 3, f_mime = None,
      f_checksum = None, f_version = 1, f_status = FileStatusActive, f_created = 0, f_updated = 0\<rparr>"

definition demo_stored :: world where
  "demo_stored = empty_world\<lparr>users := [demo_user], files := [demo_file],
     chunks := [\<lparr>c_id = ''c'', c_hash = SHA256Hash [1, 2, 3], c_size = 3, c_refs = 1, c_nodes = [], c_bucket = [],
                 c_key = [], c_status = ChunkStatusActive, c_created = 0\<rparr>],
     file_chunks := [\<lparr>fc_file = ''f'', fc_chunk = ''c'', fc_index = 0, fc_offset = 0\<rparr>],
     objects := [(st_bucket demo_store, chunkKey (SHA256Hash [1, 2, 3])) \<mapsto> [1, 2, 3]]\<rparr>"


end
