(* ===== verification/FolderApi.thy ===== *)
theory FolderApi
  imports FileApi
begin

text \<open>
  The API gateway, third part (\<^verbatim>\<open>cmd/api-gateway/handlers_phase6.go\<close>): versions, multipart uploads,
  folders and search.
\<close>

section \<open>Versions\<close>

definition listVersionsHandler :: "env \<Rightarrow> handler" where
  "listVersionsHandler e c w =
     (let userID = GetString c ''user_id'' in
      case GetFile e userID (param (cx_req c) ''id'') w of
        (Inl err, w1) \<Rightarrow> answer c (NewInternal err) w1
      | (Inr None, w1) \<Rightarrow> answer c file_not_found w1
      | (Inr (Some file), w1) \<Rightarrow>
          (case svc_ListVersions e userID (f_name file) (f_parent file) w1 of
             (Inl err, w2) \<Rightarrow> answer c (NewInternal err) w2
           | (Inr versions, w2) \<Rightarrow>
               reply 200 (JObj [(''file_name'', JStr (f_name file)), (''versions'', rows_json versions),
                                (''total'', JNum (int (length versions)))]) w2))"

text \<open>\<^verbatim>\<open>streamChunksToResponse\<close>: what could be streamed, with status 200 in any case.\<close>

definition streamChunksToResponse ::
  "env \<Rightarrow> gateway \<Rightarrow> (string \<times> string) list \<Rightarrow> string list \<Rightarrow> world \<Rightarrow> (response \<times> world) option" where
  "streamChunksToResponse e g hs hashes w =
     (case call_DownloadFile e g hashes w of
        (Inl _, w1) \<Rightarrow> Some (\<lparr>rs_status = 200, rs_headers = hs, rs_body = BNone\<rparr>, w1)
      | (Inr (frames, _), w1) \<Rightarrow>
          (case write_all e frames w1 of (_, bs, w2) \<Rightarrow> Some (bytes_answer 200 hs bs, w2)))"

definition with_version :: "ctx \<Rightarrow> (int \<Rightarrow> world \<Rightarrow> (response \<times> world) option) \<Rightarrow> world \<Rightarrow> (response \<times> world) option" where
  "with_version c k w =
     (case atoi (param (cx_req c) ''version'') of
        (_, Some _) \<Rightarrow> answer c (NewBadRequest ''Invalid version number'') w
      | (version, None) \<Rightarrow> k version w)"

definition downloadVersionHandler :: "env \<Rightarrow> gateway \<Rightarrow> handler" where
  "downloadVersionHandler e g c w =
     with_version c (\<lambda>version w.
       case DownloadVersion e (GetString c ''user_id'') (param (cx_req c) ''id'') version w of
         (Inl err, w1) \<Rightarrow> answer c (NewInternal err) w1
       | (Inr None, w1) \<Rightarrow> answer c (NewNotFound CodeFileNotFound ''Version not found'') w1
       | (Inr (Some result), w1) \<Rightarrow>
           streamChunksToResponse e g
             [(''Content-Disposition'', ''attachment; filename='' @ [CHR 0x22] @ dr_name result @ [CHR 0x22]),
              (''Content-Type'', dr_mime result), (''Content-Length'', itoa (dr_size result)),
              (''Accept-Ranges'', ''bytes'')]
             (dr_hashes result) w1) w"

definition deleteVersionHandler :: "env \<Rightarrow> handler" where
  "deleteVersionHandler e c w =
     with_version c (\<lambda>version w.
       case DeleteVersion e (GetString c ''user_id'') (param (cx_req c) ''id'') version w of
         (Inl err, w1) \<Rightarrow> answer c (NewInternal err) w1
       | (Inr _, w1) \<Rightarrow>
           reply 200 (JObj [(''message'', JStr (''Version '' @ itoa version @ '' deleted''))]) w1) w"

section \<open>Multipart uploads\<close>

definition invalid_input :: "ctx \<Rightarrow> go_error \<Rightarrow> world \<Rightarrow> (response \<times> world) option" where
  "invalid_input c err w = answer c (NewBadRequest (''Invalid input: '' @ err)) w"

definition multipartInitHandler :: "env \<Rightarrow> gateway \<Rightarrow> handler" where
  "multipartInitHandler e g c w =
     (case bind_body g '''' [''file_name'', ''mime_type''] c of
        Inl err \<Rightarrow> invalid_input c err w
      | Inr get \<Rightarrow>
          (let fileName = or_empty (get ''file_name''); mimeType = or_empty (get ''mime_type'') in
           case validate g [(''FileName'', [rule_required ''required''], fileName)] of
             Some err \<Rightarrow> invalid_input c err w
           | None \<Rightarrow>
               (case InitUpload e (GetString c ''user_id'') fileName mimeType w of
                  (Inl err, w1) \<Rightarrow> answer c (NewInternal err) w1
                | (Inr uploadID, w1) \<Rightarrow>
                    reply 201 (JObj [(''upload_id'', JStr uploadID),
                                     (''message'', JStr ''Multipart upload initialized. Upload parts using PUT.'')]) w1)))"

definition multipartUploadPartHandler :: "env \<Rightarrow> gateway \<Rightarrow> handler" where
  "multipartUploadPartHandler e g c w =
     (case atoi (param (cx_req c) ''partNum'') of
        (_, Some _) \<Rightarrow> answer c (NewBadRequest ''Invalid part number'') w
      | (partNum, None) \<Rightarrow>
          (case UploadPart e (gw_multipart g) (param (cx_req c) ''uploadId'') partNum (rq_body (cx_req c)) w of
             (Inl err, w1) \<Rightarrow> answer c (NewInternal err) w1
           | (Inr info, w1) \<Rightarrow> reply 200 (JObj [(''part_num'', JNum (p_num info)), (''size'', JNum (p_size info))]) w1))"

definition multipartCompleteHandler :: "env \<Rightarrow> gateway \<Rightarrow> upload_run \<Rightarrow> handler" where
  "multipartCompleteHandler e g server c w =
     (case CompleteUpload e (gw_multipart g) server (param (cx_req c) ''uploadId'') w of
        None \<Rightarrow> None
      | Some (Inl err, w1) \<Rightarrow> answer c (NewInternal err) w1
      | Some (Inr resp, w1) \<Rightarrow> reply 200 (upload_json resp) w1)"

definition multipartAbortHandler :: "env \<Rightarrow> gateway \<Rightarrow> handler" where
  "multipartAbortHandler e g c w =
     (case AbortUpload e (gw_multipart g) (param (cx_req c) ''uploadId'') (GetString c ''user_id'') w of
        (Inl err, w1) \<Rightarrow> answer c (NewInternal err) w1
      | (Inr _, w1) \<Rightarrow> reply 200 (JObj [(''message'', JStr ''Multipart upload aborted'')]) w1)"

section \<open>Folders\<close>

definition createFolderHandler :: "env \<Rightarrow> gateway \<Rightarrow> handler" where
  "createFolderHandler e g c w =
     (case bind_body g '''' [''name'', ''parent_id''] c of
        Inl err \<Rightarrow> invalid_input c err w
      | Inr get \<Rightarrow>
          (let name = or_empty (get ''name'') in
           case validate g [(''Name'', [rule_required ''required''], name)] of
             Some err \<Rightarrow> invalid_input c err w
           | None \<Rightarrow>
               (case CreateFolder e (GetString c ''user_id'') name (get ''parent_id'') w of
                  (Inl err, w1) \<Rightarrow> answer c (NewInternal err) w1
                | (Inr folder, w1) \<Rightarrow> reply 201 (file_json folder) w1)))"

text \<open>
  \<^verbatim>\<open>int(math.Ceil(float64(total) / float64(pageSize)))\<close>: below \<open>2^53\<close> the rounded quotient of two
  integers has the ceiling of the exact one; a page size of zero gives an infinity or \<^verbatim>\<open>NaN\<close>.
\<close>

definition total_pages_json :: "int \<Rightarrow> int \<Rightarrow> json" where
  "total_pages_json cnt page_size =
     (if page_size = 0 then JImplDef else JNum (- ((- f64_of_int cnt) div f64_of_int page_size)))"

definition folderContentsHandler :: "env \<Rightarrow> handler" where
  "folderContentsHandler e c w =
     (let page = query_int c ''page'' ''1''; page_size = query_int c ''page_size'' ''50'' in
      case ListFolderContents e (GetString c ''user_id'') (Some (param (cx_req c) ''id'')) page page_size w of
        (Inl err, w1) \<Rightarrow> answer c (NewInternal err) w1
      | (Inr (contents, cnt), w1) \<Rightarrow>
          reply 200 (JObj [(''contents'', rows_json contents), (''total'', JNum cnt), (''page'', JNum page),
                           (''page_size'', JNum page_size), (''total_pages'', total_pages_json cnt page_size)]) w1)"

definition moveFileHandler :: "env \<Rightarrow> gateway \<Rightarrow> handler" where
  "moveFileHandler e g c w =
     (case bind_body g '''' [''new_parent_id''] c of
        Inl err \<Rightarrow> invalid_input c err w
      | Inr get \<Rightarrow>
          (case svc_MoveFile e (GetString c ''user_id'') (param (cx_req c) ''id'') (get ''new_parent_id'') w of
             None \<Rightarrow> None
           | Some (Inl err, w1) \<Rightarrow> answer c (NewInternal err) w1
           | Some (Inr _, w1) \<Rightarrow> reply 200 (JObj [(''message'', JStr ''File moved successfully'')]) w1))"

definition deleteFolderHandler :: "env \<Rightarrow> handler" where
  "deleteFolderHandler e c w =
     (if query_get (cx_req c) ''confirm'' \<noteq> ''true''
      then answer c (NewBadRequest ''Folder delete requires ?confirm=true query param'') w
      else
        (case DeleteFolder e (GetString c ''user_id'') (param (cx_req c) ''id'') w of
           None \<Rightarrow> None
         | Some (Inl err, w1) \<Rightarrow> answer c (NewInternal err) w1
         | Some (Inr _, w1) \<Rightarrow> reply 200 (JObj [(''message'', JStr ''Folder deleted recursively'')]) w1))"

section \<open>Search\<close>

text \<open>An unreadable size counts as the value the parser leaves; an unreadable time as no bound.\<close>

definition search_args :: "gateway \<Rightarrow> ctx \<Rightarrow> search_query" where
  "search_args g c =
     (let q = query_get (cx_req c);
          num = (\<lambda>name. if q name = [] then None else Some (fst (parse_int (q name))));
          time = (\<lambda>name. if q name = [] then None else gw_time g (q name))
      in \<lparr>sq_query = q ''q'', sq_mime = q ''type'', sq_min = num ''min_size'', sq_max = num ''max_size'',
          sq_after = time ''after'', sq_before = time ''before'', sq_page = query_int c ''page'' ''1'',
          sq_page_size = query_int c ''page_size'' ''20''\<rparr>)"

definition searchHandler :: "env \<Rightarrow> gateway \<Rightarrow> handler" where
  "searchHandler e g c w =
     (case svc_Search e (GetString c ''user_id'') (search_args g c) w of
        (Inl err, q, w1) \<Rightarrow> answer c (NewInternal err) w1
      | (Inr (fs, cnt), q, w1) \<Rightarrow>
          reply 200 (JObj [(''results'', rows_json fs), (''total'', JNum cnt), (''page'', JNum (sq_page q)),
                           (''page_size'', JNum (sq_page_size q)),
                           (''total_pages'', total_pages_json cnt (sq_page_size q))]) w1)"

section \<open>The router\<close>

text \<open>
  The routes of \<^verbatim>\<open>main\<close>, by method and pattern.  The path matching is the framework's: a request
  comes with its pattern (\<^verbatim>\<open>c.FullPath()\<close>) and parameters.
\<close>

datatype access = Public | Accounts | Protected | Admin

definition routes :: "env \<Rightarrow> gateway \<Rightarrow> upload_run \<Rightarrow> ((string \<times> string) \<times> access \<times> handler) list" where
  "routes e g server =
     [((''GET'', ''/health''), Public, healthHandler g),
      ((''GET'', ''/ready''), Public, readinessHandler e),
      ((''GET'', ''/docs''), Public, docsHandler g),
      ((''GET'', ''/openapi.yaml''), Public, openAPISpecHandler g),
      ((''POST'', ''/api/v1/auth/register''), Accounts, registerHandler e g),
      ((''POST'', ''/api/v1/auth/login''), Accounts, loginHandler e g),
      ((''POST'', ''/api/v1/auth/refresh''), Accounts, refreshHandler e g),
      ((''POST'', ''/api/v1/files/upload''), Protected, uploadHandler e g server),
      ((''GET'', ''/api/v1/files''), Protected, listFilesHandler e),
      ((''GET'', ''/api/v1/files/:id''), Protected, getFileHandler e),
      ((''GET'', ''/api/v1/files/:id/download''), Protected, downloadHandler e g),
      ((''DELETE'', ''/api/v1/files/:id''), Protected, deleteFileHandler e g),
      ((''GET'', ''/api/v1/files/:id/versions''), Protected, listVersionsHandler e),
      ((''GET'', ''/api/v1/files/:id/versions/:version/download''), Protected, downloadVersionHandler e g),
      ((''DELETE'', ''/api/v1/files/:id/versions/:version''), Protected, deleteVersionHandler e),
      ((''POST'', ''/api/v1/files/upload/multipart/init''), Protected, multipartInitHandler e g),
      ((''PUT'', ''/api/v1/files/upload/multipart/:uploadId/part/:partNum''), Protected, multipartUploadPartHandler e g),
      ((''POST'', ''/api/v1/files/upload/multipart/:uploadId/complete''), Protected, multipartCompleteHandler e g server),
      ((''DELETE'', ''/api/v1/files/upload/multipart/:uploadId''), Protected, multipartAbortHandler e g),
      ((''POST'', ''/api/v1/folders''), Protected, createFolderHandler e g),
      ((''GET'', ''/api/v1/folders/:id/contents''), Protected, folderContentsHandler e),
      ((''PUT'', ''/api/v1/files/:id/move''), Protected, moveFileHandler e g),
      ((''DELETE'', ''/api/v1/folders/:id''), Protected, deleteFolderHandler e),
      ((''GET'', ''/api/v1/search''), Protected, searchHandler e g),
      ((''GET'', ''/api/v1/storage/usage''), Protected, storageUsageHandler e),
      ((''GET'', ''/api/v1/admin/nodes''), Admin, listNodesPlaceholder)]"

text \<open>The middleware of the four groups.\<close>

definition group_chain :: "env \<Rightarrow> gateway \<Rightarrow> access \<Rightarrow> middleware" where
  "group_chain e g acc =
     (case acc of
        Public \<Rightarrow> (\<lambda>next. next)
      | Accounts \<Rightarrow> EndpointRateLimitMiddleware e (gw_limiter g) (gw_auth_rpm g)
      | Protected \<Rightarrow>
          (\<lambda>next. JWTAuthMiddleware e (gw_jwt g) (UserRateLimitMiddleware e (gw_limiter g) (gw_user_rpm g) next))
      | Admin \<Rightarrow> (\<lambda>next. JWTAuthMiddleware e (gw_jwt g) (RequireRole [''admin''] next)))"

definition not_found :: handler where
  "not_found c w = Some (\<lparr>rs_status = 404, rs_headers = [], rs_body = BBytes (map (word_of_nat \<circ> of_char) ''404 page not found'')\<rparr>, w)"

definition dispatch :: "env \<Rightarrow> gateway \<Rightarrow> upload_run \<Rightarrow> handler" where
  "dispatch e g server c w =
     (case map_of (routes e g server) (rq_method (cx_req c), rq_full_path (cx_req c)) of
        None \<Rightarrow> not_found c w
      | Some (acc, h) \<Rightarrow> group_chain e g acc h c w)"

text \<open>The global chain; logging, tracing and metrics leave request and state alone.\<close>

definition serve :: "env \<Rightarrow> gateway \<Rightarrow> upload_run \<Rightarrow> handler" where
  "serve e g server =
     requestIDMiddleware e (corsMiddleware
       (GlobalRateLimitMiddleware e (gw_limiter g) (gw_global_rpm g) (dispatch e g server)))"

text \<open>The two guarded groups admit by a conjunction: the contract of two admissions in a row holds of each.\<close>

interpretation protected_group: two_admissions "jwt_admit e s" "{401}" "user_admit e l rpm" "{429}"
  by unfold_locales

interpretation admin_group: two_admissions "jwt_admit e s" "{401}" "role_admit roles" "{403}"
  by unfold_locales

lemma group_chain_guards:
  "group_chain e g Protected = guard (and_then (jwt_admit e (gw_jwt g)) (user_admit e (gw_limiter g) (gw_user_rpm g)))"
  "group_chain e g Admin = guard (and_then (jwt_admit e (gw_jwt g)) (role_admit [''admin'']))"
  by (simp_all add: fun_eq_iff group_chain_def JWTAuthMiddleware_def UserRateLimitMiddleware_def RequireRole_def guard_and_then)

text \<open>
  A request to a protected or an administrative route is either refused before its handler
  runs, with 401 and 429, or with 401 and 403, and nothing that lasts has changed, or the handler
  runs on the same request with nothing that lasts changed before it.
\<close>

theorem group_chain_refuses:
  assumes "group_chain e g acc h c w = Some (r, w')" "acc = Protected \<or> acc = Admin"
  shows "(rs_status r \<in> (if acc = Protected then {401, 429} else {401, 403}) \<and> durable w' = durable w) \<or>
    (\<exists>c' w1. h c' w1 = Some (r, w') \<and> cx_req c' = cx_req c \<and> durable w1 = durable w)"
  using assms(2)
proof
  assume "acc = Protected"
  with assms(1) show ?thesis
    by (cases rule: protected_group.both.guard_cases [OF assms(1) [unfolded \<open>acc = Protected\<close> group_chain_guards(1)]]) auto
next
  assume "acc = Admin"
  with assms(1) show ?thesis
    by (cases rule: admin_group.both.guard_cases [OF assms(1) [unfolded \<open>acc = Admin\<close> group_chain_guards(2)]]) auto
qed

section \<open>Who can change what lasts\<close>

lemma find_user_durable: "find_user e P w = (x, w1) \<Longrightarrow> durable w1 = durable w"
  using ext_durable [of "\<lambda>v. case first_row P (users v) of None \<Rightarrow> (Inl ''no rows in result set'', v) | Some u \<Rightarrow> (Inr u, v)" e w]
  by (simp add: find_user_def split: option.splits)

lemma tokens_durable: "GenerateTokenPair e s u em role w = (x, w1) \<Longrightarrow> durable w1 = durable w"
  using GenerateTokenPair_durable [of e s u em role w] by simp

lemma ping_durable: "ping e w = (x, w1) \<Longrightarrow> durable w1 = durable w"
  using ext_noop_durable [of e "()" w] by simp

lemma loginHandler_durable: "loginHandler e g c w = Some (r, w') \<Longrightarrow> durable w' = durable w"
  by (auto simp: loginHandler_def answer_defs Let_def dest!: find_user_durable tokens_durable
      split: sum.splits option.splits prod.splits if_splits)

lemma refreshHandler_durable: "refreshHandler e g c w = Some (r, w') \<Longrightarrow> durable w' = durable w"
  by (auto simp: refreshHandler_def answer_defs Let_def dest!: tokens_durable
      split: sum.splits option.splits prod.splits if_splits)

lemma readinessHandler_durable: "readinessHandler e c w = Some (r, w') \<Longrightarrow> durable w' = durable w"
  by (auto simp: readinessHandler_def answer_defs Let_def dest!: ping_durable split: prod.splits)

lemma public_durable:
  "healthHandler g c w = Some (r, w') \<Longrightarrow> durable w' = durable w"
  "docsHandler g c w = Some (r, w') \<Longrightarrow> durable w' = durable w"
  "openAPISpecHandler g c w = Some (r, w') \<Longrightarrow> durable w' = durable w"
  "listNodesPlaceholder c w = Some (r, w') \<Longrightarrow> durable w' = durable w"
  "not_found c w = Some (r, w') \<Longrightarrow> durable w' = durable w"
  by (auto simp: healthHandler_def docsHandler_def openAPISpecHandler_def listNodesPlaceholder_def not_found_def answer_defs)

text \<open>The request carries a token of this service that was valid at some time of the run.\<close>

definition authenticated :: "env \<Rightarrow> gateway \<Rightarrow> request \<Rightarrow> bool" where
  "authenticated e g rq \<longleftrightarrow>
     (\<exists>scheme tok claims n.
        header rq ''Authorization'' = scheme @ '' '' @ tok \<and> equal_fold scheme ''bearer'' \<and>
        jl_authentic (js_lib (gw_jwt g)) ''ES256'' (js_public (gw_jwt g)) tok claims \<and>
        claims_valid (now_at e n) (access_options (gw_jwt g)) claims)"

lemma jwt_changes:
  assumes "service_laws (gw_jwt g)" "JWTAuthMiddleware e (gw_jwt g) next c w = Some (r, w')" "durable w' \<noteq> durable w"
  shows "authenticated e g (cx_req c)"
proof (cases rule: jwt_guard.guard_cases [OF assms(2) [unfolded JWTAuthMiddleware_def]])
  case 1
  then show ?thesis using assms(3) by simp
next
  case (2 c' w1)
  from 2(1) obtain scheme tok claims where *:
    "header (cx_req c) ''Authorization'' = scheme @ '' '' @ tok" "equal_fold scheme ''bearer''"
    "ValidateAccessToken (gw_jwt g) (now_at e (calls w)) tok = Inr claims"
    by (rule jwt_admit_InrD)
  then show ?thesis
    unfolding authenticated_def
    by (fastforce simp: ValidateAccessToken_def parse_iff [OF assms(1)] split: sum.splits)
qed

lemma dispatch_changes:
  assumes "service_laws (gw_jwt g)" "dispatch e g server c w = Some (r, w')" "durable w' \<noteq> durable w"
  shows "rq_full_path (cx_req c) = ''/api/v1/auth/register'' \<or> authenticated e g (cx_req c)"
proof (cases "map_of (routes e g server) (rq_method (cx_req c), rq_full_path (cx_req c))")
  case None
  then show ?thesis using assms(2,3) public_durable(5) by (simp add: dispatch_def)
next
  case (Some ah)
  obtain acc h where ah: "ah = (acc, h)" by fastforce
  have run: "group_chain e g acc h c w = Some (r, w')" using assms(2) Some ah by (simp add: dispatch_def)
  have mem: "((rq_method (cx_req c), rq_full_path (cx_req c)), acc, h) \<in> set (routes e g server)"
    using map_of_SomeD [OF Some] ah by simp
  show ?thesis
  proof (cases acc)
    case Public
    then have "h c w = Some (r, w')" using run by (simp add: group_chain_def)
    moreover have "h \<in> {healthHandler g, readinessHandler e, docsHandler g, openAPISpecHandler g}"
      using mem Public by (auto simp: routes_def)
    ultimately have "durable w' = durable w"
      by (auto dest: public_durable readinessHandler_durable)
    then show ?thesis using assms(3) by simp
  next
    case Accounts
    then have "guard (endpoint_admit e (gw_limiter g) (gw_auth_rpm g)) h c w = Some (r, w')"
      using run by (simp add: group_chain_def EndpointRateLimitMiddleware_def)
    then obtain c' w1 where "h c' w1 = Some (r, w')" "durable w1 = durable w"
      using assms(3) by (cases rule: endpoint_guard.guard_cases) auto
    moreover have "h \<in> {loginHandler e g, refreshHandler e g} \<or> rq_full_path (cx_req c) = ''/api/v1/auth/register''"
      using mem Accounts by (auto simp: routes_def)
    ultimately show ?thesis using assms(3) by (auto dest: loginHandler_durable refreshHandler_durable)
  next
    case Protected
    then show ?thesis using jwt_changes [OF assms(1) _ assms(3)] run by (simp add: group_chain_def)
  next
    case Admin
    then show ?thesis using jwt_changes [OF assms(1) _ assms(3)] run by (simp add: group_chain_def)
  qed
qed


lemma Allow_first:
  assumes "fault_free e" "redis w k = None" "0 < limit"
  obtains w' where "Allow e l k limit window w = (True, w')" "durable w' = durable w" "calls w' = Suc (calls w)"
    "\<And>k'. k' \<noteq> k \<Longrightarrow> redis w' k' = redis w k'"
  using assms that [of "snd (Allow e l k limit window w)"] Allow_durable [of e l k limit window w]
  by (simp add: Allow_def sliding_window_def ext_fault_free live_def window_of_def Let_def)

definition demo_post :: ctx where
  "demo_post =
     \<lparr>cx_req = \<lparr>rq_method = ''POST'', rq_params = [], rq_query = [], rq_headers = [(''Authorization'', ''Bearer A'')],
                rq_client_ip = [], rq_full_path = ''/api/v1/folders'', rq_body = reader_of [], rq_form = []\<rparr>,
      cx_keys = []\<rparr>"

lemma demo_token:
  assumes "calls w = Suc (Suc 0)"
  shows "jwt_admit quiet_env demo_jwt (ctx_set ''request_id'' [] demo_post) w =
    (Inr (ctx_set ''user_role'' ''user'' (ctx_set ''user_email'' ''u@x'' (ctx_set ''user_id'' ''u''
       (ctx_set ''request_id'' [] demo_post)))), w)"
proof -
  have hd: "header (cx_req demo_post) ''Authorization'' = ''Bearer A''" "split_n2 CHR '' '' ''Bearer A'' = [''Bearer'', ''A'']"
    by code_simp+
  have cv: "claims_valid 2 (access_options demo_jwt) demo_access"
    by (simp add: claims_valid_def access_options_def demo_jwt_def demo_access_def)
  then have "jl_parse (js_lib demo_jwt) (access_options demo_jwt) (ecdsa_key demo_jwt) 2 ''A'' = Inr demo_access"
    unfolding parse_iff [OF demo_jwt_laws] by (simp add: demo_jwt_def demo_jwt_lib_def)
  then have "ValidateAccessToken demo_jwt 2 ''A'' = Inr demo_access"
    by (simp add: ValidateAccessToken_def) (simp add: demo_access_def)
  then show ?thesis
    by (simp add: jwt_admit_def hd bearer_fold assms Let_def) (simp add: demo_access_def)
qed

lemma demo_create:
  assumes "users w = [demo_user]" "files w = []" "GetString c ''user_id'' = ''u''"
  obtains r w' where "createFolderHandler quiet_env demo_gateway c w = Some (r, w')" "length (files w') = 1"
proof -
  have gt: "equal_fold ''name'' ''name''" "\<not> equal_fold ''email'' ''name''" "\<not> equal_fold ''password'' ''name''"
    "\<not> equal_fold ''display_name'' ''name''" "\<not> equal_fold ''name'' ''parent_id''" "\<not> equal_fold ''email'' ''parent_id''"
    "\<not> equal_fold ''password'' ''parent_id''" "\<not> equal_fold ''display_name'' ''parent_id''"
    by code_simp+
  obtain get where get: "bind_body demo_gateway [] [''name'', ''parent_id''] c = Inr get"
      "get ''name'' = Some ''n''" "get ''parent_id'' = None"
    by (simp add: bind_body_def bind_strings_def demo_gateway_def gt List.map_filter_def)
  have "\<exists>f v. CreateFolder quiet_env ''u'' ''n'' None w = (Inr f, v) \<and> length (files v) = 1"
    using assms(1,2)
    by (simp add: CreateFolder_def CreateDirectory_def insert_file_def ext_fault_free with_err_def new_row_def
        demo_user_def invalidateUserCache_def cache_Delete_def Let_def)
  then obtain f v where "CreateFolder quiet_env ''u'' ''n'' None w = (Inr f, v)" "length (files v) = 1" by blast
  then show ?thesis
    using that get assms(3)
    by (simp add: createFolderHandler_def validate_def List.map_filter_def rule_required_def or_empty_def reply_def)
qed



text \<open>A request without a token stops at the first middleware.\<close>

theorem group_chain_refuses_witness:
  "\<exists>r. group_chain quiet_env demo_gateway Protected not_found (demo_post\<lparr>cx_req := (cx_req demo_post)\<lparr>rq_headers := []\<rparr>\<rparr>)
         demo_world = Some (r, demo_world) \<and> rs_status r \<in> {401, 429}"
proof -
  let ?c = "demo_post\<lparr>cx_req := (cx_req demo_post)\<lparr>rq_headers := []\<rparr>\<rparr>"
  have "header (cx_req ?c) ''Authorization'' = []" by (simp add: header_def)
  then obtain r where r: "group_chain quiet_env demo_gateway Protected not_found ?c demo_world = Some (r, demo_world)" "rs_status r = 401"
    by (simp add: group_chain_guards guard_def and_then_def jwt_admit_def)
  show ?thesis
    using group_chain_refuses [OF r(1)] r by auto
qed

end
