(* ===== verification/JsonText.thy ===== *)
theory JsonText
  imports Http
begin

text \<open>
  JSON as text, the part of \<^verbatim>\<open>encoding/json\<close> the command-line client uses on stored secrets and on
  response bodies: quoting and unquoting of strings over UTF-8 bytes, printing, and a parser.  The
  wording of syntax errors is one constant.  Round trip: what printing an ASCII string gives is read back.
\<close>

section \<open>UTF-8\<close>

abbreviation code_of :: "char \<Rightarrow> nat" where
  "code_of c \<equiv> of_char c"

definition is_cont :: "char \<Rightarrow> bool" where
  "is_cont c \<longleftrightarrow> 128 \<le> code_of c \<and> code_of c < 192"

text \<open>The length of the rune a text starts with, 0 when it starts with no valid one.\<close>

definition utf8_len :: "string \<Rightarrow> nat" where
  "utf8_len s =
     (case s of
        [] \<Rightarrow> 0
      | c0 # s1 \<Rightarrow>
          (let b0 = code_of c0 in
           if b0 < 128 then 1
           else
             (case s1 of
                [] \<Rightarrow> 0
              | c1 # s2 \<Rightarrow>
                  (let b1 = code_of c1;
                       lo = (if b0 = 0xE0 then 0xA0 else if b0 = 0xF0 then 0x90 else 0x80);
                       hi = (if b0 = 0xED then 0x9F else if b0 = 0xF4 then 0x8F else 0xBF)
                   in
                   if b0 < 0xC2 \<or> 0xF4 < b0 \<or> b1 < lo \<or> hi < b1 then 0
                   else if b0 < 0xE0 then 2
                   else
                     (case s2 of
                        [] \<Rightarrow> 0
                      | c2 # s3 \<Rightarrow>
                          if \<not> is_cont c2 then 0
                          else if b0 < 0xF0 then 3
                          else (case s3 of [] \<Rightarrow> 0 | c3 # _ \<Rightarrow> if is_cont c3 then 4 else 0))))))"

definition utf8_enc :: "nat \<Rightarrow> string" where
  "utf8_enc n =
     map char_of
       (if n < 0x80 then [n]
        else if n < 0x800 then [0xC0 + n div 64, 0x80 + n mod 64]
        else if n < 0x10000 then [0xE0 + n div 4096, 0x80 + n div 64 mod 64, 0x80 + n mod 64]
        else [0xF0 + n div 262144, 0x80 + n div 4096 mod 64, 0x80 + n div 64 mod 64, 0x80 + n mod 64])"

definition replacement :: string where
  "replacement = utf8_enc 0xFFFD"

section \<open>Quoting\<close>

definition hex_char :: "nat \<Rightarrow> char" where
  "hex_char d = char_of (if d < 10 then 48 + d else 87 + d)"

abbreviation "quote_char \<equiv> (CHR 0x22)"
abbreviation "backslash \<equiv> (CHR 0x5C)"

definition esc_char :: "char \<Rightarrow> string" where
  "esc_char c =
     (let n = code_of c in
      if c = quote_char \<or> c = backslash then [backslash, c]
      else if n = 8 then [backslash, CHR ''b''] else if n = 12 then [backslash, CHR ''f'']
      else if n = 10 then [backslash, CHR ''n''] else if n = 13 then [backslash, CHR ''r'']
      else if n = 9 then [backslash, CHR ''t'']
      else if n < 32 \<or> c \<in> {CHR ''<'', CHR ''>'', CHR ''&''}
      then [backslash, CHR ''u'', CHR ''0'', CHR ''0'', hex_char (n div 16), hex_char (n mod 16)]
      else [c])"

fun json_esc :: "string \<Rightarrow> string" where
  "json_esc [] = []"
| "json_esc (c # cs) =
     (let n = utf8_len (c # cs) in
      if n = 0 then backslash # ''ufffd'' @ json_esc cs
      else if n = 1 then esc_char c @ json_esc cs
      else (let r = c # take (n - 1) cs in
            (if r = utf8_enc 0x2028 then backslash # ''u2028'' else if r = utf8_enc 0x2029 then backslash # ''u2029'' else r) @
            json_esc (drop (n - 1) cs)))"

definition json_quote :: "string \<Rightarrow> string" where
  "json_quote s = quote_char # json_esc s @ [quote_char]"

section \<open>Unquoting\<close>

definition hex_of :: "char \<Rightarrow> nat option" where
  "hex_of c =
     (let n = code_of c in
      if 48 \<le> n \<and> n \<le> 57 then Some (n - 48)
      else if 97 \<le> n \<and> n \<le> 102 then Some (n - 87)
      else if 65 \<le> n \<and> n \<le> 70 then Some (n - 55) else None)"

definition hex4 :: "string \<Rightarrow> nat option" where
  "hex4 s =
     (case s of
        [a, b, c, d] \<Rightarrow>
          (case (hex_of a, hex_of b, hex_of c, hex_of d) of
             (Some i, Some j, Some k, Some l) \<Rightarrow> Some (((i * 16 + j) * 16 + k) * 16 + l)
           | _ \<Rightarrow> None)
      | _ \<Rightarrow> None)"

definition simple_escape :: "char \<Rightarrow> char option" where
  "simple_escape c =
     map_of [(quote_char, quote_char), (backslash, backslash), (CHR ''/'', CHR ''/''), (CHR ''b'', CHR 0x08),
             (CHR ''f'', CHR 0x0C), (CHR ''n'', CHR 0x0A), (CHR ''r'', CHR 0x0D), (CHR ''t'', CHR 0x09)] c"

text \<open>The low half that follows a high surrogate, when the text goes on with one.\<close>

definition low_half :: "string \<Rightarrow> nat option" where
  "low_half s =
     (if take 2 s = [backslash, CHR ''u'']
      then (case hex4 (take 4 (drop 2 s)) of
              Some l \<Rightarrow> if 0xDC00 \<le> l \<and> l < 0xE000 then Some l else None
            | None \<Rightarrow> None)
      else None)"

text \<open>The text up to the closing quote and what comes after it.\<close>

fun json_unesc :: "string \<Rightarrow> (string \<times> string) option" where
  "json_unesc [] = None"
| "json_unesc (c # cs) =
     (if c = quote_char then Some ([], cs)
      else if c = backslash then
        (case cs of
           [] \<Rightarrow> None
         | e # es \<Rightarrow>
             if e = CHR ''u'' then
               (case hex4 (take 4 es) of
                  None \<Rightarrow> None
                | Some h \<Rightarrow>
                    if 0xD800 \<le> h \<and> h < 0xDC00 \<and> low_half (drop 4 es) \<noteq> None then
                      map_option (apfst ((@) (utf8_enc (0x10000 + (h - 0xD800) * 1024 + (the (low_half (drop 4 es)) - 0xDC00)))))
                        (json_unesc (drop 10 es))
                    else map_option (apfst ((@) (if 0xD800 \<le> h \<and> h < 0xE000 then replacement else utf8_enc h)))
                           (json_unesc (drop 4 es)))
             else (case simple_escape e of None \<Rightarrow> None | Some x \<Rightarrow> map_option (apfst ((#) x)) (json_unesc es)))
      else if code_of c < 32 then None
      else (let n = utf8_len (c # cs) in
            if n = 0 then map_option (apfst ((@) replacement)) (json_unesc cs)
            else map_option (apfst ((@) (c # take (n - 1) cs))) (json_unesc (drop (n - 1) cs))))"

declare json_esc.simps [simp del] json_unesc.simps [simp del]

section \<open>Printing\<close>

fun join_with :: "string \<Rightarrow> string list \<Rightarrow> string" where
  "join_with sep [] = []"
| "join_with sep [s] = s"
| "join_with sep (s # ss) = s @ sep @ join_with sep ss"

text \<open>
  \<^verbatim>\<open>json.Marshal\<close>, the members of an object in the order given.  The texts of time stamps and of
  numbers that are not integers are formatted elsewhere in the library: an argument.
\<close>

fun json_print :: "(json \<Rightarrow> string) \<Rightarrow> json \<Rightarrow> string" where
  "json_print pr JNull = ''null''"
| "json_print pr (JBool b) = (if b then ''true'' else ''false'')"
| "json_print pr (JNum n) = itoa n"
| "json_print pr (JStr s) = json_quote s"
| "json_print pr (JLit t) = t"
| "json_print pr (JList vs) = ''['' @ join_with '','' (map (json_print pr) vs) @ '']''"
| "json_print pr (JObj kvs) =
     ''{'' @ join_with '','' (map (\<lambda>(k, v). json_quote k @ '':'' @ json_print pr v) kvs) @ ''}''"
| "json_print pr j = pr j"

text \<open>A struct or map of strings (the caller sorts a map's keys, as \<^verbatim>\<open>json.Marshal\<close> does).\<close>

definition json_marshal :: "(string \<times> string) list \<Rightarrow> string" where
  "json_marshal kvs = json_print (\<lambda>_. []) (JObj (map (apsnd JStr) kvs))"

section \<open>Parsing\<close>

definition is_ws :: "char \<Rightarrow> bool" where
  "is_ws c \<longleftrightarrow> c \<in> {CHR '' '', CHR 0x09, CHR 0x0A, CHR 0x0D}"

definition skip_ws :: "string \<Rightarrow> string" where
  "skip_ws s = dropWhile is_ws s"

text \<open>A number: sign, digits without a leading zero, fraction, exponent.\<close>

definition parse_number :: "string \<Rightarrow> (json \<times> string) option" where
  "parse_number s =
     (let neg = has_prefix s ''-'';
          s1 = (if neg then tl s else s);
          ds = takeWhile is_digit s1; r1 = dropWhile is_digit s1;
          point = has_prefix r1 ''.'';
          fs = (if point then takeWhile is_digit (tl r1) else []);
          r2 = (if point then dropWhile is_digit (tl r1) else r1);
          expo = r2 \<noteq> [] \<and> hd r2 \<in> {CHR ''e'', CHR ''E''};
          r3 = (if expo then tl r2 else r2);
          r4 = (if expo \<and> r3 \<noteq> [] \<and> hd r3 \<in> {CHR ''+'', CHR ''-''} then tl r3 else r3);
          xs = (if expo then takeWhile is_digit r4 else []);
          r5 = (if expo then dropWhile is_digit r4 else r4)
      in
      if ds = [] \<or> (hd ds = CHR ''0'' \<and> 1 < length ds) \<or> (point \<and> fs = []) \<or> (expo \<and> xs = []) then None
      else if point \<or> expo then Some (JLit (take (length s - length r5) s), r5)
      else (let n = int (fold (\<lambda>c n. n * 10 + digit_val c) ds 0) in Some (JNum (if neg then - n else n), r5)))"

definition parse_literal :: "string \<Rightarrow> (json \<times> string) option" where
  "parse_literal s =
     (if has_prefix s ''true'' then Some (JBool True, drop 4 s)
      else if has_prefix s ''false'' then Some (JBool False, drop 5 s)
      else if has_prefix s ''null'' then Some (JNull, drop 4 s)
      else parse_number s)"

text \<open>Every step reads a character, so the length of the text is fuel enough.\<close>

fun parse_value :: "nat \<Rightarrow> string \<Rightarrow> (json \<times> string) option"
and parse_members :: "nat \<Rightarrow> (string \<times> json) list \<Rightarrow> string \<Rightarrow> (json \<times> string) option"
and parse_elements :: "nat \<Rightarrow> json list \<Rightarrow> string \<Rightarrow> (json \<times> string) option" where
  "parse_value 0 s = None"
| "parse_value (Suc n) s =
     (case skip_ws s of
        [] \<Rightarrow> None
      | c # cs \<Rightarrow>
          if c = quote_char then map_option (apfst JStr) (json_unesc cs)
          else if c = CHR ''{'' then
            (if has_prefix (skip_ws cs) ''}'' then Some (JObj [], tl (skip_ws cs)) else parse_members n [] cs)
          else if c = CHR ''['' then
            (if has_prefix (skip_ws cs) '']'' then Some (JList [], tl (skip_ws cs)) else parse_elements n [] cs)
          else parse_literal (c # cs))"
| "parse_members 0 acc s = None"
| "parse_members (Suc n) acc s =
     (if \<not> has_prefix (skip_ws s) [quote_char] then None
      else
        (case json_unesc (tl (skip_ws s)) of
           None \<Rightarrow> None
         | Some (k, r) \<Rightarrow>
             if \<not> has_prefix (skip_ws r) '':'' then None
             else
               (case parse_value n (tl (skip_ws r)) of
                  None \<Rightarrow> None
                | Some (v, r1) \<Rightarrow>
                    if has_prefix (skip_ws r1) '','' then parse_members n (acc @ [(k, v)]) (tl (skip_ws r1))
                    else if has_prefix (skip_ws r1) ''}'' then Some (JObj (acc @ [(k, v)]), tl (skip_ws r1))
                    else None)))"
| "parse_elements 0 acc s = None"
| "parse_elements (Suc n) acc s =
     (case parse_value n s of
        None \<Rightarrow> None
      | Some (v, r) \<Rightarrow>
          if has_prefix (skip_ws r) '','' then parse_elements n (acc @ [v]) (tl (skip_ws r))
          else if has_prefix (skip_ws r) '']'' then Some (JList (acc @ [v]), tl (skip_ws r))
          else None)"

definition json_syntax_error :: go_error where
  "json_syntax_error = ''invalid JSON''"

text \<open>\<^verbatim>\<open>json.Unmarshal\<close>: the whole text is one value; a decoder reads the first value only.\<close>

definition json_unmarshal :: "string \<Rightarrow> json result" where
  "json_unmarshal s =
     (case parse_value (Suc (length s)) s of
        Some (j, r) \<Rightarrow> if skip_ws r = [] then Inr j else Inl json_syntax_error
      | None \<Rightarrow> Inl json_syntax_error)"

definition json_decode :: "string \<Rightarrow> json result" where
  "json_decode s =
     (if skip_ws s = [] then Inl ''EOF''
      else case parse_value (Suc (length s)) s of Some (j, _) \<Rightarrow> Inr j | None \<Rightarrow> Inl json_syntax_error)"

section \<open>Round trip\<close>

definition ascii :: "string \<Rightarrow> bool" where
  "ascii s \<longleftrightarrow> list_all (\<lambda>c. code_of c < 128) s"

lemma ascii_simps [simp]: "ascii []" "ascii (c # s) \<longleftrightarrow> code_of c < 128 \<and> ascii s" "ascii (s @ t) \<longleftrightarrow> ascii s \<and> ascii t"
  by (simp_all add: ascii_def)

lemma utf8_ascii [simp]: "code_of c < 128 \<Longrightarrow> utf8_len (c # cs) = 1"
  by (simp add: utf8_len_def)

lemma hex_of_hex_char [simp]: "d < 16 \<Longrightarrow> hex_of (hex_char d) = Some d"
  by (simp add: hex_of_def hex_char_def Let_def)

lemma control_chars: "char_of (8 :: nat) = CHR 0x08" "char_of (12 :: nat) = CHR 0x0C" "char_of (10 :: nat) = CHR 0x0A"
  "char_of (13 :: nat) = CHR 0x0D" "char_of (9 :: nat) = CHR 0x09"
  by code_simp+

lemma unesc_esc_char:
  assumes "code_of c < 128"
  shows "json_unesc (esc_char c @ rest) = map_option (apfst ((#) c)) (json_unesc rest)"
proof -
  let ?n = "code_of c"
  have c: "c = char_of ?n" by simp
  have hex: "hex4 [CHR ''0'', CHR ''0'', hex_char (?n div 16), hex_char (?n mod 16)] = Some ?n"
  proof -
    have "hex_of CHR ''0'' = Some 0" by code_simp
    moreover have "?n div 16 < 16" "?n mod 16 < 16" using assms by auto
    ultimately show ?thesis by (simp add: hex4_def)
  qed
  have [simp]: "(@) [c] = (#) c" by (simp add: fun_eq_iff)
  have u8: "utf8_enc ?n = [c]" using assms by (simp add: utf8_enc_def)
  consider "c = quote_char \<or> c = backslash" | "?n = 8" | "?n = 12" | "?n = 10" | "?n = 13" | "?n = 9"
    | (u) "c \<noteq> quote_char" "c \<noteq> backslash" "?n \<noteq> 8" "?n \<noteq> 12" "?n \<noteq> 10" "?n \<noteq> 13" "?n \<noteq> 9"
        "?n < 32 \<or> c \<in> {CHR ''<'', CHR ''>'', CHR ''&''}"
    | (plain) "c \<noteq> quote_char" "c \<noteq> backslash" "\<not> ?n < 32" "c \<notin> {CHR ''<'', CHR ''>'', CHR ''&''}"
    by force
  then show ?thesis
  proof cases
    case 1
    then show ?thesis by (auto simp: esc_char_def json_unesc.simps simple_escape_def)
  next
    case 2
    then have "c = CHR 0x08" using c control_chars by simp
    then show ?thesis by (simp add: esc_char_def json_unesc.simps simple_escape_def)
  next
    case 3
    then have "c = CHR 0x0C" using c control_chars by simp
    then show ?thesis by (simp add: esc_char_def json_unesc.simps simple_escape_def)
  next
    case 4
    then have "c = CHR 0x0A" using c control_chars by simp
    then show ?thesis by (simp add: esc_char_def json_unesc.simps simple_escape_def)
  next
    case 5
    then have "c = CHR 0x0D" using c control_chars by simp
    then show ?thesis by (simp add: esc_char_def json_unesc.simps simple_escape_def)
  next
    case 6
    then have "c = CHR 0x09" using c control_chars by simp
    then show ?thesis by (simp add: esc_char_def json_unesc.simps simple_escape_def)
  next
    case u
    then have "esc_char c = [backslash, CHR ''u'', CHR ''0'', CHR ''0'', hex_char (?n div 16), hex_char (?n mod 16)]"
      by (simp add: esc_char_def Let_def)
    moreover have "\<not> 0xD800 \<le> ?n" using assms by simp
    moreover have "take 4 (CHR ''0'' # CHR ''0'' # x # y # rest) = [CHR ''0'', CHR ''0'', x, y]"
      "drop 4 (CHR ''0'' # CHR ''0'' # x # y # rest) = rest" for x y
      by (simp_all add: eval_nat_numeral)
    ultimately show ?thesis
      using hex u8 by (simp only: append_Cons append_Nil, subst json_unesc.simps(2)) simp
  next
    case plain
    then have "esc_char c = [c]" by (auto simp: esc_char_def Let_def)
    then show ?thesis using plain assms by (simp add: json_unesc.simps)
  qed
qed

text \<open>Texts made of valid runes.\<close>

fun valid_utf8 :: "string \<Rightarrow> bool" where
  "valid_utf8 [] = True"
| "valid_utf8 (c # cs) = (utf8_len (c # cs) \<noteq> 0 \<and> valid_utf8 (drop (utf8_len (c # cs) - 1) cs))"

declare valid_utf8.simps(2) [simp del]

lemma utf8_len_cases:
  assumes "utf8_len (c # cs) = n" "n \<noteq> 0"
  obtains (one) "n = 1" "code_of c < 128"
  | (longer) "2 \<le> n" "128 \<le> code_of c" "n - 1 \<le> length cs" "\<And>x. utf8_len (c # take (n - 1) cs @ x) = n"
proof (cases "code_of c < 128")
  case True
  then show ?thesis using assms one by simp
next
  case False
  obtain c1 s2 where c1: "cs = c1 # s2" using assms False by (cases cs) (auto simp: utf8_len_def Let_def)
  have b: "\<not> (code_of c < 0xC2 \<or> 0xF4 < code_of c \<or>
      code_of c1 < (if code_of c = 0xE0 then 0xA0 else if code_of c = 0xF0 then 0x90 else 0x80) \<or>
      (if code_of c = 0xED then 0x9F else if code_of c = 0xF4 then 0x8F else 0xBF) < code_of c1)"
    using assms False by (auto simp: utf8_len_def Let_def c1)
  show ?thesis
  proof (cases "code_of c < 0xE0")
    case True
    then have "n = 2" using assms False b by (simp add: utf8_len_def Let_def c1)
    then show ?thesis using longer False b True by (simp add: utf8_len_def Let_def c1)
  next
    case three: False
    obtain c2 s3 where c2: "s2 = c2 # s3" "is_cont c2"
      using assms False three b by (cases s2) (auto simp: utf8_len_def Let_def c1 split: if_splits)
    show ?thesis
    proof (cases "code_of c < 0xF0")
      case True
      then have "n = 3" using assms False three b c2 by (simp add: utf8_len_def Let_def c1)
      then show ?thesis using longer False b three True c2 by (simp add: utf8_len_def Let_def c1 numeral_2_eq_2)
    next
      case four: False
      obtain c3 s4 where c3: "s3 = c3 # s4" "is_cont c3"
        using assms False three four b c2 by (cases s3) (auto simp: utf8_len_def Let_def c1 split: if_splits)
      have "n = 4" using assms False three four b c2 c3 by (simp add: utf8_len_def Let_def c1)
      then show ?thesis using longer False b three four c2 c3 by (simp add: utf8_len_def Let_def c1 numeral_3_eq_3)
    qed
  qed
qed

lemma code_neq: "128 \<le> code_of c \<Longrightarrow> c \<noteq> quote_char \<and> c \<noteq> backslash \<and> \<not> code_of c < 32"
  by auto

lemma unesc_rune:
  assumes "utf8_len (c # cs) = n" "2 \<le> n"
  shows "json_unesc ((c # take (n - 1) cs) @ rest) = map_option (apfst ((@) (c # take (n - 1) cs))) (json_unesc rest)"
proof -
  have "n \<noteq> 0" using assms(2) by simp
  with assms(1) show ?thesis
proof (cases rule: utf8_len_cases)
  case longer
  have "length (take (n - 1) cs) = n - 1" using longer(3) by simp
  then have "take (n - 1) (take (n - 1) cs @ rest) = take (n - 1) cs" "drop (n - 1) (take (n - 1) cs @ rest) = rest"
    by simp_all
  then show ?thesis
    using code_neq [OF longer(2)] longer(4) [of rest] assms(2)
    by (simp only: append_Cons, subst json_unesc.simps(2)) (simp only: Let_def if_False, simp)
qed (use assms in simp_all)
qed

lemma unesc_u: 
  assumes "hex4 [a, b, c, d] = Some h" "\<not> (0xD800 \<le> h \<and> h < 0xE000)"
  shows "json_unesc (backslash # CHR ''u'' # a # b # c # d # rest) = map_option (apfst ((@) (utf8_enc h))) (json_unesc rest)"
proof -
  have t: "take 4 (a # b # c # d # rest) = [a, b, c, d]" "drop 4 (a # b # c # d # rest) = rest"
    by (simp_all add: eval_nat_numeral)
  show ?thesis
    using assms by (cases "0xD800 \<le> h") (simp_all add: json_unesc.simps(2) t)
qed

lemma separators: "hex4 ''2028'' = Some 0x2028" "hex4 ''2029'' = Some 0x2029"
  by code_simp+

lemma unesc_esc:
  "valid_utf8 s \<Longrightarrow> json_unesc (json_esc s @ rest) = map_option (apfst ((@) s)) (json_unesc rest)"
proof (induction s rule: valid_utf8.induct)
  case 1
  then show ?case by (cases "json_unesc rest") (auto simp: json_esc.simps)
next
  case (2 c cs)
  let ?n = "utf8_len (c # cs)"
  let ?r = "c # take (?n - 1) cs" and ?t = "drop (?n - 1) cs"
  have n: "?n \<noteq> 0" and v: "valid_utf8 ?t" using 2(2) by (simp_all add: valid_utf8.simps(2))
  have IH: "json_unesc (json_esc ?t @ rest) = map_option (apfst ((@) ?t)) (json_unesc rest)" using 2(1) v by simp
  have whole: "?r @ ?t = c # cs" by simp
  have app: "map_option (apfst ((@) ?r)) (json_unesc (json_esc ?t @ rest)) = map_option (apfst ((@) (c # cs))) (json_unesc rest)"
    unfolding IH by (cases "json_unesc rest") (simp_all add: apfst_def map_prod_def case_prod_beta)
  obtain F where F: "F = map_option (apfst ((@) (c # cs))) (json_unesc rest)" by simp
  note app = app [folded F]
  from refl n have "json_unesc (json_esc (c # cs) @ rest) = F"
  proof (cases rule: utf8_len_cases)
    case one
    then show ?thesis
      using app by (simp add: json_esc.simps(2) unesc_esc_char append_Cons [abs_def] fun_eq_iff)
  next
    case longer
    consider "?r = utf8_enc 0x2028" | "?r = utf8_enc 0x2029" "?r \<noteq> utf8_enc 0x2028" | "?r \<noteq> utf8_enc 0x2028" "?r \<noteq> utf8_enc 0x2029" by blast
    then show ?thesis
    proof cases
      case 1
      then have "json_esc (c # cs) = backslash # ''u2028'' @ json_esc ?t"
        using longer(1) by (simp add: json_esc.simps(2) Let_def del: utf8_ascii)
      then show ?thesis using unesc_u [OF separators(1), of "json_esc ?t @ rest"] app 1 by simp
    next
      case 2
      then have "json_esc (c # cs) = backslash # ''u2029'' @ json_esc ?t"
        using longer(1) by (simp add: json_esc.simps(2) Let_def del: utf8_ascii)
      then show ?thesis using unesc_u [OF separators(2), of "json_esc ?t @ rest"] app 2 by simp
    next
      case 3
      then have "json_esc (c # cs) = ?r @ json_esc ?t"
        using longer(1) by (simp add: json_esc.simps(2) Let_def del: utf8_ascii)
      then show ?thesis using unesc_rune [OF refl longer(1), of "json_esc ?t @ rest"] app by simp
    qed
  qed
  then show ?case unfolding F .
qed

lemma valid_ascii: "ascii s \<Longrightarrow> valid_utf8 s"
  by (induction s) (simp_all add: valid_utf8.simps(2))

lemma unesc_quoted: "valid_utf8 s \<Longrightarrow> json_unesc (json_esc s @ quote_char # rest) = Some (s, rest)"
  by (simp add: unesc_esc json_unesc.simps)

text \<open>Conversely, what is read consists of valid runes.\<close>

lemma utf8_len_enc:
  assumes "n < 0x110000" "\<not> (0xD800 \<le> n \<and> n < 0xE000)"
  shows "utf8_len (utf8_enc n @ x) = length (utf8_enc n) \<and> utf8_enc n \<noteq> []"
proof -
  have lt: "n div 64 mod 64 < 64" "n mod 64 < 64" "n div 4096 mod 64 < 64" by simp_all
  consider (a) "n < 0x80" | (b) "0x80 \<le> n" "n < 0x800" | (c) "0x800 \<le> n" "n < 0x10000" | (d) "0x10000 \<le> n" by linarith
  then show ?thesis
  proof cases
    case a
    then show ?thesis by (simp add: utf8_enc_def utf8_len_def)
  next
    case b
    define q where q: "q = n div 64"
    have "2 \<le> q" "q < 32" using b by (auto simp: q)
    then show ?thesis using b lt by (simp add: utf8_enc_def utf8_len_def Let_def flip: q)
  next
    case c
    define q where q: "q = n div 4096"
    define m where m: "m = n div 64 mod 64"
    have q16: "q < 16" using c by (auto simp: q)
    have m64: "m < 64" by (simp add: m)
    have nq: "n = (q * 64 + m) * 64 + n mod 64"
      using div_mult_mod_eq [of n 64] div_mult_mod_eq [of "n div 64" 64] by (simp add: q m flip: div_mult2_eq)
    define r where r: "r = n mod 64"
    have nq: "n = q * 4096 + m * 64 + r" "r < 64" using nq by (simp_all add: r)
    have "q = 0 \<Longrightarrow> 32 \<le> m" using nq c by linarith
    moreover have "q = 13 \<Longrightarrow> m < 32" using nq c assms(2) m64 by linarith
    ultimately show ?thesis
      using c q16 m64 lt by (auto simp: utf8_enc_def utf8_len_def Let_def is_cont_def simp flip: q m)
  next
    case d
    define q where q: "q = n div 262144"
    define m where m: "m = n div 4096 mod 64"
    have q16: "q \<le> 4" using assms(1) by (auto simp: q)
    have nq: "n div 4096 = q * 64 + m"
      using div_mult_mod_eq [of "n div 4096" 64] by (simp add: q m flip: div_mult2_eq)
    have "16 \<le> n div 4096" "n div 4096 < 272" using d assms(1) by auto
    then have "q = 0 \<Longrightarrow> 16 \<le> m" "q = 4 \<Longrightarrow> m < 16" using nq by linarith+
    moreover have m64: "m < 64" by (simp add: m)
    ultimately show ?thesis
      using d q16 lt by (auto simp: utf8_enc_def utf8_len_def Let_def is_cont_def simp flip: q m)
  qed
qed

lemma valid_utf8_rune: "s \<noteq> [] \<Longrightarrow> utf8_len (s @ t) = length s \<Longrightarrow> valid_utf8 (s @ t) \<longleftrightarrow> valid_utf8 t"
  by (cases s) (simp_all add: valid_utf8.simps(2))

lemma valid_utf8_enc: "n < 0x110000 \<Longrightarrow> \<not> (0xD800 \<le> n \<and> n < 0xE000) \<Longrightarrow> valid_utf8 (utf8_enc n @ t) \<longleftrightarrow> valid_utf8 t"
  by (rule valid_utf8_rune) (use utf8_len_enc in blast)+

lemma hex4_bound: "hex4 s = Some h \<Longrightarrow> h < 0x10000"
proof -
  have d: "hex_of c = Some i \<Longrightarrow> i < 16" for c i by (auto simp: hex_of_def Let_def split: if_splits)
  assume "hex4 s = Some h"
  then obtain a b c e i j k l where h: "hex_of a = Some i" "hex_of b = Some j" "hex_of c = Some k" "hex_of e = Some l"
      "h = ((i * 16 + j) * 16 + k) * 16 + l"
    by (auto simp: hex4_def split: list.splits option.splits)
  then show ?thesis using d [OF h(1)] d [OF h(2)] d [OF h(3)] d [OF h(4)] by (simp add: algebra_simps)
qed

lemma low_half_bound: "low_half s = Some l \<Longrightarrow> 0xDC00 \<le> l \<and> l < 0xE000"
  by (auto simp: low_half_def split: if_splits option.splits)

lemma json_unesc_valid: "json_unesc s = Some (t, r) \<Longrightarrow> valid_utf8 t"
proof (induction s arbitrary: t r rule: json_unesc.induct)
  case 1
  then show ?case by (simp add: json_unesc.simps)
next
  case (2 c cs)
  have rep: "valid_utf8 (replacement @ x) \<longleftrightarrow> valid_utf8 x" for x
    unfolding replacement_def by (rule valid_utf8_enc) simp_all
  consider "c = quote_char" | (esc) e es where "c = backslash" "cs = e # es" | "c = backslash" "cs = []"
    | "c \<noteq> quote_char" "c \<noteq> backslash" "code_of c < 32" | (rune) "c \<noteq> quote_char" "c \<noteq> backslash" "\<not> code_of c < 32"
    by (cases cs) auto
  then show ?case
  proof cases
    case esc
    show ?thesis
    proof (cases "e = CHR ''u''")
      case True
      then obtain h where h: "hex4 (take 4 es) = Some h"
        using 2(6) esc by (auto simp: json_unesc.simps split: option.splits)
      show ?thesis
      proof (cases "0xD800 \<le> h \<and> h < 0xDC00 \<and> low_half (drop 4 es) \<noteq> None")
        case low: True
        then obtain l where l: "low_half (drop 4 es) = Some l" by auto
        let ?n = "0x10000 + (h - 0xD800) * 1024 + (l - 0xDC00)"
        obtain t' where t': "json_unesc (drop 10 es) = Some (t', r)" "t = utf8_enc ?n @ t'"
          using 2(6) esc True h low l by (auto simp: json_unesc.simps apfst_def map_prod_def)
        have "?n < 0x110000" "\<not> (0xD800 \<le> ?n \<and> ?n < 0xE000)" using low low_half_bound [OF l] by auto
        then show ?thesis
          using valid_utf8_enc t' 2(1) [OF _ _ esc(2) True h low t'(1)] esc(1) by simp
      next
        case low: False
        obtain t' where t': "json_unesc (drop 4 es) = Some (t', r)"
            "t = (if 0xD800 \<le> h \<and> h < 0xE000 then replacement else utf8_enc h) @ t'"
          using 2(6) esc True h low by (auto simp: json_unesc.simps(2) apfst_def map_prod_def simp del: not_None_eq split: if_splits)
        have "valid_utf8 t'" using 2(2) [OF _ _ esc(2) True h low t'(1)] esc(1) by simp
        then show ?thesis using t'(2) rep valid_utf8_enc [of h] hex4_bound [OF h] by auto
      qed
    next
      case False
      then obtain x t' where x: "simple_escape e = Some x" "json_unesc es = Some (t', r)" "t = x # t'"
        using 2(6) esc by (auto simp: json_unesc.simps apfst_def map_prod_def split: option.splits)
      then have "code_of x < 128" by (auto simp: simple_escape_def split: if_splits)
      then show ?thesis using x 2(3) [OF _ _ esc(2) False x(1) x(2)] esc(1) by (simp add: valid_utf8.simps(2))
    qed
  next
    case rune
    let ?n = "utf8_len (c # cs)"
    show ?thesis
    proof (cases "?n = 0")
      case True
      then obtain t' where t': "json_unesc cs = Some (t', r)" "t = replacement @ t'"
        using 2(6) rune by (auto simp: json_unesc.simps apfst_def map_prod_def)
      then show ?thesis using 2(4) [OF rune refl True t'(1)] rep by simp
    next
      case False
      then obtain t' where t': "json_unesc (drop (?n - 1) cs) = Some (t', r)" "t = (c # take (?n - 1) cs) @ t'"
        using 2(6) rune by (auto simp: json_unesc.simps(2) apfst_def map_prod_def Let_def split: if_splits)
      from refl False show ?thesis
      proof (cases rule: utf8_len_cases)
        case one
        then show ?thesis using t' 2(5) [OF rune refl False t'(1)] by (simp add: valid_utf8.simps(2))
      next
        case longer
        then have "utf8_len ((c # take (?n - 1) cs) @ t') = length (c # take (?n - 1) cs)" by simp
        then show ?thesis using t' 2(5) [OF rune refl False t'(1)] valid_utf8_rune by blast
      qed
    qed
  qed (use 2(6) in \<open>auto simp: json_unesc.simps\<close>)
qed

lemma skip_ws_quote [simp]: "skip_ws (quote_char # s) = quote_char # s" "skip_ws ('':'' @ s) = '':'' @ s"
  "skip_ws (CHR '':'' # s) = CHR '':'' # s" "skip_ws (CHR '','' # s) = CHR '','' # s" "skip_ws (CHR ''{'' # s) = CHR ''{'' # s"
  "skip_ws (CHR ''}'' # s) = CHR ''}'' # s" "skip_ws (CHR '']'' # s) = CHR '']'' # s" "skip_ws [] = []"
  by (simp_all add: skip_ws_def is_ws_def)

lemma has_prefix_Cons [simp]: "has_prefix (c # s) [d] \<longleftrightarrow> c = d" "\<not> has_prefix [] [d]"
  by (simp_all add: has_prefix_def)

lemma nat_digits_zero: "hd (nat_digits n) = CHR ''0'' \<Longrightarrow> n = 0"
proof (induction n rule: nat_digits.induct)
  case (1 n)
  show ?case
  proof (cases "n < 10")
    case True
    then have "digit_val (hd (nat_digits n)) = n" by (simp add: nat_digits.simps [of n])
    then show ?thesis using 1(2) by (simp add: digit_val_def)
  next
    case False
    then have "hd (nat_digits (n div 10)) = CHR ''0''" using 1(2) by (simp add: nat_digits.simps [of n])
    then show ?thesis using 1(1) False by simp
  qed
qed

lemma fold_digits: "fold (\<lambda>c n. n * 10 + digit_val c) (nat_digits n) 0 = n"
proof (induction n rule: nat_digits.induct)
  case (1 n)
  then show ?case by (cases "n < 10") (simp_all add: nat_digits.simps [of n])
qed

text \<open>What may follow a value.\<close>

definition ends_value :: "string \<Rightarrow> bool" where
  "ends_value r \<longleftrightarrow> r = [] \<or> hd r \<in> {CHR '','', CHR '']'', CHR ''}''}"

lemma ends_value_simps [simp]: "ends_value []" "ends_value (CHR '','' # r)" "ends_value (CHR '']'' # r)" "ends_value (CHR ''}'' # r)"
  by (simp_all add: ends_value_def)

lemma parse_number_itoa:
  assumes "ends_value r"
  shows "parse_number (itoa n @ r) = Some (JNum n, r)"
proof -
  have nd: "\<not> has_prefix r ''.''" "\<not> (r \<noteq> [] \<and> hd r \<in> {CHR ''e'', CHR ''E''})" "r = [] \<or> \<not> is_digit (hd r)"
    using assms by (cases r; auto simp: ends_value_def has_prefix_def is_digit_def)+
  have split: "takeWhile is_digit (nat_digits m @ r) = nat_digits m" "dropWhile is_digit (nat_digits m @ r) = r" for m
    using nd(3) nat_digits_are_digits [of _ m]
    by (cases r; simp add: takeWhile_append2 dropWhile_append2)+
  have zero: "hd (nat_digits m) = CHR ''0'' \<Longrightarrow> length (nat_digits m) = 1" for m
    using nat_digits_zero [of m] by (cases "m = 0") (simp_all add: nat_digits.simps [of 0])
  obtain c cs where d: "nat_digits (nat n) = c # cs" by (cases "nat_digits (nat n)") auto
  show ?thesis
  proof (cases "n < 0")
    case True
    then have "has_prefix (itoa n @ r) ''-''" "tl (itoa n @ r) = nat_digits (nat (- n)) @ r"
      by (simp_all add: itoa_def has_prefix_def)
    then show ?thesis
      using True nd(1,2) zero [of "nat (- n)"] unfolding parse_number_def Let_def
      by (simp only: split if_True if_False fold_digits simp_thms nat_digits_nonempty) auto
  next
    case False
    then have "\<not> has_prefix (itoa n @ r) ''-''" "itoa n @ r = nat_digits (nat n) @ r"
      using d digits_head [OF d] by (simp_all add: itoa_def has_prefix_def)
    then show ?thesis
      using False nd(1,2) zero [of "nat n"] unfolding parse_number_def Let_def
      by (simp only: split if_True if_False fold_digits simp_thms nat_digits_nonempty) auto
  qed
qed

text \<open>Values whose texts are fixed by the standard: what they print as is read back.\<close>

fun plain_json :: "json \<Rightarrow> bool" where
  "plain_json (JStr s) = valid_utf8 s"
| "plain_json (JList vs) = list_all plain_json vs"
| "plain_json (JObj kvs) = list_all (\<lambda>(k, v). valid_utf8 k \<and> plain_json v) kvs"
| "plain_json (JTime _) = False"
| "plain_json (JPercent _ _) = False"
| "plain_json JImplDef = False"
| "plain_json (JLit _) = False"
| "plain_json _ = True"

lemma itoa_head: "\<exists>c cs. itoa n = c # cs \<and> (is_digit c \<or> c = CHR ''-'')"
proof (cases "n < 0")
  case False
  obtain c cs where d: "nat_digits (nat n) = c # cs" by (cases "nat_digits (nat n)") auto
  then show ?thesis using False nat_digits_are_digits [of c "nat n"] by (simp add: itoa_def)
qed (simp add: itoa_def)

lemma parse_literal_itoa: "ends_value r \<Longrightarrow> parse_literal (itoa n @ r) = Some (JNum n, r)"
proof -
  obtain c cs where c: "itoa n = c # cs" "is_digit c \<or> c = CHR ''-''" using itoa_head by blast
  then have "c \<notin> {CHR ''t'', CHR ''f'', CHR ''n''}" by (auto simp: is_digit_def)
  then have "\<not> has_prefix (itoa n @ r) ''true''" "\<not> has_prefix (itoa n @ r) ''false''" "\<not> has_prefix (itoa n @ r) ''null''"
    by (simp_all add: has_prefix_iff c(1))
  then show "ends_value r \<Longrightarrow> ?thesis" by (simp add: parse_literal_def parse_number_itoa)
qed

lemma skip_ws_head: "\<not> is_ws c \<Longrightarrow> skip_ws (c # s) = c # s"
  by (simp add: skip_ws_def)

lemma parse_itoa: "ends_value r \<Longrightarrow> parse_value (Suc n) (itoa i @ r) = Some (JNum i, r)"
proof -
  assume r: "ends_value r"
  obtain c cs where c: "itoa i = c # cs" "is_digit c \<or> c = CHR ''-''" using itoa_head by blast
  then have "\<not> is_ws c" "c \<noteq> quote_char" "c \<noteq> CHR ''{''" "c \<noteq> CHR ''[''" by (auto simp: is_digit_def is_ws_def)
  then show ?thesis
    using parse_literal_itoa [OF r, of i] by (simp add: c(1) skip_ws_head)
qed

lemma parse_elements_print:
  assumes "\<And>v r n. v \<in> set vs \<Longrightarrow> ends_value r \<Longrightarrow> length (f v) \<le> n \<Longrightarrow> parse_value n (f v @ r) = Some (v, r)"
    and "vs \<noteq> []" "length (join_with '','' (map f vs)) < n"
  shows "parse_elements n acc (join_with '','' (map f vs) @ CHR '']'' # r) = Some (JList (acc @ vs), r)"
  using assms
proof (induction vs arbitrary: n acc)
  case (Cons v vs)
  then obtain m where n: "n = Suc m" by (cases n) auto
  show ?case
  proof (cases vs)
    case Nil
    then show ?thesis using Cons(2) [of v "CHR '']'' # r" m] Cons(4) n by simp
  next
    case (Cons u us)
    have "parse_value m (f v @ CHR '','' # (join_with '','' (map f vs) @ CHR '']'' # r)) =
        Some (v, CHR '','' # (join_with '','' (map f vs) @ CHR '']'' # r))"
      by (rule Cons.prems(1)) (use Cons.prems(3) n Cons in auto)
    moreover have "parse_elements m (acc @ [v]) (join_with '','' (map f vs) @ CHR '']'' # r) = Some (JList ((acc @ [v]) @ vs), r)"
      by (rule Cons.IH) (use Cons.prems n Cons in auto)
    ultimately show ?thesis by (simp add: n Cons del: parse_value.simps)
  qed
qed simp

lemma parse_members_print:
  assumes "\<And>k v r n. (k, v) \<in> set kvs \<Longrightarrow> ends_value r \<Longrightarrow> length (f v) \<le> n \<Longrightarrow> parse_value n (f v @ r) = Some (v, r)"
    and "list_all (\<lambda>kv. valid_utf8 (fst kv)) kvs"
    and "kvs \<noteq> []" "length (join_with '','' (map (\<lambda>(k, v). json_quote k @ '':'' @ f v) kvs)) < n"
  shows "parse_members n acc (join_with '','' (map (\<lambda>(k, v). json_quote k @ '':'' @ f v) kvs) @ CHR ''}'' # r) =
    Some (JObj (acc @ kvs), r)"
  using assms
proof (induction kvs arbitrary: n acc)
  case (Cons kv kvs)
  obtain k v where kv: "kv = (k, v)" by fastforce
  let ?p = "\<lambda>kvs. join_with '','' (map (\<lambda>(k, v). json_quote k @ '':'' @ f v) kvs)"
  from Cons obtain m where n: "n = Suc m" by (cases n) auto
  have k: "valid_utf8 k" using Cons(3) kv by simp
  show ?case
  proof (cases kvs)
    case Nil
    then show ?thesis
      using Cons(2) [of k v "CHR ''}'' # r" m] Cons(5) n kv k
      by (simp add: json_quote_def unesc_quoted)
  next
    case (Cons u us)
    have p: "?p (kv # kvs) = json_quote k @ '':'' @ f v @ CHR '','' # ?p kvs" by (simp add: Cons kv)
    have "parse_value m (f v @ CHR '','' # (?p kvs @ CHR ''}'' # r)) = Some (v, CHR '','' # (?p kvs @ CHR ''}'' # r))"
      by (rule Cons.prems(1)) (use Cons.prems(4) n p kv in auto)
    moreover have "parse_members m (acc @ [(k, v)]) (?p kvs @ CHR ''}'' # r) = Some (JObj ((acc @ [(k, v)]) @ kvs), r)"
      by (rule Cons.IH) (use Cons.prems n p Cons in auto)
    ultimately show ?thesis
      unfolding p n using k by (simp add: json_quote_def unesc_quoted kv del: parse_value.simps)
  qed
qed simp

lemma parse_words:
  "0 < n \<Longrightarrow> parse_value n (''null'' @ r) = Some (JNull, r)"
  "0 < n \<Longrightarrow> parse_value n (''true'' @ r) = Some (JBool True, r)"
  "0 < n \<Longrightarrow> parse_value n (''false'' @ r) = Some (JBool False, r)"
  by (cases n; simp add: parse_literal_def has_prefix_def skip_ws_head is_ws_def)+

lemma print_head:
  "plain_json j \<Longrightarrow> \<exists>c t. json_print pr j = c # t \<and> \<not> is_ws c \<and> c \<noteq> CHR '']''"
proof (cases j)
  case (JNum n)
  then show ?thesis using itoa_head [of n] by (auto simp: is_digit_def is_ws_def)
qed (auto simp: is_ws_def json_quote_def)

lemma parse_print:
  "plain_json j \<Longrightarrow> ends_value r \<Longrightarrow> length (json_print pr j) \<le> n \<Longrightarrow> parse_value n (json_print pr j @ r) = Some (j, r)"
proof (induction j arbitrary: n r
    rule: plain_json.induct [case_names str elements members time percent undef lit null bool number])
  case (str s)
  then show ?case by (cases n) (simp_all add: json_quote_def unesc_quoted)
next
  case (elements vs)
  then obtain m where n: "n = Suc m" by (cases n) auto
  show ?case
  proof (cases "vs = []")
    case False
    have "parse_elements m [] (join_with '','' (map (json_print pr) vs) @ CHR '']'' # r) = Some (JList ([] @ vs), r)"
      by (rule parse_elements_print) (use elements False n in \<open>auto simp: list_all_iff\<close>)
    moreover have "\<not> has_prefix (skip_ws (join_with '','' (map (json_print pr) vs) @ CHR '']'' # r)) '']''"
    proof -
      obtain v vs' where v: "vs = v # vs'" using False by (cases vs) auto
      obtain c t where "json_print pr v = c # t" "\<not> is_ws c" "c \<noteq> CHR '']''"
        using print_head [of v pr] elements(2) v by auto
      then show ?thesis by (cases vs') (simp_all add: v skip_ws_head)
    qed
    ultimately show ?thesis by (simp add: n skip_ws_head is_ws_def)
  qed (simp add: n skip_ws_head is_ws_def)
next
  case (members kvs)
  then obtain m where n: "n = Suc m" by (cases n) auto
  let ?p = "join_with '','' (map (\<lambda>(k, v). json_quote k @ '':'' @ json_print pr v) kvs)"
  show ?case
  proof (cases kvs)
    case (Cons kv kvs')
    have "parse_members m [] (?p @ CHR ''}'' # r) = Some (JObj ([] @ kvs), r)"
      by (rule parse_members_print) (use members Cons n in \<open>fastforce simp: list_all_iff\<close>)+
    moreover have "\<exists>t. ?p = quote_char # t"
      using Cons by (cases kv; cases kvs') (auto simp: json_quote_def)
    ultimately show ?thesis by (auto simp: n)
  qed (simp add: n)
next
  case (bool v)
  then show ?case using parse_words(2,3) [of n r] by (cases v) auto
next
  case (number i)
  then obtain m where n: "n = Suc m" using itoa_head [of i] by (cases n) auto
  show ?case using parse_itoa number unfolding n by simp
qed (use parse_words(1) in auto)

lemma unmarshal_print:
  assumes "plain_json j"
  shows "json_unmarshal (json_print pr j) = Inr j"
  using parse_print [OF assms, of "[]" pr "Suc (length (json_print pr j))"] by (simp add: json_unmarshal_def del: parse_value.simps)

lemma unmarshal_marshal:
  assumes "list_all (\<lambda>(k, v). valid_utf8 k \<and> valid_utf8 v) kvs"
  shows "json_unmarshal (json_marshal kvs) = Inr (JObj (map (apsnd JStr) kvs))"
  unfolding json_marshal_def by (rule unmarshal_print) (use assms in \<open>auto simp: list_all_iff\<close>)

text \<open>All texts in a value that is read, keys included, are made of valid runes.\<close>

fun valid_value :: "json \<Rightarrow> bool" where
  "valid_value (JStr s) = valid_utf8 s"
| "valid_value (JList vs) = list_all valid_value vs"
| "valid_value (JObj kvs) = list_all (\<lambda>(k, v). valid_utf8 k \<and> valid_value v) kvs"
| "valid_value _ = True"

definition valid_member :: "string \<times> json \<Rightarrow> bool" where
  "valid_member kv \<longleftrightarrow> valid_utf8 (fst kv) \<and> valid_value (snd kv)"

lemma valid_members: "valid_value (JObj kvs) \<longleftrightarrow> list_all valid_member kvs"
  by (auto simp: list_all_iff valid_member_def)

definition valid_parse :: "(json \<times> string) option \<Rightarrow> bool" where
  "valid_parse x = (case x of None \<Rightarrow> True | Some (j, _) \<Rightarrow> valid_value j)"

lemma valid_parse_intros:
  "valid_parse None" "valid_value j \<Longrightarrow> valid_parse (Some (j, r))"
  "valid_parse a \<Longrightarrow> valid_parse b \<Longrightarrow> valid_parse (if c then a else b)"
  "(\<And>x. valid_parse (f x)) \<Longrightarrow> valid_parse (Let y f)"
  by (simp_all add: valid_parse_def)

lemma parse_literal_valid: "parse_literal s = Some (j, r) \<Longrightarrow> valid_value j"
proof -
  have "valid_parse (parse_literal s)"
    unfolding parse_literal_def parse_number_def by (intro valid_parse_intros) simp_all
  then show "parse_literal s = Some (j, r) \<Longrightarrow> valid_value j" by (simp add: valid_parse_def)
qed

lemma parse_valid:
  "parse_value n s = Some (j, r) \<Longrightarrow> valid_value j"
  "parse_members n acc s = Some (j, r) \<Longrightarrow> list_all valid_member acc \<Longrightarrow> valid_value j"
  "parse_elements n vs s = Some (j, r) \<Longrightarrow> list_all valid_value vs \<Longrightarrow> valid_value j"
proof (induction n s and n acc s and n vs s arbitrary: j r and j r and j r
    rule: parse_value_parse_members_parse_elements.induct)
  case (2 n s)
  then obtain c cs where c: "skip_ws s = c # cs" by (auto split: list.splits)
  consider "c = quote_char" | "c = CHR ''{''" | "c = CHR ''[''" | "c \<noteq> quote_char" "c \<noteq> CHR ''{''" "c \<noteq> CHR ''[''" by blast
  then show ?case
  proof cases
    case 1
    then show ?thesis using 2(3) c json_unesc_valid by auto
  next
    case obj: 2
    then show ?thesis using 2(1) [OF c, of j r] 2(3) c by (auto split: if_splits)
  next
    case 3
    then show ?thesis using 2(2) [OF c, of j r] 2(3) c by (auto split: if_splits)
  next
    case 4
    then show ?thesis using 2(3) c parse_literal_valid by simp
  qed
next
  case (4 n acc s)
  have q: "has_prefix (skip_ws s) [quote_char]" using 4(3) by (auto split: if_splits)
  obtain k r0 where k: "json_unesc (tl (skip_ws s)) = Some (k, r0)"
    using 4(3) q by (auto split: option.splits)
  have p: "has_prefix (skip_ws r0) '':''" using 4(3) q k by (auto split: if_splits)
  obtain v r1 where v: "parse_value n (tl (skip_ws r0)) = Some (v, r1)"
    using 4(3) q k p by (auto split: option.splits)
  have vm: "list_all valid_member (acc @ [(k, v)])"
    using 4(1) [OF _ k refl _ v] q p 4(4) json_unesc_valid [OF k] by (simp add: valid_member_def [of "(k, v)"])
  show ?case
  proof (cases "has_prefix (skip_ws r1) '',''")
    case True
    then show ?thesis using 4(2) [OF _ k refl _ v refl True _ vm] 4(3) q k p v by simp
  next
    case False
    then have "j = JObj (acc @ [(k, v)])" using 4(3) q k p v by (auto split: if_splits)
    then show ?thesis using vm valid_members by blast
  qed
next
  case (6 n acc s)
  obtain v r0 where v: "parse_value n s = Some (v, r0)" using 6(3) by (auto split: option.splits)
  have va: "list_all valid_value (acc @ [v])" using 6(1) [OF v] 6(4) by simp
  show ?case
  proof (cases "has_prefix (skip_ws r0) '',''")
    case True
    then show ?thesis using 6(2) [OF v refl True _ va] 6(3) v by simp
  next
    case False
    then have "j = JList (acc @ [v])" using 6(3) v by (auto split: if_splits)
    then show ?thesis using va by simp
  qed
qed simp_all

lemma unmarshal_valid: "json_unmarshal s = Inr j \<Longrightarrow> valid_value j"
  using parse_valid(1) by (auto simp: json_unmarshal_def simp del: parse_value.simps split: option.splits if_splits)

lemma decode_valid: "json_decode s = Inr j \<Longrightarrow> valid_value j"
  using parse_valid(1) by (auto simp: json_decode_def simp del: parse_value.simps split: option.splits if_splits)

end
