(* ===== verification/JsonTypes.thy ===== *)
theory JsonTypes
  imports JsonText
begin

text \<open>
  Decoding of JSON into Go structs, as \<^verbatim>\<open>encoding/json\<close> does it: the type of the target drives the
  decoding, the result is the value with exactly the fields of the target.
\<close>

section \<open>Targets\<close>

text \<open>Pointers (\<open>TOpt\<close>) and slices are nil when absent; \<open>TFloat\<close> takes any number, whatever its range.\<close>

datatype jtype =
    TStr | TInt | TBool | TFloat | TTime | TAny
  | TOpt jtype
  | TList jtype
  | TStruct "(string \<times> jtype) list"

fun zero_value :: "jtype \<Rightarrow> json" where
  "zero_value TStr = JStr []"
| "zero_value TInt = JNum 0"
| "zero_value TBool = JBool False"
| "zero_value TFloat = JNum 0"
| "zero_value TTime = JStr ''0001-01-01T00:00:00Z''"
| "zero_value TAny = JNull"
| "zero_value (TOpt t) = JNull"
| "zero_value (TList t) = JNull"
| "zero_value (TStruct fs) = JObj (map (\<lambda>(k, t). (k, zero_value t)) fs)"

section \<open>Time stamps\<close>

definition days_in :: "nat \<Rightarrow> nat \<Rightarrow> nat" where
  "days_in y m =
     (if m = 2 then (if y mod 4 = 0 \<and> (y mod 100 \<noteq> 0 \<or> y mod 400 = 0) then 29 else 28)
      else if m \<in> {4, 6, 9, 11} then 30 else 31)"

definition digits_at :: "string \<Rightarrow> nat \<Rightarrow> nat \<Rightarrow> nat option" where
  "digits_at s i n =
     (let t = take n (drop i s) in
      if length t = n \<and> list_all is_digit t then Some (fold (\<lambda>c k. k * 10 + digit_val c) t 0) else None)"

definition in_range :: "nat option \<Rightarrow> nat \<Rightarrow> nat \<Rightarrow> bool" where
  "in_range x lo hi = (case x of None \<Rightarrow> False | Some n \<Rightarrow> lo \<le> n \<and> n \<le> hi)"

definition zone_ok :: "string \<Rightarrow> bool" where
  "zone_ok z \<longleftrightarrow>
     z = ''Z'' \<or>
     (length z = 6 \<and> hd z \<in> {CHR ''+'', CHR ''-''} \<and> z ! 3 = CHR '':'' \<and>
      in_range (digits_at z 1 2) 0 23 \<and> in_range (digits_at z 4 2) 0 59)"

text \<open>\<^verbatim>\<open>time.Time.UnmarshalJSON\<close>: RFC 3339, strictly.\<close>

definition rfc3339 :: "string \<Rightarrow> bool" where
  "rfc3339 s \<longleftrightarrow>
     (let y = digits_at s 0 4; m = digits_at s 5 2; r = drop 19 s;
          frac = has_prefix r ''.''; zone = (if frac then dropWhile is_digit (tl r) else r)
      in y \<noteq> None \<and> in_range m 1 12 \<and> in_range (digits_at s 8 2) 1 (days_in (the y) (the m)) \<and>
         in_range (digits_at s 11 2) 0 23 \<and> in_range (digits_at s 14 2) 0 59 \<and> in_range (digits_at s 17 2) 0 59 \<and>
         map (\<lambda>i. s ! i) [4, 7, 10, 13, 16] = ''--T::'' \<and>
         (frac \<longrightarrow> takeWhile is_digit (tl r) \<noteq> []) \<and> zone_ok zone)"

section \<open>Decoding\<close>

definition type_error :: "json \<Rightarrow> string \<Rightarrow> go_error" where
  "type_error j t = ''json: cannot unmarshal '' @ json_kind j @ '' into Go value of type '' @ t"

text \<open>A key names the field it equals, else the first one it equals up to case.\<close>

definition field_of :: "(string \<times> 'a) list \<Rightarrow> string \<Rightarrow> (string \<times> 'a) option" where
  "field_of fs k =
     (case find (\<lambda>f. fst f = k) fs of
        Some f \<Rightarrow> Some f
      | None \<Rightarrow> find (\<lambda>f. equal_fold (fst f) k) fs)"

definition obj_get :: "(string \<times> json) list \<Rightarrow> string \<Rightarrow> json" where
  "obj_get kvs k = (case map_of kvs k of Some v \<Rightarrow> v | None \<Rightarrow> JNull)"

definition obj_set :: "string \<Rightarrow> json \<Rightarrow> (string \<times> json) list \<Rightarrow> (string \<times> json) list" where
  "obj_set k v kvs = map (\<lambda>(k', x). (k', if k' = k then v else x)) kvs"

text \<open>The members in order, each decoded over what its field holds.\<close>

fun set_fields ::
  "(string \<times> 't) list \<Rightarrow> (string \<times> ('t \<Rightarrow> json \<Rightarrow> json result)) list \<Rightarrow> (string \<times> json) list \<Rightarrow> json result" where
  "set_fields fs [] obj = Inr (JObj obj)"
| "set_fields fs ((k, dec) # r) obj =
     (case field_of fs k of
        None \<Rightarrow> set_fields fs r obj
      | Some (name, t) \<Rightarrow>
          (case dec t (obj_get obj name) of
             Inl err \<Rightarrow> Inl err
           | Inr v \<Rightarrow> set_fields fs r (obj_set name v obj)))"

fun all_ok :: "'a result list \<Rightarrow> 'a list result" where
  "all_ok [] = Inr []"
| "all_ok (Inl err # r) = Inl err"
| "all_ok (Inr v # r) = (case all_ok r of Inl err \<Rightarrow> Inl err | Inr vs \<Rightarrow> Inr (v # vs))"

definition obj_fields :: "json \<Rightarrow> (string \<times> json) list" where
  "obj_fields j = (case j of JObj kvs \<Rightarrow> kvs | _ \<Rightarrow> [])"

lemma size_member: "kv \<in> set kvs \<Longrightarrow> size (snd kv) < size (JObj kvs)"
  by (induction kvs) auto

lemma size_element: "v \<in> set vs \<Longrightarrow> size v < size (JList vs)"
  by (induction vs) auto

text \<open>
  The value of the target after decoding \<open>j\<close> over the value \<open>old\<close>.  Go goes on after a value of the wrong
  type and reports the first; every caller drops the result then.
\<close>

function conform :: "jtype \<Rightarrow> json \<Rightarrow> json \<Rightarrow> json result" where
  "conform TStr old j = (case j of JStr s \<Rightarrow> Inr j | JNull \<Rightarrow> Inr old | _ \<Rightarrow> Inl (type_error j ''string''))"
| "conform TInt old j =
     (case j of
        JNum n \<Rightarrow> if in_i64 n then Inr j else Inl (type_error j ''int64'')
      | JNull \<Rightarrow> Inr old
      | _ \<Rightarrow> Inl (type_error j ''int64''))"
| "conform TBool old j = (case j of JBool _ \<Rightarrow> Inr j | JNull \<Rightarrow> Inr old | _ \<Rightarrow> Inl (type_error j ''bool''))"
| "conform TFloat old j =
     (case j of JNum _ \<Rightarrow> Inr j | JLit _ \<Rightarrow> Inr j | JNull \<Rightarrow> Inr old | _ \<Rightarrow> Inl (type_error j ''float64''))"
| "conform TTime old j =
     (case j of
        JStr s \<Rightarrow> if rfc3339 s then Inr j else Inl ''parsing time''
      | JNull \<Rightarrow> Inr old
      | _ \<Rightarrow> Inl ''Time.UnmarshalJSON: input is not a JSON string'')"
| "conform TAny old j = Inr j"
| "conform (TOpt t) old j = (if j = JNull then Inr JNull else conform t (if old = JNull then zero_value t else old) j)"
| "conform (TList t) old j =
     (case j of
        JList vs \<Rightarrow>
          (case all_ok (map (\<lambda>v. conform t (zero_value t) v) vs) of Inl err \<Rightarrow> Inl err | Inr us \<Rightarrow> Inr (JList us))
      | JNull \<Rightarrow> Inr JNull
      | _ \<Rightarrow> Inl (type_error j ''slice''))"
| "conform (TStruct fs) old j =
     (case j of
        JObj kvs \<Rightarrow> set_fields fs (map (\<lambda>kv. (fst kv, \<lambda>t o'. conform t o' (snd kv))) kvs) (obj_fields old)
      | JNull \<Rightarrow> Inr old
      | _ \<Rightarrow> Inl (type_error j ''struct''))"
  by pat_completeness auto

termination
  by (relation "measures [\<lambda>(t, old, j). size j, \<lambda>(t, old, j). size t]")
    (use size_member size_element in auto)

definition decode_into :: "jtype \<Rightarrow> string \<Rightarrow> json result" where
  "decode_into t s = (case json_decode s of Inl err \<Rightarrow> Inl err | Inr j \<Rightarrow> conform t (zero_value t) j)"

definition unmarshal_into :: "jtype \<Rightarrow> string \<Rightarrow> json result" where
  "unmarshal_into t s = (case json_unmarshal s of Inl err \<Rightarrow> Inl err | Inr j \<Rightarrow> conform t (zero_value t) j)"

section \<open>Reading the fields\<close>

definition jget :: "json \<Rightarrow> string \<Rightarrow> json" where
  "jget j k = obj_get (obj_fields j) k"

definition jstr :: "json \<Rightarrow> string" where
  "jstr j = (case j of JStr s \<Rightarrow> s | _ \<Rightarrow> [])"

definition jnum :: "json \<Rightarrow> int" where
  "jnum j = (case j of JNum n \<Rightarrow> n | _ \<Rightarrow> 0)"

definition jbool :: "json \<Rightarrow> bool" where
  "jbool j = (case j of JBool b \<Rightarrow> b | _ \<Rightarrow> False)"

definition jlist :: "json \<Rightarrow> json list" where
  "jlist j = (case j of JList vs \<Rightarrow> vs | _ \<Rightarrow> [])"

lemma jsel_simps [simp]: "jstr (JStr s) = s" "jnum (JNum n) = n" "jbool (JBool b) = b" "jlist (JList vs) = vs"
  "jlist JNull = []" "jget (JObj kvs) k = obj_get kvs k" "obj_fields (JObj kvs) = kvs"
  by (simp_all add: jstr_def jnum_def jbool_def jlist_def jget_def obj_fields_def)

section \<open>Texts stay valid\<close>

fun valid_type :: "jtype \<Rightarrow> bool" where
  "valid_type (TStruct fs) = list_all (\<lambda>(k, t). valid_utf8 k \<and> valid_type t) fs"
| "valid_type (TList t) = valid_type t"
| "valid_type (TOpt t) = valid_type t"
| "valid_type _ = True"

lemma zero_valid: "valid_type t \<Longrightarrow> valid_value (zero_value t)"
  by (induction t rule: valid_type.induct) (auto simp: list_all_iff valid_ascii ascii_def)

lemma obj_get_valid: "list_all valid_member kvs \<Longrightarrow> valid_value (obj_get kvs k)"
  by (auto simp: obj_get_def list_all_iff valid_member_def dest!: map_of_SomeD split: option.splits)

lemma obj_set_valid: "list_all valid_member kvs \<Longrightarrow> valid_value v \<Longrightarrow> list_all valid_member (obj_set k v kvs)"
  by (auto simp: obj_set_def list_all_iff valid_member_def split: if_splits)

lemma obj_fields_valid: "valid_value j \<Longrightarrow> list_all valid_member (obj_fields j)"
  by (cases j) (auto simp: obj_fields_def valid_members simp del: valid_value.simps(3))

lemma field_of_in: "field_of fs k = Some f \<Longrightarrow> f \<in> set fs"
  by (auto simp: field_of_def find_Some_iff split: option.splits)

lemma set_fields_valid:
  assumes "set_fields fs decs obj = Inr v" "list_all valid_member obj"
    and "\<forall>d \<in> set decs. \<forall>f \<in> set fs. \<forall>old u. valid_value old \<longrightarrow> snd d (snd f) old = Inr u \<longrightarrow> valid_value u"
  shows "valid_value v"
  using assms
proof (induction fs decs obj rule: set_fields.induct)
  case (1 fs obj)
  then show ?case by (auto simp: valid_members simp del: valid_value.simps(3))
next
  case (2 fs k dec r obj)
  have step: "\<forall>d \<in> set r. \<forall>f \<in> set fs. \<forall>old u. valid_value old \<longrightarrow> snd d (snd f) old = Inr u \<longrightarrow> valid_value u"
    by (intro ballI, rule bspec [OF bspec [OF 2(5)]]) (simp_all del: all_simps)
  show ?case
  proof (cases "field_of fs k")
    case None
    then have "set_fields fs r obj = Inr v" using 2(3) by simp
    then show ?thesis by (rule 2(1) [OF None _ 2(4) step])
  next
    case (Some f)
    obtain n t where f: "f = (n, t)" by fastforce
    note Some' = Some [unfolded f]
    obtain u where u: "dec t (obj_get obj n) = Inr u" "set_fields fs r (obj_set n u obj) = Inr v"
      using 2(3) Some' by (auto split: sum.splits)
    have "valid_value u"
      using bspec [OF bspec [OF 2(5), of "(k, dec)"] field_of_in [OF Some']] obj_get_valid [OF 2(4)] u(1)
      by (metis list.set_intros(1) snd_conv)
    then have "list_all valid_member (obj_set n u obj)" by (rule obj_set_valid [OF 2(4)])
    then show ?thesis by (rule 2(2) [OF Some' refl u(1) u(2) _ step])
  qed
qed

lemma all_ok_set: "all_ok rs = Inr vs \<Longrightarrow> v \<in> set vs \<Longrightarrow> Inr v \<in> set rs"
  by (induction rs arbitrary: vs rule: all_ok.induct) (auto split: sum.splits)

lemma conform_valid:
  assumes "conform t old j = Inr v" "valid_type t" "valid_value old" "valid_value j"
  shows "valid_value v"
  using assms
proof (induction t old j arbitrary: v rule: conform.induct)
  case (7 t old j)
  then show ?case by (auto split: if_splits intro: zero_valid)
next
  case (8 t old j)
  show ?case
  proof (cases j)
    case (JList vs)
    then obtain us where us: "all_ok (map (\<lambda>v. conform t (zero_value t) v) vs) = Inr us" "v = JList us"
      using 8(2) by (auto split: sum.splits)
    have "valid_value u" if u: "u \<in> set us" for u
    proof -
      obtain x where x: "x \<in> set vs" "conform t (zero_value t) x = Inr u" using all_ok_set [OF us(1) u] by auto
      have "valid_value x" using 8(5) x(1) JList by (auto simp: list_all_iff)
      then show ?thesis using 8(1) [OF JList x(1) x(2)] 8(3) zero_valid by simp
    qed
    then show ?thesis using us(2) by (simp add: list_all_iff)
  qed (use 8 in auto)
next
  case (9 fs old j)
  show ?case
  proof (cases j)
    case (JObj kvs)
    then have s: "set_fields fs (map (\<lambda>kv. (fst kv, \<lambda>t o'. conform t o' (snd kv))) kvs) (obj_fields old) = Inr v"
      using 9(2) by simp
    show ?thesis
    proof (rule set_fields_valid [OF s obj_fields_valid [OF 9(4)]], intro ballI allI impI)
      fix d f old' u
      assume a: "d \<in> set (map (\<lambda>kv. (fst kv, \<lambda>t o'. conform t o' (snd kv))) kvs)" "f \<in> set fs"
        "valid_value old'" "snd d (snd f) old' = Inr u"
      then obtain kv where kv: "kv \<in> set kvs" "conform (snd f) old' (snd kv) = Inr u" by auto
      have "valid_value (snd kv)" using 9(5) JObj kv(1) by (auto simp: list_all_iff)
      then show "valid_value u" using 9(1) [OF JObj kv(1) kv(2)] 9(3) a(2,3) by (auto simp: list_all_iff)
    qed
  qed (use 9 in auto)
qed (auto split: json.splits if_splits)

lemma decode_into_valid: "decode_into t s = Inr v \<Longrightarrow> valid_type t \<Longrightarrow> valid_value v"
  using conform_valid zero_valid decode_valid by (auto simp: decode_into_def split: sum.splits)

lemma jget_valid: "valid_value j \<Longrightarrow> valid_value (jget j k)"
  by (simp add: jget_def obj_get_valid obj_fields_valid)

lemma jstr_valid: "valid_value j \<Longrightarrow> valid_utf8 (jstr j)"
  by (cases j) (simp_all add: jstr_def)

end
