(* ===== verification/Urls.thy ===== *)
theory Urls
  imports JsonText "HOL-Library.List_Lexorder" "HOL-Library.Char_ord"
begin

text \<open>
  The part of \<^verbatim>\<open>net/url\<close> the command-line client uses: escaping of path segments and queries, and the
  parsing of URLs.  What is escaped is read back as it was.
\<close>

section \<open>Escaping\<close>

definition is_letter :: "char \<Rightarrow> bool" where
  "is_letter c \<longleftrightarrow> (65 \<le> code_of c \<and> code_of c \<le> 90) \<or> (97 \<le> code_of c \<and> code_of c \<le> 122)"

definition unreserved :: "char \<Rightarrow> bool" where
  "unreserved c \<longleftrightarrow> is_letter c \<or> is_digit c \<or> c \<in> set ''-_.~''"

definition upper_hex :: "nat \<Rightarrow> char" where
  "upper_hex d = char_of (if d < 10 then 48 + d else 55 + d)"

definition percent :: "char \<Rightarrow> string" where
  "percent c = [CHR ''%'', upper_hex (code_of c div 16), upper_hex (code_of c mod 16)]"

definition PathEscape :: "string \<Rightarrow> string" where
  "PathEscape s = concat (map (\<lambda>c. if unreserved c \<or> c \<in> set ''$&+:=@'' then [c] else percent c) s)"

definition QueryEscape :: "string \<Rightarrow> string" where
  "QueryEscape s = concat (map (\<lambda>c. if unreserved c then [c] else if c = CHR '' '' then ''+'' else percent c) s)"

text \<open>\<^verbatim>\<open>url.Values.Encode\<close>, with one value for each key.\<close>

definition Encode :: "(string \<times> string) list \<Rightarrow> string" where
  "Encode q = join_with ''&'' (map (\<lambda>(k, v). QueryEscape k @ ''='' @ QueryEscape v) (sort_key fst q))"

text \<open>Unescaping of a path; in a query a plus sign is a blank.\<close>

fun percent_decode :: "bool \<Rightarrow> string \<Rightarrow> string option" where
  "percent_decode q [] = Some []"
| "percent_decode q (c # s) =
     (if c = CHR ''%'' then
        (case s of
           a # b # r \<Rightarrow>
             (case (hex_of a, hex_of b) of
                (Some i, Some j) \<Rightarrow> map_option ((#) (char_of (i * 16 + j))) (percent_decode q r)
              | _ \<Rightarrow> None)
         | _ \<Rightarrow> None)
      else map_option ((#) (if q \<and> c = CHR ''+'' then CHR '' '' else c)) (percent_decode q s))"

declare percent_decode.simps [simp del]

lemma hex_of_upper_hex: "d < 16 \<Longrightarrow> hex_of (upper_hex d) = Some d"
  by (simp add: hex_of_def upper_hex_def Let_def)

lemma code_of_bound: "code_of c < 256"
proof -
  have "code_of c = code_of c mod 256" by (metis char_of_char of_char_of)
  then show ?thesis by (metis mod_less_divisor zero_less_numeral)
qed

lemma nibbles: "code_of c div 16 < 16" "code_of c mod 16 < 16"
  by (rule less_mult_imp_div_less, use code_of_bound [of c] in simp) simp

lemma decode_percent: "percent_decode q (percent c @ s) = map_option ((#) c) (percent_decode q s)"
  by (simp add: percent_def percent_decode.simps(2) hex_of_upper_hex nibbles)

lemma unreserved_plain: "unreserved c \<Longrightarrow> c \<noteq> CHR ''%'' \<and> c \<noteq> CHR ''+''"
  by (auto simp: unreserved_def is_letter_def is_digit_def)

lemma decode_PathEscape: "percent_decode False (PathEscape s) = Some s"
proof (induction s)
  case Nil
  then show ?case by (simp add: PathEscape_def percent_decode.simps)
next
  case (Cons c s)
  have "PathEscape (c # s) = (if unreserved c \<or> c \<in> set ''$&+:=@'' then [c] else percent c) @ PathEscape s"
    by (simp add: PathEscape_def)
  then show ?case
    using Cons unreserved_plain [of c] by (auto simp: decode_percent percent_decode.simps(2))
qed

lemma decode_QueryEscape: "percent_decode True (QueryEscape s) = Some s"
proof (induction s)
  case Nil
  then show ?case by (simp add: QueryEscape_def percent_decode.simps)
next
  case (Cons c s)
  have "QueryEscape (c # s) = (if unreserved c then [c] else if c = CHR '' '' then ''+'' else percent c) @ QueryEscape s"
    by (simp add: QueryEscape_def)
  then show ?case
    using Cons unreserved_plain [of c] by (auto simp: decode_percent percent_decode.simps(2))
qed

text \<open>An escaped segment does not end the path or start another segment.\<close>

definition url_plain :: "char \<Rightarrow> bool" where
  "url_plain c \<longleftrightarrow> c \<notin> set ''/?#&= '' \<and> 32 < code_of c \<and> code_of c < 127"

lemma upper_hex_plain: "d < 16 \<Longrightarrow> url_plain (upper_hex d) \<and> unreserved (upper_hex d)"
proof -
  assume "d < 16"
  then have "(48 \<le> code_of (upper_hex d) \<and> code_of (upper_hex d) \<le> 57) \<or> (65 \<le> code_of (upper_hex d) \<and> code_of (upper_hex d) \<le> 70)"
    by (auto simp: upper_hex_def)
  then show ?thesis by (auto simp: url_plain_def unreserved_def is_letter_def is_digit_def)
qed

lemma unreserved_url: "unreserved c \<Longrightarrow> url_plain c"
  by (auto simp: unreserved_def is_letter_def is_digit_def url_plain_def)

lemma percent_plain: "c \<in> set (percent x) \<Longrightarrow> url_plain c"
proof -
  have "url_plain CHR ''%''" by (simp add: url_plain_def)
  then show "c \<in> set (percent x) \<Longrightarrow> url_plain c" using upper_hex_plain nibbles by (auto simp: percent_def)
qed

lemma QueryEscape_plain: "c \<in> set (QueryEscape s) \<Longrightarrow> url_plain c"
proof -
  have "url_plain CHR ''+''" by (simp add: url_plain_def)
  then show "c \<in> set (QueryEscape s) \<Longrightarrow> url_plain c"
    using unreserved_url percent_plain by (auto simp: QueryEscape_def split: if_splits)
qed

lemma PathEscape_plain: "c \<in> set (PathEscape s) \<Longrightarrow> c \<notin> set ''/?#'' \<and> 32 < code_of c \<and> code_of c < 127"
  using unreserved_url percent_plain by (auto simp: PathEscape_def url_plain_def split: if_splits)

section \<open>Parsing a query\<close>

fun split_char :: "char \<Rightarrow> string \<Rightarrow> string list" where
  "split_char c [] = [[]]"
| "split_char c (x # xs) =
     (if x = c then [] # split_char c xs
      else (case split_char c xs of [] \<Rightarrow> [[x]] | p # ps \<Rightarrow> (x # p) # ps))"

text \<open>\<^verbatim>\<open>url.ParseQuery\<close>: empty pairs are skipped, a bad pair is dropped.\<close>

definition parse_pair :: "string \<Rightarrow> (string \<times> string) option" where
  "parse_pair p =
     (let k = takeWhile (\<lambda>c. c \<noteq> CHR ''='') p; v = tl (dropWhile (\<lambda>c. c \<noteq> CHR ''='') p) in
      if CHR '';'' \<in> set p then None
      else case (percent_decode True k, percent_decode True v) of
             (Some a, Some b) \<Rightarrow> Some (a, b)
           | _ \<Rightarrow> None)"

definition ParseQuery :: "string \<Rightarrow> (string \<times> string) list" where
  "ParseQuery s = List.map_filter parse_pair (filter (\<lambda>p. p \<noteq> []) (split_char CHR ''&'' s))"

lemma split_char_nonempty: "split_char c s \<noteq> []"
  by (cases s) (auto split: list.splits)

lemma split_char_none: "c \<notin> set s \<Longrightarrow> split_char c s = [s]"
  by (induction s) auto

lemma split_char_Cons: "c \<notin> set a \<Longrightarrow> split_char c (a @ c # s) = a # split_char c s"
  by (induction a) auto

lemma split_join:
  "ss \<noteq> [] \<Longrightarrow> \<forall>s \<in> set ss. c \<notin> set s \<Longrightarrow> split_char c (join_with [c] ss) = ss"
  by (induction "[c]" ss rule: join_with.induct) (simp_all add: split_char_none split_char_Cons)

lemma parse_escaped: "parse_pair (QueryEscape k @ CHR ''='' # QueryEscape v) = Some (k, v)"
proof -
  let ?p = "QueryEscape k @ ''='' @ QueryEscape v"
  have k: "c \<noteq> CHR ''=''" if "c \<in> set (QueryEscape k)" for c using QueryEscape_plain [OF that] by (auto simp: url_plain_def)
  have semi: "CHR '';'' \<notin> set (QueryEscape s)" for s
  proof -
    have hex: "upper_hex d \<noteq> CHR '';''" if "d < 16" for d
      using upper_hex_plain [OF that] by (auto simp: unreserved_def is_letter_def is_digit_def)
    have "CHR '';'' \<notin> set (percent x)" for x using hex [THEN not_sym] nibbles by (simp add: percent_def)
    moreover have "\<not> unreserved CHR '';''" by (simp add: unreserved_def is_letter_def is_digit_def)
    ultimately show ?thesis by (auto simp: QueryEscape_def split: if_splits)
  qed
  have "takeWhile (\<lambda>c. c \<noteq> CHR ''='') ?p = QueryEscape k" "dropWhile (\<lambda>c. c \<noteq> CHR ''='') ?p = ''='' @ QueryEscape v"
    using k by (simp_all add: takeWhile_append2 dropWhile_append2)
  then show ?thesis using semi by (simp add: parse_pair_def Let_def decode_QueryEscape)
qed

lemma ParseQuery_Encode: "ParseQuery (Encode q) = sort_key fst q"
proof (cases "q = []")
  case True
  then show ?thesis by (simp add: ParseQuery_def Encode_def List.map_filter_def)
next
  case False
  let ?f = "\<lambda>(k, v). QueryEscape k @ ''='' @ QueryEscape v"
  have amp: "CHR ''&'' \<notin> set (?f kv)" for kv
    using QueryEscape_plain by (cases kv) (auto simp: url_plain_def)
  have ne: "map ?f (sort_key fst q) \<noteq> []" using False by (metis map_is_Nil_conv set_empty set_sort)
  have "split_char CHR ''&'' (Encode q) = map ?f (sort_key fst q)"
    unfolding Encode_def by (rule split_join [OF ne]) (use amp in \<open>simp only: set_map ball_simps, blast\<close>)
  moreover have "filter (\<lambda>p. p \<noteq> []) (map ?f s) = map ?f s" for s by (induction s) auto
  moreover have "List.map_filter parse_pair (map ?f s) = s" for s
    by (induction s) (auto simp: List.map_filter_simps parse_escaped)
  ultimately show ?thesis by (simp add: ParseQuery_def)
qed

section \<open>Quoting\<close>

text \<open>\<^verbatim>\<open>%q\<close>: runes beyond ASCII are kept as they are, broken ones are printed in hexadecimal.\<close>

definition quote_ascii :: "char \<Rightarrow> string" where
  "quote_ascii c =
     (let n = code_of c in
      if c = quote_char \<or> c = backslash then [backslash, c]
      else case map_of [(7, CHR ''a''), (8, CHR ''b''), (12, CHR ''f''), (10, CHR ''n''), (13, CHR ''r''), (9, CHR ''t''), (11, CHR ''v'')] n of
             Some e \<Rightarrow> [backslash, e]
           | None \<Rightarrow> if n < 32 \<or> n = 127 then [backslash, CHR ''x'', hex_char (n div 16), hex_char (n mod 16)] else [c])"

function quote_body :: "string \<Rightarrow> string" where
  "quote_body [] = []"
| "quote_body (c # cs) =
     (let n = utf8_len (c # cs) in
      if n = 0 then [backslash, CHR ''x'', hex_char (code_of c div 16), hex_char (code_of c mod 16)] @ quote_body cs
      else if n = 1 then quote_ascii c @ quote_body cs
      else (c # take (n - 1) cs) @ quote_body (drop (n - 1) cs))"
  by pat_completeness auto
termination by (relation "measure length") auto

definition go_quote :: "string \<Rightarrow> string" where
  "go_quote s = [quote_char] @ quote_body s @ [quote_char]"

section \<open>Parsing a URL\<close>

record url =
  u_scheme :: string
  u_host :: string
  u_path :: string
  u_query :: string

definition until :: "char \<Rightarrow> string \<Rightarrow> string" where
  "until c s = takeWhile (\<lambda>x. x \<noteq> c) s"

definition beyond :: "char \<Rightarrow> string \<Rightarrow> string" where
  "beyond c s = tl (dropWhile (\<lambda>x. x \<noteq> c) s)"

definition getScheme :: "string \<Rightarrow> (string \<times> string) result" where
  "getScheme s =
     (let p = takeWhile (\<lambda>c. is_letter c \<or> is_digit c \<or> c \<in> set ''+-.'') s; r = drop (length p) s in
      if p \<noteq> [] \<and> \<not> is_letter (hd p) then Inr ([], s)
      else if r \<noteq> [] \<and> hd r = CHR '':'' then (if p = [] then Inl ''missing protocol scheme'' else Inr (to_lower p, tl r))
      else Inr ([], s))"

definition host_char :: "char \<Rightarrow> bool" where
  "host_char c \<longleftrightarrow> unreserved c \<or> c \<in> set ''!$&()*+,;=:[]<>'' \<or> c = CHR 0x27 \<or> c = quote_char"

text \<open>\<^verbatim>\<open>unescape\<close> for a host or, with \<open>z\<close>, for the zone of an IPv6 address.\<close>

fun host_decode :: "bool \<Rightarrow> string \<Rightarrow> string option" where
  "host_decode z [] = Some []"
| "host_decode z (c # s) =
     (if c = CHR ''%'' then
        (case s of
           a # b # r \<Rightarrow>
             (case (hex_of a, hex_of b) of
                (Some i, Some j) \<Rightarrow>
                  (let v = char_of (i * 16 + j) in
                   if [a, b] = ''25'' \<or> (if z then v = CHR '' '' \<or> host_char v else 8 \<le> i)
                   then map_option ((#) v) (host_decode z r) else None)
              | _ \<Rightarrow> None)
         | _ \<Rightarrow> None)
      else if code_of c < 128 \<and> \<not> host_char c then None
      else map_option ((#) c) (host_decode z s))"

definition validOptionalPort :: "string \<Rightarrow> bool" where
  "validOptionalPort p \<longleftrightarrow> p = [] \<or> (hd p = CHR '':'' \<and> list_all is_digit (tl p))"

fun split_zone :: "string \<Rightarrow> string \<times> string" where
  "split_zone [] = ([], [])"
| "split_zone (c # s) = (if has_prefix (c # s) ''%25'' then ([], c # s) else apfst ((#) c) (split_zone s))"

definition parseHost :: "string \<Rightarrow> string result" where
  "parseHost h =
     (if has_prefix h ''['' then
        (if CHR '']'' \<notin> set h then Inl (''missing '' @ [CHR 0x27, CHR '']'', CHR 0x27] @ '' in host'') else
         let post = rev (until CHR '']'' (rev h)); pre = take (length h - Suc (length post)) h in
         if \<not> validOptionalPort post then Inl (''invalid port '' @ go_quote post @ '' after host'')
         else case split_zone pre of
                (a, z) \<Rightarrow>
                  (case (host_decode False a, host_decode True z, host_decode False ('']'' @ post)) of
                     (Some x, Some y, Some w) \<Rightarrow> Inr (x @ y @ w)
                   | _ \<Rightarrow> Inl ''invalid character in host name''))
      else if CHR '':'' \<in> set h \<and> \<not> validOptionalPort ('':'' @ rev (until CHR '':'' (rev h)))
      then Inl (''invalid port '' @ go_quote ('':'' @ rev (until CHR '':'' (rev h))) @ '' after host'')
      else (case host_decode False h of Some x \<Rightarrow> Inr x | None \<Rightarrow> Inl ''invalid character in host name''))"

definition parseAuthority :: "string \<Rightarrow> string result" where
  "parseAuthority a =
     (if CHR ''@'' \<notin> set a then parseHost a
      else let host = rev (until CHR ''@'' (rev a)); user = take (length a - Suc (length host)) a in
           case parseHost host of
             Inl err \<Rightarrow> Inl err
           | Inr h \<Rightarrow>
               if list_all (\<lambda>c. unreserved c \<or> c \<in> set '':!$&()*+,;=%@'' \<or> c = CHR 0x27) user \<and> percent_decode False user \<noteq> None
               then Inr h else Inl ''net/url: invalid userinfo'')"

definition url_error :: "string \<Rightarrow> go_error \<Rightarrow> go_error" where
  "url_error raw err = ''parse '' @ go_quote raw @ '': '' @ err"

definition finish_path :: "url \<Rightarrow> string \<Rightarrow> url result" where
  "finish_path u p = (case percent_decode False p of None \<Rightarrow> Inl ''invalid URL escape'' | Some x \<Rightarrow> Inr (u\<lparr>u_path := x\<rparr>))"

definition parse_url :: "string \<Rightarrow> url result" where
  "parse_url s =
     (let u0 = \<lparr>u_scheme = [], u_host = [], u_path = [], u_query = []\<rparr> in
      if list_ex (\<lambda>c. code_of c < 32 \<or> code_of c = 127) s then Inl ''net/url: invalid control character in URL''
      else if s = ''*'' then Inr (u0\<lparr>u_path := ''*''\<rparr>)
      else case getScheme s of
             Inl err \<Rightarrow> Inl err
           | Inr (scheme, r0) \<Rightarrow>
               (let r = until CHR ''?'' r0; u = u0\<lparr>u_scheme := scheme, u_query := beyond CHR ''?'' r0\<rparr> in
                if \<not> has_prefix r ''/'' \<and> scheme \<noteq> [] then Inr u
                else if \<not> has_prefix r ''/'' \<and> CHR '':'' \<in> set (until CHR ''/'' r)
                then Inl ''first path segment in URL cannot contain colon''
                else if (scheme \<noteq> [] \<or> \<not> has_prefix r ''///'') \<and> has_prefix r ''//'' then
                  (let a = until CHR ''/'' (drop 2 r) in
                   case parseAuthority a of
                     Inl err \<Rightarrow> Inl err
                   | Inr h \<Rightarrow> finish_path (u\<lparr>u_host := h\<rparr>) (drop (length a) (drop 2 r)))
                else finish_path u r))"

definition Parse :: "string \<Rightarrow> url result" where
  "Parse raw =
     (case parse_url (until CHR ''#'' raw) of
        Inl err \<Rightarrow> Inl (url_error raw err)
      | Inr u \<Rightarrow>
          if percent_decode False (beyond CHR ''#'' raw) = None then Inl (url_error raw ''invalid URL escape'') else Inr u)"

end
