(* ===== verification/Desktop.thy ===== *)
theory Desktop
  imports JsonText Urls
begin

text \<open>
  What the command-line client stands on: base64 and paths of the Go library, the user's files and
  keyring under failing calls and crashes, and the atomic write of \<^verbatim>\<open>internal/cliconfig/fsutil.go\<close>,
  which leaves the old file or the whole new one wherever it is interrupted.
\<close>

section \<open>Texts and bytes\<close>

definition to_bytes :: "string \<Rightarrow> byte list" where
  "to_bytes s = map (\<lambda>c. word_of_nat (code_of c)) s"

definition of_bytes :: "byte list \<Rightarrow> string" where
  "of_bytes bs = map (\<lambda>b. char_of (unat b)) bs"

lemma unat_byte: "unat (x :: byte) < 256"
  using unsigned_less [of x] by simp

lemma code_of_less: "code_of c < 256"
proof -
  have "code_of c = code_of c mod 256" by (metis char_of_char of_char_of)
  then show ?thesis by (metis mod_less_divisor zero_less_numeral)
qed

lemma of_to_bytes [simp]: "of_bytes (to_bytes s) = s"
proof -
  have "unat (word_of_nat (code_of c) :: byte) = code_of c" for c
    using code_of_less [of c] by (simp add: unat_of_nat take_bit_nat_eq_self)
  then show ?thesis by (simp add: of_bytes_def to_bytes_def comp_def)
qed

lemma to_of_bytes [simp]: "to_bytes (of_bytes bs) = bs"
proof -
  have "word_of_nat (code_of (char_of (unat b))) = (b :: byte)" for b
    using unat_byte [of b] by (simp add: of_char_of)
  then show ?thesis by (simp add: of_bytes_def to_bytes_def comp_def)
qed

section \<open>Base64\<close>

text \<open>\<^verbatim>\<open>base64.StdEncoding\<close>: decoding skips line breaks, wants the padding and ignores the spare bits.\<close>

definition enc6 :: "nat \<Rightarrow> char" where
  "enc6 d =
     char_of (if d < 26 then 65 + d else if d < 52 then 71 + d else if d < 62 then d - 4 else if d = 62 then 43 else 47)"

definition dec6 :: "char \<Rightarrow> nat option" where
  "dec6 c =
     (let n = code_of c in
      if 65 \<le> n \<and> n \<le> 90 then Some (n - 65)
      else if 97 \<le> n \<and> n \<le> 122 then Some (n - 71)
      else if 48 \<le> n \<and> n \<le> 57 then Some (n + 4)
      else if n = 43 then Some 62 else if n = 47 then Some 63 else None)"

fun b64_encode :: "byte list \<Rightarrow> string" where
  "b64_encode [] = []"
| "b64_encode [a] = (let n = unat a in [enc6 (n div 4), enc6 (n mod 4 * 16), CHR ''='', CHR ''=''])"
| "b64_encode [a, b] =
     (let n = unat a * 256 + unat b in [enc6 (n div 1024), enc6 (n div 16 mod 64), enc6 (n mod 16 * 4), CHR ''=''])"
| "b64_encode (a # b # c # r) =
     (let n = (unat a * 256 + unat b) * 256 + unat c in
      [enc6 (n div 262144), enc6 (n div 4096 mod 64), enc6 (n div 64 mod 64), enc6 (n mod 64)] @ b64_encode r)"

text \<open>Four characters at a time; the error leaves out the offset of the corrupt byte.\<close>

definition b64_error :: go_error where
  "b64_error = ''illegal base64 data''"

fun b64_quads :: "string \<Rightarrow> byte list result" where
  "b64_quads [] = Inr []"
| "b64_quads (a # b # c # d # r) =
     (case (dec6 a, dec6 b) of
        (Some i, Some j) \<Rightarrow>
          if c = CHR ''='' then
            (if d = CHR ''='' \<and> r = [] then Inr [word_of_nat ((i * 64 + j) div 16)] else Inl b64_error)
          else
            (case dec6 c of
               None \<Rightarrow> Inl b64_error
             | Some k \<Rightarrow>
                 if d = CHR ''='' then
                   (if r = [] then
                      (let v = ((i * 64 + j) * 64 + k) div 4 in Inr [word_of_nat (v div 256), word_of_nat (v mod 256)])
                    else Inl b64_error)
                 else
                   (case dec6 d of
                      None \<Rightarrow> Inl b64_error
                    | Some l \<Rightarrow>
                        (let v = ((i * 64 + j) * 64 + k) * 64 + l in
                         case b64_quads r of
                           Inl err \<Rightarrow> Inl err
                         | Inr bs \<Rightarrow>
                             Inr (word_of_nat (v div 65536) # word_of_nat (v div 256 mod 256) # word_of_nat (v mod 256) # bs))))
      | _ \<Rightarrow> Inl b64_error)"
| "b64_quads _ = Inl b64_error"

definition b64_decode :: "string \<Rightarrow> byte list result" where
  "b64_decode s = b64_quads (filter (\<lambda>c. c \<notin> {CHR 0x0A, CHR 0x0D}) s)"

lemma code_enc6:
  "d < 64 \<Longrightarrow> code_of (enc6 d) =
     (if d < 26 then 65 + d else if d < 52 then 71 + d else if d < 62 then d - 4 else if d = 62 then 43 else 47)"
  by (simp add: enc6_def)

lemma enc6_simps [simp]:
  assumes "d < 64"
  shows "dec6 (enc6 d) = Some d" "enc6 d \<noteq> CHR ''=''" "enc6 d \<noteq> CHR 0x0A" "enc6 d \<noteq> CHR 0x0D"
proof -
  consider "d < 26" | "26 \<le> d" "d < 52" | "52 \<le> d" "d < 62" | "d = 62" | "d = 63" using assms by linarith
  then show "dec6 (enc6 d) = Some d" by cases (auto simp: dec6_def code_enc6 Let_def)
  have "code_of (enc6 d) \<notin> {61, 10, 13}" using assms by (auto simp: code_enc6)
  moreover have "code_of (CHR ''='') = (61 :: nat)" "code_of (CHR 0x0A) = (10 :: nat)" "code_of (CHR 0x0D) = (13 :: nat)" by simp_all
  ultimately show "enc6 d \<noteq> CHR ''=''" "enc6 d \<noteq> CHR 0x0A" "enc6 d \<noteq> CHR 0x0D" by auto
qed

text \<open>The digits of one, two and three bytes.\<close>

lemma digits1:
  assumes "n = unat (a :: byte)"
  shows "n div 4 < 64" "n mod 4 * 16 < 64" "n div 4 * 64 + n mod 4 * 16 = n * 16"
proof -
  have n: "n < 256" using assms unat_byte [of a] by simp
  then show "n div 4 < 64" by (intro less_mult_imp_div_less) simp
  define q r where qr: "q = n div 4" "r = n mod 4"
  have "n = q * 4 + r" "r < 4" unfolding qr by simp_all
  then show "n mod 4 * 16 < 64" "n div 4 * 64 + n mod 4 * 16 = n * 16" by (simp_all flip: qr)
qed

lemma digits2:
  assumes "n = unat (a :: byte) * 256 + unat (b :: byte)"
  shows "n div 1024 < 64" "n div 16 mod 64 < 64" "n mod 16 * 4 < 64"
    "(n div 1024 * 64 + n div 16 mod 64) * 64 + n mod 16 * 4 = n * 4"
    "n div 256 = unat a" "n mod 256 = unat b" "n < 65536"
proof -
  show n: "n < 65536" using unat_byte [of a] unat_byte [of b] assms by linarith
  then show "n div 1024 < 64" by (intro less_mult_imp_div_less) simp
  show "n div 16 mod 64 < 64" by simp
  define y x q p where d: "y = n mod 16" "x = n div 16" "q = x mod 64" "p = x div 64"
  have p: "n div 1024 = p" unfolding d by (simp flip: div_mult2_eq)
  have e: "n mod 16 = y" "n div 16 mod 64 = q" by (simp_all add: d)
  have "n = x * 16 + y" "x = p * 64 + q" "y < 16" unfolding d by simp_all
  then show "n mod 16 * 4 < 64" "(n div 1024 * 64 + n div 16 mod 64) * 64 + n mod 16 * 4 = n * 4"
    unfolding p e by simp_all
  show "n div 256 = unat a" "n mod 256 = unat b" using assms unat_byte [of b] by simp_all
qed

lemma digits3:
  assumes "n = (unat (a :: byte) * 256 + unat (b :: byte)) * 256 + unat (c :: byte)"
  shows "n div 262144 < 64" "n div 4096 mod 64 < 64" "n div 64 mod 64 < 64" "n mod 64 < 64"
    "((n div 262144 * 64 + n div 4096 mod 64) * 64 + n div 64 mod 64) * 64 + n mod 64 = n"
    "n div 65536 = unat a" "n div 256 mod 256 = unat b" "n mod 256 = unat c"
proof -
  define m where m: "m = unat a * 256 + unat b"
  have nm: "n = m * 256 + unat c" using assms by (simp add: m)
  have "n < 16777216" using digits2(7) [OF m] nm unat_byte [of c] by linarith
  then show "n div 262144 < 64" by (intro less_mult_imp_div_less) simp
  show "n div 4096 mod 64 < 64" "n div 64 mod 64 < 64" "n mod 64 < 64" by simp_all
  define y x q w v p where d: "y = n mod 64" "x = n div 64" "q = x mod 64" "w = x div 64" "v = w mod 64" "p = w div 64"
  have pw: "n div 262144 = p" "n div 4096 = w" unfolding d by (simp_all flip: div_mult2_eq)
  have e: "n mod 64 = y" "n div 64 mod 64 = q" "w mod 64 = v" by (simp_all add: d)
  have "n = x * 64 + y" "x = w * 64 + q" "w = p * 64 + v" unfolding d by simp_all
  then show "((n div 262144 * 64 + n div 4096 mod 64) * 64 + n div 64 mod 64) * 64 + n mod 64 = n"
    unfolding pw e by simp
  have h: "n div 256 = m" "n mod 256 = unat c" using nm unat_byte [of c] by simp_all
  have "n div 65536 = m div 256" unfolding h(1) [symmetric] by (simp flip: div_mult2_eq)
  then show "n div 65536 = unat a" "n div 256 mod 256 = unat b" "n mod 256 = unat c"
    using h digits2(5,6) [OF m] by simp_all
qed

lemma b64_quads_encode: "b64_quads (b64_encode bs) = Inr bs"
proof (induction bs rule: b64_encode.induct)
  case (2 a)
  then show ?case
    using digits1 [OF refl, of a] by (simp add: Let_def)
next
  case (3 a b)
  obtain n where n: "n = unat a * 256 + unat b" by blast
  show ?case
    unfolding b64_encode.simps n [symmetric] Let_def using digits2 [OF n] by (simp add: Let_def)
next
  case (4 a b c r)
  obtain n where n: "n = (unat a * 256 + unat b) * 256 + unat c" by blast
  show ?case
    unfolding b64_encode.simps n [symmetric] Let_def using digits3 [OF n] 4 by (simp add: Let_def)
qed simp

lemma b64_no_breaks: "c \<in> set (b64_encode bs) \<Longrightarrow> c \<noteq> CHR 0x0A \<and> c \<noteq> CHR 0x0D"
proof (induction bs rule: b64_encode.induct)
  case (2 a)
  then show ?case using digits1 [OF refl, of a] by (auto simp: Let_def)
next
  case (3 a b)
  then show ?case using digits2(1-3) [OF refl, of a b] by (auto simp: Let_def)
next
  case (4 a b c r)
  then show ?case using digits3(1-4) [OF refl, of a b c] by (auto simp: Let_def)
qed simp

lemma b64_roundtrip [simp]: "b64_decode (b64_encode bs) = Inr bs"
proof -
  have "filter (\<lambda>c. c \<notin> {CHR 0x0A, CHR 0x0D}) (b64_encode bs) = b64_encode bs"
    by (rule map_filter_id) (use b64_no_breaks in blast)
  then show ?thesis by (simp add: b64_decode_def b64_quads_encode)
qed


section \<open>Paths\<close>

text \<open>\<^verbatim>\<open>path/filepath\<close> on slash-separated paths.\<close>

text \<open>\<^verbatim>\<open>Clean\<close>: the components in reverse, dots dropped, a component removed by the dots after it.\<close>

definition clean_step :: "bool \<Rightarrow> string \<Rightarrow> string list \<Rightarrow> string list" where
  "clean_step rooted c stack =
     (if c = [] \<or> c = ''.'' then stack
      else if c = ''..'' then
        (case stack of
           [] \<Rightarrow> if rooted then [] else [''..'']
         | t # ts \<Rightarrow> if t = ''..'' then ''..'' # stack else ts)
      else c # stack)"

definition path_clean :: "string \<Rightarrow> string" where
  "path_clean s =
     (let rooted = has_prefix s ''/'';
          body = join_with ''/'' (rev (fold (clean_step rooted) (split_char CHR ''/'' s) []))
      in if rooted then ''/'' @ body else if body = [] then ''.'' else body)"

definition path_join :: "string list \<Rightarrow> string" where
  "path_join elems =
     (case filter (\<lambda>e. e \<noteq> []) elems of [] \<Rightarrow> [] | es \<Rightarrow> path_clean (join_with ''/'' es))"

definition path_dir :: "string \<Rightarrow> string" where
  "path_dir s = path_clean (rev (dropWhile (\<lambda>c. c \<noteq> CHR ''/'') (rev s)))"

definition path_base :: "string \<Rightarrow> string" where
  "path_base s =
     (if s = [] then ''.''
      else (let t = trim_right CHR ''/'' s in
            if t = [] then ''/'' else rev (takeWhile (\<lambda>c. c \<noteq> CHR ''/'') (rev t))))"

definition path_ext :: "string \<Rightarrow> string" where
  "path_ext s =
     (let t = takeWhile (\<lambda>c. c \<noteq> CHR ''/'') (rev s); e = takeWhile (\<lambda>c. c \<noteq> CHR ''.'') t in
      if length e < length t then CHR ''.'' # rev e else [])"

lemma split_char_snoc: "c \<notin> set n \<Longrightarrow> split_char c (s @ c # n) = split_char c s @ [n]"
proof (induction s)
  case Nil
  have "c \<notin> set n \<Longrightarrow> split_char c n = [n]"
    by (induction n) auto
  with Nil show ?case by simp
next
  case (Cons x s)
  then show ?case using split_char_nonempty [of c s] by (auto split: list.splits)
qed

lemma join_with_last: "ss \<noteq> [] \<Longrightarrow> last ss \<noteq> [] \<Longrightarrow> join_with sep ss \<noteq> [] \<and> last (join_with sep ss) = last (last ss)"
  by (induction sep ss rule: join_with.induct) (auto simp: last_append split: if_splits)

text \<open>A path made by joining a name to a directory ends with the name.\<close>

lemma path_join_last:
  assumes "CHR ''/'' \<notin> set name" "name \<notin> {[], ''.'', ''..''}"
  shows "path_join [dir, name] \<noteq> [] \<and> last (path_join [dir, name]) = last name"
proof -
  have split1: "split_char CHR ''/'' name = [name]"
    using assms(1) by (induction name) auto
  have clean: "path_clean s \<noteq> [] \<and> last (path_clean s) = last name" if s: "split_char CHR ''/'' s = cs @ [name]" for s cs
  proof -
    let ?stack = "fold (clean_step (has_prefix s ''/'')) (split_char CHR ''/'' s) []"
    have "?stack = name # fold (clean_step (has_prefix s ''/'')) cs []"
      using assms(2) by (simp add: s clean_step_def)
    then have "join_with ''/'' (rev ?stack) \<noteq> [] \<and> last (join_with ''/'' (rev ?stack)) = last name"
      using join_with_last [of "rev ?stack" "''/''"] assms(2) by simp
    then show ?thesis by (cases "has_prefix s ''/''") (simp_all add: path_clean_def Let_def)
  qed
  show ?thesis
  proof (cases "dir = []")
    case True
    then show ?thesis using clean [of name "[]"] split1 assms(2) by (simp add: path_join_def)
  next
    case False
    then show ?thesis
      using clean [of "dir @ CHR ''/'' # name"] split_char_snoc [OF assms(1), of dir] assms(2) by (simp add: path_join_def)
  qed
qed

section \<open>The user's machine\<close>

text \<open>
  Files with their content and permission bits, and the state of the operating system's keyring, which
  is a third-party package: its type is a parameter.  Directories are not modelled: making one is a call
  that can fail.
\<close>

record 'k desktop =
  dk_calls :: nat
  dk_files :: "string \<Rightarrow> (string \<times> nat) option"
  dk_keyring :: 'k

text \<open>
  What comes from outside: the outcome of the \<open>n\<close>-th call, the call at which the process dies (from
  then on nothing takes effect), how much of a write that breaks off is left behind, the number \<^verbatim>\<open>CreateTemp\<close>
  draws (the last of its tries; files it creates have mode 0600, that is 384), environment variables (empty when unset), and the home directory.
\<close>

record os_env =
  os_outcome :: "nat \<Rightarrow> outcome"
  os_crash :: "nat option"
  os_torn :: "nat \<Rightarrow> nat"
  os_tmp :: "nat \<Rightarrow> nat"
  os_var :: "string \<Rightarrow> string"
  os_home :: "string result"

definition dead :: "os_env \<Rightarrow> nat \<Rightarrow> bool" where
  "dead e n = (case os_crash e of None \<Rightarrow> False | Some k \<Rightarrow> k \<le> n)"

definition os_call :: "os_env \<Rightarrow> ('k desktop \<Rightarrow> ('e + 'a) \<times> 'k desktop) \<Rightarrow> (go_error \<Rightarrow> 'e) \<Rightarrow> 'k desktop \<Rightarrow> ('e + 'a) \<times> 'k desktop" where
  "os_call e f wrap d =
     (let n = dk_calls d; d1 = d\<lparr>dk_calls := Suc n\<rparr> in
      if dead e n then (Inl (wrap ''signal: killed''), d1)
      else case os_outcome e n of
             Done \<Rightarrow> f d1
           | Refused m \<Rightarrow> (Inl (wrap m), d1)
           | Lost m \<Rightarrow> (Inl (wrap m), snd (f d1)))"

lemma os_call_frame:
  assumes "\<And>v n. g (v\<lparr>dk_calls := n\<rparr>) = g v" "\<And>v. g (snd (f v)) = g v"
  shows "g (snd (os_call e f h d)) = g d"
  using assms by (auto simp: os_call_def Let_def split: outcome.splits)

lemma os_call_cases:
  obtains (ok) "os_call e f h d = f (d\<lparr>dk_calls := Suc (dk_calls d)\<rparr>)"
  | (none) m where "os_call e f h d = (Inl (h m), d\<lparr>dk_calls := Suc (dk_calls d)\<rparr>)"
  | (lost) m where "os_call e f h d = (Inl (h m), snd (f (d\<lparr>dk_calls := Suc (dk_calls d)\<rparr>)))"
  by (cases "dead e (dk_calls d)"; cases "os_outcome e (dk_calls d)") (auto simp: os_call_def Let_def)

text \<open>\<^verbatim>\<open>os.ReadFile\<close>: \<open>None\<close> is \<^verbatim>\<open>os.ErrNotExist\<close>.\<close>

definition os_read :: "os_env \<Rightarrow> string \<Rightarrow> 'k desktop \<Rightarrow> string option result \<times> 'k desktop" where
  "os_read e name = os_call e (\<lambda>v. (Inr (map_option fst (dk_files v name)), v)) id"

definition os_mkdir_all :: "os_env \<Rightarrow> string \<Rightarrow> 'k desktop \<Rightarrow> unit result \<times> 'k desktop" where
  "os_mkdir_all e dir = os_call e (\<lambda>v. (Inr (), v)) id"

definition temp_name :: "string \<Rightarrow> string \<Rightarrow> nat \<Rightarrow> string" where
  "temp_name dir prefix n = (if dir \<noteq> [] \<and> last dir = CHR ''/'' then dir else dir @ ''/'') @ prefix @ nat_digits n"

definition os_create_temp :: "os_env \<Rightarrow> string \<Rightarrow> string \<Rightarrow> 'k desktop \<Rightarrow> string result \<times> 'k desktop" where
  "os_create_temp e dir prefix =
     os_call e (\<lambda>v. (let name = temp_name dir prefix (os_tmp e (dk_calls v)) in
                     if dk_files v name \<noteq> None then (Inl ''file exists'', v)
                     else (Inr name, v\<lparr>dk_files := (dk_files v)(name \<mapsto> ([], 384))\<rparr>))) id"


text \<open>A write on an open file: one that fails or dies has left some of its bytes.\<close>

definition put_data :: "string \<Rightarrow> string \<Rightarrow> 'k desktop \<Rightarrow> 'k desktop" where
  "put_data name data v = v\<lparr>dk_files := (dk_files v)(name := map_option (\<lambda>(_, p). (data, p)) (dk_files v name))\<rparr>"

definition os_write :: "os_env \<Rightarrow> string \<Rightarrow> string \<Rightarrow> 'k desktop \<Rightarrow> unit result \<times> 'k desktop" where
  "os_write e name data d =
     (let n = dk_calls d; d1 = d\<lparr>dk_calls := Suc n\<rparr> in
      if dead e n then
        (Inl ''signal: killed'', if os_crash e = Some n then put_data name (take (os_torn e n) data) d1 else d1)
      else case os_outcome e n of
             Done \<Rightarrow> (Inr (), put_data name data d1)
           | Refused m \<Rightarrow> (Inl m, put_data name (take (os_torn e n) data) d1)
           | Lost m \<Rightarrow> (Inl m, put_data name data d1))"

definition os_chmod :: "os_env \<Rightarrow> string \<Rightarrow> nat \<Rightarrow> 'k desktop \<Rightarrow> unit result \<times> 'k desktop" where
  "os_chmod e name perm =
     os_call e (\<lambda>v. (Inr (), v\<lparr>dk_files := (dk_files v)(name := map_option (\<lambda>(c, _). (c, perm)) (dk_files v name))\<rparr>)) id"

definition os_close :: "os_env \<Rightarrow> 'k desktop \<Rightarrow> unit result \<times> 'k desktop" where
  "os_close e = os_call e (\<lambda>v. (Inr (), v)) id"

definition os_rename :: "os_env \<Rightarrow> string \<Rightarrow> string \<Rightarrow> 'k desktop \<Rightarrow> unit result \<times> 'k desktop" where
  "os_rename e old new =
     os_call e (\<lambda>v. (case dk_files v old of
                       None \<Rightarrow> (Inl ''no such file or directory'', v)
                     | Some fl \<Rightarrow> (Inr (), v\<lparr>dk_files := ((dk_files v)(old := None))(new \<mapsto> fl)\<rparr>))) id"

definition os_remove :: "os_env \<Rightarrow> string \<Rightarrow> 'k desktop \<Rightarrow> unit result \<times> 'k desktop" where
  "os_remove e name =
     os_call e (\<lambda>v. (case dk_files v name of
                       None \<Rightarrow> (Inl ''no such file or directory'', v)
                     | Some _ \<Rightarrow> (Inr (), v\<lparr>dk_files := (dk_files v)(name := None)\<rparr>))) id"

section \<open>writeFileAtomic\<close>

text \<open>The steps after the temporary file exists, without the deferred removal.\<close>

definition fill_and_rename :: "os_env \<Rightarrow> string \<Rightarrow> string \<Rightarrow> string \<Rightarrow> nat \<Rightarrow> 'k desktop \<Rightarrow> unit result \<times> 'k desktop" where
  "fill_and_rename e tmp path data perm d2 =
     (case os_chmod e tmp perm d2 of
        (Inl err, d3) \<Rightarrow> (Inl (wrapf ''setting permissions'' err), snd (os_close e d3))
      | (Inr _, d3) \<Rightarrow>
          (case os_write e tmp data d3 of
             (Inl err, d4) \<Rightarrow> (Inl (wrapf ''writing data'' err), snd (os_close e d4))
           | (Inr _, d4) \<Rightarrow>
               (case os_close e d4 of
                  (Inl err, d5) \<Rightarrow> (Inl (wrapf ''closing temp file'' err), d5)
                | (Inr _, d5) \<Rightarrow>
                    (case os_rename e tmp path d5 of
                       (Inl err, d6) \<Rightarrow> (Inl (wrapf (''replacing '' @ path) err), d6)
                     | (Inr _, d6) \<Rightarrow> (Inr (), d6)))))"

definition writeFileAtomic :: "os_env \<Rightarrow> string \<Rightarrow> string \<Rightarrow> nat \<Rightarrow> 'k desktop \<Rightarrow> unit result \<times> 'k desktop" where
  "writeFileAtomic e path data perm d =
     (let dir = path_dir path in
      case os_mkdir_all e dir d of
        (Inl err, d1) \<Rightarrow> (Inl (wrapf (''creating directory '' @ dir) err), d1)
      | (Inr _, d1) \<Rightarrow>
          (case os_create_temp e dir ''.tmp-'' d1 of
             (Inl err, d2) \<Rightarrow> (Inl (wrapf ''creating temp file'' err), d2)
           | (Inr tmp, d2) \<Rightarrow>
               (case fill_and_rename e tmp path data perm d2 of
                  (r, d3) \<Rightarrow> (r, snd (os_remove e tmp d3)))))"

text \<open>Each call leaves every file but the ones it names.\<close>

lemma os_others:
  "q \<noteq> name \<Longrightarrow> dk_files (snd (os_chmod e name perm d)) q = dk_files d q"
  "q \<noteq> name \<Longrightarrow> dk_files (snd (os_write e name data d)) q = dk_files d q"
  "q \<noteq> name \<Longrightarrow> dk_files (snd (os_remove e name d)) q = dk_files d q"
  "q \<noteq> name \<Longrightarrow> q \<noteq> new \<Longrightarrow> dk_files (snd (os_rename e name new d)) q = dk_files d q"
  "dk_files (snd (os_close e d)) = dk_files d"
  "dk_files (snd (os_mkdir_all e dir d)) = dk_files d"
  "dk_keyring (snd (os_chmod e name perm d)) = dk_keyring d"
  "dk_keyring (snd (os_write e name data d)) = dk_keyring d"
  "dk_keyring (snd (os_remove e name d)) = dk_keyring d"
  "dk_keyring (snd (os_rename e name new d)) = dk_keyring d"
  "dk_keyring (snd (os_close e d)) = dk_keyring d"
  "dk_keyring (snd (os_mkdir_all e dir d)) = dk_keyring d"
  by (auto simp: os_chmod_def os_write_def os_remove_def os_rename_def os_close_def os_mkdir_all_def os_call_def put_data_def
      Let_def split: outcome.splits option.splits)

lemma os_create_temp_files:
  "q \<noteq> temp_name dir p (os_tmp e (Suc (dk_calls d))) \<Longrightarrow> dk_files (snd (os_create_temp e dir p d)) q = dk_files d q"
  "os_create_temp e dir p d = (Inr tmp, d') \<Longrightarrow> tmp = temp_name dir p (os_tmp e (Suc (dk_calls d)))"
  by (auto simp: os_create_temp_def os_call_def Let_def split: outcome.splits if_splits)

lemma temp_name_last: "is_digit (last (temp_name dir p n))"
  using nat_digits_are_digits [of "last (nat_digits n)" n] by (simp add: temp_name_def)

lemma temp_name_ne: "path = [] \<or> \<not> is_digit (last path) \<Longrightarrow> temp_name dir p n \<noteq> path"
  using temp_name_last [of dir p n] by (auto simp: temp_name_def)

text \<open>
  Filling the temporary file does not touch the target; the rename gives it the data whole.
\<close>

lemma fill_and_rename_target:
  assumes "tmp \<noteq> path" "fill_and_rename e tmp path data perm d = (r, d')" "dk_files d tmp \<noteq> None"
  shows "dk_files d' path \<in> {dk_files d path, Some (data, perm)}"
    and "r = Inr () \<Longrightarrow> dk_files d' path = Some (data, perm)"
    and "\<And>q. q \<noteq> tmp \<Longrightarrow> q \<noteq> path \<Longrightarrow> dk_files d' q = dk_files d q"
    and "dk_keyring d' = dk_keyring d"
proof -
  obtain c p where tmp: "dk_files d tmp = Some (c, p)" using assms(3) by auto
  obtain x3 d3 where x3: "os_chmod e tmp perm d = (x3, d3)" by force
  obtain x4 d4 where x4: "os_write e tmp data d3 = (x4, d4)" by force
  obtain x5 d5 where x5: "os_close e d4 = (x5, d5)" by force
  obtain x6 d6 where x6: "os_rename e tmp path d5 = (x6, d6)" by force
  have o3: "dk_files d3 q = dk_files d q" "dk_keyring d3 = dk_keyring d" if "q \<noteq> tmp" for q
    using os_others(1) [of q tmp e perm d] os_others(7) [of e tmp perm d] that x3 by simp_all
  have o4: "dk_files d4 q = dk_files d q" "dk_keyring d4 = dk_keyring d" if "q \<noteq> tmp" for q
    using os_others(2) [of q tmp e data d3] os_others(8) [of e tmp data d3] o3 [of q] that x4 by simp_all
  have o5: "dk_files d5 = dk_files d4" "dk_keyring d5 = dk_keyring d4" using os_others(5) [of e d4] os_others(11) [of e d4] x5 by simp_all
  have o6: "dk_files d6 q = dk_files d5 q" "dk_keyring d6 = dk_keyring d5" if "q \<noteq> tmp" "q \<noteq> path" for q
    using os_others(4) [of q tmp path e d5] os_others(10) [of e tmp path d5] that x6 by simp_all
  have full: "dk_files d5 tmp = Some (data, perm)" if "is_ok x3" "is_ok x4"
    using that tmp x3 x4 o5(1)
    by (auto simp: os_chmod_def os_write_def os_call_def put_data_def Let_def split: outcome.splits if_splits)
  have ren: "dk_files d6 path \<in> {dk_files d5 path, dk_files d5 tmp}" "x6 = Inr () \<Longrightarrow> dk_files d6 path = dk_files d5 tmp"
    using x6 by (auto simp: os_rename_def os_call_def Let_def split: outcome.splits option.splits if_splits)
  have d': "d' = snd (os_close e d3) \<or> d' = snd (os_close e d4) \<or> d' = d5 \<or> (is_ok x3 \<and> is_ok x4 \<and> d' = d6)"
    and r: "r = Inr () \<Longrightarrow> is_ok x3 \<and> is_ok x4 \<and> x6 = Inr () \<and> d' = d6"
    using assms(2) x3 x4 x5 x6 by (auto simp: fill_and_rename_def split: sum.splits)
  note cl = os_others(5) [of e d3] os_others(5) [of e d4] os_others(11) [of e d3] os_others(11) [of e d4]
  have path: "path \<noteq> tmp" using assms(1) by simp
  show "dk_files d' path \<in> {dk_files d path, Some (data, perm)}"
    using d' cl o3 [OF path] o4 [OF path] o5 ren(1) full by auto
  show "r = Inr () \<Longrightarrow> dk_files d' path = Some (data, perm)" using r ren(2) full by auto
  show "dk_files d' q = dk_files d q" if "q \<noteq> tmp" "q \<noteq> path" for q
    using d' cl o3 [OF that(1)] o4 [OF that(1)] o5 o6 [OF that] by auto
  have k6: "dk_keyring d6 = dk_keyring d5" using os_others(10) [of e tmp path d5] x6 by simp
  show "dk_keyring d' = dk_keyring d"
    using d' cl o3(2) [OF path] o4(2) [OF path] o5 k6 by auto
qed


lemma atomic_write:
  assumes "writeFileAtomic e path data perm d = (r, d')" "path \<noteq> []" "\<not> is_digit (last path)"
  shows "dk_files d' path \<in> {dk_files d path, Some (data, perm)} \<and>
    (r = Inr () \<longrightarrow> dk_files d' path = Some (data, perm)) \<and>
    (\<exists>tmp. tmp \<noteq> path \<and> is_digit (last tmp) \<and> dk_files d' = (dk_files d)(path := dk_files d' path, tmp := dk_files d' tmp))"
proof -
  let ?dir = "path_dir path"
  obtain x1 d1 where x1: "os_mkdir_all e ?dir d = (x1, d1)" by force
  have o1: "dk_files d1 = dk_files d" using os_others(6) [of e ?dir d] x1 by simp
  let ?tmp = "temp_name ?dir ''.tmp-'' (os_tmp e (Suc (dk_calls d1)))"
  obtain x2 d2 where x2: "os_create_temp e ?dir ''.tmp-'' d1 = (x2, d2)" by force
  have o2: "dk_files d2 q = dk_files d q" if "q \<noteq> ?tmp" for q
    using os_create_temp_files(1) [OF that] x2 o1 by (metis snd_conv)
  have tmp: "?tmp \<noteq> path" using temp_name_ne assms(2,3) by blast
  show ?thesis
  proof (cases "is_ok x1 \<and> is_ok x2")
    case False
    then have "d' = d1 \<or> d' = d2" "r \<noteq> Inr ()"
      using assms(1) x1 x2 by (auto simp: writeFileAtomic_def Let_def is_ok_def split: sum.splits)
    then have keep: "dk_files d' q = dk_files d q" if "q \<noteq> ?tmp" for q
      using o1 o2 [OF that] by auto
    have "dk_files d' = (dk_files d)(path := dk_files d' path, ?tmp := dk_files d' ?tmp)"
      using keep tmp by (auto simp: fun_eq_iff)
    then show ?thesis using keep [OF tmp [symmetric]] \<open>r \<noteq> Inr ()\<close> tmp temp_name_last by auto
  next
    case True
    then have x2': "x2 = Inr ?tmp" using os_create_temp_files(2) [of e ?dir "''.tmp-''" d1 _ d2] x2 by (auto elim!: is_okE)
    obtain r3 d3 where f: "fill_and_rename e ?tmp path data perm d2 = (r3, d3)" by force
    have d': "r = r3" "d' = snd (os_remove e ?tmp d3)"
      using assms(1) x1 x2 x2' True f by (auto simp: writeFileAtomic_def Let_def elim!: is_okE)
    have ex: "dk_files d2 ?tmp \<noteq> None"
      using x2 x2' by (auto simp: os_create_temp_def os_call_def Let_def split: outcome.splits if_splits)
    note fr = fill_and_rename_target [OF tmp f ex]
    have rm: "dk_files d' q = dk_files d3 q" if "q \<noteq> ?tmp" for q
      using os_others(3) [OF that, of e d3] d' by simp
    have "dk_files d' = (dk_files d)(path := dk_files d' path, ?tmp := dk_files d' ?tmp)"
      using rm fr(3) o2 tmp by (auto simp: fun_eq_iff)
    then show ?thesis
      using fr(1,2) rm [OF tmp [symmetric]] o2 [OF tmp [symmetric]] d'(1) tmp temp_name_last by auto
  qed
qed

text \<open>
  C36: an atomic write leaves the target with its old content or with all of the new one, whatever
  call fails and wherever the process dies; when it reports success it is the new one; and no other
  file but the temporary one changes.
\<close>

theorem writeFileAtomic_atomic:
  assumes "writeFileAtomic e path data perm d = (r, d')" "path \<noteq> []" "\<not> is_digit (last path)"
  shows "dk_files d' path \<in> {dk_files d path, Some (data, perm)} \<and>
    (r = Inr () \<longrightarrow> dk_files d' path = Some (data, perm)) \<and>
    (\<exists>tmp. tmp \<noteq> path \<and> is_digit (last tmp) \<and> dk_files d' = (dk_files d)(path := dk_files d' path, tmp := dk_files d' tmp))"
  by (rule atomic_write [OF assms])

text \<open>The process dies while the temporary file is being written: the old content stays.\<close>

definition torn_env :: os_env where
  "torn_env = \<lparr>os_outcome = (\<lambda>_. Done), os_crash = Some 3, os_torn = (\<lambda>_. 2), os_tmp = (\<lambda>_. 7), os_var = (\<lambda>_. []),
               os_home = Inr ''/home/u''\<rparr>"

definition old_desktop :: "unit desktop" where
  "old_desktop = \<lparr>dk_calls = 0, dk_files = [''/d/f'' \<mapsto> (''old'', 384)], dk_keyring = ()\<rparr>"

theorem writeFileAtomic_atomic_witness:
  "dk_files (snd (writeFileAtomic torn_env ''/d/f'' ''new text'' 384 old_desktop)) ''/d/f'' \<in> {Some (''old'', 384), Some (''new text'', 384)}"
proof -
  obtain r d where w: "writeFileAtomic torn_env ''/d/f'' ''new text'' 384 old_desktop = (r, d)" by fastforce
  have "\<not> is_digit (last ''/d/f'')" by (simp add: is_digit_def)
  from writeFileAtomic_atomic [OF w _ this] show ?thesis by (simp add: w) (simp add: old_desktop_def)
qed

end
