(* ===== verification/ClientErrors.thy ===== *)
theory ClientErrors
  imports JsonTypes Desktop
begin

text \<open>
  The errors of the command-line client: the chains of \<^verbatim>\<open>internal/dfmsclient/errors.go\<close>, what becomes of
  an error response of the server, and the exit codes of \<^verbatim>\<open>internal/cli/errors.go\<close>.
\<close>

section \<open>Error values\<close>

text \<open>
  \<open>SecretNotFound\<close> and \<open>NoCredentials\<close> are the sentinels \<^verbatim>\<open>cliconfig.ErrNotFound\<close> and
  \<^verbatim>\<open>dfmsclient.ErrNoCredentials\<close>; \<open>Wrapped p e\<close> is \<^verbatim>\<open>fmt.Errorf("p: %w", e)\<close>, and the \<^verbatim>\<open>url.Error\<close> in which
  \<^verbatim>\<open>http.Client.Do\<close> puts the error of a transport; \<open>Plain\<close> is any other error.
\<close>

datatype cli_error =
    SecretNotFound
  | NoCredentials
  | APIError (err_status: int) (err_code: string) (err_message: string) (err_request: string)
  | ConnectionError cli_error
  | UsageError cli_error
  | Wrapped string cli_error
  | Plain go_error

definition api_error_text :: "int \<Rightarrow> string \<Rightarrow> string \<Rightarrow> string \<Rightarrow> string" where
  "api_error_text status code message request =
     (if code = [] then [] else ''['' @ code @ ''] '') @
     (if message = [] then ''request failed with status '' @ itoa status else message) @
     (if request = [] then [] else '' (request id: '' @ request @ '')'')"

primrec error_text :: "cli_error \<Rightarrow> string" where
  "error_text SecretNotFound = ''secret not found''"
| "error_text NoCredentials = ''not authenticated: run '' @ [CHR 0x27] @ ''dfmsctl auth login'' @ [CHR 0x27] @ '' first''"
| "error_text (APIError s c m r) = api_error_text s c m r"
| "error_text (ConnectionError e) = ''connecting to server: '' @ error_text e"
| "error_text (UsageError e) = error_text e"
| "error_text (Wrapped p e) = p @ '': '' @ error_text e"
| "error_text (Plain s) = s"

text \<open>The error and what \<^verbatim>\<open>Unwrap\<close> leads to.\<close>

primrec chain :: "cli_error \<Rightarrow> cli_error list" where
  "chain SecretNotFound = [SecretNotFound]"
| "chain NoCredentials = [NoCredentials]"
| "chain (APIError s c m r) = [APIError s c m r]"
| "chain (ConnectionError e) = ConnectionError e # chain e"
| "chain (UsageError e) = UsageError e # chain e"
| "chain (Wrapped p e) = Wrapped p e # chain e"
| "chain (Plain s) = [Plain s]"

definition is_api :: "cli_error \<Rightarrow> bool" where
  "is_api e = (case e of APIError _ _ _ _ \<Rightarrow> True | _ \<Rightarrow> False)"

definition is_conn :: "cli_error \<Rightarrow> bool" where
  "is_conn e = (case e of ConnectionError _ \<Rightarrow> True | _ \<Rightarrow> False)"

definition is_usage :: "cli_error \<Rightarrow> bool" where
  "is_usage e = (case e of UsageError _ \<Rightarrow> True | _ \<Rightarrow> False)"

text \<open>\<^verbatim>\<open>errors.Is\<close> and \<^verbatim>\<open>errors.As\<close>.\<close>

definition errors_Is :: "cli_error \<Rightarrow> cli_error \<Rightarrow> bool" where
  "errors_Is e sentinel \<longleftrightarrow> sentinel \<in> set (chain e)"

definition errors_As :: "(cli_error \<Rightarrow> bool) \<Rightarrow> cli_error \<Rightarrow> cli_error option" where
  "errors_As p e = find p (chain e)"

lemma errors_kinds [simp]:
  "is_api (APIError s c m r)" "\<not> is_api NoCredentials" "\<not> is_api SecretNotFound" "\<not> is_api (ConnectionError e)"
  "\<not> is_api (UsageError e)" "\<not> is_api (Wrapped p e)" "\<not> is_api (Plain t)"
  "is_conn (ConnectionError e)" "\<not> is_conn NoCredentials" "\<not> is_conn (APIError s c m r)"
  "\<not> is_conn SecretNotFound" "\<not> is_conn (UsageError e)" "\<not> is_conn (Wrapped p e)" "\<not> is_conn (Plain t)"
  "is_usage (UsageError e)" "\<not> is_usage NoCredentials" "\<not> is_usage (APIError s c m r)" "\<not> is_usage (ConnectionError e)"
  "\<not> is_usage SecretNotFound" "\<not> is_usage (Wrapped p e)" "\<not> is_usage (Plain t)"
  by (simp_all add: is_api_def is_conn_def is_usage_def)

lemma chain_self [simp]: "e \<in> set (chain e)"
  by (cases e) simp_all

lemma errors_As_kind: "errors_As p e = Some x \<Longrightarrow> p x"
  by (simp add: errors_As_def find_Some_iff) blast

section \<open>Errors of a round trip\<close>

definition classifyError :: "cli_error \<Rightarrow> cli_error" where
  "classifyError e =
     (if errors_Is e NoCredentials then NoCredentials
      else case errors_As is_api e of
             Some a \<Rightarrow> a
           | None \<Rightarrow> (case errors_As is_conn e of Some c \<Rightarrow> c | None \<Rightarrow> ConnectionError e))"

lemma classifyError_kind:
  "classifyError e = NoCredentials \<or> is_api (classifyError e) \<or> is_conn (classifyError e)"
  using errors_As_kind [of is_api e] errors_As_kind [of is_conn e]
  by (simp add: classifyError_def split: option.splits)

text \<open>
  A response as the client sees it: \<open>hp_length\<close> is \<^verbatim>\<open>ContentLength\<close>, -1 when unknown; \<open>hp_break\<close> is the error
  that reading the body ends with instead of its end.
\<close>

record hresp =
  hp_status :: int
  hp_headers :: "(string \<times> string) list"
  hp_length :: int
  hp_body :: string
  hp_break :: "go_error option"

definition resp_header :: "hresp \<Rightarrow> string \<Rightarrow> string" where
  "resp_header r name =
     (case filter (\<lambda>(k, v). equal_fold k name) (hp_headers r) of [] \<Rightarrow> [] | kv # _ \<Rightarrow> snd kv)"

definition resp_ok :: "hresp \<Rightarrow> bool" where
  "resp_ok r \<longleftrightarrow> 200 \<le> hp_status r \<and> hp_status r < 300"

text \<open>\<^verbatim>\<open>json.NewDecoder(resp.Body).Decode\<close>: the first value of the body.\<close>

definition decode_body :: "jtype \<Rightarrow> hresp \<Rightarrow> json result" where
  "decode_body t r =
     (case (json_decode (hp_body r), hp_break r) of
        (Inl _, Some err) \<Rightarrow> Inl err
      | _ \<Rightarrow> decode_into t (hp_body r))"

definition StatusText :: "int \<Rightarrow> string" where
  "StatusText n =
     (case map_of
        [(100, ''Continue''), (101, ''Switching Protocols''), (102, ''Processing''), (103, ''Early Hints''),
         (200, ''OK''), (201, ''Created''), (202, ''Accepted''), (203, ''Non-Authoritative Information''),
         (204, ''No Content''), (205, ''Reset Content''), (206, ''Partial Content''), (207, ''Multi-Status''),
         (208, ''Already Reported''), (226, ''IM Used''),
         (300, ''Multiple Choices''), (301, ''Moved Permanently''), (302, ''Found''), (303, ''See Other''),
         (304, ''Not Modified''), (305, ''Use Proxy''), (307, ''Temporary Redirect''), (308, ''Permanent Redirect''),
         (400, ''Bad Request''), (401, ''Unauthorized''), (402, ''Payment Required''), (403, ''Forbidden''),
         (404, ''Not Found''), (405, ''Method Not Allowed''), (406, ''Not Acceptable''),
         (407, ''Proxy Authentication Required''), (408, ''Request Timeout''), (409, ''Conflict''), (410, ''Gone''),
         (411, ''Length Required''), (412, ''Precondition Failed''), (413, ''Request Entity Too Large''),
         (414, ''Request URI Too Long''), (415, ''Unsupported Media Type''), (416, ''Requested Range Not Satisfiable''),
         (417, ''Expectation Failed''), (418, ''I'' @ [CHR 0x27] @ ''m a teapot''), (421, ''Misdirected Request''),
         (422, ''Unprocessable Entity''), (423, ''Locked''), (424, ''Failed Dependency''), (425, ''Too Early''),
         (426, ''Upgrade Required''), (428, ''Precondition Required''), (429, ''Too Many Requests''),
         (431, ''Request Header Fields Too Large''), (451, ''Unavailable For Legal Reasons''),
         (500, ''Internal Server Error''), (501, ''Not Implemented''), (502, ''Bad Gateway''),
         (503, ''Service Unavailable''), (504, ''Gateway Timeout''), (505, ''HTTP Version Not Supported''),
         (506, ''Variant Also Negotiates''), (507, ''Insufficient Storage''), (508, ''Loop Detected''),
         (510, ''Not Extended''), (511, ''Network Authentication Required'')] n of
        Some t \<Rightarrow> t
      | None \<Rightarrow> [])"

definition fallbackMessage :: "int \<Rightarrow> string \<Rightarrow> string" where
  "fallbackMessage status body =
     (let msg = trim_space body in
      if msg = [] then ''request failed with status '' @ itoa status @ '' ('' @ StatusText status @ '')'' else msg)"

text \<open>\<^verbatim>\<open>apierrors.ErrorResponse\<close>.\<close>

definition ErrorBody_type :: jtype where
  "ErrorBody_type = TStruct [(''code'', TStr), (''message'', TStr), (''request_id'', TStr), (''details'', TAny)]"

definition ErrorResponse_type :: jtype where
  "ErrorResponse_type = TStruct [(''error'', ErrorBody_type)]"

definition body_limit :: nat where
  "body_limit = 2 ^ 20"

definition parseError :: "hresp \<Rightarrow> cli_error" where
  "parseError r =
     (let body = take body_limit (hp_body r);
          plain = APIError (hp_status r) [] (fallbackMessage (hp_status r) body) []
      in case unmarshal_into ErrorResponse_type body of
           Inl _ \<Rightarrow> plain
         | Inr env \<Rightarrow>
             (let err = jget env ''error'' in
              if jstr (jget err ''code'') = [] then plain
              else APIError (hp_status r) (jstr (jget err ''code'')) (jstr (jget err ''message'')) (jstr (jget err ''request_id''))))"

section \<open>Exit codes\<close>

abbreviation "exitOK \<equiv> (0 :: int)"
abbreviation "exitGeneric \<equiv> (1 :: int)"
abbreviation "exitUsage \<equiv> (2 :: int)"
abbreviation "exitNetwork \<equiv> (3 :: int)"
abbreviation "exitAuth \<equiv> (4 :: int)"
abbreviation "exitNotFound \<equiv> (5 :: int)"
abbreviation "exitQuota \<equiv> (6 :: int)"
abbreviation "exitRateLimited \<equiv> (7 :: int)"

definition exitCodeForAPI :: "int \<Rightarrow> string \<Rightarrow> int" where
  "exitCodeForAPI status code =
     (if code = ''FILE_NOT_FOUND'' then exitNotFound
      else if code = ''QUOTA_EXCEEDED'' then exitQuota
      else if code = ''RATE_LIMIT_EXCEEDED'' then exitRateLimited
      else if has_prefix code ''AUTH_'' then exitAuth
      else if status = 401 \<or> status = 403 then exitAuth
      else if status = 404 then exitNotFound
      else if status = 429 then exitRateLimited
      else exitGeneric)"

definition ExitCode :: "cli_error option \<Rightarrow> int" where
  "ExitCode err =
     (case err of
        None \<Rightarrow> exitOK
      | Some e \<Rightarrow>
          if errors_Is e NoCredentials then exitAuth
          else case errors_As is_api e of
                 Some a \<Rightarrow> exitCodeForAPI (err_status a) (err_code a)
               | None \<Rightarrow>
                   if errors_As is_conn e \<noteq> None then exitNetwork
                   else if errors_As is_usage e \<noteq> None then exitUsage
                   else exitGeneric)"

section \<open>From the server's error to the client's\<close>

text \<open>What the gateway prints for an API error, as it reaches the client.\<close>

definition error_response :: "(json \<Rightarrow> string) \<Rightarrow> api_error \<Rightarrow> string \<Rightarrow> hresp" where
  "error_response pr e request =
     (let text = json_print pr (ToResponse e request) in
      \<lparr>hp_status = ae_status e, hp_headers = [], hp_length = int (length text), hp_body = text, hp_break = None\<rparr>)"

lemma conform_error:
  "conform ErrorResponse_type (zero_value ErrorResponse_type) (ToResponse e request) =
     Inr (JObj [(''error'', JObj [(''code'', JStr (ae_code e)), (''message'', JStr (ae_message e)), (''request_id'', JStr request),
       (''details'', case ae_details e of None \<Rightarrow> JNull | Some d \<Rightarrow> d)])])"
  by (simp add: ErrorResponse_type_def ErrorBody_type_def ToResponse_def field_of_def obj_get_def obj_set_def
      split: option.splits)

lemma parse_response:
  assumes "ae_code e \<noteq> []" "plain_json (ToResponse e request)"
    and "length (json_print pr (ToResponse e request)) \<le> body_limit"
  shows "parseError (error_response pr e request) = APIError (ae_status e) (ae_code e) (ae_message e) request"
  using assms
  by (simp add: parseError_def error_response_def Let_def unmarshal_into_def unmarshal_print conform_error obj_get_def)

lemma sample_response:
  "plain_json (ToResponse (NewNotFound CodeFileNotFound ''File not found'') ''r1'')"
  "length (json_print pr (ToResponse (NewNotFound CodeFileNotFound ''File not found'') ''r1'')) \<le> body_limit"
  "ae_code (NewNotFound CodeFileNotFound ''File not found'') \<noteq> []"
proof -
  let ?e = "NewNotFound CodeFileNotFound ''File not found''"
  have t: "ToResponse ?e ''r1'' =
      JObj [(''error'', JObj [(''code'', JStr CodeFileNotFound), (''message'', JStr ''File not found''), (''request_id'', JStr ''r1'')])]"
    by (simp add: ToResponse_def api_constructors)
  have "valid_utf8 s" if "ascii s" for s using that by (rule valid_ascii)
  then show "plain_json (ToResponse ?e ''r1'')" unfolding t by (simp add: ascii_def)
  have q: "json_quote ''error'' = quote_char # ''error'' @ [quote_char]" "json_quote ''code'' = quote_char # ''code'' @ [quote_char]"
    "json_quote ''message'' = quote_char # ''message'' @ [quote_char]" "json_quote CodeFileNotFound = quote_char # CodeFileNotFound @ [quote_char]"
    "json_quote ''File not found'' = quote_char # ''File not found'' @ [quote_char]"
    "json_quote ''request_id'' = quote_char # ''request_id'' @ [quote_char]" "json_quote ''r1'' = quote_char # ''r1'' @ [quote_char]"
    by code_simp+
  show "length (json_print pr (ToResponse ?e ''r1'')) \<le> body_limit" unfolding t by (simp add: q body_limit_def)
  show "ae_code ?e \<noteq> []" by (simp add: api_constructors)
qed

text \<open>
  C37: what a handler reports as an API error arrives at the client as the same status, code, message
  and request id, as long as the code is not empty and the texts are valid UTF-8 within the limit the
  client reads.
\<close>

theorem parseError_roundtrip:
  assumes "ae_code e \<noteq> []" "plain_json (ToResponse e request)"
    and "length (json_print pr (ToResponse e request)) \<le> body_limit"
  shows "parseError (error_response pr e request) = APIError (ae_status e) (ae_code e) (ae_message e) request"
  by (rule parse_response) (use assms in simp_all)

theorem parseError_roundtrip_witness:
  "parseError (error_response (\<lambda>_. []) (NewNotFound CodeFileNotFound ''File not found'') ''r1'') =
     APIError 404 ''FILE_NOT_FOUND'' ''File not found'' ''r1''"
  using parseError_roundtrip [of "NewNotFound CodeFileNotFound ''File not found''" "''r1''" "\<lambda>_. []"]
  by (simp add: sample_response) (simp add: api_constructors)

text \<open>Context added to an API error on its way up does not change the exit code.\<close>

lemma ExitCode_Wrapped [simp]: "ExitCode (Some (Wrapped p e)) = ExitCode (Some e)"
proof -
  have "errors_As k (Wrapped p e) = errors_As k e" if "\<not> k (Wrapped p e)" for k using that by (simp add: errors_As_def)
  then have "errors_As is_api (Wrapped p e) = errors_As is_api e" "errors_As is_conn (Wrapped p e) = errors_As is_conn e"
    "errors_As is_usage (Wrapped p e) = errors_As is_usage e" by simp_all
  moreover have "errors_Is (Wrapped p e) NoCredentials = errors_Is e NoCredentials" by (simp add: errors_Is_def)
  ultimately show ?thesis by (simp only: ExitCode_def option.case)
qed

lemma ExitCode_wrapped: "ExitCode (Some (foldr Wrapped ps (APIError s c m r))) = exitCodeForAPI s c"
proof (induction ps)
  case Nil
  then show ?case by (simp add: ExitCode_def errors_Is_def errors_As_def)
qed simp



end
