(* ===== verification/SecretStore.thy ===== *)
theory SecretStore
  imports ClientErrors "HOL-Library.AList" "HOL-Library.List_Lexorder" "HOL-Library.Char_ord"
begin

text \<open>
  The secrets of the command-line client: \<^verbatim>\<open>internal/cliconfig/secrets.go\<close> and the token store of
  \<^verbatim>\<open>internal/cli/session.go\<close> on top of it.  The interface \<^verbatim>\<open>SecretStore\<close> is the locale \<open>secret_store_laws\<close>,
  interpreted on the file store and on the keyring store; \<^verbatim>\<open>TokenStore\<close> is \<open>token_store_laws\<close>, which every
  secret store gives.
\<close>

section \<open>The interface\<close>

record 's secret_store =
  ss_get :: "string \<Rightarrow> 's \<Rightarrow> (cli_error + byte list) \<times> 's"
  ss_set :: "string \<Rightarrow> byte list \<Rightarrow> 's \<Rightarrow> (cli_error + unit) \<times> 's"
  ss_delete :: "string \<Rightarrow> 's \<Rightarrow> (cli_error + unit) \<times> 's"

text \<open>
  \<open>held c s\<close> is the secret the store keeps for a context; the laws are about names that can be
  stored (\<open>named\<close>) and states the store works on (\<open>good\<close>).
\<close>

locale secret_store_laws =
  fixes st :: "'s secret_store"
    and held :: "string \<Rightarrow> 's \<Rightarrow> byte list option"
    and good :: "'s \<Rightarrow> bool"
    and named :: "string \<Rightarrow> bool"
  assumes get_ok: "good s \<Longrightarrow> ss_get st c s = (Inr b, s') \<Longrightarrow> held c s = Some b"
    and get_missing: "good s \<Longrightarrow> ss_get st c s = (Inl err, s') \<Longrightarrow> errors_Is err SecretNotFound \<Longrightarrow> held c s = None"
    and get_error: "good s \<Longrightarrow> ss_get st c s = (Inl err, s') \<Longrightarrow> \<not> errors_Is err NoCredentials"
    and get_keeps: "good s \<Longrightarrow> ss_get st c s = (x, s') \<Longrightarrow> good s' \<and> held c' s' = held c' s"
    and set_ok: "good s \<Longrightarrow> named c \<Longrightarrow> ss_set st c b s = (Inr (), s') \<Longrightarrow> held c s' = Some b"
    and set_keeps: "good s \<Longrightarrow> named c \<Longrightarrow> ss_set st c b s = (r, s') \<Longrightarrow>
      good s' \<and> held c s' \<in> {held c s, Some b} \<and> (c' \<noteq> c \<longrightarrow> held c' s' = held c' s)"
    and delete_ok: "good s \<Longrightarrow> ss_delete st c s = (Inr (), s') \<Longrightarrow> held c s' = None"
    and delete_missing: "good s \<Longrightarrow> ss_delete st c s = (Inl err, s') \<Longrightarrow> errors_Is err SecretNotFound \<Longrightarrow> held c s' = None"
    and delete_keeps: "good s \<Longrightarrow> ss_delete st c s = (r, s') \<Longrightarrow>
      good s' \<and> held c s' \<in> {held c s, None} \<and> (c' \<noteq> c \<longrightarrow> held c' s' = held c' s)"

section \<open>The keyring store\<close>

text \<open>
  \<^verbatim>\<open>keyringBackend\<close>.  The operating system's keyring is the package go-keyring: a parameter.  What it
  documents (\<open>keyring_ok\<close>): a secret set is the one got, a missing one is reported as such, a failed
  call leaves the secret or replaces it whole, and entries do not disturb each other.
\<close>

datatype keyring_error = KeyringNotFound | KeyringError go_error

record 'k keyring_backend =
  kb_set :: "string \<Rightarrow> string \<Rightarrow> string \<Rightarrow> 'k \<Rightarrow> (keyring_error + unit) \<times> 'k"
  kb_get :: "string \<Rightarrow> string \<Rightarrow> 'k \<Rightarrow> (keyring_error + string) \<times> 'k"
  kb_delete :: "string \<Rightarrow> string \<Rightarrow> 'k \<Rightarrow> (keyring_error + unit) \<times> 'k"

definition keyring_ok :: "'k keyring_backend \<Rightarrow> ('k \<Rightarrow> string \<times> string \<Rightarrow> string option) \<Rightarrow> bool" where
  "keyring_ok kb kh \<longleftrightarrow>
     (\<forall>svc u k r k'. kb_get kb svc u k = (r, k') \<longrightarrow>
        kh k' = kh k \<and> (\<forall>s. r = Inr s \<longrightarrow> kh k (svc, u) = Some s) \<and> (r = Inl KeyringNotFound \<longrightarrow> kh k (svc, u) = None)) \<and>
     (\<forall>svc u s k r k'. kb_set kb svc u s k = (r, k') \<longrightarrow>
        kh k' \<in> {kh k, (kh k)((svc, u) \<mapsto> s)} \<and> (r = Inr () \<longrightarrow> kh k' (svc, u) = Some s)) \<and>
     (\<forall>svc u k r k'. kb_delete kb svc u k = (r, k') \<longrightarrow>
        kh k' \<in> {kh k, (kh k)((svc, u) := None)} \<and> (r \<in> {Inr (), Inl KeyringNotFound} \<longrightarrow> kh k' (svc, u) = None))"

lemma keyring_okD:
  assumes "keyring_ok kb kh"
  shows "kb_get kb svc u k = (g, k1) \<Longrightarrow>
      kh k1 = kh k \<and> (\<forall>s. g = Inr s \<longrightarrow> kh k (svc, u) = Some s) \<and> (g = Inl KeyringNotFound \<longrightarrow> kh k (svc, u) = None)"
    and "kb_set kb svc u s k = (r, k1) \<Longrightarrow>
      (kh k1 = kh k \<or> kh k1 = (kh k)((svc, u) \<mapsto> s)) \<and> (r = Inr () \<longrightarrow> kh k1 (svc, u) = Some s)"
    and "kb_delete kb svc u k = (r, k1) \<Longrightarrow>
      (kh k1 = kh k \<or> kh k1 = (kh k)((svc, u) := None)) \<and> (r \<in> {Inr (), Inl KeyringNotFound} \<longrightarrow> kh k1 (svc, u) = None)"
  using assms unfolding keyring_ok_def by blast+

text \<open>The keyring in memory of the tests (\<^verbatim>\<open>fakeKeyring\<close>) is one.\<close>

definition fakeKeyring :: "(string \<times> string \<Rightarrow> string option) keyring_backend" where
  "fakeKeyring =
     \<lparr>kb_set = (\<lambda>svc u s k. (Inr (), k((svc, u) \<mapsto> s))),
      kb_get = (\<lambda>svc u k. (case k (svc, u) of None \<Rightarrow> Inl KeyringNotFound | Some s \<Rightarrow> Inr s, k)),
      kb_delete = (\<lambda>svc u k. if k (svc, u) = None then (Inl KeyringNotFound, k) else (Inr (), k((svc, u) := None)))\<rparr>"

lemma fakeKeyring_ok: "keyring_ok fakeKeyring (\<lambda>k. k)"
  by (auto simp: keyring_ok_def fakeKeyring_def split: option.splits)

definition keyring_text :: "keyring_error \<Rightarrow> go_error" where
  "keyring_text err = (case err of KeyringNotFound \<Rightarrow> ''secret not found in keyring'' | KeyringError m \<Rightarrow> m)"

text \<open>A call on the keyring; a dead process makes none.\<close>

definition kr_call ::
  "os_env \<Rightarrow> ('k \<Rightarrow> (keyring_error + 'a) \<times> 'k) \<Rightarrow> 'k desktop \<Rightarrow> (keyring_error + 'a) \<times> 'k desktop" where
  "kr_call e f d =
     (if dead e (dk_calls d) then (Inl (KeyringError ''signal: killed''), d)
      else (case f (dk_keyring d) of (r, k) \<Rightarrow> (r, d\<lparr>dk_keyring := k\<rparr>)))"

definition keyringService :: string where
  "keyringService = ''dfmsctl''"

definition keyringStore_Get :: "os_env \<Rightarrow> 'k keyring_backend \<Rightarrow> string \<Rightarrow> 'k desktop \<Rightarrow> (cli_error + byte list) \<times> 'k desktop" where
  "keyringStore_Get e kb context d =
     (case kr_call e (kb_get kb keyringService context) d of
        (Inl KeyringNotFound, d1) \<Rightarrow> (Inl SecretNotFound, d1)
      | (Inl err, d1) \<Rightarrow> (Inl (Wrapped ''reading keyring'' (Plain (keyring_text err))), d1)
      | (Inr secret, d1) \<Rightarrow> (Inr (to_bytes secret), d1))"

definition keyringStore_Set :: "os_env \<Rightarrow> 'k keyring_backend \<Rightarrow> string \<Rightarrow> byte list \<Rightarrow> 'k desktop \<Rightarrow> (cli_error + unit) \<times> 'k desktop" where
  "keyringStore_Set e kb context secret d =
     (case kr_call e (kb_set kb keyringService context (of_bytes secret)) d of
        (Inl err, d1) \<Rightarrow> (Inl (Wrapped ''writing keyring'' (Plain (keyring_text err))), d1)
      | (Inr _, d1) \<Rightarrow> (Inr (), d1))"

definition keyringStore_Delete :: "os_env \<Rightarrow> 'k keyring_backend \<Rightarrow> string \<Rightarrow> 'k desktop \<Rightarrow> (cli_error + unit) \<times> 'k desktop" where
  "keyringStore_Delete e kb context d =
     (case kr_call e (kb_delete kb keyringService context) d of
        (Inl KeyringNotFound, d1) \<Rightarrow> (Inl SecretNotFound, d1)
      | (Inl err, d1) \<Rightarrow> (Inl (Wrapped ''deleting from keyring'' (Plain (keyring_text err))), d1)
      | (Inr _, d1) \<Rightarrow> (Inr (), d1))"

definition keyringStore :: "os_env \<Rightarrow> 'k keyring_backend \<Rightarrow> 'k desktop secret_store" where
  "keyringStore e kb = \<lparr>ss_get = keyringStore_Get e kb, ss_set = keyringStore_Set e kb, ss_delete = keyringStore_Delete e kb\<rparr>"

definition keyring_held :: "('k \<Rightarrow> string \<times> string \<Rightarrow> string option) \<Rightarrow> string \<Rightarrow> 'k desktop \<Rightarrow> byte list option" where
  "keyring_held kh c d = map_option to_bytes (kh (dk_keyring d) (keyringService, c))"

lemmas keyring_store_defs = keyringStore_def keyringStore_Get_def keyringStore_Set_def keyringStore_Delete_def
  kr_call_def keyring_held_def errors_Is_def

interpretation keyring: secret_store_laws "keyringStore e kb" "keyring_held kh" "\<lambda>d. keyring_ok kb kh" "\<lambda>c. True"
  for e :: os_env and kb :: "'k keyring_backend" and kh
  by unfold_locales
    (auto simp: keyring_store_defs dest: keyring_okD(1) keyring_okD(2) keyring_okD(3)
      split: prod.splits sum.splits keyring_error.splits if_splits)

section \<open>The file store\<close>

text \<open>
  A Go map of strings is an association list without repeated keys, \<open>None\<close> the nil map; the text \<^verbatim>\<open>null\<close>
  decodes into it, and storing into it panics.
\<close>

abbreviation "filePerm \<equiv> (384 :: nat)"

fun member_map :: "(string \<times> json) list \<Rightarrow> (string \<times> string) list \<Rightarrow> (string \<times> string) list" where
  "member_map [] m = m"
| "member_map ((k, v) # kvs) m = member_map kvs (AList.update k (jstr v) m)"

definition decode_secrets :: "string \<Rightarrow> (string \<times> string) list option result" where
  "decode_secrets text =
     (case json_unmarshal text of
        Inl err \<Rightarrow> Inl err
      | Inr JNull \<Rightarrow> Inr None
      | Inr (JObj kvs) \<Rightarrow>
          (case filter (\<lambda>kv. json_kind (snd kv) \<notin> {''string'', ''null''}) kvs of
             [] \<Rightarrow> Inr (Some (member_map kvs []))
           | kv # _ \<Rightarrow> Inl (type_error (snd kv) ''string''))
      | Inr j \<Rightarrow> Inl (type_error j ''map[string]string''))"

definition fileStore_read ::
  "os_env \<Rightarrow> string \<Rightarrow> 'k desktop \<Rightarrow> (cli_error + (string \<times> string) list option) \<times> 'k desktop" where
  "fileStore_read e path d =
     (case os_read e path d of
        (Inl err, d1) \<Rightarrow> (Inl (Wrapped ''reading secrets file'' (Plain err)), d1)
      | (Inr None, d1) \<Rightarrow> (Inr (Some []), d1)
      | (Inr (Some text), d1) \<Rightarrow>
          (case decode_secrets text of
             Inl err \<Rightarrow> (Inl (Wrapped ''parsing secrets file'' (Plain err)), d1)
           | Inr secrets \<Rightarrow> (Inr secrets, d1)))"

definition fileStore_write ::
  "os_env \<Rightarrow> string \<Rightarrow> (string \<times> string) list \<Rightarrow> 'k desktop \<Rightarrow> (cli_error + unit) \<times> 'k desktop" where
  "fileStore_write e path secrets d =
     (case writeFileAtomic e path (json_marshal (sort_key fst secrets)) filePerm d of
        (Inl err, d1) \<Rightarrow> (Inl (Plain err), d1)
      | (Inr _, d1) \<Rightarrow> (Inr (), d1))"

definition lookup_secret :: "(string \<times> string) list option \<Rightarrow> string \<Rightarrow> string option" where
  "lookup_secret secrets context = (case secrets of None \<Rightarrow> None | Some m \<Rightarrow> map_of m context)"

definition fileStore_Get :: "os_env \<Rightarrow> string \<Rightarrow> string \<Rightarrow> 'k desktop \<Rightarrow> (cli_error + byte list) \<times> 'k desktop" where
  "fileStore_Get e path context d =
     (case fileStore_read e path d of
        (Inl err, d1) \<Rightarrow> (Inl err, d1)
      | (Inr secrets, d1) \<Rightarrow>
          (case lookup_secret secrets context of
             None \<Rightarrow> (Inl SecretNotFound, d1)
           | Some enc \<Rightarrow>
               (case b64_decode enc of
                  Inl err \<Rightarrow> (Inl (Wrapped ''decoding stored secret'' (Plain err)), d1)
                | Inr secret \<Rightarrow> (Inr secret, d1))))"

definition fileStore_Set :: "os_env \<Rightarrow> string \<Rightarrow> string \<Rightarrow> byte list \<Rightarrow> 'k desktop \<Rightarrow> (cli_error + unit) \<times> 'k desktop" where
  "fileStore_Set e path context secret d =
     (case fileStore_read e path d of
        (Inl err, d1) \<Rightarrow> (Inl err, d1)
      | (Inr None, d1) \<Rightarrow> (Inl (Plain ''panic: assignment to entry in nil map''), d1)
      | (Inr (Some m), d1) \<Rightarrow> fileStore_write e path (AList.update context (b64_encode secret) m) d1)"

definition fileStore_Delete :: "os_env \<Rightarrow> string \<Rightarrow> string \<Rightarrow> 'k desktop \<Rightarrow> (cli_error + unit) \<times> 'k desktop" where
  "fileStore_Delete e path context d =
     (case fileStore_read e path d of
        (Inl err, d1) \<Rightarrow> (Inl err, d1)
      | (Inr secrets, d1) \<Rightarrow>
          (case secrets of
             None \<Rightarrow> (Inl SecretNotFound, d1)
           | Some m \<Rightarrow>
               if map_of m context = None then (Inl SecretNotFound, d1)
               else fileStore_write e path (AList.delete context m) d1))"

definition fileStore :: "os_env \<Rightarrow> string \<Rightarrow> 'k desktop secret_store" where
  "fileStore e path =
     \<lparr>ss_get = fileStore_Get e path, ss_set = fileStore_Set e path, ss_delete = fileStore_Delete e path\<rparr>"

text \<open>What the text of the secrets file holds.\<close>

definition secrets_of :: "(string \<times> nat) option \<Rightarrow> (string \<times> string) list option" where
  "secrets_of f =
     (case f of
        None \<Rightarrow> Some []
      | Some (text, _) \<Rightarrow> (case decode_secrets text of Inl _ \<Rightarrow> None | Inr m \<Rightarrow> m))"

definition file_held :: "string \<Rightarrow> string \<Rightarrow> 'k desktop \<Rightarrow> byte list option" where
  "file_held path c d =
     (case lookup_secret (secrets_of (dk_files d path)) c of
        None \<Rightarrow> None
      | Some enc \<Rightarrow> (case b64_decode enc of Inl _ \<Rightarrow> None | Inr b \<Rightarrow> Some b))"

subsection \<open>The text of the secrets\<close>

lemma member_map_of:
  "distinct (map fst kvs) \<Longrightarrow>
   map_of (member_map (map (apsnd JStr) kvs) m) k = (case map_of kvs k of None \<Rightarrow> map_of m k | Some v \<Rightarrow> Some v)"
proof (induction kvs arbitrary: m)
  case (Cons kv kvs)
  obtain a b where kv: "kv = (a, b)" by fastforce
  have "map_of kvs a = None" using Cons.prems by (simp add: kv map_of_eq_None_iff)
  then show ?case
    using Cons.IH [of "AList.update a b m"] Cons.prems by (simp add: kv update_conv' split: option.splits)
qed simp

lemma member_map_distinct: "distinct (map fst m) \<Longrightarrow> distinct (map fst (member_map kvs m))"
  by (induction kvs m rule: member_map.induct) (simp_all add: distinct_update)

definition valid_pairs :: "(string \<times> string) list \<Rightarrow> bool" where
  "valid_pairs m \<longleftrightarrow> distinct (map fst m) \<and> list_all (\<lambda>(k, v). valid_utf8 k \<and> valid_utf8 v) m"

lemma set_update_pairs: "set (AList.update k v m) \<subseteq> insert (k, v) (set m)"
  by (induction m) auto

lemma valid_pairs_update: "valid_pairs m \<Longrightarrow> valid_utf8 k \<Longrightarrow> valid_utf8 v \<Longrightarrow> valid_pairs (AList.update k v m)"
  using set_update_pairs [of k v m] by (fastforce simp: valid_pairs_def distinct_update list_all_iff)

lemma valid_pairs_delete: "valid_pairs m \<Longrightarrow> valid_pairs (AList.delete k m)"
  using distinct_delete [of m k] by (auto simp: valid_pairs_def list_all_iff AList.delete_eq)

lemma member_map_valid:
  "list_all valid_member kvs \<Longrightarrow> valid_pairs m \<Longrightarrow> valid_pairs (member_map kvs m)"
proof (induction kvs m rule: member_map.induct)
  case (2 k v kvs m)
  have "valid_utf8 k" "valid_utf8 (jstr v)" using 2(2) by (cases v; simp add: valid_member_def jstr_def)+
  then show ?case using 2 by (simp add: valid_pairs_update)
qed simp

lemma decode_secrets_valid: "decode_secrets t = Inr (Some m) \<Longrightarrow> valid_pairs m"
  using unmarshal_valid [of t]
  by (auto simp: decode_secrets_def valid_members valid_pairs_def simp del: valid_value.simps intro!: member_map_valid [unfolded valid_pairs_def]
      split: sum.splits json.splits list.splits)

text \<open>What is written is read back.\<close>

lemma secrets_roundtrip:
  assumes "valid_pairs m"
  obtains m' where "decode_secrets (json_marshal (sort_key fst m)) = Inr (Some m')" "map_of m' = map_of m"
proof -
  let ?s = "sort_key fst m"
  have "mset (map fst ?s) = mset (map fst m)" by simp
  then have d: "distinct (map fst ?s)" using assms mset_eq_imp_distinct_iff unfolding valid_pairs_def by blast
  have "json_unmarshal (json_marshal ?s) = Inr (JObj (map (apsnd JStr) ?s))"
    by (rule unmarshal_marshal) (use assms in \<open>simp add: valid_pairs_def list_all_iff\<close>)
  moreover have "filter (\<lambda>kv. json_kind (snd kv) \<notin> {''string'', ''null''}) (map (apsnd JStr) ?s) = []"
    by (simp add: filter_empty_conv)
  ultimately have "decode_secrets (json_marshal ?s) = Inr (Some (member_map (map (apsnd JStr) ?s) []))"
    by (simp add: decode_secrets_def)
  moreover have "map_of (member_map (map (apsnd JStr) ?s) []) = map_of ?s"
    by (rule ext) (simp add: member_map_of [OF d] split: option.splits)
  moreover have "map_of ?s = map_of m"
    using d assms by (subst map_of_inject_set) (simp_all add: valid_pairs_def)
  ultimately show thesis using that by simp
qed

subsection \<open>The laws\<close>

lemma enc6_ascii: "d < 64 \<Longrightarrow> code_of (enc6 d) < 128"
  by (auto simp: code_enc6)

lemma b64_ascii: "ascii (b64_encode bs)"
proof (induction bs rule: b64_encode.induct)
  case (2 a)
  then show ?case using digits1(1,2) [OF refl, of a] by (simp add: Let_def enc6_ascii)
next
  case (3 a b)
  then show ?case using digits2(1-3) [OF refl, of a b] by (simp add: Let_def enc6_ascii)
next
  case (4 a b c r)
  then show ?case using digits3(1-4) [OF refl, of a b c] by (simp add: Let_def enc6_ascii)
qed simp

lemma fileStore_read_result:
  assumes "fileStore_read e path d = (x, d')"
  shows "dk_files d' = dk_files d" "dk_keyring d' = dk_keyring d"
    and "x = Inr s \<Longrightarrow> secrets_of (dk_files d path) = s"
    and "x = Inr (Some m) \<Longrightarrow> valid_pairs m"
    and "x = Inl err \<Longrightarrow> \<not> errors_Is err SecretNotFound \<and> \<not> errors_Is err NoCredentials"
proof -
  show "dk_files d' = dk_files d" "dk_keyring d' = dk_keyring d" "x = Inr s \<Longrightarrow> secrets_of (dk_files d path) = s"
    "x = Inl err \<Longrightarrow> \<not> errors_Is err SecretNotFound \<and> \<not> errors_Is err NoCredentials"
    using assms by (auto simp: fileStore_read_def os_read_def os_call_def Let_def secrets_of_def errors_Is_def
        split: outcome.splits option.splits sum.splits if_splits)
  have "valid_pairs []" by (simp add: valid_pairs_def)
  then show "x = Inr (Some m) \<Longrightarrow> valid_pairs m"
    using assms decode_secrets_valid by (auto simp: fileStore_read_def split: sum.splits option.splits prod.splits)
qed

definition file_path_ok :: "string \<Rightarrow> bool" where
  "file_path_ok path \<longleftrightarrow> path \<noteq> [] \<and> \<not> is_digit (last path)"

lemma fileStore_write_result:
  assumes "fileStore_write e path m d = (r, d')" "valid_pairs m" "file_path_ok path"
  shows "lookup_secret (secrets_of (dk_files d' path)) \<in> {lookup_secret (secrets_of (dk_files d path)), map_of m}"
    and "r = Inr () \<Longrightarrow> lookup_secret (secrets_of (dk_files d' path)) = map_of m"
    and "r = Inl err \<Longrightarrow> \<not> errors_Is err SecretNotFound"
proof -
  let ?data = "json_marshal (sort_key fst m)"
  obtain x where w: "writeFileAtomic e path ?data filePerm d = (x, d')" "r = Inr () \<Longrightarrow> x = Inr ()"
    using assms(1) by (auto simp: fileStore_write_def split: prod.splits sum.splits)
  obtain m' where m': "decode_secrets ?data = Inr (Some m')" "map_of m' = map_of m"
    using secrets_roundtrip [OF assms(2)] .
  have new: "lookup_secret (secrets_of (Some (?data, filePerm))) = map_of m"
    using m' by (simp add: fun_eq_iff lookup_secret_def secrets_of_def)
  have old: "dk_files d' path \<in> {dk_files d path, Some (?data, filePerm)}" "r = Inr () \<Longrightarrow> dk_files d' path = Some (?data, filePerm)"
    using atomic_write [OF w(1)] assms(3) w(2) by (simp_all add: file_path_ok_def)
  show "lookup_secret (secrets_of (dk_files d' path)) \<in> {lookup_secret (secrets_of (dk_files d path)), map_of m}"
    using old(1) new by auto
  show "r = Inr () \<Longrightarrow> lookup_secret (secrets_of (dk_files d' path)) = map_of m" using old(2) new by simp
  show "r = Inl err \<Longrightarrow> \<not> errors_Is err SecretNotFound"
    using assms(1) by (auto simp: fileStore_write_def errors_Is_def split: prod.splits sum.splits)
qed

definition opened :: "string option \<Rightarrow> byte list option" where
  "opened x = (case x of None \<Rightarrow> None | Some enc \<Rightarrow> (case b64_decode enc of Inl _ \<Rightarrow> None | Inr b \<Rightarrow> Some b))"

lemma file_held_opened: "file_held path c d = opened (lookup_secret (secrets_of (dk_files d path)) c)"
  by (simp add: file_held_def opened_def)

lemma opened_simps [simp]: "opened None = None" "opened (Some (b64_encode b)) = Some b"
  by (simp_all add: opened_def)

text \<open>One result for each operation.\<close>

lemma fileStore_Get_result:
  assumes "fileStore_Get e path c d = (x, d')"
  shows "x = Inr b \<Longrightarrow> file_held path c d = Some b" "dk_files d' = dk_files d"
    and "x = Inl err \<Longrightarrow> errors_Is err SecretNotFound \<Longrightarrow> file_held path c d = None"
    and "x = Inl err \<Longrightarrow> \<not> errors_Is err NoCredentials"
proof -
  obtain y d1 where y: "fileStore_read e path d = (y, d1)" by fastforce
  note rd = fileStore_read_result [OF y]
  show "dk_files d' = dk_files d" "x = Inr b \<Longrightarrow> file_held path c d = Some b"
    "x = Inl err \<Longrightarrow> errors_Is err SecretNotFound \<Longrightarrow> file_held path c d = None"
    "x = Inl err \<Longrightarrow> \<not> errors_Is err NoCredentials"
    using assms y rd(1,3,5)
    by (auto simp: fileStore_Get_def file_held_opened opened_def errors_Is_def split: sum.splits option.splits)
qed

lemma fileStore_Set_result:
  assumes "fileStore_Set e path c b d = (r, d')" "valid_utf8 c" "file_path_ok path"
  shows "r = Inr () \<Longrightarrow> lookup_secret (secrets_of (dk_files d' path)) c = Some (b64_encode b)"
    and "file_held path c d' \<in> {file_held path c d, Some b}"
    and "c' \<noteq> c \<Longrightarrow> file_held path c' d' = file_held path c' d"
proof -
  obtain y d1 where y: "fileStore_read e path d = (y, d1)" by fastforce
  note rd = fileStore_read_result [OF y]
  have "(r = Inr () \<longrightarrow> lookup_secret (secrets_of (dk_files d' path)) c = Some (b64_encode b)) \<and> file_held path c d' \<in> {file_held path c d, Some b} \<and>
      (c' \<noteq> c \<longrightarrow> file_held path c' d' = file_held path c' d)" for c'
  proof (cases "\<exists>m. y = Inr (Some m)")
    case False
    then have "d' = d1" "r \<noteq> Inr ()" using assms(1) y by (auto simp: fileStore_Set_def split: sum.splits option.splits)
    then show ?thesis using rd(1) by (simp add: file_held_opened)
  next
    case True
    then obtain m where m: "y = Inr (Some m)" by blast
    let ?m = "AList.update c (b64_encode b) m"
    have w: "fileStore_write e path ?m d1 = (r, d')" using assms(1) y m by (simp add: fileStore_Set_def)
    have v: "valid_pairs ?m" using rd(4) [OF m] assms(2) valid_ascii [OF b64_ascii] by (rule valid_pairs_update)
    have old: "lookup_secret (secrets_of (dk_files d1 path)) = map_of m" "secrets_of (dk_files d path) = Some m"
      using rd(1,3) [OF] m by (simp_all add: fun_eq_iff lookup_secret_def)
    show ?thesis
      using fileStore_write_result(1,2) [OF w v assms(3)] old
      by (auto simp: file_held_opened update_conv' lookup_secret_def [of "Some m"])
  qed
  then show "r = Inr () \<Longrightarrow> lookup_secret (secrets_of (dk_files d' path)) c = Some (b64_encode b)"
    "file_held path c d' \<in> {file_held path c d, Some b}"
    "c' \<noteq> c \<Longrightarrow> file_held path c' d' = file_held path c' d" by blast+
qed

lemma fileStore_Delete_result:
  assumes "fileStore_Delete e path c d = (r, d')" "file_path_ok path"
  shows "r = Inr () \<Longrightarrow> file_held path c d' = None"
    and "r = Inl err \<Longrightarrow> errors_Is err SecretNotFound \<Longrightarrow> file_held path c d' = None"
    and "file_held path c d' \<in> {file_held path c d, None}"
    and "c' \<noteq> c \<Longrightarrow> file_held path c' d' = file_held path c' d"
proof -
  obtain y d1 where y: "fileStore_read e path d = (y, d1)" by fastforce
  note rd = fileStore_read_result [OF y]
  have "(r = Inr () \<longrightarrow> file_held path c d' = None) \<and>
      (\<forall>err. r = Inl err \<longrightarrow> errors_Is err SecretNotFound \<longrightarrow> file_held path c d' = None) \<and>
      file_held path c d' \<in> {file_held path c d, None} \<and> (c' \<noteq> c \<longrightarrow> file_held path c' d' = file_held path c' d)" for c'
  proof (cases "\<exists>m. y = Inr (Some m) \<and> map_of m c \<noteq> None")
    case False
    then have "d' = d1" "r \<noteq> Inr ()" "\<And>err. r = Inl err \<Longrightarrow> errors_Is err SecretNotFound \<Longrightarrow> \<exists>s. y = Inr s \<and> lookup_secret s c = None"
      using assms(1) y rd(5) by (auto simp: fileStore_Delete_def lookup_secret_def split: sum.splits option.splits if_splits)
    then show ?thesis using rd(1,3) by (auto simp: file_held_opened)
  next
    case True
    then obtain m where m: "y = Inr (Some m)" "map_of m c \<noteq> None" by blast
    let ?m = "AList.delete c m"
    have w: "fileStore_write e path ?m d1 = (r, d')" using assms(1) y m by (auto simp: fileStore_Delete_def)
    have v: "valid_pairs ?m" using rd(4) [OF m(1)] by (rule valid_pairs_delete)
    have old: "lookup_secret (secrets_of (dk_files d1 path)) = map_of m" "secrets_of (dk_files d path) = Some m"
      using rd(1,3) m by (simp_all add: fun_eq_iff lookup_secret_def)
    show ?thesis
      using fileStore_write_result [OF w v assms(2)] old
      by (auto simp: file_held_opened delete_conv' lookup_secret_def [of "Some m"])
  qed
  then show "r = Inr () \<Longrightarrow> file_held path c d' = None"
    "r = Inl err \<Longrightarrow> errors_Is err SecretNotFound \<Longrightarrow> file_held path c d' = None"
    "file_held path c d' \<in> {file_held path c d, None}"
    "c' \<noteq> c \<Longrightarrow> file_held path c' d' = file_held path c' d" by blast+
qed

definition tokens_path :: "string \<Rightarrow> string" where
  "tokens_path dir = path_join [dir, ''tokens.json'']"

lemma tokens_path_ok: "file_path_ok (tokens_path dir)"
proof -
  have "\<not> is_digit (last ''tokens.json'')" by (simp add: is_digit_def)
  then show ?thesis
    using path_join_last [of "''tokens.json''" dir] by (simp add: file_path_ok_def tokens_path_def)
qed

interpretation files: secret_store_laws "fileStore e (tokens_path dir)" "file_held (tokens_path dir)" "\<lambda>_. True" valid_utf8
  for e :: os_env and dir :: string
proof (unfold_locales, goal_cases)
  case (1 s c b s')
  then have "fileStore_Get e (tokens_path dir) c s = (Inr b, s')" by (simp add: fileStore_def)
  from fileStore_Get_result(1) [OF this refl] show ?case .
next
  case (2 s c err s')
  then have "fileStore_Get e (tokens_path dir) c s = (Inl err, s')" by (simp add: fileStore_def)
  from fileStore_Get_result(3) [OF this refl 2(3)] show ?case .
next
  case (3 s c err s')
  then have "fileStore_Get e (tokens_path dir) c s = (Inl err, s')" by (simp add: fileStore_def)
  from fileStore_Get_result(4) [OF this refl] show ?case .
next
  case (4 s c x s' c')
  then have "fileStore_Get e (tokens_path dir) c s = (x, s')" by (simp add: fileStore_def)
  from fileStore_Get_result(2) [OF this] show ?case by (simp add: file_held_opened)
next
  case (5 s c b s')
  then have "fileStore_Set e (tokens_path dir) c b s = (Inr (), s')" by (simp add: fileStore_def)
  from fileStore_Set_result(1) [OF this 5(2) tokens_path_ok refl] show ?case by (simp add: file_held_opened)
next
  case (6 s c b r s' c')
  then have "fileStore_Set e (tokens_path dir) c b s = (r, s')" by (simp add: fileStore_def)
  from fileStore_Set_result(2,3) [OF this 6(2) tokens_path_ok] show ?case by blast
next
  case (7 s c s')
  then have "fileStore_Delete e (tokens_path dir) c s = (Inr (), s')" by (simp add: fileStore_def)
  from fileStore_Delete_result(1) [OF this tokens_path_ok refl] show ?case .
next
  case (8 s c err s')
  then have "fileStore_Delete e (tokens_path dir) c s = (Inl err, s')" by (simp add: fileStore_def)
  from fileStore_Delete_result(2) [OF this tokens_path_ok refl 8(3)] show ?case .
next
  case (9 s c r s' c')
  then have "fileStore_Delete e (tokens_path dir) c s = (r, s')" by (simp add: fileStore_def)
  from fileStore_Delete_result(3,4) [OF this tokens_path_ok] show ?case by blast
qed

section \<open>Choosing a store\<close>

definition configDir :: "os_env \<Rightarrow> cli_error + string" where
  "configDir e =
     (let xdg = os_var e ''XDG_CONFIG_HOME'' in
      if xdg \<noteq> [] then Inr (path_join [xdg, ''dfms''])
      else case os_home e of
             Inl err \<Rightarrow> Inl (Wrapped ''locating home directory'' (Plain err))
           | Inr home \<Rightarrow> Inr (path_join [home, ''.config'', ''dfms'']))"

definition newFileStore :: "os_env \<Rightarrow> cli_error + 'k desktop secret_store" where
  "newFileStore e = (case configDir e of Inl err \<Rightarrow> Inl err | Inr dir \<Rightarrow> Inr (fileStore e (tokens_path dir)))"

text \<open>A throwaway entry set and deleted.\<close>

definition keyringUsable :: "os_env \<Rightarrow> 'k keyring_backend \<Rightarrow> 'k desktop \<Rightarrow> bool \<times> 'k desktop" where
  "keyringUsable e kb d =
     (case kr_call e (kb_set kb keyringService ''__dfmsctl_probe__'' ''1'') d of
        (Inl _, d1) \<Rightarrow> (False, d1)
      | (Inr _, d1) \<Rightarrow> (True, snd (kr_call e (kb_delete kb keyringService ''__dfmsctl_probe__'') d1)))"

definition NewSecretStore ::
  "os_env \<Rightarrow> 'k keyring_backend \<Rightarrow> 'k desktop \<Rightarrow> (cli_error + 'k desktop secret_store) \<times> 'k desktop" where
  "NewSecretStore e kb d =
     (let forced = os_var e ''DFMSCTL_TOKEN_STORE'' in
      if forced = ''keyring'' then (Inr (keyringStore e kb), d)
      else if forced = ''file'' then (newFileStore e, d)
      else (case keyringUsable e kb d of
              (True, d1) \<Rightarrow> (Inr (keyringStore e kb), d1)
            | (False, d1) \<Rightarrow> (newFileStore e, d1)))"

section \<open>Tokens\<close>

record tokens =
  tk_access :: string
  tk_refresh :: string

record 's token_store =
  ts_load :: "'s \<Rightarrow> (cli_error + tokens) \<times> 's"
  ts_save :: "tokens \<Rightarrow> 's \<Rightarrow> (cli_error + unit) \<times> 's"
  ts_delete :: "'s \<Rightarrow> (cli_error + unit) \<times> 's"

locale token_store_laws =
  fixes ts :: "'s token_store"
    and session :: "'s \<Rightarrow> tokens option"
    and ready :: "'s \<Rightarrow> bool"
    and storable :: "tokens \<Rightarrow> bool"
  assumes load_ok: "ready s \<Longrightarrow> ts_load ts s = (Inr t, s') \<Longrightarrow> session s = Some t"
    and load_none: "ready s \<Longrightarrow> ts_load ts s = (Inl err, s') \<Longrightarrow> errors_Is err NoCredentials \<Longrightarrow> session s = None"
    and load_keeps: "ready s \<Longrightarrow> ts_load ts s = (x, s') \<Longrightarrow> ready s' \<and> session s' = session s"
    and save_ok: "ready s \<Longrightarrow> storable t \<Longrightarrow> ts_save ts t s = (Inr (), s') \<Longrightarrow> session s' = Some t"
    and save_keeps: "ready s \<Longrightarrow> storable t \<Longrightarrow> ts_save ts t s = (r, s') \<Longrightarrow> ready s' \<and> session s' \<in> {session s, Some t}"
    and delete_ok: "ready s \<Longrightarrow> ts_delete ts s = (Inr (), s') \<Longrightarrow> session s' = None"
    and delete_keeps: "ready s \<Longrightarrow> ts_delete ts s = (r, s') \<Longrightarrow> ready s' \<and> session s' \<in> {session s, None}"

definition Tokens_type :: jtype where
  "Tokens_type = TStruct [(''access_token'', TStr), (''refresh_token'', TStr)]"

definition tokens_of :: "json \<Rightarrow> tokens" where
  "tokens_of j = \<lparr>tk_access = jstr (jget j ''access_token''), tk_refresh = jstr (jget j ''refresh_token'')\<rparr>"

definition encode_tokens :: "tokens \<Rightarrow> string" where
  "encode_tokens t = json_marshal [(''access_token'', tk_access t), (''refresh_token'', tk_refresh t)]"

definition decode_tokens :: "string \<Rightarrow> tokens result" where
  "decode_tokens s = (case unmarshal_into Tokens_type s of Inl err \<Rightarrow> Inl err | Inr j \<Rightarrow> Inr (tokens_of j))"

definition storable_tokens :: "tokens \<Rightarrow> bool" where
  "storable_tokens t \<longleftrightarrow> valid_utf8 (tk_access t) \<and> valid_utf8 (tk_refresh t)"

lemma tokens_roundtrip: "storable_tokens t \<Longrightarrow> decode_tokens (encode_tokens t) = Inr t"
proof -
  assume t: "storable_tokens t"
  have "valid_utf8 ''access_token''" "valid_utf8 ''refresh_token''" by (rule valid_ascii, simp add: ascii_def)+
  with t have "json_unmarshal (encode_tokens t) = Inr (JObj [(''access_token'', JStr (tk_access t)), (''refresh_token'', JStr (tk_refresh t))])"
    unfolding encode_tokens_def storable_tokens_def by (subst unmarshal_marshal) simp_all
  then show ?thesis
    by (simp add: decode_tokens_def unmarshal_into_def Tokens_type_def field_of_def obj_get_def obj_set_def tokens_of_def)
qed

definition contextTokens_Load :: "'s secret_store \<Rightarrow> string \<Rightarrow> 's \<Rightarrow> (cli_error + tokens) \<times> 's" where
  "contextTokens_Load st context s =
     (case ss_get st context s of
        (Inl err, s1) \<Rightarrow> (Inl (if errors_Is err SecretNotFound then NoCredentials else err), s1)
      | (Inr data, s1) \<Rightarrow>
          (case decode_tokens (of_bytes data) of
             Inl err \<Rightarrow> (Inl (Wrapped ''decoding stored tokens'' (Plain err)), s1)
           | Inr t \<Rightarrow> (Inr t, s1)))"

definition contextTokens_Save :: "'s secret_store \<Rightarrow> string \<Rightarrow> tokens \<Rightarrow> 's \<Rightarrow> (cli_error + unit) \<times> 's" where
  "contextTokens_Save st context t s = ss_set st context (to_bytes (encode_tokens t)) s"

definition contextTokens_Delete :: "'s secret_store \<Rightarrow> string \<Rightarrow> 's \<Rightarrow> (cli_error + unit) \<times> 's" where
  "contextTokens_Delete st context s =
     (case ss_delete st context s of
        (Inl err, s1) \<Rightarrow> (if errors_Is err SecretNotFound then Inr () else Inl err, s1)
      | (Inr _, s1) \<Rightarrow> (Inr (), s1))"

definition contextTokens :: "'s secret_store \<Rightarrow> string \<Rightarrow> 's token_store" where
  "contextTokens st context =
     \<lparr>ts_load = contextTokens_Load st context, ts_save = contextTokens_Save st context,
      ts_delete = contextTokens_Delete st context\<rparr>"

definition stored_tokens :: "byte list option \<Rightarrow> tokens option" where
  "stored_tokens b =
     (case b of None \<Rightarrow> None
      | Some data \<Rightarrow> (case decode_tokens (of_bytes data) of Inl _ \<Rightarrow> None | Inr t \<Rightarrow> Some t))"

lemma stored_tokens_simps [simp]:
  "stored_tokens None = None" "storable_tokens t \<Longrightarrow> stored_tokens (Some (to_bytes (encode_tokens t))) = Some t"
  by (simp_all add: stored_tokens_def tokens_roundtrip)

text \<open>Every secret store keeps a session for each of its contexts.\<close>

sublocale secret_store_laws \<subseteq> tokens: token_store_laws
  "contextTokens st c" "\<lambda>s. stored_tokens (held c s)" "\<lambda>s. good s \<and> named c" storable_tokens for c
proof (unfold_locales, goal_cases)
  case (1 s t s')
  then obtain b where "ss_get st c s = (Inr b, s')" "decode_tokens (of_bytes b) = Inr t"
    by (auto simp: contextTokens_def contextTokens_Load_def split: prod.splits sum.splits if_splits)
  then show ?case using get_ok 1 by (auto simp: stored_tokens_def)
next
  case (2 s err s')
  then obtain err' where "ss_get st c s = (Inl err', s')" "errors_Is err' SecretNotFound"
    using get_error [of s c]
    by (auto simp: contextTokens_def contextTokens_Load_def errors_Is_def split: prod.splits sum.splits if_splits)
  then show ?case using get_missing 2 by auto
next
  case (3 s x s')
  then obtain y where "ss_get st c s = (y, s')"
    by (auto simp: contextTokens_def contextTokens_Load_def split: prod.splits sum.splits)
  then show ?case using get_keeps 3 by auto
next
  case (4 s t s')
  then show ?case using set_ok by (auto simp: contextTokens_def contextTokens_Save_def)
next
  case (5 s t r s')
  then have "ss_set st c (to_bytes (encode_tokens t)) s = (r, s')" by (simp add: contextTokens_def contextTokens_Save_def)
  with 5 show ?case using set_keeps [of s c "to_bytes (encode_tokens t)" r s' c] by auto
next
  case (6 s s')
  then obtain y where y: "ss_delete st c s = (y, s')" "y = Inr () \<or> (\<exists>err. y = Inl err \<and> errors_Is err SecretNotFound)"
    by (auto simp: contextTokens_def contextTokens_Delete_def split: prod.splits sum.splits if_splits)
  with 6 show ?case using delete_ok delete_missing by fastforce
next
  case (7 s r s')
  then obtain y where "ss_delete st c s = (y, s')"
    by (auto simp: contextTokens_def contextTokens_Delete_def split: prod.splits sum.splits)
  with 7 show ?case using delete_keeps [of s c y s' c] by auto
qed

text \<open>The sessions kept in the secrets file.\<close>

definition file_session :: "string \<Rightarrow> string \<Rightarrow> 'k desktop \<Rightarrow> tokens option" where
  "file_session dir c d = stored_tokens (file_held (tokens_path dir) c d)"

interpretation file_tokens: token_store_laws
  "contextTokens (fileStore e (tokens_path dir)) c" "file_session dir c" "\<lambda>_. valid_utf8 c" storable_tokens
  for e :: os_env and dir c :: string
  using files.tokens.token_store_laws_axioms [of e dir c] by (simp add: file_session_def [abs_def])

section \<open>What the stores promise\<close>

lemma Get_written:
  assumes "os_outcome e = (\<lambda>_. Done)" "os_crash e = None" "file_path_ok path"
    and "lookup_secret (secrets_of (dk_files d path)) c = Some (b64_encode b)"
  shows "\<exists>d'. fileStore_Get e path c d = (Inr b, d')"
proof -
  obtain f p where f: "dk_files d path = Some (f, p)" "decode_secrets f = Inr (secrets_of (dk_files d path))"
    using assms(4) by (auto simp: lookup_secret_def secrets_of_def split: option.splits sum.splits)
  then show ?thesis
    using assms by (auto simp: fileStore_Get_def fileStore_read_def os_read_def os_call_def dead_def Let_def)
qed

lemma saved_loads:
  assumes "ts_save (contextTokens (fileStore e (tokens_path dir)) c) t d = (Inr (), d1)"
    and "valid_utf8 c" "storable_tokens t" "os_outcome e' = (\<lambda>_. Done)" "os_crash e' = None" "c' \<noteq> c"
  shows "fst (ts_load (contextTokens (fileStore e' (tokens_path dir)) c) d1) = Inr t \<and>
    file_session dir c' d1 = file_session dir c' d"
proof -
  let ?b = "to_bytes (encode_tokens t)" and ?path = "tokens_path dir"
  have set: "ss_set (fileStore e ?path) c ?b d = (Inr (), d1)"
    using assms(1) by (simp add: contextTokens_def contextTokens_Save_def)
  have "file_held ?path c' d1 = file_held ?path c' d"
    using files.set_keeps [OF TrueI assms(2) set, of c'] assms(6) by simp
  moreover have "\<exists>d2. fileStore_Get e' ?path c d1 = (Inr ?b, d2)"
  proof (rule Get_written [OF assms(4,5) tokens_path_ok])
    have "fileStore_Set e ?path c ?b d = (Inr (), d1)" using set by (simp add: fileStore_def)
    then show "lookup_secret (secrets_of (dk_files d1 ?path)) c = Some (b64_encode ?b)"
      by (rule fileStore_Set_result(1) [OF _ assms(2) tokens_path_ok refl])
  qed
  ultimately show ?thesis
    using assms(3)
    by (auto simp: contextTokens_def contextTokens_Load_def fileStore_def tokens_roundtrip file_session_def)
qed

text \<open>
  C39: a session saved by one run of the client is the session a later run loads, whatever bytes the
  tokens consist of, as long as it is valid UTF-8; the save itself may have met any failures that it did
  not report.  The sessions of the other contexts are those from before.
\<close>

theorem saved_session_loads:
  assumes "ts_save (contextTokens (fileStore e (tokens_path dir)) c) t d = (Inr (), d1)"
    and "valid_utf8 c" "storable_tokens t" "os_outcome e' = (\<lambda>_. Done)" "os_crash e' = None" "c' \<noteq> c"
  shows "fst (ts_load (contextTokens (fileStore e' (tokens_path dir)) c) d1) = Inr t \<and>
    file_session dir c' d1 = file_session dir c' d"
  by (rule saved_loads [OF assms])

text \<open>A machine whose calls all succeed, with no file yet.\<close>

definition calm_env :: os_env where
  "calm_env = \<lparr>os_outcome = (\<lambda>_. Done), os_crash = None, os_torn = (\<lambda>_. 0), os_tmp = (\<lambda>n. n), os_var = (\<lambda>_. []),
               os_home = Inr ''/home/u''\<rparr>"

definition new_desktop :: "(string \<times> string \<Rightarrow> string option) desktop" where
  "new_desktop = \<lparr>dk_calls = 0, dk_files = (\<lambda>_. None), dk_keyring = (\<lambda>_. None)\<rparr>"

lemma calm_write:
  assumes "os_outcome e = (\<lambda>_. Done)" "os_crash e = None" "\<And>n. dk_files d (temp_name (path_dir path) ''.tmp-'' n) = None"
  shows "fst (writeFileAtomic e path data perm d) = Inr ()"
  using assms
  by (simp add: writeFileAtomic_def fill_and_rename_def os_mkdir_all_def os_create_temp_def os_chmod_def os_write_def
      os_close_def os_rename_def os_call_def dead_def put_data_def Let_def case_prod_beta)

lemma calm_save:
  "fst (ts_save (contextTokens (fileStore calm_env (tokens_path ''/c'')) ''prod'') t new_desktop) = Inr ()"
proof -
  have r: "fileStore_read calm_env p new_desktop = (Inr (Some []), new_desktop\<lparr>dk_calls := 1\<rparr>)" for p
    by (simp add: fileStore_read_def os_read_def os_call_def dead_def calm_env_def new_desktop_def)
  have "fst (writeFileAtomic calm_env p data filePerm (new_desktop\<lparr>dk_calls := 1\<rparr>)) = Inr ()" for p data
    by (rule calm_write) (simp_all add: calm_env_def new_desktop_def)
  then show ?thesis
    by (simp add: contextTokens_def contextTokens_Save_def fileStore_def fileStore_Set_def r fileStore_write_def
        case_prod_beta split: sum.splits)
qed

definition some_tokens :: tokens where
  "some_tokens = \<lparr>tk_access = ''header.claims.signature'', tk_refresh = ''r''\<rparr>"

theorem saved_session_loads_witness:
  "fst (ts_load (contextTokens (fileStore calm_env (tokens_path ''/c'')) ''prod'')
      (snd (ts_save (contextTokens (fileStore calm_env (tokens_path ''/c'')) ''prod'') some_tokens new_desktop))) = Inr some_tokens"
proof -
  let ?save = "ts_save (contextTokens (fileStore calm_env (tokens_path ''/c'')) ''prod'') some_tokens new_desktop"
  have save: "?save = (Inr (), snd ?save)"
    using calm_save [of some_tokens] by (metis prod.collapse)
  have "valid_utf8 ''prod''" "storable_tokens some_tokens"
    by (simp_all add: storable_tokens_def some_tokens_def valid_ascii ascii_def)
  then show ?thesis
    using saved_session_loads [OF save, of calm_env "''other''"] by (simp add: calm_env_def)
qed

end
