(* ===== verification/CliConfig.thy ===== *)
theory CliConfig
  imports SecretStore
begin

text \<open>
  The configuration of \<^verbatim>\<open>dfmsctl\<close>: \<^verbatim>\<open>internal/cliconfig/config.go\<close>, the choice of the active context
  (\<^verbatim>\<open>internal/cli/env.go\<close>), the \<^verbatim>\<open>context\<close> commands (\<^verbatim>\<open>context.go\<close>) and the session they lead to (\<^verbatim>\<open>session.go\<close>).
\<close>

section \<open>The file\<close>

text \<open>The map of contexts is an association list without repeated names, \<open>None\<close> the nil map.\<close>

record server_context =
  sc_url :: string
  sc_insecure :: bool

record cli_defaults =
  df_output :: string
  df_threshold :: int

record cli_config =
  cc_current :: string
  cc_contexts :: "(string \<times> server_context) list option"
  cc_defaults :: "cli_defaults option"

text \<open>The YAML library.\<close>

record yaml_lib =
  ym_marshal :: "cli_config \<Rightarrow> string result"
  ym_unmarshal :: "string \<Rightarrow> cli_config result"

definition contexts :: "cli_config \<Rightarrow> (string \<times> server_context) list" where
  "contexts c = (case cc_contexts c of None \<Rightarrow> [] | Some m \<Rightarrow> m)"

definition empty_config :: cli_config where
  "empty_config = \<lparr>cc_current = [], cc_contexts = Some [], cc_defaults = None\<rparr>"

definition DefaultPath :: "os_env \<Rightarrow> cli_error + string" where
  "DefaultPath e =
     (case configDir e of Inl err \<Rightarrow> Inl err | Inr dir \<Rightarrow> Inr (path_join [dir, ''config.yaml'']))"

definition Load :: "os_env \<Rightarrow> yaml_lib \<Rightarrow> string \<Rightarrow> 'k desktop \<Rightarrow> (cli_error + cli_config) \<times> 'k desktop" where
  "Load e y path d =
     (case os_read e path d of
        (Inl err, d1) \<Rightarrow> (Inl (Wrapped (''reading config '' @ path) (Plain err)), d1)
      | (Inr None, d1) \<Rightarrow> (Inr empty_config, d1)
      | (Inr (Some data), d1) \<Rightarrow>
          (case ym_unmarshal y data of
             Inl err \<Rightarrow> (Inl (Wrapped (''parsing config '' @ path) (Plain err)), d1)
           | Inr cfg \<Rightarrow> (Inr (if cc_contexts cfg = None then cfg\<lparr>cc_contexts := Some []\<rparr> else cfg), d1)))"

definition Save :: "os_env \<Rightarrow> yaml_lib \<Rightarrow> cli_config \<Rightarrow> string \<Rightarrow> 'k desktop \<Rightarrow> (cli_error + unit) \<times> 'k desktop" where
  "Save e y cfg path d =
     (case ym_marshal y cfg of
        Inl err \<Rightarrow> (Inl (Wrapped ''marshaling config'' (Plain err)), d)
      | Inr data \<Rightarrow>
          (case writeFileAtomic e path data filePerm d of
             (Inl err, d1) \<Rightarrow> (Inl (Wrapped ''saving config'' (Plain err)), d1)
           | (Inr _, d1) \<Rightarrow> (Inr (), d1)))"

section \<open>Contexts\<close>

definition SetContext :: "string \<Rightarrow> server_context \<Rightarrow> cli_config \<Rightarrow> cli_config" where
  "SetContext name ctx c = c\<lparr>cc_contexts := Some (AList.update name ctx (contexts c))\<rparr>"

definition find_context :: "string \<Rightarrow> cli_config \<Rightarrow> server_context option" where
  "find_context name c = map_of (contexts c) name"

definition no_context :: "string \<Rightarrow> cli_error" where
  "no_context name = Plain (''context '' @ go_quote name @ '' does not exist'')"

definition Use :: "string \<Rightarrow> cli_config \<Rightarrow> cli_error + cli_config" where
  "Use name c = (if find_context name c = None then Inl (no_context name) else Inr (c\<lparr>cc_current := name\<rparr>))"

definition RemoveContext :: "string \<Rightarrow> cli_config \<Rightarrow> cli_error + cli_config" where
  "RemoveContext name c =
     (if find_context name c = None then Inl (no_context name)
      else let c1 = c\<lparr>cc_contexts := Some (AList.delete name (contexts c))\<rparr> in
           Inr (if cc_current c = name then c1\<lparr>cc_current := []\<rparr> else c1))"

definition Names :: "cli_config \<Rightarrow> string list" where
  "Names c = sort (map fst (contexts c))"

section \<open>The active context\<close>

record global_options =
  op_context :: string
  op_output :: string
  op_color :: string
  op_quiet :: bool
  op_verbose :: bool
  op_no_progress :: bool

definition validate_options :: "global_options \<Rightarrow> cli_error option" where
  "validate_options g =
     (if op_output g \<notin> {''table'', ''json'', ''yaml''}
      then Some (Plain (''invalid --output '' @ go_quote (op_output g) @ '' (must be table, json, or yaml)''))
      else if op_color g \<notin> {''auto'', ''always'', ''never''}
      then Some (Plain (''invalid --color '' @ go_quote (op_color g) @ '' (must be auto, always, or never)''))
      else None)"

text \<open>Everything a command reaches on the user's side.\<close>

record 'k app_env =
  ap_os :: os_env
  ap_yaml :: yaml_lib
  ap_keyring :: "'k keyring_backend"
  ap_opts :: global_options

definition app_load :: "'k app_env \<Rightarrow> 'k desktop \<Rightarrow> (cli_error + (cli_config \<times> string)) \<times> 'k desktop" where
  "app_load a d =
     (case DefaultPath (ap_os a) of
        Inl err \<Rightarrow> (Inl err, d)
      | Inr path \<Rightarrow>
          (case Load (ap_os a) (ap_yaml a) path d of
             (Inl err, d1) \<Rightarrow> (Inl err, d1)
           | (Inr cfg, d1) \<Rightarrow> (Inr (cfg, path), d1)))"

definition activeContextName :: "'k app_env \<Rightarrow> cli_config \<Rightarrow> string" where
  "activeContextName a cfg =
     (if op_context (ap_opts a) \<noteq> [] then op_context (ap_opts a)
      else if os_var (ap_os a) ''DFMSCTL_CONTEXT'' \<noteq> [] then os_var (ap_os a) ''DFMSCTL_CONTEXT''
      else cc_current cfg)"

section \<open>The context commands\<close>

text \<open>
  What a command prints: lines, rows of cells (which \<^verbatim>\<open>tabwriter\<close> aligns), or a value in the format asked
  for (\<^verbatim>\<open>writeStructured\<close>).
\<close>

datatype out_item = OLine string | ORow "string list" | OData string json

definition writeStructured :: "string \<Rightarrow> json \<Rightarrow> out_item list option" where
  "writeStructured format v = (if format = ''json'' \<or> format = ''yaml'' then Some [OData format v] else None)"

definition validateServerURL :: "string \<Rightarrow> cli_error option" where
  "validateServerURL raw =
     (case Parse raw of
        Inl err \<Rightarrow> Some (Wrapped (''invalid URL '' @ go_quote raw) (Plain err))
      | Inr u \<Rightarrow>
          if u_scheme u \<noteq> ''http'' \<and> u_scheme u \<noteq> ''https''
          then Some (Plain (''URL must use the http or https scheme: '' @ go_quote raw))
          else if u_host u = [] then Some (Plain (''URL must include a host: '' @ go_quote raw))
          else None)"

definition context_add :: "'k app_env \<Rightarrow> string \<Rightarrow> string \<Rightarrow> bool \<Rightarrow> 'k desktop \<Rightarrow> (cli_error + out_item list) \<times> 'k desktop" where
  "context_add a arg serverURL insecure d =
     (let name = trim_space arg in
      if name = [] then (Inl (Plain ''context name must not be empty''), d)
      else case validateServerURL serverURL of
             Some err \<Rightarrow> (Inl err, d)
           | None \<Rightarrow>
               (case app_load a d of
                  (Inl err, d1) \<Rightarrow> (Inl err, d1)
                | (Inr (cfg, path), d1) \<Rightarrow>
                    (let existed = find_context name cfg \<noteq> None;
                         cfg1 = SetContext name \<lparr>sc_url = serverURL, sc_insecure = insecure\<rparr> cfg;
                         madeActive = cc_current cfg1 = [];
                         cfg2 = (if madeActive then (case Use name cfg1 of Inl _ \<Rightarrow> cfg1 | Inr c \<Rightarrow> c) else cfg1)
                     in case Save (ap_os a) (ap_yaml a) cfg2 path d1 of
                          (Inl err, d2) \<Rightarrow> (Inl err, d2)
                        | (Inr _, d2) \<Rightarrow>
                            (Inr ([OLine ((if existed then ''Updated'' else ''Added'') @ '' context '' @ go_quote name @ '' ('' @ serverURL @ '')'')] @
                                  (if madeActive then [OLine (''Set '' @ go_quote name @ '' as the active context.'')] else [])), d2))))"

definition view_json :: "string \<Rightarrow> server_context \<Rightarrow> bool \<Rightarrow> json" where
  "view_json name c active =
     JObj [(''name'', JStr name), (''url'', JStr (sc_url c)), (''insecure_skip_verify'', JBool (sc_insecure c)), (''active'', JBool active)]"

definition bool_text :: "bool \<Rightarrow> string" where
  "bool_text b = (if b then ''true'' else ''false'')"

definition context_list :: "'k app_env \<Rightarrow> 'k desktop \<Rightarrow> (cli_error + out_item list) \<times> 'k desktop" where
  "context_list a d =
     (case app_load a d of
        (Inl err, d1) \<Rightarrow> (Inl err, d1)
      | (Inr (cfg, _), d1) \<Rightarrow>
          (let active = activeContextName a cfg;
               views = map (\<lambda>name. (name, the (find_context name cfg), name = active)) (Names cfg)
           in case writeStructured (op_output (ap_opts a)) (JList (map (\<lambda>(n, c, act). view_json n c act) views)) of
                Some out \<Rightarrow> (Inr out, d1)
              | None \<Rightarrow>
                  (Inr (if views = []
                        then [OLine ''No contexts configured. Add one with:'', OLine ''  dfmsctl context add <name> --url <url>'']
                        else ORow [''ACTIVE'', ''NAME'', ''URL'', ''INSECURE''] #
                             map (\<lambda>(n, c, act). ORow [if act then ''*'' else [], n, sc_url c, bool_text (sc_insecure c)]) views), d1)))"

definition context_use :: "'k app_env \<Rightarrow> string \<Rightarrow> 'k desktop \<Rightarrow> (cli_error + out_item list) \<times> 'k desktop" where
  "context_use a name d =
     (case app_load a d of
        (Inl err, d1) \<Rightarrow> (Inl err, d1)
      | (Inr (cfg, path), d1) \<Rightarrow>
          (case Use name cfg of
             Inl err \<Rightarrow> (Inl err, d1)
           | Inr cfg1 \<Rightarrow>
               (case Save (ap_os a) (ap_yaml a) cfg1 path d1 of
                  (Inl err, d2) \<Rightarrow> (Inl err, d2)
                | (Inr _, d2) \<Rightarrow> (Inr [OLine (''Switched active context to '' @ go_quote name)], d2))))"

definition context_remove :: "'k app_env \<Rightarrow> string \<Rightarrow> 'k desktop \<Rightarrow> (cli_error + out_item list) \<times> 'k desktop" where
  "context_remove a name d =
     (case app_load a d of
        (Inl err, d1) \<Rightarrow> (Inl err, d1)
      | (Inr (cfg, path), d1) \<Rightarrow>
          (let wasActive = cc_current cfg = name in
           case RemoveContext name cfg of
             Inl err \<Rightarrow> (Inl err, d1)
           | Inr cfg1 \<Rightarrow>
               (case Save (ap_os a) (ap_yaml a) cfg1 path d1 of
                  (Inl err, d2) \<Rightarrow> (Inl err, d2)
                | (Inr _, d2) \<Rightarrow>
                    (Inr ([OLine (''Removed context '' @ go_quote name)] @
                          (if wasActive
                           then [OLine (''That was the active context; select another with '' @ [CHR 0x27] @ ''dfmsctl context use <name>'' @ [CHR 0x27] @ ''.'')]
                           else [])), d2))))"

definition context_show :: "'k app_env \<Rightarrow> string option \<Rightarrow> 'k desktop \<Rightarrow> (cli_error + out_item list) \<times> 'k desktop" where
  "context_show a arg d =
     (case app_load a d of
        (Inl err, d1) \<Rightarrow> (Inl err, d1)
      | (Inr (cfg, _), d1) \<Rightarrow>
          (let active = activeContextName a cfg; name = (case arg of None \<Rightarrow> active | Some n \<Rightarrow> n) in
           if name = [] then (Inl (Plain ''no context specified and no active context is set''), d1)
           else case find_context name cfg of
                  None \<Rightarrow> (Inl (no_context name), d1)
                | Some c \<Rightarrow>
                    (case writeStructured (op_output (ap_opts a)) (view_json name c (name = active)) of
                       Some out \<Rightarrow> (Inr out, d1)
                     | None \<Rightarrow>
                         (Inr [ORow [''Name:'', name], ORow [''URL:'', sc_url c], ORow [''Insecure:'', bool_text (sc_insecure c)],
                               ORow [''Active:'', bool_text (name = active)]], d1))))"

definition completeContextNames :: "'k app_env \<Rightarrow> string list \<Rightarrow> string \<Rightarrow> 'k desktop \<Rightarrow> string list \<times> 'k desktop" where
  "completeContextNames a args toComplete d =
     (if args \<noteq> [] then ([], d)
      else case app_load a d of
             (Inl _, d1) \<Rightarrow> ([], d1)
           | (Inr (cfg, _), d1) \<Rightarrow> (filter (\<lambda>n. has_prefix n toComplete) (Names cfg), d1))"

section \<open>The session\<close>

record 'k api_session =
  se_url :: string
  se_insecure :: bool
  se_tokens :: "'k desktop token_store"
  se_context :: string
  se_threshold :: int

definition defaultMultipartThreshold :: int where
  "defaultMultipartThreshold = 64 * 2 ^ 20"

definition session :: "'k app_env \<Rightarrow> 'k desktop \<Rightarrow> (cli_error + 'k api_session) \<times> 'k desktop" where
  "session a d =
     (case app_load a d of
        (Inl err, d1) \<Rightarrow> (Inl err, d1)
      | (Inr (cfg, _), d1) \<Rightarrow>
          (let name = activeContextName a cfg in
           if name = [] then
             (Inl (Plain (''no active context; add one with '' @ [CHR 0x27] @ ''dfmsctl context add <name> --url <url>'' @ [CHR 0x27])), d1)
           else case find_context name cfg of
                  None \<Rightarrow> (Inl (Plain (''active context '' @ go_quote name @ '' is not configured'')), d1)
                | Some ctx \<Rightarrow>
                    (case NewSecretStore (ap_os a) (ap_keyring a) d1 of
                       (Inl err, d2) \<Rightarrow> (Inl (Wrapped ''initializing secret store'' err), d2)
                     | (Inr secrets, d2) \<Rightarrow>
                         (Inr \<lparr>se_url = sc_url ctx, se_insecure = sc_insecure ctx, se_tokens = contextTokens secrets name,
                               se_context = name,
                               se_threshold = (case cc_defaults cfg of
                                                 Some f \<Rightarrow> if 0 < df_threshold f then df_threshold f else defaultMultipartThreshold
                                               | None \<Rightarrow> defaultMultipartThreshold)\<rparr>, d2))))"

section \<open>What the context commands do to the file\<close>

text \<open>What is relied on of the YAML library: it reads back what it printed.\<close>

definition yaml_ok :: "yaml_lib \<Rightarrow> bool" where
  "yaml_ok y \<longleftrightarrow> (\<forall>c t. cc_contexts c \<noteq> None \<longrightarrow> ym_marshal y c = Inr t \<longrightarrow> ym_unmarshal y t = Inr c)"

definition config_of :: "yaml_lib \<Rightarrow> (string \<times> nat) option \<Rightarrow> cli_config option" where
  "config_of y f =
     (case f of
        None \<Rightarrow> Some empty_config
      | Some (t, _) \<Rightarrow>
          (case ym_unmarshal y t of
             Inl _ \<Rightarrow> None
           | Inr c \<Rightarrow> Some (if cc_contexts c = None then c\<lparr>cc_contexts := Some []\<rparr> else c)))"

definition config_ok :: "cli_config \<Rightarrow> bool" where
  "config_ok c \<longleftrightarrow> distinct (map fst (contexts c)) \<and> (cc_current c = [] \<or> cc_current c \<in> set (map fst (contexts c)))"

datatype context_command = AddContext string string bool | UseContext string | DropContext string

definition run_context :: "'k app_env \<Rightarrow> context_command \<Rightarrow> 'k desktop \<Rightarrow> (cli_error + out_item list) \<times> 'k desktop" where
  "run_context a cmd d =
     (case cmd of
        AddContext arg url insecure \<Rightarrow> context_add a arg url insecure d
      | UseContext name \<Rightarrow> context_use a name d
      | DropContext name \<Rightarrow> context_remove a name d)"

text \<open>The same commands on the configuration alone.\<close>

definition apply_context :: "context_command \<Rightarrow> cli_config \<Rightarrow> cli_config" where
  "apply_context cmd c =
     (case cmd of
        AddContext arg url insecure \<Rightarrow>
          if trim_space arg = [] \<or> validateServerURL url \<noteq> None then c
          else let c1 = c\<lparr>cc_contexts := Some (AList.update (trim_space arg) \<lparr>sc_url = url, sc_insecure = insecure\<rparr> (contexts c))\<rparr>
               in if cc_current c = [] then c1\<lparr>cc_current := trim_space arg\<rparr> else c1
      | UseContext name \<Rightarrow> if name \<in> dom (map_of (contexts c)) then c\<lparr>cc_current := name\<rparr> else c
      | DropContext name \<Rightarrow>
          if name \<in> dom (map_of (contexts c))
          then c\<lparr>cc_contexts := Some (AList.delete name (contexts c)), cc_current := (if cc_current c = name then [] else cc_current c)\<rparr>
          else c)"

lemma contexts_simps [simp]:
  "contexts (c\<lparr>cc_contexts := Some m\<rparr>) = m" "contexts (c\<lparr>cc_current := n\<rparr>) = contexts c" "contexts empty_config = []"
  "cc_contexts (SetContext n x c) = Some (AList.update n x (contexts c))"
  "contexts (SetContext n x c) = AList.update n x (contexts c)" "cc_current (SetContext n x c) = cc_current c"
  by (simp_all add: contexts_def SetContext_def empty_config_def)

lemma update_keys: "set (map fst (AList.update k v m)) = insert k (set (map fst m))"
  by (simp add: AList.dom_update)

lemma delete_keys: "set (map fst (AList.delete k m)) = set (map fst m) - {k}"
  by (simp add: AList.delete_keys del: set_map)

lemma apply_context_ok: "config_ok c \<Longrightarrow> config_ok (apply_context cmd c)"
  by (cases cmd)
    (auto simp: config_ok_def apply_context_def Let_def distinct_update distinct_delete dom_map_of_conv_image_fst
      update_keys delete_keys simp del: set_map simp flip: set_map)

lemma Load_result:
  assumes "Load e y path d = (x, d1)"
  shows "dk_files d1 = dk_files d" and "x = Inr c \<Longrightarrow> config_of y (dk_files d path) = Some c \<and> cc_contexts c \<noteq> None"
  using assms
  by (auto simp: Load_def os_read_def os_call_def Let_def config_of_def empty_config_def
      split: outcome.splits option.splits sum.splits if_splits)

lemma Save_result:
  assumes "Save e y c path d = (x, d1)" "yaml_ok y" "cc_contexts c \<noteq> None" "file_path_ok path"
  shows "config_of y (dk_files d1 path) \<in> {config_of y (dk_files d path), Some c}"
    and "x = Inr () \<Longrightarrow> config_of y (dk_files d1 path) = Some c"
    and "q \<noteq> path \<Longrightarrow> q \<noteq> [] \<Longrightarrow> \<not> is_digit (last q) \<Longrightarrow> dk_files d1 q = dk_files d q"
proof -
  have "config_of y (dk_files d1 path) \<in> {config_of y (dk_files d path), Some c} \<and>
      (x = Inr () \<longrightarrow> config_of y (dk_files d1 path) = Some c) \<and>
      (q \<noteq> path \<longrightarrow> q \<noteq> [] \<longrightarrow> \<not> is_digit (last q) \<longrightarrow> dk_files d1 q = dk_files d q)" for q
  proof (cases "ym_marshal y c")
    case (Inl err)
    then show ?thesis using assms(1) by (auto simp: Save_def)
  next
    case (Inr t)
    obtain r where w: "writeFileAtomic e path t filePerm d = (r, d1)" "x = Inr () \<longrightarrow> r = Inr ()"
      using assms(1) Inr by (auto simp: Save_def split: prod.splits sum.splits)
    have new: "config_of y (Some (t, filePerm)) = Some c"
      using assms(2,3) Inr by (simp add: config_of_def yaml_ok_def)
    obtain tmp where at: "dk_files d1 path \<in> {dk_files d path, Some (t, filePerm)}"
        "r = Inr () \<longrightarrow> dk_files d1 path = Some (t, filePerm)"
        "dk_files d1 = (dk_files d)(path := dk_files d1 path, tmp := dk_files d1 tmp)" "is_digit (last tmp)"
      using atomic_write [OF w(1)] assms(4) by (auto simp: file_path_ok_def)
    have "q \<noteq> path \<longrightarrow> \<not> is_digit (last q) \<longrightarrow> dk_files d1 q = dk_files d q"
      using fun_cong [OF at(3), of q] at(4) by auto
    then show ?thesis using at(1,2) new w(2) by auto
  qed
  then show "config_of y (dk_files d1 path) \<in> {config_of y (dk_files d path), Some c}"
    "x = Inr () \<Longrightarrow> config_of y (dk_files d1 path) = Some c"
    "q \<noteq> path \<Longrightarrow> q \<noteq> [] \<Longrightarrow> \<not> is_digit (last q) \<Longrightarrow> dk_files d1 q = dk_files d q" by blast+
qed

lemma config_path_ok: "DefaultPath e = Inr path \<Longrightarrow> file_path_ok path \<and> (\<forall>dir. path \<noteq> tokens_path dir)"
proof -
  assume "DefaultPath e = Inr path"
  then obtain dir where p: "path = path_join [dir, ''config.yaml'']" by (auto simp: DefaultPath_def split: sum.splits)
  have "path \<noteq> [] \<and> last path = CHR ''l''"
    using path_join_last [of "''config.yaml''" dir] by (simp add: p)
  moreover have "last (tokens_path dir) = CHR ''n''" for dir
    using path_join_last [of "''tokens.json''" dir] by (simp add: tokens_path_def)
  ultimately show ?thesis by (auto simp: file_path_ok_def is_digit_def)
qed

lemma app_load_result:
  assumes "app_load a d = (x, d1)" "DefaultPath (ap_os a) = Inr path"
  shows "dk_files d1 = dk_files d"
    and "x = Inr (c, p) \<Longrightarrow> p = path \<and> config_of (ap_yaml a) (dk_files d path) = Some c"
proof -
  obtain y where l: "Load (ap_os a) (ap_yaml a) path d = (y, d1)" "x = map_sum id (\<lambda>c. (c, path)) y"
    using assms by (auto simp: app_load_def split: prod.splits sum.splits)
  show "dk_files d1 = dk_files d" using Load_result(1) [OF l(1)] .
  show "x = Inr (c, p) \<Longrightarrow> p = path \<and> config_of (ap_yaml a) (dk_files d path) = Some c"
    using Load_result(2) [OF l(1)] l(2) by (cases y) auto
qed

lemma run_context_shape:
  assumes "run_context a cmd d = (r, d')" "DefaultPath (ap_os a) = Inr path"
    and "config_of (ap_yaml a) (dk_files d path) = Some c"
  obtains (stopped) err where "r = Inl err" "dk_files d' = dk_files d"
  | (saved) x d1 where "dk_files d1 = dk_files d" "is_ok r = is_ok x" "cc_contexts (apply_context cmd c) \<noteq> None"
      "Save (ap_os a) (ap_yaml a) (apply_context cmd c) path d1 = (x, d')"
proof -
  obtain y d1 where l: "app_load a d = (y, d1)" by fastforce
  note lr = app_load_result [OF l assms(2)]
  have some: "cc_contexts c \<noteq> None"
    using assms(3) by (auto simp: config_of_def empty_config_def split: option.splits sum.splits if_splits)
  have c: "y = Inr (c', p) \<Longrightarrow> c' = c \<and> p = path" for c' p using lr(2) assms(3) by auto
  show thesis
  proof (cases y)
    case (Inl err)
    then have "dk_files d' = dk_files d \<and> (\<exists>err. r = Inl err)"
      using assms(1) l lr(1)
      by (auto simp: run_context_def context_add_def context_use_def context_remove_def Let_def
          split: context_command.splits option.splits if_splits)
    then show thesis using stopped by blast
  next
    case (Inr cp)
    then have y: "y = Inr (c, path)" using c by (cases cp) auto
    consider "\<exists>err. r = Inl err \<and> dk_files d' = dk_files d"
      | x where "is_ok r = is_ok x" "Save (ap_os a) (ap_yaml a) (apply_context cmd c) path d1 = (x, d')"
          "cc_contexts (apply_context cmd c) \<noteq> None"
    proof (cases cmd)
      case (AddContext arg url insecure)
      show thesis
      proof (cases "trim_space arg = [] \<or> validateServerURL url \<noteq> None")
        case True
        then have "\<exists>err. r = Inl err \<and> dk_files d' = dk_files d"
          using assms(1) by (auto simp: run_context_def AddContext context_add_def Let_def split: if_splits)
        then show thesis using that(1) by blast
      next
        case False
        let ?c1 = "SetContext (trim_space arg) \<lparr>sc_url = url, sc_insecure = insecure\<rparr> c"
        have use: "Use (trim_space arg) ?c1 = Inr (?c1\<lparr>cc_current := trim_space arg\<rparr>)"
          by (simp add: Use_def find_context_def update_conv')
        obtain x where x: "Save (ap_os a) (ap_yaml a) (apply_context cmd c) path d1 = (x, d')" "is_ok r = is_ok x"
          using assms(1) False l use
          by (auto simp: run_context_def AddContext context_add_def y apply_context_def Let_def SetContext_def
              split: prod.splits sum.splits if_splits)
        show thesis using that(2) [OF x(2,1)] False by (simp add: AddContext apply_context_def Let_def)
      qed
    next
      case (UseContext name)
      show thesis
      proof (cases "find_context name c = None")
        case True
        then have "\<exists>err. r = Inl err \<and> dk_files d' = dk_files d"
          using assms(1) l lr(1) by (auto simp: run_context_def UseContext context_use_def Use_def y Let_def)
        then show thesis using that(1) by blast
      next
        case False
        then obtain x where x: "Save (ap_os a) (ap_yaml a) (apply_context cmd c) path d1 = (x, d')" "is_ok r = is_ok x"
          using assms(1) l
          by (auto simp: run_context_def UseContext context_use_def Use_def y apply_context_def find_context_def domIff Let_def
              split: prod.splits sum.splits if_splits)
        show thesis using that(2) [OF x(2,1)] False some
          by (auto simp: UseContext apply_context_def find_context_def)
      qed
    next
      case (DropContext name)
      show thesis
      proof (cases "find_context name c = None")
        case True
        then have "\<exists>err. r = Inl err \<and> dk_files d' = dk_files d"
          using assms(1) l lr(1) by (auto simp: run_context_def DropContext context_remove_def RemoveContext_def y Let_def)
        then show thesis using that(1) by blast
      next
        case False
        then obtain x where x: "Save (ap_os a) (ap_yaml a) (apply_context cmd c) path d1 = (x, d')" "is_ok r = is_ok x"
          using assms(1) l
          by (auto simp: run_context_def DropContext context_remove_def RemoveContext_def y apply_context_def find_context_def domIff Let_def
              split: prod.splits sum.splits if_splits)
        show thesis using that(2) [OF x(2,1)] False some
          by (auto simp: DropContext apply_context_def find_context_def)
      qed
    qed
    then show thesis using stopped saved [OF lr(1)] by cases blast+
  qed
qed

lemma run_context_file:
  assumes "run_context a cmd d = (r, d')" "DefaultPath (ap_os a) = Inr path" "yaml_ok (ap_yaml a)"
    and "config_of (ap_yaml a) (dk_files d path) = Some c"
  shows "config_of (ap_yaml a) (dk_files d' path) \<in> {Some c, Some (apply_context cmd c)}"
    and "is_ok r \<Longrightarrow> config_of (ap_yaml a) (dk_files d' path) = Some (apply_context cmd c)"
    and "dk_files d' (tokens_path dir) = dk_files d (tokens_path dir)"
proof -
  have "config_of (ap_yaml a) (dk_files d' path) \<in> {Some c, Some (apply_context cmd c)} \<and>
      (is_ok r \<longrightarrow> config_of (ap_yaml a) (dk_files d' path) = Some (apply_context cmd c)) \<and>
      dk_files d' (tokens_path dir) = dk_files d (tokens_path dir)"
  proof (cases rule: run_context_shape [OF assms(1,2,4)])
    case (1 err)
    then show ?thesis using assms(4) by (simp add: is_ok_def)
  next
    case (2 x d1)
    note p = config_path_ok [OF assms(2)]
    note sv = Save_result [OF 2(4) assms(3) 2(3) conjunct1 [OF p]]
    have "tokens_path dir \<noteq> path" using p by metis
    then have "dk_files d' (tokens_path dir) = dk_files d (tokens_path dir)"
      using sv(3) [of "tokens_path dir"] tokens_path_ok [of dir] 2(1) by (simp add: file_path_ok_def)
    moreover have "is_ok r \<Longrightarrow> x = Inr ()" using 2(2) by (cases x) (simp_all add: is_ok_def)
    ultimately show ?thesis using sv(1,2) 2(1) assms(4) by auto
  qed
  then show "config_of (ap_yaml a) (dk_files d' path) \<in> {Some c, Some (apply_context cmd c)}"
    "is_ok r \<Longrightarrow> config_of (ap_yaml a) (dk_files d' path) = Some (apply_context cmd c)"
    "dk_files d' (tokens_path dir) = dk_files d (tokens_path dir)" by blast+
qed

text \<open>
  Commands one after the other, each on a machine of its own (its failures, its crash): which of them
  took effect, in order.
\<close>

inductive context_history :: "yaml_lib \<Rightarrow> string \<Rightarrow> 'k desktop \<Rightarrow> context_command list \<Rightarrow> 'k desktop \<Rightarrow> bool"
  for y path where
  start: "context_history y path d [] d"
| effect: "context_history y path d cmds d1 \<Longrightarrow> ap_yaml a = y \<Longrightarrow> DefaultPath (ap_os a) = Inr path \<Longrightarrow>
    run_context a cmd d1 = (r, d2) \<Longrightarrow> config_of y (dk_files d2 path) \<noteq> config_of y (dk_files d1 path) \<or> is_ok r \<Longrightarrow>
    context_history y path d (cmds @ [cmd]) d2"
| no_effect: "context_history y path d cmds d1 \<Longrightarrow> ap_yaml a = y \<Longrightarrow> DefaultPath (ap_os a) = Inr path \<Longrightarrow>
    run_context a cmd d1 = (r, d2) \<Longrightarrow> config_of y (dk_files d2 path) = config_of y (dk_files d1 path) \<Longrightarrow> \<not> is_ok r \<Longrightarrow>
    context_history y path d cmds d2"

lemma fold_apply_ok: "config_ok c \<Longrightarrow> config_ok (fold apply_context cmds c)"
  by (induction cmds arbitrary: c) (simp_all add: apply_context_ok)


text \<open>
  No \<^verbatim>\<open>context\<close> command touches the stored sessions: removing a context leaves its tokens in the
  secrets file, and a context added later under the same name, for whatever server, starts with them.
\<close>

theorem context_commands_keep_sessions:
  assumes "run_context a cmd d = (r, d')" "DefaultPath (ap_os a) = Inr path" "yaml_ok (ap_yaml a)"
    and "config_of (ap_yaml a) (dk_files d path) = Some c"
  shows "file_session dir name d' = file_session dir name d"
  using run_context_file(3) [OF assms, of dir] by (simp add: file_session_def file_held_def)

text \<open>A first command on a new machine.\<close>

definition first_config :: cli_config where
  "first_config = \<lparr>cc_current = ''prod'', cc_contexts = Some [(''prod'', \<lparr>sc_url = ''https://h'', sc_insecure = False\<rparr>)], cc_defaults = None\<rparr>"

definition small_yaml :: yaml_lib where
  "small_yaml =
     \<lparr>ym_marshal = (\<lambda>c. if c = first_config then Inr ''1'' else Inl ''unsupported''),
      ym_unmarshal = (\<lambda>t. if t = ''1'' then Inr first_config else Inl ''unsupported'')\<rparr>"

definition small_env :: "(string \<times> string \<Rightarrow> string option) app_env" where
  "small_env = \<lparr>ap_os = calm_env, ap_yaml = small_yaml, ap_keyring = fakeKeyring,
                ap_opts = \<lparr>op_context = [], op_output = ''table'', op_color = ''auto'', op_quiet = False, op_verbose = False, op_no_progress = False\<rparr>\<rparr>"

definition first_command :: context_command where
  "first_command = AddContext ''prod'' ''https://h'' False"

definition config_path :: string where
  "config_path = path_join [path_join [''/home/u'', ''.config'', ''dfms''], ''config.yaml'']"

lemma small_facts:
  "yaml_ok small_yaml" "DefaultPath calm_env = Inr config_path"
  "validateServerURL ''https://h'' = None" "trim_space ''prod'' = ''prod''"
  "config_of small_yaml (dk_files new_desktop config_path) = Some empty_config" "config_ok empty_config"
  "apply_context first_command empty_config = first_config"
proof -
  show "yaml_ok small_yaml" by (simp add: yaml_ok_def small_yaml_def)
  show "DefaultPath calm_env = Inr config_path" by (simp add: DefaultPath_def configDir_def calm_env_def config_path_def)
  show url: "validateServerURL ''https://h'' = None" by code_simp
  show name: "trim_space ''prod'' = ''prod''" by code_simp
  show "config_of small_yaml (dk_files new_desktop config_path) = Some empty_config" by (simp add: config_of_def new_desktop_def)
  show "config_ok empty_config" by (simp add: config_ok_def empty_config_def contexts_def)
  show "apply_context first_command empty_config = first_config"
    by (simp add: first_command_def apply_context_def url name Let_def first_config_def) (simp add: empty_config_def)
qed

lemma small_run: "is_ok (fst (run_context small_env first_command new_desktop))"
proof -
  let ?d = "new_desktop\<lparr>dk_calls := 1\<rparr>"
  have env: "ap_os small_env = calm_env" "ap_yaml small_env = small_yaml" "cc_current empty_config = []"
    by (simp_all add: small_env_def empty_config_def)
  have load: "app_load small_env new_desktop = (Inr (empty_config, config_path), ?d)"
    by (simp add: app_load_def small_env_def small_facts Load_def os_read_def os_call_def dead_def)
      (simp add: calm_env_def new_desktop_def)
  have "fst (writeFileAtomic calm_env config_path data filePerm ?d) = Inr ()" for data
    by (rule calm_write) (simp_all add: calm_env_def new_desktop_def)
  moreover have "ym_marshal small_yaml first_config = Inr ''1''" by (simp add: small_yaml_def)
  ultimately have save: "fst (Save calm_env small_yaml first_config config_path ?d) = Inr ()"
    by (simp add: Save_def case_prod_beta split: sum.splits)
  have "SetContext ''prod'' \<lparr>sc_url = ''https://h'', sc_insecure = False\<rparr> empty_config\<lparr>cc_current := ''prod''\<rparr> = first_config"
    by (simp add: SetContext_def empty_config_def first_config_def contexts_def)
  then show ?thesis
    using save
    using env
    by (simp add: run_context_def first_command_def context_add_def small_facts load Let_def Use_def find_context_def
        update_conv' case_prod_beta split: sum.splits)
qed

lemma small_history: "context_history small_yaml config_path new_desktop [first_command] (snd (run_context small_env first_command new_desktop))"
proof -
  obtain r d where r: "run_context small_env first_command new_desktop = (r, d)" by fastforce
  have "is_ok r" using small_run by (simp add: r)
  have "context_history small_yaml config_path new_desktop ([] @ [first_command]) d"
    by (rule context_history.effect [OF context_history.start _ _ r])
      (simp_all add: \<open>is_ok r\<close> small_env_def small_facts)
  then show ?thesis by (simp add: r)
qed


theorem context_commands_keep_sessions_witness:
  "file_session ''/c'' ''prod'' (snd (run_context small_env first_command new_desktop)) = None"
proof -
  have "DefaultPath (ap_os small_env) = Inr config_path" "yaml_ok (ap_yaml small_env)"
    "config_of (ap_yaml small_env) (dk_files new_desktop config_path) = Some empty_config"
    by (simp_all add: small_env_def small_facts)
  from context_commands_keep_sessions [OF surjective_pairing this, where cmd = first_command and dir = "''/c''" and name = "''prod''"]
  have "file_session ''/c'' ''prod'' (snd (run_context small_env first_command new_desktop)) = file_session ''/c'' ''prod'' new_desktop" .
  then show ?thesis
    by (simp add: file_session_def file_held_def new_desktop_def secrets_of_def lookup_secret_def)
qed

end
