(* ===== verification/Transport.thy ===== *)
theory Transport
  imports CliConfig StreamIO
begin

text \<open>
  The HTTP client of \<^verbatim>\<open>dfmsctl\<close> below its endpoints: requests and responses (\<^verbatim>\<open>internal/dfmsclient/client.go\<close>,
  \<^verbatim>\<open>request.go\<close>), the tokens' claims (\<^verbatim>\<open>auth.go\<close>), and the transport that authenticates and refreshes
  (\<^verbatim>\<open>transport.go\<close>).  Which requests leave the client and what the token store holds afterwards.
\<close>

section \<open>Requests\<close>

text \<open>
  \<open>MemBody\<close> is a body in memory, which \<^verbatim>\<open>GetBody\<close> gives again; \<open>StreamBody\<close> is read once.  \<open>hq_raw\<close> is the
  text of the URL, \<open>hq_url\<close> what it parses to.
\<close>

datatype hbody = MemBody string | StreamBody reader

record hreq =
  hq_method :: string
  hq_raw :: string
  hq_url :: url
  hq_headers :: "(string \<times> string) list"
  hq_body :: hbody

definition set_header :: "string \<Rightarrow> string \<Rightarrow> (string \<times> string) list \<Rightarrow> (string \<times> string) list" where
  "set_header name v hs = filter (\<lambda>(k, _). \<not> equal_fold k name) hs @ [(name, v)]"

definition NewRequest :: "string \<Rightarrow> string \<Rightarrow> hbody \<Rightarrow> hreq result" where
  "NewRequest method raw body =
     (case Parse raw of
        Inl err \<Rightarrow> Inl err
      | Inr u \<Rightarrow> Inr \<lparr>hq_method = method, hq_raw = raw, hq_url = u, hq_headers = [], hq_body = body\<rparr>)"

definition with_header :: "string \<Rightarrow> string \<Rightarrow> hreq \<Rightarrow> hreq" where
  "with_header name v q = q\<lparr>hq_headers := set_header name v (hq_headers q)\<rparr>"

abbreviation "apiPrefix \<equiv> ''/api/v1''"
abbreviation "pathRegister \<equiv> apiPrefix @ ''/auth/register''"
abbreviation "pathLogin \<equiv> apiPrefix @ ''/auth/login''"
abbreviation "pathRefresh \<equiv> apiPrefix @ ''/auth/refresh''"

definition isAuthEndpoint :: "string \<Rightarrow> bool" where
  "isAuthEndpoint path \<longleftrightarrow> path = pathLogin \<or> path = pathRegister \<or> path = pathRefresh"

definition canReplay :: "hreq \<Rightarrow> bool" where
  "canReplay q = (case hq_body q of MemBody _ \<Rightarrow> True | StreamBody _ \<Rightarrow> False)"

section \<open>Claims of a token\<close>

text \<open>Times in nanoseconds.\<close>

record access_claims =
  ac_subject :: string
  ac_email :: string
  ac_role :: string
  ac_expires :: "int option"

definition authResponse_type :: jtype where
  "authResponse_type = TStruct [(''tokens'', TStruct [(''access_token'', TStr), (''refresh_token'', TStr)])]"

definition toTokens :: "json \<Rightarrow> tokens" where
  "toTokens r = tokens_of (jget r ''tokens'')"

section \<open>The transport\<close>

text \<open>
  What a transport stands on: the round trip of \<^verbatim>\<open>net/http\<close> with whatever answers at the other end
  (\<open>tp_rt\<close>), the clock, the reading of a JWT without checking its signature (\<open>tp_claims\<close>, the JWT
  library), and the request with which \<^verbatim>\<open>net/http\<close> follows a response that is a redirect (\<open>tp_redirect\<close>).
\<close>

record ('s, 'w) transport =
  tp_rt :: "hreq \<Rightarrow> 'w \<Rightarrow> (cli_error + hresp) \<times> 'w"
  tp_base :: string
  tp_store :: "'s token_store"
  tp_now :: "'w \<Rightarrow> int"
  tp_claims :: "string \<Rightarrow> access_claims result"
  tp_redirect :: "hreq \<Rightarrow> hresp \<Rightarrow> hreq option"

text \<open>
  The state of the store and of the world, the requests that have been sent, and what has been streamed to
  the standard output.
\<close>

record ('s, 'w) wire =
  wr_store :: 's
  wr_net :: 'w
  wr_sent :: "hreq list"
  wr_out :: string

definition base_trip :: "('s, 'w) transport \<Rightarrow> hreq \<Rightarrow> ('s, 'w) wire \<Rightarrow> (cli_error + hresp) \<times> ('s, 'w) wire" where
  "base_trip tp q s =
     (case tp_rt tp q (wr_net s) of (r, w) \<Rightarrow> (r, s\<lparr>wr_net := w, wr_sent := wr_sent s @ [q]\<rparr>))"

definition on_store :: "('s \<Rightarrow> 'a \<times> 's) \<Rightarrow> ('s, 'w) wire \<Rightarrow> 'a \<times> ('s, 'w) wire" where
  "on_store f s = (case f (wr_store s) of (r, d) \<Rightarrow> (r, s\<lparr>wr_store := d\<rparr>))"

definition parseAccessClaims :: "('s, 'w) transport \<Rightarrow> string \<Rightarrow> cli_error + access_claims" where
  "parseAccessClaims tp token =
     (case tp_claims tp token of Inl err \<Rightarrow> Inl (Wrapped ''decoding access token'' (Plain err)) | Inr c \<Rightarrow> Inr c)"

definition tokenExpiry :: "('s, 'w) transport \<Rightarrow> string \<Rightarrow> int option" where
  "tokenExpiry tp token = (case parseAccessClaims tp token of Inl _ \<Rightarrow> None | Inr c \<Rightarrow> ac_expires c)"

definition expiryLeeway :: int where
  "expiryLeeway = 30 * 10 ^ 9"

definition isExpired :: "('s, 'w) transport \<Rightarrow> string \<Rightarrow> 'w \<Rightarrow> bool" where
  "isExpired tp access w =
     (if access = [] then True
      else case tokenExpiry tp access of None \<Rightarrow> False | Some expiry \<Rightarrow> expiry < tp_now tp w + expiryLeeway)"

definition with_bearer :: "string \<Rightarrow> hreq \<Rightarrow> hreq" where
  "with_bearer access q = with_header ''Authorization'' (''Bearer '' @ access) q"

definition send :: "('s, 'w) transport \<Rightarrow> hreq \<Rightarrow> string \<Rightarrow> ('s, 'w) wire \<Rightarrow> (cli_error + hresp) \<times> ('s, 'w) wire" where
  "send tp q access s = base_trip tp (with_bearer access q) s"

definition refresh_request :: "('s, 'w) transport \<Rightarrow> string \<Rightarrow> cli_error + hreq" where
  "refresh_request tp refreshToken =
     (case NewRequest ''POST'' (tp_base tp @ pathRefresh) (MemBody (json_marshal [(''refresh_token'', refreshToken)])) of
        Inl err \<Rightarrow> Inl (Wrapped ''building refresh request'' (Plain err))
      | Inr q \<Rightarrow> Inr (with_header ''Accept'' ''application/json'' (with_header ''Content-Type'' ''application/json'' q)))"

definition refresh :: "('s, 'w) transport \<Rightarrow> string \<Rightarrow> ('s, 'w) wire \<Rightarrow> (cli_error + tokens) \<times> ('s, 'w) wire" where
  "refresh tp refreshToken s =
     (if refreshToken = [] then (Inl NoCredentials, s)
      else case refresh_request tp refreshToken of
             Inl err \<Rightarrow> (Inl err, s)
           | Inr q \<Rightarrow>
               (case base_trip tp q s of
                  (Inl err, s1) \<Rightarrow> (Inl (ConnectionError err), s1)
                | (Inr resp, s1) \<Rightarrow>
                    if hp_status resp \<noteq> 200 then (Inl NoCredentials, snd (on_store (ts_delete (tp_store tp)) s1))
                    else (case decode_body authResponse_type resp of
                            Inl err \<Rightarrow> (Inl (Wrapped ''decoding refresh response'' (Plain err)), s1)
                          | Inr body \<Rightarrow>
                              (case on_store (ts_save (tp_store tp) (toTokens body)) s1 of
                                 (Inl err, s2) \<Rightarrow> (Inl (Wrapped ''storing refreshed tokens'' err), s2)
                               | (Inr _, s2) \<Rightarrow> (Inr (toTokens body), s2)))))"

text \<open>The request with the access token at hand, and once more after a refresh when the answer is 401.\<close>

definition send_twice ::
  "('s, 'w) transport \<Rightarrow> hreq \<Rightarrow> string \<Rightarrow> string \<Rightarrow> ('s, 'w) wire \<Rightarrow> (cli_error + hresp) \<times> ('s, 'w) wire" where
  "send_twice tp q refreshToken access s =
     (case send tp q access s of
        (Inl err, s1) \<Rightarrow> (Inl err, s1)
      | (Inr resp, s1) \<Rightarrow>
          if hp_status resp = 401 \<and> canReplay q then
            (case refresh tp refreshToken s1 of
               (Inl err, s2) \<Rightarrow> (Inl err, s2)
             | (Inr refreshed, s2) \<Rightarrow> send tp q (tk_access refreshed) s2)
          else (Inr resp, s1))"

definition RoundTrip :: "('s, 'w) transport \<Rightarrow> hreq \<Rightarrow> ('s, 'w) wire \<Rightarrow> (cli_error + hresp) \<times> ('s, 'w) wire" where
  "RoundTrip tp q s =
     (if isAuthEndpoint (u_path (hq_url q)) then base_trip tp q s
      else case on_store (ts_load (tp_store tp)) s of
             (Inl err, s1) \<Rightarrow> (Inl err, s1)
           | (Inr tokens, s1) \<Rightarrow>
               if isExpired tp (tk_access tokens) (wr_net s1) then
                 (case refresh tp (tk_refresh tokens) s1 of
                    (Inl err, s2) \<Rightarrow> (Inl err, s2)
                  | (Inr refreshed, s2) \<Rightarrow> send_twice tp q (tk_refresh tokens) (tk_access refreshed) s2)
               else send_twice tp q (tk_refresh tokens) (tk_access tokens) s1)"

section \<open>http.Client.Do\<close>

text \<open>At most ten requests along redirects, each through the transport; an error names the request.\<close>

fun follow :: "nat \<Rightarrow> ('s, 'w) transport \<Rightarrow> hreq \<Rightarrow> ('s, 'w) wire \<Rightarrow> (cli_error + hresp) \<times> ('s, 'w) wire" where
  "follow 0 tp q s = (Inl (Plain ''stopped after 10 redirects''), s)"
| "follow (Suc n) tp q s =
     (case RoundTrip tp q s of
        (Inl err, s1) \<Rightarrow> (Inl err, s1)
      | (Inr resp, s1) \<Rightarrow>
          (case tp_redirect tp q resp of
             None \<Rightarrow> (Inr resp, s1)
           | Some q' \<Rightarrow> follow n tp q' s1))"

definition client_Do :: "('s, 'w) transport \<Rightarrow> hreq \<Rightarrow> ('s, 'w) wire \<Rightarrow> (cli_error + hresp) \<times> ('s, 'w) wire" where
  "client_Do tp q s =
     (case follow 10 tp q s of
        (Inl err, s1) \<Rightarrow> (Inl (Wrapped (take 1 (hq_method q) @ to_lower (drop 1 (hq_method q)) @ '' '' @ go_quote (hq_raw q)) err), s1)
      | (Inr resp, s1) \<Rightarrow> (Inr resp, s1))"

section \<open>The client\<close>

record ('s, 'w) client =
  cl_base :: string
  cl_agent :: string
  cl_http :: "('s, 'w) transport"

definition trim_slashes :: "string \<Rightarrow> string" where
  "trim_slashes s = trim_right CHR ''/'' s"

text \<open>\<^verbatim>\<open>New(ctx.URL, WithHTTPClient(NewAuthHTTPClient(ctx.URL, store, insecure)))\<close>, as a session makes it.\<close>

definition NewAuthHTTPClient ::
  "string \<Rightarrow> 's token_store \<Rightarrow> (hreq \<Rightarrow> 'w \<Rightarrow> (cli_error + hresp) \<times> 'w) \<Rightarrow> ('w \<Rightarrow> int) \<Rightarrow>
   (string \<Rightarrow> access_claims result) \<Rightarrow> (hreq \<Rightarrow> hresp \<Rightarrow> hreq option) \<Rightarrow> ('s, 'w) transport" where
  "NewAuthHTTPClient baseURL store rt now claims redirect =
     \<lparr>tp_rt = rt, tp_base = trim_slashes baseURL, tp_store = store, tp_now = now, tp_claims = claims, tp_redirect = redirect\<rparr>"

definition NewClient :: "string \<Rightarrow> ('s, 'w) transport \<Rightarrow> ('s, 'w) client" where
  "NewClient baseURL tp = \<lparr>cl_base = trim_slashes baseURL, cl_agent = ''dfmsctl'', cl_http = tp\<rparr>"

definition newJSONRequest :: "('s, 'w) client \<Rightarrow> string \<Rightarrow> string \<Rightarrow> json option \<Rightarrow> cli_error + hreq" where
  "newJSONRequest c method path payload =
     (let body = (case payload of None \<Rightarrow> [] | Some j \<Rightarrow> json_print (\<lambda>_. []) j) in
      case NewRequest method (cl_base c @ path) (MemBody body) of
        Inl err \<Rightarrow> Inl (Wrapped ''building request'' (Plain err))
      | Inr q \<Rightarrow>
          Inr (with_header ''User-Agent'' (cl_agent c) (with_header ''Accept'' ''application/json''
            (if payload = None then q else with_header ''Content-Type'' ''application/json'' q))))"

text \<open>\<open>out\<close> is the type the answer is decoded into, if any.\<close>

definition doJSON ::
  "('s, 'w) client \<Rightarrow> hreq \<Rightarrow> jtype option \<Rightarrow> ('s, 'w) wire \<Rightarrow> (cli_error + json) \<times> ('s, 'w) wire" where
  "doJSON c q out s =
     (case client_Do (cl_http c) q s of
        (Inl err, s1) \<Rightarrow> (Inl (classifyError err), s1)
      | (Inr resp, s1) \<Rightarrow>
          if \<not> resp_ok resp then (Inl (parseError resp), s1)
          else case out of
                 None \<Rightarrow> (Inr JNull, s1)
               | Some t \<Rightarrow>
                   (case decode_body t resp of
                      Inl err \<Rightarrow> (Inl (Wrapped ''decoding response'' (Plain err)), s1)
                    | Inr v \<Rightarrow> (Inr v, s1)))"

definition call_json ::
  "('s, 'w) client \<Rightarrow> string \<Rightarrow> string \<Rightarrow> json option \<Rightarrow> jtype option \<Rightarrow> ('s, 'w) wire \<Rightarrow> (cli_error + json) \<times> ('s, 'w) wire" where
  "call_json c method path payload out s =
     (case newJSONRequest c method path payload of Inl err \<Rightarrow> (Inl err, s) | Inr q \<Rightarrow> doJSON c q out s)"

section \<open>What is sent\<close>

lemma base_trip_result:
  assumes "base_trip tp q s = (r, s')"
  shows "wr_sent s' = wr_sent s @ [q]" "wr_store s' = wr_store s"
  using assms by (auto simp: base_trip_def split: prod.splits)

lemma on_store_result:
  assumes "on_store f s = (r, s')"
  shows "wr_sent s' = wr_sent s" "wr_net s' = wr_net s" "f (wr_store s) = (r, wr_store s')"
  using assms by (auto simp: on_store_def split: prod.splits)

lemma refresh_unsent:
  assumes "refresh tp t s = (r, s')" "t = [] \<or> refresh_request tp t = Inl err"
  shows "s' = s \<and> \<not> is_ok r"
  using assms by (auto simp: refresh_def is_ok_def split: if_splits sum.splits)

text \<open>After the request, a refresh only touches the store.\<close>

lemma refresh_sent:
  assumes "refresh tp t s = (r, s')" "t \<noteq> []" "refresh_request tp t = Inr q" "base_trip tp q s = (x, s1)"
  shows "wr_sent s' = wr_sent s1 \<and> wr_net s' = wr_net s1"
  using assms by (auto simp: refresh_def on_store_def split: sum.splits prod.splits if_splits)

lemma refresh_sends:
  assumes "refresh tp t s = (r, s')"
  shows "\<exists>news. wr_sent s' = wr_sent s @ news \<and> length news \<le> 1 \<and> (\<forall>q\<in>set news. refresh_request tp t = Inr q)"
proof (cases "refresh_request tp t")
  case (Inl err)
  then show ?thesis using refresh_unsent [OF assms] by auto
next
  case (Inr q)
  obtain x s1 where x: "base_trip tp q s = (x, s1)" by fastforce
  show ?thesis
  proof (cases "t = []")
    case True
    then show ?thesis using refresh_unsent [OF assms] by auto
  next
    case False
    then show ?thesis using refresh_sent [OF assms False Inr x] base_trip_result(1) [OF x] Inr by auto
  qed
qed


definition at_most_one :: "hreq list \<Rightarrow> (hreq \<Rightarrow> bool) \<Rightarrow> bool" where
  "at_most_one qs p \<longleftrightarrow> length qs \<le> 1 \<and> list_all p qs"

lemma at_most_one_simps [simp]: "at_most_one [] p" "at_most_one [q] p \<longleftrightarrow> p q"
  by (simp_all add: at_most_one_def)

definition is_refresh :: "('s, 'w) transport \<Rightarrow> string \<Rightarrow> hreq \<Rightarrow> bool" where
  "is_refresh tp t x \<longleftrightarrow> refresh_request tp t = Inr x"

definition is_send :: "hreq \<Rightarrow> hreq \<Rightarrow> bool" where
  "is_send q x \<longleftrightarrow> (\<exists>access. x = with_bearer access q)"

lemma refresh_sent_list:
  assumes "refresh tp t s = (r, s')"
  obtains rs where "wr_sent s' = wr_sent s @ rs" "at_most_one rs (is_refresh tp t)"
  using refresh_sends [OF assms] by (auto simp: at_most_one_def is_refresh_def list_all_iff)

lemma send_sent: "send tp q a s = (r, s') \<Longrightarrow> wr_sent s' = wr_sent s @ [with_bearer a q] \<and> wr_store s' = wr_store s"
  using base_trip_result by (fastforce simp: send_def)

lemma is_send_bearer [simp]: "is_send q (with_bearer a q)"
  by (auto simp: is_send_def)

text \<open>The course of a request after its access token is known.\<close>

lemma send_twice_cases:
  assumes "send_twice tp q t a s = (r, s')"
  obtains (once) x where "send tp q a s = (x, s')" "r = x"
        "\<And>resp. x = Inr resp \<Longrightarrow> hp_status resp \<noteq> 401 \<or> \<not> canReplay q"
    | (unrefreshed) resp s1 err where "send tp q a s = (Inr resp, s1)" "canReplay q" "refresh tp t s1 = (Inl err, s')" "r = Inl err"
    | (twice) resp s1 tk s2 where "send tp q a s = (Inr resp, s1)" "canReplay q" "refresh tp t s1 = (Inr tk, s2)"
        "send tp q (tk_access tk) s2 = (r, s')"
  using assms unfolding send_twice_def
  by (auto split: prod.splits sum.splits if_splits)

lemma send_twice_sends:
  assumes "send_twice tp q t a s = (r, s')"
  obtains rs bs where "wr_sent s' = wr_sent s @ [with_bearer a q] @ rs @ bs" "at_most_one rs (is_refresh tp t)"
    "at_most_one bs (is_send q)" "rs @ bs = [] \<or> canReplay q"
  using assms
proof (cases rule: send_twice_cases)
  case once
  then show ?thesis using that [of "[]" "[]"] send_sent [OF once(1)] by simp
next
  case (unrefreshed resp s1 err)
  obtain rs where "wr_sent s' = wr_sent s1 @ rs" "at_most_one rs (is_refresh tp t)"
    using refresh_sent_list [OF unrefreshed(3)] .
  then show ?thesis using that [of rs "[]"] send_sent [OF unrefreshed(1)] unrefreshed(2) by simp
next
  case (twice resp s1 tk s2)
  obtain rs where "wr_sent s2 = wr_sent s1 @ rs" "at_most_one rs (is_refresh tp t)"
    using refresh_sent_list [OF twice(3)] .
  then show ?thesis
    using that [of rs "[with_bearer (tk_access tk) q]"] send_sent [OF twice(1)] send_sent [OF twice(4)] twice(2) by simp
qed

lemma RoundTrip_cases:
  assumes "RoundTrip tp q s = (r, s')" "\<not> isAuthEndpoint (u_path (hq_url q))"
  obtains (unloaded) err where "on_store (ts_load (tp_store tp)) s = (Inl err, s')" "r = Inl err"
    | (fresh) t s1 where "on_store (ts_load (tp_store tp)) s = (Inr t, s1)"
        "send_twice tp q (tk_refresh t) (tk_access t) s1 = (r, s')"
    | (unrefreshed) t s1 err where "on_store (ts_load (tp_store tp)) s = (Inr t, s1)"
        "refresh tp (tk_refresh t) s1 = (Inl err, s')" "r = Inl err"
    | (refreshed) t s1 tk s2 where "on_store (ts_load (tp_store tp)) s = (Inr t, s1)"
        "refresh tp (tk_refresh t) s1 = (Inr tk, s2)" "send_twice tp q (tk_refresh t) (tk_access tk) s2 = (r, s')"
  using assms unfolding RoundTrip_def
  by (auto split: prod.splits sum.splits if_splits)


lemma RoundTrip_sends:
  assumes "RoundTrip tp q s = (r, s')" "\<not> isAuthEndpoint (u_path (hq_url q))"
    and "fst (ts_load (tp_store tp) (wr_store s)) = Inr t"
  shows "\<exists>rs1 bs1 rs2 bs2. wr_sent s' = wr_sent s @ rs1 @ bs1 @ rs2 @ bs2 \<and>
    at_most_one rs1 (is_refresh tp (tk_refresh t)) \<and> at_most_one bs1 (is_send q) \<and>
    at_most_one rs2 (is_refresh tp (tk_refresh t)) \<and> at_most_one bs2 (is_send q) \<and> (rs2 @ bs2 = [] \<or> canReplay q)"
  using assms(1,2)
proof (cases rule: RoundTrip_cases)
  case unloaded
  then show ?thesis using assms(3) by (auto simp: on_store_def split: prod.splits)
next
  case (fresh t' s1)
  then have "t' = t" "wr_sent s1 = wr_sent s" using on_store_result [OF fresh(1)] assms(3) by simp_all
  moreover obtain rs bs where "wr_sent s' = wr_sent s1 @ [with_bearer (tk_access t') q] @ rs @ bs"
    "at_most_one rs (is_refresh tp (tk_refresh t'))" "at_most_one bs (is_send q)" "rs @ bs = [] \<or> canReplay q"
    using send_twice_sends [OF fresh(2)] .
  ultimately show ?thesis
    by (intro exI [of _ rs] exI [of _ bs] exI [of _ "[with_bearer (tk_access t') q]"] exI [of _ "[] :: hreq list"]) simp
next
  case (unrefreshed t' s1 err)
  then have "t' = t" "wr_sent s1 = wr_sent s" using on_store_result [OF unrefreshed(1)] assms(3) by simp_all
  then show ?thesis
    by (rule_tac refresh_sent_list [OF unrefreshed(2)]) (metis at_most_one_simps(1) append_Nil2)
next
  case (refreshed t' s1 tk s2)
  then have t: "t' = t" "wr_sent s1 = wr_sent s" using on_store_result [OF refreshed(1)] assms(3) by simp_all
  obtain rs where rs: "wr_sent s2 = wr_sent s1 @ rs" "at_most_one rs (is_refresh tp (tk_refresh t))"
    using refresh_sent_list [OF refreshed(2)] t(1) by blast
  show ?thesis
    using send_twice_sends [OF refreshed(3)] rs t
    by (metis append.assoc at_most_one_simps(2) is_send_bearer)
qed

section \<open>What the store holds afterwards\<close>

lemma authResponse_valid: "valid_type authResponse_type"
  by (simp add: authResponse_type_def valid_ascii ascii_def)

lemma decode_body_valid: "decode_body t r = Inr v \<Longrightarrow> valid_type t \<Longrightarrow> valid_value v"
  by (auto simp: decode_body_def dest: decode_into_valid split: sum.splits option.splits)

lemma toTokens_storable: "decode_body authResponse_type resp = Inr body \<Longrightarrow> storable_tokens (toTokens body)"
  using decode_body_valid [OF _ authResponse_valid] jget_valid jstr_valid
  by (simp add: storable_tokens_def toTokens_def tokens_of_def)

lemma refresh_saved:
  assumes "refresh tp t s = (Inr tk, s')"
  obtains d where "ts_save (tp_store tp) tk d = (Inr (), wr_store s')" "d = wr_store s" "storable_tokens tk"
proof -
  obtain q resp s1 body where "refresh_request tp t = Inr q" and b: "base_trip tp q s = (Inr resp, s1)"
    and body: "decode_body authResponse_type resp = Inr body" "tk = toTokens body"
    and sv: "on_store (ts_save (tp_store tp) (toTokens body)) s1 = (Inr (), s')"
    using assms by (auto simp: refresh_def split: if_splits sum.splits prod.splits)
  then show thesis
    using that on_store_result(3) [OF sv] base_trip_result(2) [OF b] toTokens_storable [OF body(1)] by simp
qed

context token_store_laws
begin

lemma refresh_session:
  assumes "refresh tp u s = (r, s')" "tp_store tp = ts" "\<And>t. storable t \<longleftrightarrow> storable_tokens t" "ready (wr_store s)"
  shows "ready (wr_store s')" "r = Inr tk \<Longrightarrow> session (wr_store s') = Some tk"
proof -
  show "r = Inr tk \<Longrightarrow> session (wr_store s') = Some tk"
    using refresh_saved [of tp u s tk s'] save_ok [OF assms(4), of tk] assms by metis
  have "ts_save ts (toTokens b) d = (x, d') \<Longrightarrow> decode_body authResponse_type resp = Inr b \<Longrightarrow> ready d \<Longrightarrow> ready d'"
    for b d x d' resp
    using save_keeps toTokens_storable assms(3) by blast
  then show "ready (wr_store s')"
    using assms
    by (auto simp: refresh_def on_store_def base_trip_def split: if_splits sum.splits prod.splits dest: delete_keeps)
qed

lemma twice_session:
  assumes "send_twice tp q u (tk_access t) s = (Inr resp, s')" "tp_store tp = ts"
    "\<And>t. storable t \<longleftrightarrow> storable_tokens t" "ready (wr_store s)" "session (wr_store s) = Some t"
  shows "\<exists>t. session (wr_store s') = Some t \<and> last (wr_sent s') = with_bearer (tk_access t) q"
  using assms(1)
proof (cases rule: send_twice_cases)
  case once
  then show ?thesis using send_sent [OF once(1)] assms(5) by simp
next
  case (twice resp1 s1 tk s2)
  have "ready (wr_store s1)" using send_sent [OF twice(1)] assms(4) by simp
  then have "session (wr_store s2) = Some tk" by (rule refresh_session(2) [OF twice(3) assms(2,3) _ refl])
  then show ?thesis using send_sent [OF twice(4)] by simp
qed simp

lemma answered_session:
  assumes "RoundTrip tp q s = (Inr resp, s')" "tp_store tp = ts" "\<And>t. storable t \<longleftrightarrow> storable_tokens t"
    "ready (wr_store s)" "\<not> isAuthEndpoint (u_path (hq_url q))"
  shows "\<exists>t. session (wr_store s') = Some t \<and> last (wr_sent s') = with_bearer (tk_access t) q"
  using assms(1,5)
proof (cases rule: RoundTrip_cases)
  case (fresh t s1)
  have l: "ts_load ts (wr_store s) = (Inr t, wr_store s1)" using on_store_result(3) [OF fresh(1)] assms(2) by simp
  then have "ready (wr_store s1)" "session (wr_store s1) = Some t" using load_keeps load_ok assms(4) by auto
  then show ?thesis by (rule twice_session [OF fresh(2) assms(2,3)])
next
  case (refreshed t s1 tk s2)
  have l: "ts_load ts (wr_store s) = (Inr t, wr_store s1)" using on_store_result(3) [OF refreshed(1)] assms(2) by simp
  then have "ready (wr_store s1)" using load_keeps assms(4) by auto
  then have "ready (wr_store s2)" "session (wr_store s2) = Some tk"
    using refresh_session [OF refreshed(2) assms(2,3)] by auto
  then show ?thesis by (rule twice_session [OF refreshed(3) assms(2,3)])
qed simp_all

end


section \<open>Requests that leave the client\<close>

text \<open>
  A request that needs authentication costs at most four round trips, in a fixed order: a refresh
  when the access token is expired, the request with a bearer token, and, when the answer is 401 and the
  body can be sent again, one more refresh and the request once more.  A request whose body is a stream
  is sent at most once.  Both refreshes carry the refresh token that was stored at the start.
\<close>

theorem RoundTrip_requests:
  assumes "RoundTrip tp q s = (r, s')" "\<not> isAuthEndpoint (u_path (hq_url q))"
    and "fst (ts_load (tp_store tp) (wr_store s)) = Inr t"
  shows "\<exists>rs1 bs1 rs2 bs2. wr_sent s' = wr_sent s @ rs1 @ bs1 @ rs2 @ bs2 \<and>
    at_most_one rs1 (is_refresh tp (tk_refresh t)) \<and> at_most_one bs1 (is_send q) \<and>
    at_most_one rs2 (is_refresh tp (tk_refresh t)) \<and> at_most_one bs2 (is_send q) \<and> (rs2 @ bs2 = [] \<or> canReplay q)"
  by (rule RoundTrip_sends [OF assms])

text \<open>A server that answers everything with an empty object, and a session in the secrets file.\<close>

definition demo_answer :: hresp where
  "demo_answer = \<lparr>hp_status = 200, hp_headers = [], hp_length = 2, hp_body = ''{}'', hp_break = None\<rparr>"

definition demo_store :: "(string \<times> string \<Rightarrow> string option) desktop token_store" where
  "demo_store = contextTokens (fileStore calm_env (tokens_path ''/c'')) ''prod''"

definition demo_tp :: "((string \<times> string \<Rightarrow> string option) desktop, nat) transport" where
  "demo_tp = \<lparr>tp_rt = (\<lambda>q n. (Inr demo_answer, Suc n)), tp_base = ''https://s'', tp_store = demo_store, tp_now = (\<lambda>_. 0),
              tp_claims = (\<lambda>_. Inl []), tp_redirect = (\<lambda>_ _. None)\<rparr>"

definition demo_url :: "string \<Rightarrow> url" where
  "demo_url host = \<lparr>u_scheme = ''https'', u_host = host, u_path = ''/api/v1/files'', u_query = []\<rparr>"

definition demo_request :: "string \<Rightarrow> hreq" where
  "demo_request host = \<lparr>hq_method = ''GET'', hq_raw = ''https://'' @ host @ ''/api/v1/files'', hq_url = demo_url host,
                        hq_headers = [], hq_body = MemBody []\<rparr>"

definition demo_wire :: "((string \<times> string \<Rightarrow> string option) desktop, nat) wire" where
  "demo_wire = \<lparr>wr_store = snd (ts_save demo_store some_tokens new_desktop), wr_net = 0, wr_sent = [], wr_out = []\<rparr>"

lemma demo_path: "\<not> isAuthEndpoint (u_path (hq_url (demo_request h)))"
  by (simp add: isAuthEndpoint_def demo_request_def demo_url_def)

lemma demo_load: "fst (ts_load demo_store (wr_store demo_wire)) = Inr some_tokens"
proof -
  let ?save = "ts_save demo_store some_tokens new_desktop"
  have save: "?save = (Inr (), snd ?save)" using calm_save [of some_tokens] by (metis demo_store_def prod.collapse)
  have "valid_utf8 ''prod''" "storable_tokens some_tokens"
    by (simp_all add: storable_tokens_def some_tokens_def valid_ascii ascii_def)
  then show ?thesis
    using saved_loads [OF save [unfolded demo_store_def], of calm_env "''other''"]
    by (simp add: calm_env_def demo_store_def demo_wire_def)
qed

lemma demo_RoundTrip:
  assumes "tp = demo_tp\<lparr>tp_redirect := red\<rparr>"
  shows "fst (RoundTrip tp (demo_request h) demo_wire) = Inr demo_answer"
proof -
  obtain d where l: "ts_load demo_store (wr_store demo_wire) = (Inr some_tokens, d)"
    using demo_load by (metis prod.collapse)
  then show ?thesis
    using demo_path [of h]
    by (simp add: assms RoundTrip_def on_store_def demo_tp_def isExpired_def tokenExpiry_def parseAccessClaims_def some_tokens_def
        send_twice_def send_def base_trip_def demo_answer_def)
qed

theorem RoundTrip_requests_witness:
  "\<exists>rs1 bs1 rs2 bs2. wr_sent (snd (RoundTrip demo_tp (demo_request ''s'') demo_wire)) = rs1 @ bs1 @ rs2 @ bs2 \<and>
     length (rs1 @ bs1 @ rs2 @ bs2) \<le> 4"
proof -
  have "fst (ts_load (tp_store demo_tp) (wr_store demo_wire)) = Inr some_tokens"
    using demo_load by (simp add: demo_tp_def)
  then show ?thesis
    using RoundTrip_requests [OF surjective_pairing demo_path, of demo_tp demo_wire some_tokens "''s''"]
    by (fastforce simp: demo_wire_def at_most_one_def)
qed

text \<open>
  C29: when a request that needs authentication is answered, the store holds the very session whose
  access token the answered request carried, whether that session was loaded, refreshed before the
  request or refreshed after a 401: a rotated token is never used without being kept.
\<close>

theorem answered_with_stored_session:
  assumes "RoundTrip tp q s = (Inr resp, s')" "tp_store tp = contextTokens (fileStore e (tokens_path dir)) c"
    and "valid_utf8 c" "\<not> isAuthEndpoint (u_path (hq_url q))"
  shows "\<exists>t. file_session dir c (wr_store s') = Some t \<and> last (wr_sent s') = with_bearer (tk_access t) q"
  by (rule file_tokens.answered_session [OF assms(1,2) refl assms(3,4)])

theorem answered_with_stored_session_witness:
  "\<exists>t. file_session ''/c'' ''prod'' (wr_store (snd (RoundTrip demo_tp (demo_request ''s'') demo_wire))) = Some t \<and>
     last (wr_sent (snd (RoundTrip demo_tp (demo_request ''s'') demo_wire))) = with_bearer (tk_access t) (demo_request ''s'')"
proof -
  have "RoundTrip demo_tp (demo_request ''s'') demo_wire =
      (Inr demo_answer, snd (RoundTrip demo_tp (demo_request ''s'') demo_wire))"
    using demo_RoundTrip [of demo_tp "tp_redirect demo_tp" "''s''"] by (metis prod.collapse transport.surjective transport.update_convs(6))
  moreover have "valid_utf8 ''prod''" by (simp add: valid_ascii ascii_def)
  ultimately show ?thesis
    using answered_with_stored_session [of demo_tp _ _ demo_answer _ calm_env "''/c''" "''prod''"] demo_path
    by (simp add: demo_tp_def demo_store_def)
qed


section \<open>Redirects\<close>

definition sends_within :: "nat \<Rightarrow> ('s, 'w) wire \<Rightarrow> ('s, 'w) wire \<Rightarrow> bool" where
  "sends_within n s s' \<longleftrightarrow> (\<exists>news. wr_sent s' = wr_sent s @ news \<and> length news \<le> n)"

lemma sends_within_same: "wr_sent s' = wr_sent s \<Longrightarrow> sends_within n s s'"
  by (simp add: sends_within_def)

lemma sends_within_trans: "sends_within m s s1 \<Longrightarrow> sends_within n s1 s2 \<Longrightarrow> m + n \<le> k \<Longrightarrow> sends_within k s s2"
  by (fastforce simp: sends_within_def)

lemma sends_within_mono: "sends_within m s s1 \<Longrightarrow> m \<le> k \<Longrightarrow> sends_within k s s1"
  by (auto simp: sends_within_def intro: order.trans)

lemma refresh_within: "refresh tp t s = (r, s') \<Longrightarrow> sends_within 1 s s'"
  using refresh_sends by (fastforce simp: sends_within_def)

lemma send_twice_within: "send_twice tp q t a s = (r, s') \<Longrightarrow> sends_within 3 s s'"
  by (erule send_twice_sends) (auto simp: sends_within_def at_most_one_def)

lemma RoundTrip_within:
  assumes "RoundTrip tp q s = (r, s')"
  shows "sends_within 4 s s'"
proof (cases "isAuthEndpoint (u_path (hq_url q))")
  case True
  then show ?thesis using assms base_trip_result(1) [of tp q s r s'] by (simp add: RoundTrip_def sends_within_def)
next
  case False
  from assms False show ?thesis
  proof (cases rule: RoundTrip_cases)
    case unloaded
    show ?thesis using on_store_result(1) [OF unloaded(1)] by (rule sends_within_same)
  next
    case (fresh t s1)
    show ?thesis
      by (rule sends_within_trans [OF sends_within_same [OF on_store_result(1) [OF fresh(1)], of 0] send_twice_within [OF fresh(2)]]) simp
  next
    case (unrefreshed t s1 err)
    show ?thesis
      by (rule sends_within_trans [OF sends_within_same [OF on_store_result(1) [OF unrefreshed(1)], of 0] refresh_within [OF unrefreshed(2)]]) simp
  next
    case (refreshed t s1 tk s2)
    have "sends_within 1 s s2"
      by (rule sends_within_trans [OF sends_within_same [OF on_store_result(1) [OF refreshed(1)], of 0] refresh_within [OF refreshed(2)]]) simp
    then show ?thesis by (rule sends_within_trans [OF _ send_twice_within [OF refreshed(3)]]) simp
  qed
qed

lemma follow_within: "sends_within (4 * n) s (snd (follow n tp q s))"
proof (induction n arbitrary: q s)
  case (Suc n)
  obtain r s1 where r: "RoundTrip tp q s = (r, s1)" by fastforce
  note w = RoundTrip_within [OF r]
  have step: "sends_within (4 * Suc n) s (snd (follow n tp q' s1))" for q'
    by (rule sends_within_trans [OF w Suc.IH]) simp
  show ?case using sends_within_mono [OF w, of "4 * Suc n"] step by (simp add: r split: sum.splits option.splits)
qed (simp add: sends_within_same)

lemma client_Do_within: "sends_within 40 s (snd (client_Do tp q s))"
  using follow_within [of 10 s tp q] by (auto simp: client_Do_def split: prod.splits sum.splits)

text \<open>
  C34: a redirect takes the bearer token along.  When a request is answered with a redirect and the session
  is still valid, the next request to leave the client is the one \<^verbatim>\<open>net/http\<close> made for the new location with
  the access token put back in, whatever host that location is on; a chain of redirects ends, after
  at most forty requests in all.
\<close>

theorem redirect_carries_bearer:
  assumes "RoundTrip tp q s = (Inr resp, s1)" "tp_redirect tp q resp = Some q'"
    and "\<not> isAuthEndpoint (u_path (hq_url q'))"
    and "ts_load (tp_store tp) (wr_store s1) = (Inr t, d)" "\<not> isExpired tp (tk_access t) (wr_net s1)"
  shows "\<exists>rest. wr_sent (snd (client_Do tp q s)) = wr_sent s1 @ with_bearer (tk_access t) q' # rest \<and>
    length (wr_sent (snd (client_Do tp q s))) \<le> length (wr_sent s) + 40"
proof -
  obtain r s2 where r: "RoundTrip tp q' s1 = (r, s2)" by fastforce
  have "send_twice tp q' (tk_refresh t) (tk_access t) (s1\<lparr>wr_store := d\<rparr>) = (r, s2)"
    using r assms(3-5) by (simp add: RoundTrip_def on_store_def)
  then obtain rs bs where s2: "wr_sent s2 = wr_sent s1 @ with_bearer (tk_access t) q' # rs @ bs"
    by (rule send_twice_sends) simp
  have "snd (client_Do tp q s) = (case r of Inl _ \<Rightarrow> s2
      | Inr resp' \<Rightarrow> (case tp_redirect tp q' resp' of None \<Rightarrow> s2 | Some q'' \<Rightarrow> snd (follow 8 tp q'' s2)))"
    by (simp add: client_Do_def eval_nat_numeral assms(1,2) r split: sum.splits option.splits prod.splits)
  then obtain tail where "wr_sent (snd (client_Do tp q s)) = wr_sent s2 @ tail"
    using follow_within [of 8 s2 tp] by (fastforce simp: sends_within_def split: sum.splits option.splits)
  moreover have "length (wr_sent (snd (client_Do tp q s))) \<le> length (wr_sent s) + 40"
    using client_Do_within [of s tp q] by (auto simp: sends_within_def)
  ultimately show ?thesis using s2 by simp
qed

definition memory_tp :: "(unit, nat) transport" where
  "memory_tp = \<lparr>tp_rt = (\<lambda>q n. (Inr demo_answer, Suc n)), tp_base = ''https://s'',
                tp_store = \<lparr>ts_load = (\<lambda>d. (Inr some_tokens, d)), ts_save = (\<lambda>t d. (Inr (), d)), ts_delete = (\<lambda>d. (Inr (), d))\<rparr>,
                tp_now = (\<lambda>_. 0), tp_claims = (\<lambda>_. Inl []),
                tp_redirect = (\<lambda>q _. if u_host (hq_url q) = ''s'' then Some (demo_request ''elsewhere'') else None)\<rparr>"

definition memory_wire :: "(unit, nat) wire" where
  "memory_wire = \<lparr>wr_store = (), wr_net = 0, wr_sent = [], wr_out = []\<rparr>"

theorem redirect_carries_bearer_witness:
  "\<exists>rest. wr_sent (snd (client_Do memory_tp (demo_request ''s'') memory_wire)) =
     [with_bearer (tk_access some_tokens) (demo_request ''s'')] @ with_bearer (tk_access some_tokens) (demo_request ''elsewhere'') # rest"
proof -
  have rt: "RoundTrip memory_tp (demo_request ''s'') memory_wire =
      (Inr demo_answer, \<lparr>wr_store = (), wr_net = 1, wr_sent = [with_bearer (tk_access some_tokens) (demo_request ''s'')],
                          wr_out = []\<rparr>)"
    using demo_path [of "''s''"]
    by (simp add: RoundTrip_def on_store_def memory_tp_def memory_wire_def isExpired_def tokenExpiry_def parseAccessClaims_def
        some_tokens_def send_twice_def send_def base_trip_def demo_answer_def)
  show ?thesis
    using redirect_carries_bearer [OF rt _ demo_path, of "''elsewhere''" some_tokens "()"]
    by (auto simp: memory_tp_def demo_request_def demo_url_def isExpired_def tokenExpiry_def parseAccessClaims_def some_tokens_def)
qed

end
