(* ===== verification/MediaType.thy ===== *)
theory MediaType
  imports Urls
begin

text \<open>
  \<^verbatim>\<open>mime.ParseMediaType\<close> of the standard library, by which the client reads the name of a download
  (\<^verbatim>\<open>internal/dfmsclient/files.go\<close>, \<^verbatim>\<open>filenameFromDisposition\<close>) and the gateway that of an uploaded part.
\<close>

section \<open>White space\<close>

definition bytes_str :: "nat list \<Rightarrow> string" where
  "bytes_str = map char_of"

text \<open>How many bytes of white space (\<^verbatim>\<open>unicode.IsSpace\<close>, in UTF-8) the text begins with.\<close>

definition space_len :: "string \<Rightarrow> nat" where
  "space_len s =
     (if s = [] then 0
      else if is_space (hd s) then 1
      else if take 2 s \<in> set (map bytes_str [[0xC2, 0x85], [0xC2, 0xA0]]) then 2
      else if take 3 s \<in> set (map bytes_str ([[0xE1, 0x9A, 0x80], [0xE2, 0x81, 0x9F], [0xE3, 0x80, 0x80],
                [0xE2, 0x80, 0xA8], [0xE2, 0x80, 0xA9], [0xE2, 0x80, 0xAF]] @ map (\<lambda>k. [0xE2, 0x80, 0x80 + k]) [0..<11])) then 3
      else 0)"

function trim_left_space :: "string \<Rightarrow> string" where
  "trim_left_space s = (if space_len s = 0 then s else trim_left_space (drop (space_len s) s))"
  by pat_completeness auto

termination
  by (relation "measure length") (auto simp: space_len_def split: if_splits)

declare trim_left_space.simps [simp del]

lemma trim_left_ascii:
  "trim_left_space [] = []"
  "is_space c \<Longrightarrow> trim_left_space (c # s) = trim_left_space s"
  "\<not> is_space c \<Longrightarrow> code_of c < 128 \<Longrightarrow> trim_left_space (c # s) = c # s"
proof -
  show "trim_left_space [] = []" by (simp add: trim_left_space.simps [of "[]"] space_len_def)
  show "is_space c \<Longrightarrow> trim_left_space (c # s) = trim_left_space s"
    by (simp add: trim_left_space.simps [of "c # s"] space_len_def)
  assume c: "\<not> is_space c" "code_of c < 128"
  have "c \<noteq> char_of n" if "128 \<le> n" "n < 256" for n :: nat
    using that c(2) by (auto simp: mod_less)
  then have "c \<noteq> char_of (194::nat)" "c \<noteq> char_of (225::nat)" "c \<noteq> char_of (226::nat)" "c \<noteq> char_of (227::nat)" by simp_all
  then have "space_len (c # s) = 0" using c(1) by (auto simp: space_len_def bytes_str_def)
  then show "trim_left_space (c # s) = c # s" by (simp add: trim_left_space.simps [of "c # s"])
qed

section \<open>Tokens and values\<close>

definition isTSpecial :: "char \<Rightarrow> bool" where
  "isTSpecial c \<longleftrightarrow> c \<in> set ''()<>@,;:/[]?='' \<or> c = quote_char \<or> c = backslash"

definition isTokenChar :: "char \<Rightarrow> bool" where
  "isTokenChar c \<longleftrightarrow> 32 < code_of c \<and> code_of c < 127 \<and> \<not> isTSpecial c"

definition consumeToken :: "string \<Rightarrow> string \<times> string" where
  "consumeToken v = (takeWhile isTokenChar v, dropWhile isTokenChar v)"

text \<open>
  A quoted string after its opening quote: what it stands for and the rest, \<open>None\<close> without a closing
  quote.  A backslash escapes only a special character.
\<close>

fun quoted :: "string \<Rightarrow> (string \<times> string) option" where
  "quoted [] = None"
| "quoted (c # s) =
     (if c = quote_char then Some ([], s)
      else if c = backslash \<and> s \<noteq> [] \<and> isTSpecial (hd s) then map_option (apfst ((#) (hd s))) (quoted (tl s))
      else if code_of c = 13 \<or> code_of c = 10 then None
      else map_option (apfst ((#) c)) (quoted s))"

definition consumeValue :: "string \<Rightarrow> string \<times> string" where
  "consumeValue v =
     (if v = [] then ([], [])
      else if hd v \<noteq> quote_char then consumeToken v
      else case quoted (tl v) of None \<Rightarrow> ([], v) | Some r \<Rightarrow> r)"

text \<open>\<^verbatim>\<open>consumeMediaParam\<close>: \<open>None\<close> is the empty key.\<close>

definition consumeMediaParam :: "string \<Rightarrow> ((string \<times> string) \<times> string) option" where
  "consumeMediaParam v =
     (let r0 = trim_left_space v in
      if \<not> has_prefix r0 '';'' then None
      else let (param, r1) = consumeToken (trim_left_space (tl r0)); r2 = trim_left_space r1 in
           if param = [] \<or> \<not> has_prefix r2 ''='' then None
           else let r3 = trim_left_space (tl r2); (v', r4) = consumeValue r3 in
                if v' = [] \<and> r4 = r3 then None else Some ((to_lower param, v'), r4))"

lemma dropWhile_length: "length (dropWhile P s) \<le> length s"
  by (induction s) simp_all

lemma trim_left_length: "length (trim_left_space s) \<le> length s"
proof (induction s rule: trim_left_space.induct)
  case (1 s)
  then show ?case
    by (cases "space_len s = 0") (auto simp: trim_left_space.simps [of s])
qed

lemma quoted_length: "quoted s = Some (v, r) \<Longrightarrow> length r < length s"
proof (induction s arbitrary: v r rule: quoted.induct)
  case (2 c s)
  then show ?case
    by (cases s) (fastforce split: if_splits)+
qed simp

lemma consumeValue_length: "consumeValue s = (v, r) \<Longrightarrow> length r \<le> length s"
  by (cases s) (auto simp: consumeValue_def consumeToken_def dropWhile_length dest!: quoted_length
      split: if_splits option.splits intro: order.trans [OF dropWhile_length])

lemma consumeMediaParam_length: "consumeMediaParam v = Some (kv, r) \<Longrightarrow> length r < length v"
proof -
  assume a: "consumeMediaParam v = Some (kv, r)"
  let ?r0 = "trim_left_space v"
  let ?t = "trim_left_space (tl ?r0)"
  let ?r2 = "trim_left_space (dropWhile isTokenChar ?t)"
  obtain v' where c: "has_prefix ?r0 '';''" "consumeValue (trim_left_space (tl ?r2)) = (v', r)"
    using a by (auto simp: consumeMediaParam_def consumeToken_def Let_def split: if_splits prod.splits)
  have "?r0 \<noteq> []" using c(1) by (auto simp: has_prefix_iff)
  then have "length ?t < length ?r0" using trim_left_length [of "tl ?r0"] by (cases ?r0) auto
  moreover have "length ?r2 \<le> length ?t"
    using trim_left_length dropWhile_length order.trans by blast
  moreover have "length r \<le> length ?r2"
    using consumeValue_length [OF c(2)] trim_left_length [of "tl ?r2"] by (cases ?r2) auto
  ultimately show "length r < length v" using trim_left_length [of v] by simp
qed

section \<open>Parameters\<close>

text \<open>The parameters as they stand, in order.\<close>

function raw_params :: "string \<Rightarrow> (string \<times> string) list \<Rightarrow> (string \<times> string) list result" where
  "raw_params v ps =
     (if trim_left_space v = [] then Inr ps
      else case consumeMediaParam (trim_left_space v) of
             None \<Rightarrow> if trim_space (trim_left_space v) = '';'' then Inr ps else Inl ''mime: invalid media parameter''
           | Some (kv, rest) \<Rightarrow>
               (case map_of ps (fst kv) of
                  Some old \<Rightarrow> if old \<noteq> snd kv then Inl ''mime: duplicate parameter name'' else raw_params rest ps
                | None \<Rightarrow> raw_params rest (ps @ [kv])))"
  by pat_completeness auto

termination
  by (relation "measure (\<lambda>(v, _). length v)")
    (auto dest!: consumeMediaParam_length intro: less_le_trans [OF _ trim_left_length])

declare raw_params.simps [simp del]

definition decode2231Enc :: "string \<Rightarrow> string option" where
  "decode2231Enc v =
     (let tick = CHR 0x27; charset = to_lower (until tick v); r = beyond tick v in
      if tick \<notin> set v \<or> tick \<notin> set r then None
      else if charset \<noteq> ''us-ascii'' \<and> charset \<noteq> ''utf-8'' then None
      else percent_decode False (beyond tick r))"

text \<open>
  The pieces \<open>key*0\<close>, \<open>key*1\<close>, \dots, each plain or encoded; the list of parameters bounds their number.
\<close>

fun pieces :: "nat \<Rightarrow> (string \<times> string) list \<Rightarrow> string \<Rightarrow> nat \<Rightarrow> string list" where
  "pieces 0 ps key n = []"
| "pieces (Suc k) ps key n =
     (let simple = key @ ''*'' @ nat_digits n in
      case map_of ps simple of
        Some v \<Rightarrow> v # pieces k ps key (Suc n)
      | None \<Rightarrow>
          (case map_of ps (simple @ ''*'') of
             None \<Rightarrow> []
           | Some v \<Rightarrow>
               (case (if n = 0 then decode2231Enc v else percent_decode False v) of None \<Rightarrow> [] | Some d \<Rightarrow> d) #
               pieces k ps key (Suc n)))"

text \<open>What the continuations of a name give; \<open>None\<close> leaves the plain parameter.\<close>

definition stitched :: "(string \<times> string) list \<Rightarrow> string \<Rightarrow> string option" where
  "stitched ps key =
     (case map_of ps (key @ ''*'') of
        Some v \<Rightarrow> decode2231Enc v
      | None \<Rightarrow> (case pieces (Suc (length ps)) ps key 0 of [] \<Rightarrow> None | ds \<Rightarrow> Some (concat ds)))"

text \<open>The parameters: those with a star are in the continuations, not under their own name.\<close>

definition media_params :: "(string \<times> string) list \<Rightarrow> string \<Rightarrow> string option" where
  "media_params ps key =
     (case stitched ps key of
        Some v \<Rightarrow> Some v
      | None \<Rightarrow> if CHR ''*'' \<in> set key then None else map_of ps key)"

definition checkMediaTypeDisposition :: "string \<Rightarrow> go_error option" where
  "checkMediaTypeDisposition s =
     (let (typ, rest) = consumeToken s; (subtype, end') = consumeToken (tl rest) in
      if typ = [] then Some ''mime: no media type''
      else if rest = [] then None
      else if \<not> has_prefix rest ''/'' then Some ''mime: expected slash after first token''
      else if subtype = [] then Some ''mime: expected token after slash''
      else if end' \<noteq> [] then Some ''mime: unexpected content after media subtype''
      else None)"

definition ParseMediaType :: "string \<Rightarrow> (string \<times> (string \<Rightarrow> string option)) result" where
  "ParseMediaType v =
     (let base = until CHR '';'' v; mediatype = trim_space (trim_left_space (to_lower base)) in
      case checkMediaTypeDisposition mediatype of
        Some err \<Rightarrow> Inl err
      | None \<Rightarrow>
          (case raw_params (drop (length base) v) [] of
             Inl err \<Rightarrow> Inl err
           | Inr ps \<Rightarrow> Inr (mediatype, media_params ps)))"

definition param_of :: "string \<Rightarrow> string \<Rightarrow> string" where
  "param_of v name =
     (case ParseMediaType v of
        Inl _ \<Rightarrow> []
      | Inr (_, ps) \<Rightarrow> (case ps name of None \<Rightarrow> [] | Some s \<Rightarrow> s))"

section \<open>A quoted parameter\<close>

definition quotable :: "string \<Rightarrow> bool" where
  "quotable s \<longleftrightarrow> list_all (\<lambda>c. c \<noteq> quote_char \<and> c \<noteq> backslash \<and> code_of c \<noteq> 13 \<and> code_of c \<noteq> 10) s"

lemma quoted_plain: "quotable s \<Longrightarrow> quoted (s @ quote_char # r) = Some (s, r)"
  by (induction s) (auto simp: quotable_def)

text \<open>A value quoted after backslashes have been put before its quotes and backslashes.\<close>

definition escape_quotes :: "string \<Rightarrow> string" where
  "escape_quotes s = concat (map (\<lambda>c. if c = quote_char \<or> c = backslash then [backslash, c] else [c]) s)"

lemma escape_quotes_Cons: "escape_quotes (c # s) = (if c = quote_char \<or> c = backslash then [backslash, c] else [c]) @ escape_quotes s"
  by (simp add: escape_quotes_def)

lemma quoted_escaped:
  "list_all (\<lambda>c. code_of c \<noteq> 13 \<and> code_of c \<noteq> 10) s \<Longrightarrow> quoted (escape_quotes s @ quote_char # r) = Some (s, r)"
proof (induction s)
  case Nil
  then show ?case by (simp add: escape_quotes_def)
next
  case (Cons c s)
  then show ?case
    by (cases "c = quote_char \<or> c = backslash") (auto simp: escape_quotes_Cons isTSpecial_def)
qed

text \<open>The last parameter of a header, quoted.\<close>

lemma consumeMediaParam_quoted:
  assumes "quoted s = Some (v, r)" "k \<noteq> []" "list_all isTokenChar k"
  shows "consumeMediaParam ('';'' @ '' '' @ k @ ''='' @ quote_char # s) = Some ((to_lower k, v), r)"
proof -
  have sp: "\<not> is_space (hd k)" "code_of (hd k) < 128" "k = hd k # tl k"
    using assms(2,3) by (cases k; auto simp: isTokenChar_def is_space_def)+
  have eq: "\<not> isTokenChar CHR ''=''" by (simp add: isTokenChar_def isTSpecial_def)
  have tok: "takeWhile isTokenChar (k @ CHR ''='' # x) = k" "dropWhile isTokenChar (k @ CHR ''='' # x) = CHR ''='' # x" for x
    using assms(3) eq by (auto simp: list_all_iff takeWhile_append2 dropWhile_append2)
  have t1: "trim_left_space (CHR '';'' # x) = CHR '';'' # x" "trim_left_space (CHR ''='' # x) = CHR ''='' # x"
    "trim_left_space (quote_char # x) = quote_char # x" "trim_left_space (CHR '' '' # x) = trim_left_space x" for x
    by (simp_all add: trim_left_ascii is_space_def)
  have t2: "trim_left_space (k @ x) = k @ x" for x
    using trim_left_ascii(3) [OF sp(1,2), of "tl k @ x"] sp(3) by (metis append_Cons)
  have ne: "r \<noteq> quote_char # s" using quoted_length [OF assms(1)] by auto
  show ?thesis
    using assms(1,2) ne
    by (simp add: consumeMediaParam_def t1 t2 consumeToken_def tok consumeValue_def Let_def has_prefix_def)
qed


lemma raw_params_end: "raw_params [] ps = Inr ps"
  by (simp add: raw_params.simps [of "[]"] trim_left_ascii)

lemma raw_params_quoted:
  assumes "quoted s = Some (v, r)" "k \<noteq> []" "list_all isTokenChar k" "map_of ps (to_lower k) = None"
  shows "raw_params ('';'' @ '' '' @ k @ ''='' @ quote_char # s) ps = raw_params r (ps @ [(to_lower k, v)])"
proof -
  let ?v = "'';'' @ '' '' @ k @ ''='' @ quote_char # s"
  have t: "trim_left_space ?v = ?v" by (simp add: trim_left_ascii is_space_def)
  show ?thesis
    using assms(4) by (subst raw_params.simps) (simp add: t [simplified] consumeMediaParam_quoted [OF assms(1-3), simplified])
qed

lemma stitched_plain:
  "list_all (\<lambda>kv. CHR ''*'' \<notin> set (fst kv)) ps \<Longrightarrow> stitched ps key = None"
proof -
  assume ps: "list_all (\<lambda>kv. CHR ''*'' \<notin> set (fst kv)) ps"
  have "map_of ps k = None" if "CHR ''*'' \<in> set k" for k
    using ps that by (auto simp: map_of_eq_None_iff list_all_iff)
  then show ?thesis by (simp add: stitched_def)
qed

lemma token_chars:
  "list_all isTokenChar ''filename''" "list_all isTokenChar ''name''"
  "list_all isTokenChar ''attachment''" "list_all isTokenChar ''form-data''"
  by (simp_all add: isTokenChar_def isTSpecial_def)

lemma lower_names:
  "to_lower ''filename'' = ''filename''" "to_lower ''name'' = ''name''"
  "to_lower ''attachment'' = ''attachment''" "to_lower ''form-data'' = ''form-data''"
  by code_simp+

lemma all_token: "list_all isTokenChar s \<Longrightarrow> takeWhile isTokenChar s = s \<and> dropWhile isTokenChar s = []"
  by (simp add: list_all_iff)

lemmas tokens_of_names = token_chars lower_names
  all_token [OF token_chars(3)] all_token [OF token_chars(4)]

lemma dispositions_ok:
  "trim_space (trim_left_space ''attachment'') = ''attachment''" "trim_space (trim_left_space ''form-data'') = ''form-data''"
  "checkMediaTypeDisposition ''attachment'' = None" "checkMediaTypeDisposition ''form-data'' = None"
  by (simp_all add: trim_left_ascii is_space_def trim_space_def checkMediaTypeDisposition_def consumeToken_def
      all_token [OF token_chars(3), simplified] all_token [OF token_chars(4), simplified] isTokenChar_def isTSpecial_def)

lemma param_attachment:
  assumes "quoted s = Some (v, [])"
  shows "param_of (''attachment; filename='' @ quote_char # s) ''filename'' = v"
proof -
  have u: "until CHR '';'' (''attachment; filename='' @ x) = ''attachment''" for x by (simp add: until_def)
  have r: "raw_params (drop 10 (''attachment; filename='' @ quote_char # s)) [] = Inr [(''filename'', v)]"
    using raw_params_quoted [OF assms _ token_chars(1), of "[]"] by (simp add: raw_params_end tokens_of_names)
  have st: "stitched [(''filename'', v)] ''filename'' = None" by (rule stitched_plain) simp
  show ?thesis
    unfolding param_of_def ParseMediaType_def Let_def u
    using r st by (simp add: tokens_of_names dispositions_ok media_params_def)
qed

lemma param_form_data:
  assumes "quoted s = Some (v, [])"
  shows "param_of (''form-data; name='' @ [quote_char] @ ''file'' @ [quote_char] @ ''; filename='' @ quote_char # s) ''filename'' = v"
    and "param_of (''form-data; name='' @ [quote_char] @ ''file'' @ [quote_char] @ ''; filename='' @ quote_char # s) ''name'' = ''file''"
proof -
  let ?h = "''form-data; name='' @ [quote_char] @ ''file'' @ [quote_char] @ ''; filename='' @ quote_char # s"
  have u: "until CHR '';'' ?h = ''form-data''" by (simp add: until_def)
  have q: "quoted (''file'' @ quote_char # r) = Some (''file'', r)" for r by (rule quoted_plain) (simp add: quotable_def)
  have "raw_params (drop 9 ?h) [] = raw_params ('';'' @ '' '' @ ''filename'' @ ''='' @ quote_char # s) [(''name'', ''file'')]"
    using raw_params_quoted [OF q _ token_chars(2), of "[]" "''; filename='' @ quote_char # s"] by (simp add: lower_names)
  also have "\<dots> = Inr [(''name'', ''file''), (''filename'', v)]"
    by (subst raw_params_quoted [OF assms _ token_chars(1)]) (simp_all add: raw_params_end lower_names)
  finally have r: "raw_params (drop 9 ?h) [] = Inr [(''name'', ''file''), (''filename'', v)]" .
  have st: "stitched [(''name'', ''file''), (''filename'', v)] key = None" for key by (rule stitched_plain) simp
  show "param_of ?h ''filename'' = v" "param_of ?h ''name'' = ''file''"
    unfolding param_of_def ParseMediaType_def Let_def u
    using r st by (simp_all add: tokens_of_names dispositions_ok media_params_def)
qed

end
