(* ===== verification/ClientApi.thy ===== *)
theory ClientApi
  imports Transport MediaType
begin

text \<open>
  The endpoints of \<^verbatim>\<open>internal/dfmsclient\<close>: \<^verbatim>\<open>auth.go\<close>, \<^verbatim>\<open>account.go\<close>, \<^verbatim>\<open>files.go\<close>, \<^verbatim>\<open>folders.go\<close>, \<^verbatim>\<open>multipart.go\<close>,
  \<^verbatim>\<open>search.go\<close>, \<^verbatim>\<open>versions.go\<close>.  An endpoint is the request it sends and the type it decodes the answer into;
  results are JSON values of that type.
\<close>

section \<open>Results\<close>

definition UploadResult_type :: jtype where
  "UploadResult_type = TStruct
     [(''id'', TStr), (''name'', TStr), (''size'', TInt), (''mime_type'', TStr), (''checksum'', TStr), (''version'', TInt),
      (''chunk_count'', TInt), (''new_chunks'', TInt), (''dedup_chunks'', TInt), (''created_at'', TTime)]"

definition File_type :: jtype where
  "File_type = TStruct
     [(''id'', TStr), (''user_id'', TStr), (''parent_id'', TOpt TStr), (''name'', TStr), (''is_directory'', TBool),
      (''size'', TInt), (''mime_type'', TOpt TStr), (''checksum'', TOpt TStr), (''version'', TInt), (''status'', TStr),
      (''created_at'', TTime), (''updated_at'', TTime)]"

definition StorageNode_type :: jtype where
  "StorageNode_type = TStruct
     [(''id'', TStr), (''name'', TStr), (''endpoint'', TStr), (''region'', TStr), (''capacity'', TInt), (''used'', TInt),
      (''weight'', TInt), (''status'', TStr), (''last_heartbeat'', TTime), (''created_at'', TTime)]"

text \<open>A page of files, under the name its endpoint gives the list.\<close>

definition page_type :: "string \<Rightarrow> jtype" where
  "page_type name = TStruct
     [(name, TList File_type), (''total'', TInt), (''page'', TInt), (''page_size'', TInt), (''total_pages'', TInt)]"

definition FileList_type :: jtype where "FileList_type = page_type ''files''"

definition FolderContents_type :: jtype where "FolderContents_type = page_type ''contents''"

definition SearchResults_type :: jtype where "SearchResults_type = page_type ''results''"

definition VersionList_type :: jtype where
  "VersionList_type = TStruct [(''file_name'', TStr), (''versions'', TList File_type), (''total'', TInt)]"

definition StorageUsage_type :: jtype where
  "StorageUsage_type = TStruct [(''used'', TInt), (''quota'', TInt), (''available'', TInt), (''used_pct'', TFloat)]"

definition NodeList_type :: jtype where
  "NodeList_type = TStruct [(''nodes'', TList StorageNode_type), (''message'', TStr)]"

definition with_result :: "('a \<Rightarrow> 'b) \<Rightarrow> (cli_error + 'a) \<times> 'x \<Rightarrow> (cli_error + 'b) \<times> 'x" where
  "with_result f r = apfst (map_sum id f) r"

definition no_result :: "(cli_error + 'a) \<times> 'x \<Rightarrow> cli_error option \<times> 'x" where
  "no_result r = apfst (\<lambda>x. case x of Inl err \<Rightarrow> Some err | Inr _ \<Rightarrow> None) r"

type_synonym ('s, 'w) endpoint = "('s, 'w) wire \<Rightarrow> (cli_error + json) \<times> ('s, 'w) wire"
type_synonym ('s, 'w) action = "('s, 'w) wire \<Rightarrow> cli_error option \<times> ('s, 'w) wire"

section \<open>Accounts\<close>

text \<open>The keys of a map are written in order.\<close>

definition Register ::
  "('s, 'w) client \<Rightarrow> string \<Rightarrow> string \<Rightarrow> string \<Rightarrow> ('s, 'w) wire \<Rightarrow> (cli_error + tokens) \<times> ('s, 'w) wire" where
  "Register c email password displayName s =
     with_result toTokens
       (call_json c ''POST'' pathRegister
         (Some (JObj [(''display_name'', JStr displayName), (''email'', JStr email), (''password'', JStr password)]))
         (Some authResponse_type) s)"

definition Login ::
  "('s, 'w) client \<Rightarrow> string \<Rightarrow> string \<Rightarrow> ('s, 'w) wire \<Rightarrow> (cli_error + tokens) \<times> ('s, 'w) wire" where
  "Login c email password s =
     with_result toTokens
       (call_json c ''POST'' pathLogin (Some (JObj [(''email'', JStr email), (''password'', JStr password)]))
         (Some authResponse_type) s)"

record identity =
  id_user :: string
  id_email :: string
  id_role :: string
  id_expires :: "int option"

definition Identify :: "('s, 'w) transport \<Rightarrow> string \<Rightarrow> cli_error + identity" where
  "Identify tp accessToken =
     (case parseAccessClaims tp accessToken of
        Inl err \<Rightarrow> Inl err
      | Inr k \<Rightarrow> Inr \<lparr>id_user = ac_subject k, id_email = ac_email k, id_role = ac_role k, id_expires = ac_expires k\<rparr>)"

definition Expired :: "int \<Rightarrow> identity \<Rightarrow> bool" where
  "Expired now i = (case id_expires i of None \<Rightarrow> False | Some t \<Rightarrow> t < now)"

definition StorageUsage :: "('s, 'w) client \<Rightarrow> ('s, 'w) endpoint" where
  "StorageUsage c s = call_json c ''GET'' (apiPrefix @ ''/storage/usage'') None (Some StorageUsage_type) s"

definition ListNodes :: "('s, 'w) client \<Rightarrow> ('s, 'w) endpoint" where
  "ListNodes c s = call_json c ''GET'' (apiPrefix @ ''/admin/nodes'') None (Some NodeList_type) s"

section \<open>Files\<close>

abbreviation "pathUpload \<equiv> apiPrefix @ ''/files/upload''"
abbreviation "pathFiles \<equiv> apiPrefix @ ''/files''"

definition filePath :: "string \<Rightarrow> string" where
  "filePath fid = pathFiles @ ''/'' @ PathEscape fid"

definition downloadPath :: "string \<Rightarrow> string" where
  "downloadPath fid = filePath fid @ ''/download''"

definition paging :: "int \<Rightarrow> int \<Rightarrow> string" where
  "paging page pageSize = Encode [(''page'', itoa page), (''page_size'', itoa pageSize)]"

text \<open>\<open>mt\<close> is \<^verbatim>\<open>mime.TypeByExtension\<close>, which reads the tables of the operating system.\<close>

definition contentTypeForName :: "(string \<Rightarrow> string) \<Rightarrow> string \<Rightarrow> string" where
  "contentTypeForName mt name =
     (if mt (path_ext name) \<noteq> [] then mt (path_ext name) else ''application/octet-stream'')"

abbreviation "crlf \<equiv> [char_of (13::nat), char_of (10::nat)]"

definition part_disposition :: "string \<Rightarrow> string" where
  "part_disposition filename =
     ''form-data; name='' @ [quote_char] @ ''file'' @ [quote_char] @ ''; filename='' @ go_quote (escape_quotes filename)"

text \<open>The body \<^verbatim>\<open>mime/multipart\<close> writes into the pipe; \<open>boundary\<close> is the random boundary it draws.\<close>

definition part_head :: "string \<Rightarrow> string \<Rightarrow> string \<Rightarrow> string" where
  "part_head boundary disposition ctype =
     ''--'' @ boundary @ crlf @ ''Content-Disposition: '' @ disposition @ crlf @ ''Content-Type: '' @ ctype @ crlf @ crlf"

definition upload_body :: "(string \<Rightarrow> string) \<Rightarrow> string \<Rightarrow> string \<Rightarrow> reader \<Rightarrow> reader" where
  "upload_body mt boundary filename r =
     multi_reader
       [reader_of (to_bytes (part_head boundary (part_disposition filename) (contentTypeForName mt filename))),
        r, reader_of (to_bytes (crlf @ ''--'' @ boundary @ ''--'' @ crlf))]"

definition upload_request ::
  "('s, 'w) client \<Rightarrow> (string \<Rightarrow> string) \<Rightarrow> string \<Rightarrow> string \<Rightarrow> reader \<Rightarrow> cli_error + hreq" where
  "upload_request c mt boundary name r =
     (case NewRequest ''POST'' (cl_base c @ pathUpload) (StreamBody (upload_body mt boundary (path_base name) r)) of
        Inl err \<Rightarrow> Inl (Wrapped ''building upload request'' (Plain err))
      | Inr q \<Rightarrow>
          Inr (with_header ''User-Agent'' (cl_agent c) (with_header ''Accept'' ''application/json''
            (with_header ''Content-Type'' (''multipart/form-data; boundary='' @ boundary) q))))"

definition UploadFile ::
  "('s, 'w) client \<Rightarrow> (string \<Rightarrow> string) \<Rightarrow> string \<Rightarrow> string \<Rightarrow> reader \<Rightarrow> ('s, 'w) endpoint" where
  "UploadFile c mt boundary name r s =
     (case upload_request c mt boundary name r of
        Inl err \<Rightarrow> (Inl err, s)
      | Inr q \<Rightarrow> with_result (\<lambda>j. jget j ''file'') (doJSON c q (Some (TStruct [(''file'', UploadResult_type)])) s))"

definition ListFiles :: "('s, 'w) client \<Rightarrow> int \<Rightarrow> int \<Rightarrow> ('s, 'w) endpoint" where
  "ListFiles c page pageSize s =
     call_json c ''GET'' (pathFiles @ ''?'' @ paging page pageSize) None (Some FileList_type) s"

definition GetFile :: "('s, 'w) client \<Rightarrow> string \<Rightarrow> ('s, 'w) endpoint" where
  "GetFile c fid s =
     with_result (\<lambda>j. jget j ''file'')
       (call_json c ''GET'' (filePath fid) None (Some (TStruct [(''file'', File_type)])) s)"

definition DeleteFile :: "('s, 'w) client \<Rightarrow> string \<Rightarrow> ('s, 'w) action" where
  "DeleteFile c fid s = no_result (call_json c ''DELETE'' (filePath fid) None None s)"

subsection \<open>Downloads\<close>

record download_info =
  di_filename :: string
  di_size :: int
  di_type :: string

definition filenameFromDisposition :: "string \<Rightarrow> string" where
  "filenameFromDisposition value = (if value = [] then [] else param_of value ''filename'')"

text \<open>
  \<open>put\<close> is the writer: \<^verbatim>\<open>io.Copy\<close> hands it the body as it arrives, all of it before the error that breaks
  the body off.
\<close>

definition streamDownload ::
  "('s, 'w) client \<Rightarrow> string \<Rightarrow> (string \<Rightarrow> ('s, 'w) wire \<Rightarrow> unit result \<times> ('s, 'w) wire) \<Rightarrow> ('s, 'w) wire \<Rightarrow>
   (cli_error + download_info) \<times> ('s, 'w) wire" where
  "streamDownload c path put s =
     (case NewRequest ''GET'' (cl_base c @ path) (MemBody []) of
        Inl err \<Rightarrow> (Inl (Wrapped ''building download request'' (Plain err)), s)
      | Inr q \<Rightarrow>
          (case client_Do (cl_http c) (with_header ''User-Agent'' (cl_agent c) q) s of
             (Inl err, s1) \<Rightarrow> (Inl (classifyError err), s1)
           | (Inr resp, s1) \<Rightarrow>
               if \<not> resp_ok resp then (Inl (parseError resp), s1)
               else (case put (hp_body resp) s1 of
                       (Inl err, s2) \<Rightarrow> (Inl (Wrapped ''streaming download'' (Plain err)), s2)
                     | (Inr _, s2) \<Rightarrow>
                         (case hp_break resp of
                            Some err \<Rightarrow> (Inl (Wrapped ''streaming download'' (Plain err)), s2)
                          | None \<Rightarrow>
                              (Inr \<lparr>di_filename = filenameFromDisposition (resp_header resp ''Content-Disposition''),
                                    di_size = (if hp_length resp < 0 then int (length (hp_body resp)) else hp_length resp),
                                    di_type = resp_header resp ''Content-Type''\<rparr>, s2)))))"

definition DownloadFile ::
  "('s, 'w) client \<Rightarrow> string \<Rightarrow> (string \<Rightarrow> ('s, 'w) wire \<Rightarrow> unit result \<times> ('s, 'w) wire) \<Rightarrow> ('s, 'w) wire \<Rightarrow>
   (cli_error + download_info) \<times> ('s, 'w) wire" where
  "DownloadFile c fid put s = streamDownload c (downloadPath fid) put s"

section \<open>Folders\<close>

abbreviation "pathFolders \<equiv> apiPrefix @ ''/folders''"

definition folderPath :: "string \<Rightarrow> string" where
  "folderPath fid = pathFolders @ ''/'' @ PathEscape fid"

definition folderContentsPath :: "string \<Rightarrow> string" where
  "folderContentsPath fid = folderPath fid @ ''/contents''"

definition moveFilePath :: "string \<Rightarrow> string" where
  "moveFilePath fid = filePath fid @ ''/move''"

definition opt_json :: "string option \<Rightarrow> json" where
  "opt_json x = (case x of None \<Rightarrow> JNull | Some s \<Rightarrow> JStr s)"

definition CreateFolder :: "('s, 'w) client \<Rightarrow> string \<Rightarrow> string option \<Rightarrow> ('s, 'w) endpoint" where
  "CreateFolder c name parentID s =
     call_json c ''POST'' pathFolders (Some (JObj [(''name'', JStr name), (''parent_id'', opt_json parentID)])) (Some File_type) s"

definition FolderContents :: "('s, 'w) client \<Rightarrow> string \<Rightarrow> int \<Rightarrow> int \<Rightarrow> ('s, 'w) endpoint" where
  "FolderContents c fid page pageSize s =
     call_json c ''GET'' (folderContentsPath fid @ ''?'' @ paging page pageSize) None (Some FolderContents_type) s"

definition MoveFile :: "('s, 'w) client \<Rightarrow> string \<Rightarrow> string option \<Rightarrow> ('s, 'w) action" where
  "MoveFile c fid newParentID s =
     no_result (call_json c ''PUT'' (moveFilePath fid) (Some (JObj [(''new_parent_id'', opt_json newParentID)])) None s)"

definition DeleteFolder :: "('s, 'w) client \<Rightarrow> string \<Rightarrow> ('s, 'w) action" where
  "DeleteFolder c fid s = no_result (call_json c ''DELETE'' (folderPath fid @ ''?confirm=true'') None None s)"

section \<open>Versions\<close>

definition versionsPath :: "string \<Rightarrow> string" where
  "versionsPath fid = filePath fid @ ''/versions''"

definition versionPath :: "string \<Rightarrow> int \<Rightarrow> string" where
  "versionPath fid version = versionsPath fid @ ''/'' @ itoa version"

definition versionDownloadPath :: "string \<Rightarrow> int \<Rightarrow> string" where
  "versionDownloadPath fid version = versionPath fid version @ ''/download''"

definition ListVersions :: "('s, 'w) client \<Rightarrow> string \<Rightarrow> ('s, 'w) endpoint" where
  "ListVersions c fid s = call_json c ''GET'' (versionsPath fid) None (Some VersionList_type) s"

definition DownloadVersion ::
  "('s, 'w) client \<Rightarrow> string \<Rightarrow> int \<Rightarrow> (string \<Rightarrow> ('s, 'w) wire \<Rightarrow> unit result \<times> ('s, 'w) wire) \<Rightarrow> ('s, 'w) wire \<Rightarrow>
   (cli_error + download_info) \<times> ('s, 'w) wire" where
  "DownloadVersion c fid version put s = streamDownload c (versionDownloadPath fid version) put s"

definition DeleteVersion :: "('s, 'w) client \<Rightarrow> string \<Rightarrow> int \<Rightarrow> ('s, 'w) action" where
  "DeleteVersion c fid version s = no_result (call_json c ''DELETE'' (versionPath fid version) None None s)"

section \<open>Search\<close>

text \<open>\<open>so_after\<close> and \<open>so_before\<close> are the RFC 3339 texts of the times.\<close>

record search_options =
  so_query :: string
  so_mime :: string
  so_min :: "int option"
  so_max :: "int option"
  so_after :: "string option"
  so_before :: "string option"
  so_page :: int
  so_page_size :: int

definition opt_pair :: "string \<Rightarrow> string option \<Rightarrow> (string \<times> string) list" where
  "opt_pair k x = (case x of None \<Rightarrow> [] | Some v \<Rightarrow> [(k, v)])"

definition search_values :: "search_options \<Rightarrow> (string \<times> string) list" where
  "search_values so =
     [(''q'', so_query so)] @
     (if so_mime so \<noteq> [] then [(''type'', so_mime so)] else []) @
     opt_pair ''min_size'' (map_option itoa (so_min so)) @
     opt_pair ''max_size'' (map_option itoa (so_max so)) @
     opt_pair ''after'' (so_after so) @
     opt_pair ''before'' (so_before so) @
     (if 0 < so_page so then [(''page'', itoa (so_page so))] else []) @
     (if 0 < so_page_size so then [(''page_size'', itoa (so_page_size so))] else [])"

abbreviation "pathSearch \<equiv> apiPrefix @ ''/search''"

definition Search :: "('s, 'w) client \<Rightarrow> search_options \<Rightarrow> ('s, 'w) endpoint" where
  "Search c so s = call_json c ''GET'' (pathSearch @ ''?'' @ Encode (search_values so)) None (Some SearchResults_type) s"

section \<open>Multipart uploads\<close>

abbreviation "pathMultipart \<equiv> apiPrefix @ ''/files/upload/multipart/''"

definition DefaultPartSize :: int where
  "DefaultPartSize = 16 * 2 ^ 20"

definition multipartPartPath :: "string \<Rightarrow> nat \<Rightarrow> string" where
  "multipartPartPath uploadID partNum = pathMultipart @ PathEscape uploadID @ ''/part/'' @ itoa (int partNum)"

definition multipartCompletePath :: "string \<Rightarrow> string" where
  "multipartCompletePath uploadID = pathMultipart @ PathEscape uploadID @ ''/complete''"

definition multipartAbortPath :: "string \<Rightarrow> string" where
  "multipartAbortPath uploadID = pathMultipart @ PathEscape uploadID"

definition initMultipart ::
  "('s, 'w) client \<Rightarrow> string \<Rightarrow> string \<Rightarrow> ('s, 'w) wire \<Rightarrow> (cli_error + string) \<times> ('s, 'w) wire" where
  "initMultipart c name mimeType s =
     (case call_json c ''POST'' (pathMultipart @ ''init'')
             (Some (JObj [(''file_name'', JStr (path_base name)), (''mime_type'', JStr mimeType)]))
             (Some (TStruct [(''upload_id'', TStr)])) s of
        (Inl err, s1) \<Rightarrow> (Inl err, s1)
      | (Inr j, s1) \<Rightarrow>
          if jstr (jget j ''upload_id'') = [] then (Inl (Plain ''server did not return an upload id''), s1)
          else (Inr (jstr (jget j ''upload_id'')), s1))"

definition uploadPart :: "('s, 'w) client \<Rightarrow> string \<Rightarrow> nat \<Rightarrow> byte list \<Rightarrow> ('s, 'w) action" where
  "uploadPart c uploadID partNum data s =
     (case NewRequest ''PUT'' (cl_base c @ multipartPartPath uploadID partNum) (MemBody (of_bytes data)) of
        Inl err \<Rightarrow> (Some (Wrapped ''building part request'' (Plain err)), s)
      | Inr q \<Rightarrow>
          no_result (doJSON c
            (with_header ''User-Agent'' (cl_agent c) (with_header ''Accept'' ''application/json''
              (with_header ''Content-Type'' ''application/octet-stream'' q))) None s))"

definition completeMultipart :: "('s, 'w) client \<Rightarrow> string \<Rightarrow> ('s, 'w) endpoint" where
  "completeMultipart c uploadID s = call_json c ''POST'' (multipartCompletePath uploadID) None (Some UploadResult_type) s"

definition abortMultipart :: "('s, 'w) client \<Rightarrow> string \<Rightarrow> ('s, 'w) action" where
  "abortMultipart c uploadID s = no_result (call_json c ''DELETE'' (multipartAbortPath uploadID) None None s)"

text \<open>The buffer has \<open>Suc m\<close> bytes: a part size is positive.\<close>

function uploadParts :: "('s, 'w) client \<Rightarrow> string \<Rightarrow> nat \<Rightarrow> reader \<Rightarrow> nat \<Rightarrow> ('s, 'w) action" where
  "uploadParts c uploadID m r partNum s =
     (case read_full (Suc m) r of
        (bs, st, r1) \<Rightarrow>
          (case (if bs = [] then (None, s) else uploadPart c uploadID partNum bs s) of
             (Some err, s1) \<Rightarrow> (Some err, s1)
           | (None, s1) \<Rightarrow>
               (case st of
                  FullOk \<Rightarrow> uploadParts c uploadID m r1 (Suc partNum) s1
                | FullEOF \<Rightarrow> (None, s1)
                | FullUnexpectedEOF \<Rightarrow> (None, s1)
                | FullErr err \<Rightarrow> (Some (Wrapped ''reading upload data'' (Plain err)), s1))))"
  by pat_completeness auto

termination
  by (relation "measure (\<lambda>(_, _, _, r, _, _). length (rd_content r))")
    (auto simp: read_full_def rd_content_def Let_def split: if_splits option.splits)

declare uploadParts.simps [simp del]

definition UploadInParts ::
  "('s, 'w) client \<Rightarrow> (string \<Rightarrow> string) \<Rightarrow> string \<Rightarrow> reader \<Rightarrow> int \<Rightarrow> ('s, 'w) endpoint" where
  "UploadInParts c mt name r partSize s =
     (let size' = (if partSize \<le> 0 then DefaultPartSize else partSize) in
      case initMultipart c name (contentTypeForName mt name) s of
        (Inl err, s1) \<Rightarrow> (Inl err, s1)
      | (Inr uploadID, s1) \<Rightarrow>
          (case uploadParts c uploadID (nat (size' - 1)) r 1 s1 of
             (Some err, s2) \<Rightarrow> (Inl err, snd (abortMultipart c uploadID s2))
           | (None, s2) \<Rightarrow>
               (case completeMultipart c uploadID s2 of
                  (Inl err, s3) \<Rightarrow> (Inl err, snd (abortMultipart c uploadID s3))
                | (Inr result, s3) \<Rightarrow> (Inr result, s3))))"


section \<open>The parts of an upload\<close>

text \<open>The content cut into pieces of \<open>Suc m\<close> bytes, and the pieces sent one after the other until one fails.\<close>

function chop :: "nat \<Rightarrow> 'a list \<Rightarrow> 'a list list" where
  "chop m xs = (if xs = [] then [] else take (Suc m) xs # chop m (drop (Suc m) xs))"
  by pat_completeness auto

termination
  by (relation "measure (\<lambda>(m, xs). length xs)") auto

declare chop.simps [simp del]

lemma chop_facts:
  "concat (chop m xs) = xs \<and> list_all (\<lambda>p. 0 < length p \<and> length p \<le> Suc m) (chop m xs) \<and>
   list_all (\<lambda>p. length p = Suc m) (butlast (chop m xs))"
proof (induction m xs rule: chop.induct)
  case (1 m xs)
  show ?case
  proof (cases "xs = []")
    case True
    then show ?thesis by (simp add: chop.simps [of m "[]"])
  next
    case False
    have c: "chop m xs = take (Suc m) xs # chop m (drop (Suc m) xs)" using False by (simp add: chop.simps [of m xs])
    have e: "chop m (drop (Suc m) xs) = [] \<longleftrightarrow> length xs \<le> Suc m" by (simp add: chop.simps [of m "drop (Suc m) xs"])
    show ?thesis using 1 [OF False] False e unfolding c by (auto simp: min_def)
  qed
qed

fun put_parts :: "('s, 'w) client \<Rightarrow> string \<Rightarrow> nat \<Rightarrow> byte list list \<Rightarrow> ('s, 'w) action" where
  "put_parts c uploadID k [] s = (None, s)"
| "put_parts c uploadID k (p # ps) s =
     (case uploadPart c uploadID k p s of
        (Some err, s1) \<Rightarrow> (Some err, s1)
      | (None, s1) \<Rightarrow> put_parts c uploadID (Suc k) ps s1)"

definition unread :: "reader \<Rightarrow> cli_error option" where
  "unread r = map_option (\<lambda>err. Wrapped ''reading upload data'' (Plain err)) (rd_err r)"

lemma uploadParts_put:
  "uploadParts c uid m r k s =
     (case put_parts c uid k (chop m (rd_content r)) s of
        (Some err, s1) \<Rightarrow> (Some err, s1)
      | (None, s1) \<Rightarrow> (unread r, s1))"
proof (induction c uid m r k s rule: uploadParts.induct)
  case (1 c uid m r k s)
  let ?d = "rd_content r"
  show ?case
  proof (cases "Suc m \<le> length ?d")
    case True
    obtain r1 where rf: "read_full (Suc m) r = (take (Suc m) ?d, FullOk, r1)"
      and c1: "rd_content r1 = drop (Suc m) ?d" "unread r1 = unread r"
      using True by (simp add: read_full_def Let_def rd_content_def unread_def)
    have d: "take (Suc m) ?d \<noteq> []" "?d \<noteq> []" using True by auto
    have ch: "chop m ?d = take (Suc m) ?d # chop m (drop (Suc m) ?d)" using d(2) by (simp add: chop.simps [of m ?d])
    obtain x s1 where x: "uploadPart c uid k (take (Suc m) ?d) s = (x, s1)" by fastforce
    have IH: "uploadParts c uid m r1 (Suc k) s1 =
        (case put_parts c uid (Suc k) (chop m (rd_content r1)) s1 of (Some err, s1) \<Rightarrow> (Some err, s1) | (None, s1) \<Rightarrow> (unread r1, s1))"
      if "x = None" by (rule 1) (use rf x d that in auto)
    show ?thesis
      using IH d x c1(2) by (auto simp: uploadParts.simps [of c uid m r k s] rf ch c1(1) split: option.splits prod.splits)
  next
    case False
    then have rf: "read_full (Suc m) r = (?d, (case rd_err r of Some err \<Rightarrow> FullErr err
        | None \<Rightarrow> if ?d = [] then FullEOF else FullUnexpectedEOF), r\<lparr>rd_frames := []\<rparr>)"
      by (simp add: read_full_def Let_def)
    have ch: "chop m ?d = (if ?d = [] then [] else [?d])"
      using False by (simp add: chop.simps [of m ?d] chop.simps [of m "[]"])
    show ?thesis
      by (auto simp: uploadParts.simps [of c uid m r k s] rf ch unread_def split: option.splits prod.splits)
  qed
qed

text \<open>
  C31: a large upload is sent as the content cut into pieces of the part size: numbered from one in
  order, each sent only after the one before it was accepted, none empty, all but the last of full
  size, nothing left out; the first failure ends it, and an error of the source is reported after
  everything read before it has been sent.
\<close>

theorem uploadParts_pieces:
  "uploadParts c uid m r 1 s =
     (case put_parts c uid 1 (chop m (rd_content r)) s of
        (Some err, s1) \<Rightarrow> (Some err, s1)
      | (None, s1) \<Rightarrow> (unread r, s1)) \<and>
   concat (chop m (rd_content r)) = rd_content r \<and>
   list_all (\<lambda>p. 0 < length p \<and> length p \<le> Suc m) (chop m (rd_content r)) \<and>
   list_all (\<lambda>p. length p = Suc m) (butlast (chop m (rd_content r)))"
  using chop_facts uploadParts_put by blast

end
