(* ===== verification/CliText.thy ===== *)
theory CliText
  imports ClientApi
begin

text \<open>
  What the commands of \<^verbatim>\<open>dfmsctl\<close> print with: byte counts (\<^verbatim>\<open>formatBytes\<close> of \<^verbatim>\<open>internal/cli/files.go\<close>), styles
  (\<^verbatim>\<open>style.go\<close>) and the presentation of errors (\<^verbatim>\<open>errformat.go\<close>).
\<close>

section \<open>Byte counts\<close>

text \<open>
  \<^verbatim>\<open>float64(n)\<close> keeps 53 bits; dividing by a power of two is exact; \<^verbatim>\<open>%.1f\<close> rounds the exact value to tenths,
  halves to the even one.
\<close>

definition round_even :: "int \<Rightarrow> int \<Rightarrow> int" where
  "round_even a b =
     (let q = a div b; r = a mod b in if 2 * r < b \<or> (2 * r = b \<and> even q) then q else q + 1)"

fun bit_len :: "nat \<Rightarrow> nat" where
  "bit_len n = (if n = 0 then 0 else Suc (bit_len (n div 2)))"

declare bit_len.simps [simp del]

definition float64 :: "int \<Rightarrow> int" where
  "float64 n = (if n < 2 ^ 53 then n else let k = bit_len (nat n) - 53 in round_even n (2 ^ k) * 2 ^ k)"

text \<open>The loop: the divisor and the index of the unit.\<close>

function unit_loop :: "int \<Rightarrow> int \<Rightarrow> nat \<Rightarrow> int \<times> nat" where
  "unit_loop v d e = (if 1024 \<le> v then unit_loop (v div 1024) (d * 1024) (Suc e) else (d, e))"
  by pat_completeness auto

termination
  by (relation "measure (\<lambda>(v, _, _). nat v)") auto

declare unit_loop.simps [simp del]

definition one_decimal :: "int \<Rightarrow> int \<Rightarrow> string" where
  "one_decimal a d = (let t = round_even (10 * a) d in itoa (t div 10) @ ''.'' @ itoa (t mod 10))"

text \<open>An index past the last unit panics: \<open>None\<close>.\<close>

definition format_bytes :: "int \<Rightarrow> string option" where
  "format_bytes n =
     (if n < 1024 then Some (itoa n @ '' B'')
      else let (d, e) = unit_loop (n div 1024) 1024 0 in
           if e < length ''KMGTPE'' then Some (one_decimal (float64 n) d @ '' '' @ [''KMGTPE'' ! e] @ ''iB'') else None)"

definition formatBytes :: "int \<Rightarrow> string" where
  "formatBytes n = (case format_bytes n of Some s \<Rightarrow> s | None \<Rightarrow> [])"

section \<open>Styles\<close>

text \<open>The plain methods are functions of the colour library.\<close>

record styler =
  st_enabled :: bool
  st_bold :: "string \<Rightarrow> string"
  st_faint :: "string \<Rightarrow> string"
  st_red :: "string \<Rightarrow> string"
  st_green :: "string \<Rightarrow> string"
  st_yellow :: "string \<Rightarrow> string"

definition resolveColorPolicy :: "string \<Rightarrow> bool \<Rightarrow> bool \<Rightarrow> bool" where
  "resolveColorPolicy mode noColor terminal =
     (if mode = ''never'' then False
      else if mode = ''always'' then True
      else if noColor then False else terminal)"

abbreviation "escape \<equiv> [char_of (27::nat)]"
abbreviation "tab_escape \<equiv> [char_of (255::nat)]"
abbreviation "tab \<equiv> [char_of (9::nat)]"

definition buildSGR :: "nat list \<Rightarrow> string" where
  "buildSGR attrs = escape @ ''['' @ join_with '';'' (map (\<lambda>a. itoa (int a)) attrs) @ ''m''"

definition sgrReset :: string where
  "sgrReset = escape @ ''[0m''"

definition cell :: "styler \<Rightarrow> string \<Rightarrow> string \<Rightarrow> string" where
  "cell st opening str =
     (if \<not> st_enabled st \<or> str = [] then str
      else tab_escape @ opening @ tab_escape @ str @ tab_escape @ sgrReset @ tab_escape)"

definition HeaderCell :: "styler \<Rightarrow> string \<Rightarrow> string" where "HeaderCell st s = cell st (buildSGR [1, 36]) s"

definition GreenCell :: "styler \<Rightarrow> string \<Rightarrow> string" where "GreenCell st s = cell st (buildSGR [32]) s"

definition YellowCell :: "styler \<Rightarrow> string \<Rightarrow> string" where "YellowCell st s = cell st (buildSGR [33]) s"

definition RedCell :: "styler \<Rightarrow> string \<Rightarrow> string" where "RedCell st s = cell st (buildSGR [31]) s"

section \<open>Presenting errors\<close>

definition apiHint :: "int \<Rightarrow> string \<Rightarrow> string" where
  "apiHint status code =
     (if code = ''QUOTA_EXCEEDED'' then ''free up space or request a higher storage quota.''
      else if code = ''RATE_LIMIT_EXCEEDED'' then ''you are being rate limited; wait a moment and retry.''
      else if has_prefix code ''AUTH_'' \<or> status = 401 \<or> status = 403
      then ''run '' @ [CHR 0x27] @ ''dfmsctl auth login'' @ [CHR 0x27] @ '', or check that your account has access.''
      else [])"

text \<open>The lines on the standard error.\<close>

definition formatError :: "styler \<Rightarrow> cli_error \<Rightarrow> string list" where
  "formatError st err =
     (let label = st_red st (st_bold st ''Error:'') in
      if errors_Is err NoCredentials then
        [label @ '' '' @ error_text err,
         st_faint st (''  hint: run '' @ [CHR 0x27] @ ''dfmsctl auth login'' @ [CHR 0x27] @ '' to authenticate.'')]
      else case errors_As is_api err of
             Some (APIError status code message request) \<Rightarrow>
               (let msg = (if message = [] then ''request failed with status '' @ itoa status else message) in
                [label @ '' '' @ (if code = [] then msg else st_yellow st (''['' @ code @ '']'') @ '' '' @ msg)] @
                (if request = [] then [] else [st_faint st (''  request id: '' @ request)]) @
                (if apiHint status code = [] then [] else [st_faint st (''  hint: '' @ apiHint status code)]))
           | _ \<Rightarrow>
               (case errors_As is_conn err of
                  Some conn \<Rightarrow>
                    [label @ '' '' @ error_text conn,
                     st_faint st ''  hint: check the context URL and that the server is reachable.'']
                | None \<Rightarrow> [label @ '' '' @ error_text err]))"


section \<open>What a byte count prints\<close>

lemma round_even_near: "0 < b \<Longrightarrow> 2 * \<bar>round_even a b * b - a\<bar> \<le> b"
proof -
  assume b: "0 < b"
  have d: "a div b * b = a - a mod b" by (simp add: minus_mod_eq_div_mult)
  have r: "0 \<le> a mod b" "a mod b < b" using b by simp_all
  show ?thesis
  proof (cases "2 * (a mod b) < b \<or> (2 * (a mod b) = b \<and> even (a div b))")
    case True
    then have e: "round_even a b * b - a = - (a mod b)" using d by (simp add: round_even_def Let_def)
    show ?thesis unfolding e using True r by auto
  next
    case False
    then have "round_even a b = a div b + 1" by (simp only: round_even_def Let_def if_False)
    then have e: "round_even a b * b - a = b - a mod b" using d by (simp add: algebra_simps)
    have "b \<le> 2 * (a mod b)" using False by (metis linorder_not_less)
    then show ?thesis unfolding e using r by simp
  qed
qed

lemma bit_len_le: "n < 2 ^ m \<Longrightarrow> bit_len n \<le> m"
proof (induction m arbitrary: n)
  case 0
  then show ?case by (simp add: bit_len.simps [of 0])
next
  case (Suc m)
  show ?case
  proof (cases "n = 0")
    case True
    then show ?thesis by (simp add: bit_len.simps [of 0])
  next
    case False
    have "n div 2 < 2 ^ m" using Suc.prems by (simp add: less_mult_imp_div_less mult.commute)
    then show ?thesis using Suc.IH False by (simp add: bit_len.simps [of n])
  qed
qed

lemma float64_near:
  assumes "0 \<le> n" "n < 2 ^ 63"
  shows "2 * \<bar>float64 n - n\<bar> \<le> (if n < 2 ^ 53 then 0 else 1024)"
proof (cases "n < 2 ^ 53")
  case True
  then show ?thesis by (simp add: float64_def)
next
  case False
  let ?k = "bit_len (nat n) - 53"
  have "nat n < 2 ^ 63" using assms by (simp add: nat_less_iff)
  then have "?k \<le> 10" using bit_len_le [of "nat n" 63] by simp
  then have "(2 :: int) ^ ?k \<le> 2 ^ 10" by (rule power_increasing) simp
  moreover have "float64 n = round_even n (2 ^ ?k) * 2 ^ ?k" using False by (simp add: float64_def Let_def)
  moreover have "2 * \<bar>round_even n (2 ^ ?k) * 2 ^ ?k - n\<bar> \<le> 2 ^ ?k" by (rule round_even_near) simp
  ultimately show ?thesis using False by simp
qed

lemma div_1024: "P \<le> v div 1024 \<longleftrightarrow> 1024 * P \<le> v" "v div 1024 < P \<longleftrightarrow> v < 1024 * P" for v :: int
  using div_mult_mod_eq [of v 1024] pos_mod_bound [of 1024 v] pos_mod_sign [of 1024 v] by auto

lemma unit_loop_spec:
  "1 \<le> v \<Longrightarrow> unit_loop v d e = (d', e') \<Longrightarrow>
   e \<le> e' \<and> d' = d * 1024 ^ (e' - e) \<and> 1024 ^ (e' - e) \<le> v \<and> v < 1024 ^ Suc (e' - e)"
proof (induction v d e rule: unit_loop.induct)
  case (1 v d e)
  show ?case
  proof (cases "1024 \<le> v")
    case True
    have u: "unit_loop (v div 1024) (d * 1024) (Suc e) = (d', e')" using 1(3) True by (simp add: unit_loop.simps [of v])
    have "1 \<le> v div 1024" using True by (simp add: div_1024)
    note IH = 1(1) [OF True this u]
    let ?k = "e' - Suc e"
    have "e' - e = Suc ?k" "e \<le> e'" "d' = d * 1024 * 1024 ^ ?k" using IH by auto
    moreover have "1024 * 1024 ^ ?k \<le> v" "v < 1024 * 1024 ^ Suc ?k" using IH by (simp_all only: div_1024)
    ultimately show ?thesis by (simp add: mult.assoc)
  next
    case False
    then show ?thesis using 1(2,3) by (simp add: unit_loop.simps [of v])
  qed
qed

text \<open>
  A byte count of a kibibyte or more is printed with the unit it reaches, the largest in which it is
  at least one, and a number to one decimal that is off by at most half a tenth of the unit (and, from
  \<open>2 ^ 53\<close> bytes on, what the conversion to a floating point number loses); the table of units has one for
  every 64-bit count.
\<close>

theorem formatBytes_unit:
  assumes "1024 \<le> n" "n < 2 ^ 63"
  shows "\<exists>e t. format_bytes n = Some (itoa (t div 10) @ ''.'' @ itoa (t mod 10) @ '' '' @ [''KMGTPE'' ! e] @ ''iB'') \<and>
    e < 6 \<and> 1024 ^ Suc e \<le> n \<and> n < 1024 ^ Suc (Suc e) \<and>
    2 * \<bar>t * 1024 ^ Suc e - 10 * n\<bar> \<le> 1024 ^ Suc e + (if n < 2 ^ 53 then 0 else 10240)"
proof -
  obtain d e where u: "unit_loop (n div 1024) 1024 0 = (d, e)" by fastforce
  have "1 \<le> n div 1024" using assms(1) by (simp add: div_1024)
  note sp = unit_loop_spec [OF this u]
  have lo: "1024 ^ Suc e \<le> n" and hi: "n < 1024 ^ Suc (Suc e)" and d: "d = 1024 ^ Suc e" using sp by (simp_all add: div_1024)
  have e: "e < 6"
  proof (rule ccontr)
    assume "\<not> e < 6"
    then have "(1024 :: int) ^ 7 \<le> 1024 ^ Suc e" by (intro power_increasing) simp_all
    then show False using lo assms(2) by simp
  qed
  let ?t = "round_even (10 * float64 n) d"
  have "2 * \<bar>?t * d - 10 * float64 n\<bar> \<le> d" using d by (intro round_even_near) simp
  moreover have "2 * \<bar>float64 n - n\<bar> \<le> (if n < 2 ^ 53 then 0 else 1024)" using assms by (intro float64_near) simp_all
  moreover have "2 * \<bar>x - 10 * y\<bar> \<le> d \<Longrightarrow> 2 * \<bar>y - n\<bar> \<le> w \<Longrightarrow> 2 * \<bar>x - 10 * n\<bar> \<le> d + 10 * w" for x y w :: int
    by (cases "0 \<le> x - 10 * y"; cases "0 \<le> y - n"; cases "0 \<le> x - 10 * n") simp_all
  ultimately have "2 * \<bar>?t * d - 10 * n\<bar> \<le> d + 10 * (if n < 2 ^ 53 then 0 else 1024)" by blast
  then have "2 * \<bar>?t * d - 10 * n\<bar> \<le> d + (if n < 2 ^ 53 then 0 else 10240)" by (simp split: if_splits)
  then show ?thesis
    using assms(1) u e lo hi d by (intro exI [of _ e] exI [of _ ?t]) (simp add: format_bytes_def one_decimal_def Let_def)
qed

theorem formatBytes_unit_witness:
  "\<exists>e t. format_bytes 1536 = Some (itoa (t div 10) @ ''.'' @ itoa (t mod 10) @ '' '' @ [''KMGTPE'' ! e] @ ''iB'') \<and>
     e < 6 \<and> 2 * \<bar>t * 1024 ^ Suc e - 15360\<bar> \<le> 1024 ^ Suc e"
  using formatBytes_unit [of 1536] by auto

end
