(* ===== verification/Commands.thy ===== *)
theory Commands
  imports CliText
begin

text \<open>
  The commands of \<^verbatim>\<open>dfmsctl\<close> on a server: \<^verbatim>\<open>internal/cli/auth.go\<close>, \<^verbatim>\<open>files.go\<close>, \<^verbatim>\<open>folders.go\<close>, \<^verbatim>\<open>versions.go\<close>,
  \<^verbatim>\<open>search.go\<close>, \<^verbatim>\<open>storage.go\<close>, \<^verbatim>\<open>admin.go\<close>, \<^verbatim>\<open>version.go\<close> and the completion of file ids (\<^verbatim>\<open>completion.go\<close>).  A command
  maps the client's state to what it prints or to the error it ends with.
\<close>

section \<open>The environment of a command\<close>

text \<open>
  Beside the user's side (\<open>cm_app\<close>): the resolved style; what a session's transport stands on, the round trip
  by whether certificates are verified; \<^verbatim>\<open>mime.TypeByExtension\<close>; the boundary drawn for an upload; local
  time as RFC 3339; \<^verbatim>\<open>%.1f\<close> of a JSON number; which paths are directories; the error that ends reading a local
  file; whether the standard input is a terminal, its content and error; and what the \<open>n\<close>-th prompt for a
  password gets.
\<close>

record ('k, 'w) cmd_env =
  cm_app :: "'k app_env"
  cm_style :: styler
  cm_rt :: "bool \<Rightarrow> hreq \<Rightarrow> 'w \<Rightarrow> (cli_error + hresp) \<times> 'w"
  cm_now :: "'w \<Rightarrow> int"
  cm_claims :: "string \<Rightarrow> access_claims result"
  cm_redirect :: "hreq \<Rightarrow> hresp \<Rightarrow> hreq option"
  cm_mime :: "string \<Rightarrow> string"
  cm_boundary :: string
  cm_local :: "string \<Rightarrow> string"
  cm_instant :: "int \<Rightarrow> string"
  cm_decimal :: "json \<Rightarrow> string"
  cm_is_dir :: "string \<Rightarrow> bool"
  cm_read_err :: "go_error option"
  cm_tty :: bool
  cm_stdin :: string
  cm_stdin_err :: "go_error option"
  cm_password :: "nat \<Rightarrow> string result"

type_synonym ('k, 'w) command = "('k desktop, 'w) wire \<Rightarrow> (cli_error + out_item list) \<times> ('k desktop, 'w) wire"

abbreviation opts :: "('k, 'w) cmd_env \<Rightarrow> global_options" where
  "opts e \<equiv> ap_opts (cm_app e)"

abbreviation os_of :: "('k, 'w) cmd_env \<Rightarrow> os_env" where
  "os_of e \<equiv> ap_os (cm_app e)"

definition session_client :: "('k, 'w) cmd_env \<Rightarrow> 'k api_session \<Rightarrow> ('k desktop, 'w) client" where
  "session_client e ss =
     NewClient (se_url ss)
       (NewAuthHTTPClient (se_url ss) (se_tokens ss) (cm_rt e (se_insecure ss)) (cm_now e) (cm_claims e) (cm_redirect e))"

definition with_session ::
  "('k, 'w) cmd_env \<Rightarrow> ('k api_session \<Rightarrow> ('k desktop, 'w) client \<Rightarrow> ('k, 'w) command) \<Rightarrow> ('k, 'w) command" where
  "with_session e f s =
     (case on_store (session (cm_app e)) s of
        (Inl err, s1) \<Rightarrow> (Inl err, s1)
      | (Inr ss, s1) \<Rightarrow> f ss (session_client e ss) s1)"

text \<open>A command that calls an endpoint and prints its result.\<close>

definition shown :: "('a \<Rightarrow> out_item list) \<Rightarrow> (cli_error + 'a) \<times> 'x \<Rightarrow> (cli_error + out_item list) \<times> 'x" where
  "shown f r = with_result f r"

definition performed :: "out_item list \<Rightarrow> cli_error option \<times> 'x \<Rightarrow> (cli_error + out_item list) \<times> 'x" where
  "performed out r = apfst (\<lambda>x. case x of Some err \<Rightarrow> Inl err | None \<Rightarrow> Inr out) r"

text \<open>The machine-readable form if it is asked for; \<open>OData\<close> holds the value that is encoded.\<close>

definition structured :: "('k, 'w) cmd_env \<Rightarrow> json \<Rightarrow> out_item list \<Rightarrow> out_item list" where
  "structured e v human = (case writeStructured (op_output (opts e)) v of Some out \<Rightarrow> out | None \<Rightarrow> human)"

definition successf :: "('k, 'w) cmd_env \<Rightarrow> string \<Rightarrow> out_item list" where
  "successf e msg = [OLine (st_green (cm_style e) msg)]"

definition header_row :: "('k, 'w) cmd_env \<Rightarrow> string list \<Rightarrow> out_item" where
  "header_row e names = ORow (split_char (hd tab) (HeaderCell (cm_style e) (join_with tab names)))"

abbreviation "jtext j k \<equiv> jstr (jget j k)"
abbreviation "jint j k \<equiv> jnum (jget j k)"

definition page_footer :: "json \<Rightarrow> out_item list" where
  "page_footer l =
     (if 0 < jint l ''total_pages''
      then [OLine [], OLine (''Page '' @ itoa (jint l ''page'') @ '' of '' @ itoa (jint l ''total_pages'') @ '' ('' @ itoa (jint l ''total'') @ '' total)'')]
      else [])"

definition id_lines :: "json list \<Rightarrow> out_item list" where
  "id_lines fs = map (\<lambda>f. OLine (jtext f ''id'')) fs"

section \<open>Prompts\<close>

text \<open>\<^verbatim>\<open>confirm\<close>: the first line of the input, however it ends.\<close>

definition confirm :: "('k, 'w) cmd_env \<Rightarrow> cli_error + bool" where
  "confirm e =
     (if CHR 0x0A \<notin> set (cm_stdin e) \<and> cm_stdin_err e \<noteq> None
      then Inl (Wrapped ''reading confirmation'' (Plain (the (cm_stdin_err e))))
      else Inr (to_lower (trim_space (until CHR 0x0A (cm_stdin e))) \<in> {''y'', ''yes''}))"

text \<open>A destructive command: asked about on a terminal unless \<^verbatim>\<open>--yes\<close> is given.\<close>

definition confirmed :: "('k, 'w) cmd_env \<Rightarrow> bool \<Rightarrow> ('k, 'w) command \<Rightarrow> ('k, 'w) command" where
  "confirmed e yes run s =
     (if \<not> yes \<and> cm_tty e then
        (case confirm e of
           Inl err \<Rightarrow> (Inl err, s)
         | Inr ok \<Rightarrow> if ok then run s else (Inr [OLine ''Aborted.''], s))
      else run s)"

definition readPassword :: "('k, 'w) cmd_env \<Rightarrow> bool \<Rightarrow> nat \<Rightarrow> cli_error + string" where
  "readPassword e fromStdin n =
     (if fromStdin then
        (case cm_stdin_err e of
           Some err \<Rightarrow> Inl (Wrapped ''reading password from stdin'' (Plain err))
         | None \<Rightarrow> Inr (rev (dropWhile (\<lambda>c. c \<in> set crlf) (rev (cm_stdin e)))))
      else if os_var (os_of e) ''DFMSCTL_PASSWORD'' \<noteq> [] then Inr (os_var (os_of e) ''DFMSCTL_PASSWORD'')
      else case cm_password e n of
             Inl err \<Rightarrow> Inl (Wrapped ''reading password'' (Plain err))
           | Inr p \<Rightarrow> Inr p)"

definition readNewPassword :: "('k, 'w) cmd_env \<Rightarrow> bool \<Rightarrow> cli_error + string" where
  "readNewPassword e fromStdin =
     (case readPassword e fromStdin 0 of
        Inl err \<Rightarrow> Inl err
      | Inr password \<Rightarrow>
          if password = [] then Inl (Plain ''password must not be empty'')
          else if \<not> fromStdin \<and> os_var (os_of e) ''DFMSCTL_PASSWORD'' = [] then
            (case readPassword e False 1 of
               Inl err \<Rightarrow> Inl err
             | Inr again \<Rightarrow> if again \<noteq> password then Inl (Plain ''passwords do not match'') else Inr password)
          else Inr password)"

section \<open>Accounts\<close>

definition keep_tokens ::
  "'k api_session \<Rightarrow> out_item list \<Rightarrow> (cli_error + tokens) \<times> ('k desktop, 'w) wire \<Rightarrow>
   (cli_error + out_item list) \<times> ('k desktop, 'w) wire" where
  "keep_tokens ss out r =
     (case r of
        (Inl err, s1) \<Rightarrow> (Inl err, s1)
      | (Inr t, s1) \<Rightarrow>
          (case on_store (ts_save (se_tokens ss) t) s1 of
             (Inl err, s2) \<Rightarrow> (Inl (Wrapped ''storing credentials'' err), s2)
           | (Inr _, s2) \<Rightarrow> (Inr out, s2)))"

definition in_context :: "'k api_session \<Rightarrow> string" where
  "in_context ss = ''context '' @ go_quote (se_context ss)"

definition auth_register :: "('k, 'w) cmd_env \<Rightarrow> string \<Rightarrow> string \<Rightarrow> bool \<Rightarrow> ('k, 'w) command" where
  "auth_register e email displayName pwStdin s =
     (case readNewPassword e pwStdin of
        Inl err \<Rightarrow> (Inl err, s)
      | Inr password \<Rightarrow>
          with_session e (\<lambda>ss c s1.
            keep_tokens ss [OLine (''Registered and logged in as '' @ email @ '' ('' @ in_context ss @ '')'')]
              (Register c email password displayName s1)) s)"

definition auth_login :: "('k, 'w) cmd_env \<Rightarrow> string \<Rightarrow> bool \<Rightarrow> ('k, 'w) command" where
  "auth_login e email pwStdin s =
     (case readPassword e pwStdin 0 of
        Inl err \<Rightarrow> (Inl err, s)
      | Inr password \<Rightarrow>
          if password = [] then (Inl (Plain ''password must not be empty''), s)
          else with_session e (\<lambda>ss c s1.
                 keep_tokens ss [OLine (''Logged in as '' @ email @ '' ('' @ in_context ss @ '')'')] (Login c email password s1)) s)"

definition auth_logout :: "('k, 'w) cmd_env \<Rightarrow> ('k, 'w) command" where
  "auth_logout e s =
     with_session e (\<lambda>ss c s1.
       (case on_store (ts_delete (se_tokens ss)) s1 of
          (Inl err, s2) \<Rightarrow> (Inl (Wrapped ''clearing credentials'' err), s2)
        | (Inr _, s2) \<Rightarrow> (Inr [OLine (''Logged out of '' @ in_context ss)], s2))) s"

text \<open>\<^verbatim>\<open>statusView\<close>, with the fields the encoders leave out when empty.\<close>

definition status_json :: "string \<Rightarrow> identity option \<Rightarrow> bool \<Rightarrow> (int \<Rightarrow> string) \<Rightarrow> json" where
  "status_json context i expired rfc =
     (let str = (\<lambda>f. case i of None \<Rightarrow> JStr [] | Some k \<Rightarrow> JStr (f k)) in
      JObj [(''context'', JStr context), (''logged_in'', JBool (i \<noteq> None)), (''email'', str id_email), (''role'', str id_role),
            (''user_id'', str id_user),
            (''expires_at'', opt_json (map_option rfc (Option.bind i id_expires))), (''expired'', JBool expired)])"

definition auth_status :: "('k, 'w) cmd_env \<Rightarrow> ('k, 'w) command" where
  "auth_status e s =
     with_session e (\<lambda>ss c s1.
       (case on_store (ts_load (se_tokens ss)) s1 of
          (Inl err, s2) \<Rightarrow>
            if errors_Is err NoCredentials then
              (Inr (structured e (status_json (se_context ss) None False (cm_instant e))
                 [OLine (''Not logged in to '' @ in_context ss @ ''. Run '' @ [CHR 0x27] @ ''dfmsctl auth login'' @ [CHR 0x27] @ ''.'')]), s2)
            else (Inl err, s2)
        | (Inr t, s2) \<Rightarrow>
            (case Identify (cl_http c) (tk_access t) of
               Inl err \<Rightarrow> (Inl err, s2)
             | Inr i \<Rightarrow>
                 (let expired = Expired (cm_now e (wr_net s2)) i in
                  (Inr (structured e (status_json (se_context ss) (Some i) expired (cm_instant e))
                     ([ORow [''Context:'', se_context ss], ORow [''Email:'', id_email i], ORow [''Role:'', id_role i],
                       ORow [''User ID:'', id_user i]] @
                      (case id_expires i of
                         None \<Rightarrow> []
                       | Some x \<Rightarrow> [ORow [''Expires:'', cm_local e (cm_instant e x) @ '' ('' @
                                      (if expired then ''expired (will refresh on next use)'' else ''valid'') @ '')'']]))), s2))))) s"


section \<open>Files\<close>

definition render_upload :: "json \<Rightarrow> out_item list" where
  "render_upload r =
     [ORow [''ID:'', jtext r ''id''], ORow [''Name:'', jtext r ''name''], ORow [''Size:'', formatBytes (jint r ''size'')],
      ORow [''Version:'', itoa (jint r ''version'')],
      ORow [''Chunks:'', itoa (jint r ''chunk_count'') @ '' ('' @ itoa (jint r ''new_chunks'') @ '' new, '' @
                        itoa (jint r ''dedup_chunks'') @ '' deduplicated)'']] @
     (if jtext r ''checksum'' = [] then [] else [ORow [''Checksum:'', jtext r ''checksum'']])"

text \<open>\<^verbatim>\<open>os.Open\<close>, \<^verbatim>\<open>Stat\<close> and the content that reading the file gives.\<close>

definition open_source :: "('k, 'w) cmd_env \<Rightarrow> string \<Rightarrow> 'k desktop \<Rightarrow> (cli_error + reader \<times> int) \<times> 'k desktop" where
  "open_source e path d =
     (case os_read (os_of e) path d of
        (Inl err, d1) \<Rightarrow> (Inl (Plain err), d1)
      | (Inr None, d1) \<Rightarrow>
          if cm_is_dir e path then (Inl (Plain (go_quote path @ '' is a directory, not a file'')), d1)
          else (Inl (Plain (''open '' @ path @ '': no such file or directory'')), d1)
      | (Inr (Some data), d1) \<Rightarrow>
          (Inr (\<lparr>rd_frames = rd_frames (reader_of (to_bytes data)), rd_err = cm_read_err e\<rparr>, int (length data)), d1))"

definition files_upload :: "('k, 'w) cmd_env \<Rightarrow> string \<Rightarrow> string \<Rightarrow> ('k, 'w) command" where
  "files_upload e name path s =
     (case on_store (open_source e path) s of
        (Inl err, s1) \<Rightarrow> (Inl err, s1)
      | (Inr (src, size'), s1) \<Rightarrow>
          (let displayName = (if name = [] then path_base path else name) in
           with_session e (\<lambda>ss c s2.
             shown (\<lambda>r. structured e r (if op_quiet (opts e) then [OLine (jtext r ''id'')] else render_upload r))
               (if se_threshold ss < size' then UploadInParts c (cm_mime e) displayName src DefaultPartSize s2
                else UploadFile c (cm_mime e) (cm_boundary e) displayName src s2)) s1))"

text \<open>A table of files: the ids with \<^verbatim>\<open>--quiet\<close>, a line when there are none.\<close>

definition file_table ::
  "('k, 'w) cmd_env \<Rightarrow> string list \<Rightarrow> (json \<Rightarrow> string list) \<Rightarrow> string \<Rightarrow> json list \<Rightarrow> out_item list \<Rightarrow> out_item list" where
  "file_table e names row none fs footer =
     (if fs = [] then [OLine none] else header_row e names # map (\<lambda>f. ORow (row f)) fs @ footer)"

definition files_list :: "('k, 'w) cmd_env \<Rightarrow> int \<Rightarrow> int \<Rightarrow> ('k, 'w) command" where
  "files_list e page pageSize =
     with_session e (\<lambda>ss c s1.
       shown (\<lambda>l. structured e l
                (if op_quiet (opts e) then id_lines (jlist (jget l ''files''))
                 else file_table e [''ID'', ''NAME'', ''SIZE'', ''VERSION'', ''MODIFIED'']
                        (\<lambda>f. [jtext f ''id'', jtext f ''name'', formatBytes (jint f ''size''), itoa (jint f ''version''),
                             cm_local e (jtext f ''updated_at'')])
                        ''No files.'' (jlist (jget l ''files'')) (page_footer l)))
         (ListFiles c page pageSize s1))"

definition render_detail :: "('k, 'w) cmd_env \<Rightarrow> json \<Rightarrow> out_item list" where
  "render_detail e f =
     [ORow [''ID:'', jtext f ''id''], ORow [''Name:'', jtext f ''name''], ORow [''Size:'', formatBytes (jint f ''size'')],
      ORow [''Version:'', itoa (jint f ''version'')], ORow [''Status:'', jtext f ''status''], ORow [''MIME type:'', jtext f ''mime_type''],
      ORow [''Checksum:'', jtext f ''checksum''], ORow [''Created:'', cm_local e (jtext f ''created_at'')],
      ORow [''Modified:'', cm_local e (jtext f ''updated_at'')]]"

definition files_get :: "('k, 'w) cmd_env \<Rightarrow> string \<Rightarrow> ('k, 'w) command" where
  "files_get e fid =
     with_session e (\<lambda>ss c s1. shown (\<lambda>f. structured e f (render_detail e f)) (GetFile c fid s1))"

definition files_delete :: "('k, 'w) cmd_env \<Rightarrow> bool \<Rightarrow> string \<Rightarrow> ('k, 'w) command" where
  "files_delete e yes fid =
     confirmed e yes (with_session e (\<lambda>ss c s1.
       performed (successf e (''Deleted file '' @ go_quote fid)) (DeleteFile c fid s1)))"

subsection \<open>Downloads to a file\<close>

text \<open>The writers: the temporary file, which a write may leave in part, and the standard output.\<close>

definition to_temp :: "os_env \<Rightarrow> string \<Rightarrow> string \<Rightarrow> ('k desktop, 'w) wire \<Rightarrow> unit result \<times> ('k desktop, 'w) wire" where
  "to_temp o' tmp data s = on_store (os_write o' tmp data) s"

definition to_stdout :: "string \<Rightarrow> ('k desktop, 'w) wire \<Rightarrow> unit result \<times> ('k desktop, 'w) wire" where
  "to_stdout data s = (Inr (), s\<lparr>wr_out := wr_out s @ data\<rparr>)"

type_synonym ('k, 'w) fetch =
  "(string \<Rightarrow> ('k desktop, 'w) wire \<Rightarrow> unit result \<times> ('k desktop, 'w) wire) \<Rightarrow> ('k desktop, 'w) wire \<Rightarrow>
   (cli_error + download_info) \<times> ('k desktop, 'w) wire"

definition dropped_temp :: "os_env \<Rightarrow> string \<Rightarrow> ('k desktop, 'w) wire \<Rightarrow> ('k desktop, 'w) wire" where
  "dropped_temp o' tmp s = snd (on_store (os_remove o' tmp) s)"

definition save_download ::
  "os_env \<Rightarrow> ('k, 'w) fetch \<Rightarrow> string \<Rightarrow> string \<Rightarrow> ('k desktop, 'w) wire \<Rightarrow>
   (cli_error + string \<times> download_info) \<times> ('k desktop, 'w) wire" where
  "save_download o' fetch fallback outFile s =
     (case on_store (os_create_temp o' (if outFile = [] then ''.'' else path_dir outFile) ''.dfms-download-'') s of
        (Inl err, s1) \<Rightarrow> (Inl (Wrapped ''creating temp file'' (Plain err)), s1)
      | (Inr tmp, s1) \<Rightarrow>
          (case fetch (to_temp o' tmp) s1 of
             (info, s2) \<Rightarrow>
               (case on_store (os_close o') s2 of
                  (closed', s3) \<Rightarrow>
                    (case info of
                       Inl err \<Rightarrow> (Inl err, dropped_temp o' tmp s3)
                     | Inr i \<Rightarrow>
                         (case closed' of
                            Inl err \<Rightarrow> (Inl (Wrapped ''writing download'' (Plain err)), dropped_temp o' tmp s3)
                          | Inr _ \<Rightarrow>
                              (let dest = (if outFile \<noteq> [] then outFile
                                           else path_base (if di_filename i = [] then fallback else di_filename i)) in
                               case on_store (os_rename o' tmp dest) s3 of
                                 (Inl err, s4) \<Rightarrow> (Inl (Wrapped ''saving download'' (Plain err)), dropped_temp o' tmp s4)
                               | (Inr _, s4) \<Rightarrow> (Inr (dest, i), s4)))))))"

definition run_download ::
  "('k, 'w) cmd_env \<Rightarrow> ('k, 'w) fetch \<Rightarrow> (string \<Rightarrow> out_item list) \<Rightarrow> string \<Rightarrow> string \<Rightarrow> ('k, 'w) command" where
  "run_download e fetch say fallback outFile s =
     (if outFile = ''-'' then shown (\<lambda>i. []) (fetch to_stdout s)
      else shown (\<lambda>(dest, i). if op_quiet (opts e) then []
                              else say (''Downloaded '' @ dest @ '' ('' @ formatBytes (di_size i) @ '')''))
             (save_download (os_of e) fetch fallback outFile s))"

definition files_download :: "('k, 'w) cmd_env \<Rightarrow> string \<Rightarrow> string \<Rightarrow> ('k, 'w) command" where
  "files_download e outFile fid =
     with_session e (\<lambda>ss c. run_download e (DownloadFile c fid) (successf e) fid outFile)"

section \<open>Search\<close>

definition files_search ::
  "('k, 'w) cmd_env \<Rightarrow> string \<Rightarrow> int option \<Rightarrow> int option \<Rightarrow> int \<Rightarrow> int \<Rightarrow> string \<Rightarrow> ('k, 'w) command" where
  "files_search e mimeType minSize maxSize page pageSize query =
     with_session e (\<lambda>ss c s1.
       shown (\<lambda>l. structured e l
                (if op_quiet (opts e) then id_lines (jlist (jget l ''results''))
                 else file_table e [''ID'', ''NAME'', ''SIZE'', ''MODIFIED'']
                        (\<lambda>f. [jtext f ''id'', jtext f ''name'', formatBytes (jint f ''size''), cm_local e (jtext f ''updated_at'')])
                        ''No matching files.'' (jlist (jget l ''results'')) (page_footer l)))
         (Search c \<lparr>so_query = query, so_mime = mimeType, so_min = minSize, so_max = maxSize, so_after = None, so_before = None,
                    so_page = page, so_page_size = pageSize\<rparr> s1))"

section \<open>Versions\<close>

definition versions_list :: "('k, 'w) cmd_env \<Rightarrow> string \<Rightarrow> ('k, 'w) command" where
  "versions_list e fid =
     with_session e (\<lambda>ss c s1.
       shown (\<lambda>l. structured e l
                (file_table e [''VERSION'', ''ID'', ''SIZE'', ''STATUS'', ''CREATED'']
                   (\<lambda>v. [itoa (jint v ''version''), jtext v ''id'', formatBytes (jint v ''size''), jtext v ''status'',
                        cm_local e (jtext v ''created_at'')])
                   ''No versions.'' (jlist (jget l ''versions'')) []))
         (ListVersions c fid s1))"

definition with_version_arg :: "string \<Rightarrow> (int \<Rightarrow> ('k, 'w) command) \<Rightarrow> ('k, 'w) command" where
  "with_version_arg arg f s =
     (case atoi arg of
        (_, Some _) \<Rightarrow> (Inl (Plain (''invalid version '' @ go_quote arg @ '': must be a number'')), s)
      | (version, None) \<Rightarrow> f version s)"

definition versions_download :: "('k, 'w) cmd_env \<Rightarrow> string \<Rightarrow> string \<Rightarrow> string \<Rightarrow> ('k, 'w) command" where
  "versions_download e outFile fid arg =
     with_version_arg arg (\<lambda>version.
       with_session e (\<lambda>ss c. run_download e (DownloadVersion c fid version) (\<lambda>m. [OLine m]) (fid @ ''.v'' @ itoa version) outFile))"

definition versions_delete :: "('k, 'w) cmd_env \<Rightarrow> bool \<Rightarrow> string \<Rightarrow> string \<Rightarrow> ('k, 'w) command" where
  "versions_delete e yes fid arg =
     with_version_arg arg (\<lambda>version.
       confirmed e yes (with_session e (\<lambda>ss c s1.
         performed [OLine (''Deleted version '' @ itoa version @ '' of file '' @ go_quote fid)] (DeleteVersion c fid version s1))))"

section \<open>Folders\<close>

definition folders_create :: "('k, 'w) cmd_env \<Rightarrow> string \<Rightarrow> string \<Rightarrow> ('k, 'w) command" where
  "folders_create e parent name =
     with_session e (\<lambda>ss c s1.
       shown (\<lambda>f. structured e f (successf e (''Created folder '' @ go_quote (jtext f ''name'') @ '' ('' @ jtext f ''id'' @ '')'')))
         (CreateFolder c name (if parent = [] then None else Some parent) s1))"

definition folders_contents :: "('k, 'w) cmd_env \<Rightarrow> int \<Rightarrow> int \<Rightarrow> string \<Rightarrow> ('k, 'w) command" where
  "folders_contents e page pageSize fid =
     with_session e (\<lambda>ss c s1.
       shown (\<lambda>l. structured e l
                (if op_quiet (opts e) then id_lines (jlist (jget l ''contents''))
                 else file_table e [''TYPE'', ''ID'', ''NAME'', ''SIZE'', ''MODIFIED'']
                        (\<lambda>f. (let dir = jbool (jget f ''is_directory'') in
                             [if dir then YellowCell (cm_style e) ''dir'' else ''file'', jtext f ''id'', jtext f ''name'',
                              if dir then ''-'' else formatBytes (jint f ''size''), cm_local e (jtext f ''updated_at'')]))
                        ''Folder is empty.'' (jlist (jget l ''contents'')) (page_footer l)))
         (FolderContents c fid page pageSize s1))"

text \<open>\<open>dest\<close> is the second argument, if it is given.\<close>

definition folders_move :: "('k, 'w) cmd_env \<Rightarrow> string \<Rightarrow> string option \<Rightarrow> ('k, 'w) command" where
  "folders_move e fid dest =
     (let to' = (if dest = Some [] then None else dest) in
      with_session e (\<lambda>ss c s1.
        performed (successf e (''Moved '' @ go_quote fid @ '' to '' @ (case to' of None \<Rightarrow> ''root'' | Some d \<Rightarrow> d)))
          (MoveFile c fid to' s1)))"

definition folders_delete :: "('k, 'w) cmd_env \<Rightarrow> bool \<Rightarrow> string \<Rightarrow> ('k, 'w) command" where
  "folders_delete e yes fid =
     confirmed e yes (with_session e (\<lambda>ss c s1.
       performed (successf e (''Deleted folder '' @ go_quote fid)) (DeleteFolder c fid s1)))"

section \<open>Storage, nodes, version\<close>

definition storage_usage :: "('k, 'w) cmd_env \<Rightarrow> ('k, 'w) command" where
  "storage_usage e =
     with_session e (\<lambda>ss c s1.
       shown (\<lambda>u. structured e u
                [ORow [''Used:'', formatBytes (jint u ''used'')], ORow [''Quota:'', formatBytes (jint u ''quota'')],
                 ORow [''Available:'', formatBytes (jint u ''available'')], ORow [''Used:'', cm_decimal e (jget u ''used_pct'') @ ''%'']])
         (StorageUsage c s1))"

definition nodeStatus :: "styler \<Rightarrow> string \<Rightarrow> string" where
  "nodeStatus st status =
     (if to_lower status \<in> {''online'', ''healthy'', ''active'', ''up'', ''ready''} then GreenCell st status
      else if to_lower status \<in> {''offline'', ''unhealthy'', ''down'', ''error'', ''failed''} then RedCell st status
      else status)"

definition admin_nodes :: "('k, 'w) cmd_env \<Rightarrow> ('k, 'w) command" where
  "admin_nodes e =
     with_session e (\<lambda>ss c s1.
       shown (\<lambda>l. structured e l
                (file_table e [''ID'', ''NAME'', ''ENDPOINT'', ''STATUS'', ''USED'', ''CAPACITY'']
                   (\<lambda>n. [jtext n ''id'', jtext n ''name'', jtext n ''endpoint'', nodeStatus (cm_style e) (jtext n ''status''),
                        formatBytes (jint n ''used''), formatBytes (jint n ''capacity'')])
                   (if jtext l ''message'' \<noteq> [] then jtext l ''message'' else ''No storage nodes.'')
                   (jlist (jget l ''nodes'')) []))
         (ListNodes c s1))"

record build_info =
  bi_version :: string
  bi_commit :: string
  bi_date :: string
  bi_go :: string
  bi_platform :: string

text \<open>JSON is the only other format the version command knows.\<close>

definition version_render :: "build_info \<Rightarrow> string \<Rightarrow> out_item list" where
  "version_render b format =
     (if format = ''json'' then
        [OData ''json'' (JObj [(''version'', JStr (bi_version b)), (''commit'', JStr (bi_commit b)), (''build_date'', JStr (bi_date b)),
                             (''go_version'', JStr (bi_go b)), (''platform'', JStr (bi_platform b))])]
      else [OLine (''dfmsctl '' @ bi_version b), OLine (''  commit:   '' @ bi_commit b), OLine (''  built:    '' @ bi_date b),
            OLine (''  go:       '' @ bi_go b), OLine (''  platform: '' @ bi_platform b)])"

section \<open>Completion\<close>

definition completeFileIDs ::
  "('k, 'w) cmd_env \<Rightarrow> string list \<Rightarrow> string \<Rightarrow> ('k desktop, 'w) wire \<Rightarrow> string list \<times> ('k desktop, 'w) wire" where
  "completeFileIDs e args toComplete s =
     (if args \<noteq> [] then ([], s)
      else case on_store (session (cm_app e)) s of
             (Inl _, s1) \<Rightarrow> ([], s1)
           | (Inr ss, s1) \<Rightarrow>
               (case ListFiles (session_client e ss) 1 100 s1 of
                  (Inl _, s2) \<Rightarrow> ([], s2)
                | (Inr l, s2) \<Rightarrow>
                    (map (\<lambda>f. jtext f ''id'' @ tab @ jtext f ''name'')
                       (filter (\<lambda>f. has_prefix (jtext f ''id'') toComplete) (jlist (jget l ''files''))), s2)))"

end
