(* ===== verification/Downloads.thy ===== *)
theory Downloads
  imports Commands
begin

text \<open>
  What the commands do to the user's files and sessions: a call of the client touches nothing but the secrets
  file, a download replaces its destination whole or not at all, a login keeps the session it was given.
\<close>

section \<open>What a call leaves alone\<close>

text \<open>\<open>G\<close> is anything read off the state of the store that its operations do not change.\<close>

definition unmoved :: "'s token_store \<Rightarrow> ('s \<Rightarrow> 'b) \<Rightarrow> bool" where
  "unmoved ts G \<longleftrightarrow> (\<forall>d t. G (snd (ts_load ts d)) = G d \<and> G (snd (ts_save ts t d)) = G d \<and> G (snd (ts_delete ts d)) = G d)"

lemma on_store_moves: "G (wr_store (snd (on_store f s))) = G (snd (f (wr_store s)))"
  by (simp add: on_store_def case_prod_beta)

lemma base_trip_keeps: "wr_store (snd (base_trip tp q s)) = wr_store s"
  by (simp add: base_trip_def case_prod_beta)

lemma refresh_keeps:
  assumes "unmoved (tp_store tp) G"
  shows "G (wr_store (snd (refresh tp t s))) = G (wr_store s)"
proof (cases "t = []")
  case False
  show ?thesis
  proof (cases "refresh_request tp t")
    case (Inr q)
    obtain x s1 where b: "base_trip tp q s = (x, s1)" by fastforce
    have s1: "wr_store s1 = wr_store s" using base_trip_keeps [of tp q s] b by simp
    show ?thesis
      using assms False Inr b s1
      by (auto simp: refresh_def unmoved_def on_store_def case_prod_beta split: sum.splits)
  qed (use False in \<open>simp add: refresh_def\<close>)
qed (simp add: refresh_def)

lemma send_keeps: "wr_store (snd (send tp q a s)) = wr_store s"
  by (simp add: send_def base_trip_keeps)

lemma send_twice_keeps:
  assumes "unmoved (tp_store tp) G"
  shows "G (wr_store (snd (send_twice tp q t a s))) = G (wr_store s)"
proof -
  obtain x s1 where x: "send tp q a s = (x, s1)" by fastforce
  have s1: "wr_store s1 = wr_store s" using send_keeps [of tp q a s] x by simp
  obtain y s2 where y: "refresh tp t s1 = (y, s2)" by fastforce
  have "G (wr_store s2) = G (wr_store s)" using refresh_keeps [OF assms, of t s1] s1 y by simp
  then show ?thesis
    using s1 by (simp add: send_twice_def x y send_keeps split: sum.splits)
qed

lemma RoundTrip_keeps:
  assumes "unmoved (tp_store tp) G"
  shows "G (wr_store (snd (RoundTrip tp q s))) = G (wr_store s)"
proof (cases "isAuthEndpoint (u_path (hq_url q))")
  case True
  then show ?thesis by (simp add: RoundTrip_def base_trip_keeps)
next
  case False
  obtain x s1 where x: "on_store (ts_load (tp_store tp)) s = (x, s1)" by fastforce
  have s1: "G (wr_store s1) = G (wr_store s)"
    using assms on_store_moves [of G "ts_load (tp_store tp)" s] x by (simp add: unmoved_def)
  show ?thesis
  proof (cases x)
    case (Inr t)
    obtain y s2 where y: "refresh tp (tk_refresh t) s1 = (y, s2)" by fastforce
    have "G (wr_store s2) = G (wr_store s)" using refresh_keeps [OF assms, of "tk_refresh t" s1] s1 y by simp
    then show ?thesis
      using False x Inr y s1 send_twice_keeps [OF assms] by (simp add: RoundTrip_def split: sum.splits)
  qed (use False x s1 in \<open>simp add: RoundTrip_def\<close>)
qed

lemma follow_keeps:
  "unmoved (tp_store tp) G \<Longrightarrow> G (wr_store (snd (follow n tp q s))) = G (wr_store s)"
proof (induction n arbitrary: q s)
  case (Suc n)
  obtain x s1 where x: "RoundTrip tp q s = (x, s1)" by fastforce
  have "G (wr_store s1) = G (wr_store s)" using RoundTrip_keeps [OF Suc.prems, of q s] x by simp
  then show ?case using Suc.IH [OF Suc.prems] x by (simp split: sum.splits option.splits)
qed simp

lemma client_Do_keeps:
  "unmoved (tp_store tp) G \<Longrightarrow> G (wr_store (snd (client_Do tp q s))) = G (wr_store s)"
  using follow_keeps [of tp G 10 q s] by (auto simp: client_Do_def split: prod.splits sum.splits)

section \<open>The token stores and the other files\<close>

lemma writeFileAtomic_others:
  assumes "q \<noteq> path" "\<And>n. q \<noteq> temp_name (path_dir path) ''.tmp-'' n"
  shows "dk_files (snd (writeFileAtomic e path data perm d)) q = dk_files d q"
proof -
  obtain x1 d1 where x1: "os_mkdir_all e (path_dir path) d = (x1, d1)" by force
  have o1: "dk_files d1 q = dk_files d q" using os_others(6) [of e "path_dir path" d] x1 by simp
  obtain x2 d2 where x2: "os_create_temp e (path_dir path) ''.tmp-'' d1 = (x2, d2)" by force
  have o2: "dk_files d2 q = dk_files d q" using os_create_temp_files(1) [OF assms(2)] x2 o1 by (metis snd_conv)
  show ?thesis
  proof (cases "is_ok x1 \<and> is_ok x2")
    case True
    then obtain tmp where tmp: "x2 = Inr tmp" by (auto elim!: is_okE)
    then have t: "tmp = temp_name (path_dir path) ''.tmp-'' (os_tmp e (Suc (dk_calls d1)))"
      using os_create_temp_files(2) x2 by blast
    have q: "q \<noteq> tmp" using assms(2) t by simp
    obtain r3 d3 where f: "fill_and_rename e tmp path data perm d2 = (r3, d3)" by force
    have "dk_files d3 q = dk_files d2 q"
      using f by (auto simp: fill_and_rename_def case_prod_beta os_others(1,2) [OF q] os_others(4) [OF q assms(1)] os_others(5)
          split: sum.splits)
    then show ?thesis
      using True x1 x2 tmp f o2 by (auto simp: writeFileAtomic_def Let_def os_others(3) [OF q] elim!: is_okE)
  next
    case False
    then show ?thesis using x1 x2 o1 o2 by (auto simp: writeFileAtomic_def Let_def is_ok_def split: sum.splits)
  qed
qed

definition other_file :: "string \<Rightarrow> string \<Rightarrow> bool" where
  "other_file path q \<longleftrightarrow> q \<noteq> path \<and> (\<forall>n. q \<noteq> temp_name (path_dir path) ''.tmp-'' n)"

lemma fileStore_read_files: "dk_files (snd (fileStore_read e path d)) = dk_files d"
  using fileStore_read_result(1) [of e path d] by (metis prod.collapse)

lemma fileStore_write_files: "other_file path q \<Longrightarrow> dk_files (snd (fileStore_write e path m d)) q = dk_files d q"
  using writeFileAtomic_others [of q path] by (auto simp: fileStore_write_def other_file_def case_prod_beta split: sum.splits)

lemma unmoved_file_tokens:
  assumes "other_file path q"
  shows "unmoved (contextTokens (fileStore e path) c) (\<lambda>d. dk_files d q)"
proof -
  note rd = fileStore_read_files [of e path]
  have "dk_files (snd (fileStore_Get e path c d)) q = dk_files d q" for d
    using rd [of d] by (auto simp: fileStore_Get_def case_prod_beta split: sum.splits option.splits)
  moreover have "dk_files (snd (fileStore_Set e path c b d)) q = dk_files d q" for b d
    by (auto simp: fileStore_Set_def rd fileStore_write_files [OF assms] case_prod_beta split: sum.splits option.splits)
  moreover have "dk_files (snd (fileStore_Delete e path c d)) q = dk_files d q" for d
    by (auto simp: fileStore_Delete_def rd fileStore_write_files [OF assms] case_prod_beta split: sum.splits option.splits)
  ultimately show ?thesis
    by (auto simp: unmoved_def contextTokens_def contextTokens_Load_def contextTokens_Save_def contextTokens_Delete_def fileStore_def
        case_prod_beta split: sum.splits)
qed

text \<open>The name of a temporary file without its number.\<close>

lemma temp_stem: "rev (dropWhile is_digit (rev (temp_name dir (p @ ''-'') n))) = (if dir \<noteq> [] \<and> last dir = CHR ''/'' then dir else dir @ ''/'') @ p @ ''-''"
proof -
  have "dropWhile is_digit (rev (nat_digits n) @ x) = dropWhile is_digit x" for x
    by (rule dropWhile_append2) (simp add: nat_digits_are_digits)
  then show ?thesis by (simp add: temp_name_def is_digit_def)
qed

lemma download_temp_other:
  assumes "\<not> is_digit (last path)" "path \<noteq> []"
  shows "other_file path (temp_name dir ''.dfms-download-'' n)"
proof -
  have "temp_name dir ''.dfms-download-'' n \<noteq> path" using temp_name_ne assms by blast
  moreover have "temp_name dir ''.dfms-download-'' n \<noteq> temp_name dir' ''.tmp-'' m" for dir' m
  proof
    assume "temp_name dir ''.dfms-download-'' n = temp_name dir' ''.tmp-'' m"
    then have "rev (rev (dropWhile is_digit (rev (temp_name dir (''.dfms-download'' @ ''-'') n)))) =
        rev (rev (dropWhile is_digit (rev (temp_name dir' (''.tmp'' @ ''-'') m))))" by simp
    then have "rev ((if dir \<noteq> [] \<and> last dir = CHR ''/'' then dir else dir @ ''/'') @ ''.dfms-download'' @ ''-'') =
        rev ((if dir' \<noteq> [] \<and> last dir' = CHR ''/'' then dir' else dir' @ ''/'') @ ''.tmp'' @ ''-'')" by (simp only: temp_stem)
    then show False by simp
  qed
  ultimately show ?thesis by (simp add: other_file_def)
qed


section \<open>A download\<close>

lemma streamDownload_cases:
  assumes "streamDownload c path put s = (x, s')"
  obtains (unsent) err where "x = Inl err" "s' = s"
    | (unanswered) err q y where "x = Inl err" "client_Do (cl_http c) q s = (y, s')"
    | (put) q resp s1 where "client_Do (cl_http c) q s = (Inr resp, s1)" "resp_ok resp" "s' = snd (put (hp_body resp) s1)"
        "is_ok x \<Longrightarrow> fst (put (hp_body resp) s1) = Inr () \<and> hp_break resp = None"
proof (cases "NewRequest ''GET'' (cl_base c @ path) (MemBody [])")
  case (Inl err)
  then show thesis using assms unsent by (auto simp: streamDownload_def)
next
  case (Inr q)
  let ?q = "with_header ''User-Agent'' (cl_agent c) q"
  obtain y s1 where y: "client_Do (cl_http c) ?q s = (y, s1)" by fastforce
  show thesis
  proof (cases "\<exists>resp. y = Inr resp \<and> resp_ok resp")
    case False
    then have "s' = s1" "\<exists>err. x = Inl err" using assms Inr y by (auto simp: streamDownload_def split: sum.splits)
    then show thesis using unanswered y by blast
  next
    case True
    then obtain resp where resp: "y = Inr resp" "resp_ok resp" by blast
    obtain z s2 where z: "put (hp_body resp) s1 = (z, s2)" by fastforce
    have "s' = s2" "is_ok x \<Longrightarrow> z = Inr () \<and> hp_break resp = None"
      using assms Inr y resp z by (auto simp: streamDownload_def is_ok_def split: sum.splits option.splits)
    then show thesis using put [of ?q resp s1] y resp z by simp
  qed
qed

text \<open>What the fetch leaves: the destination as it was, and in the temporary file the whole body if it succeeded.\<close>

definition fetched_whole :: "('k desktop, 'w) client \<Rightarrow> ('k desktop, 'w) wire \<Rightarrow> string \<Rightarrow> bool" where
  "fetched_whole c s body \<longleftrightarrow>
     (\<exists>q resp s1. client_Do (cl_http c) q s = (Inr resp, s1) \<and> resp_ok resp \<and> hp_break resp = None \<and> hp_body resp = body)"

lemma streamDownload_files:
  assumes "streamDownload c path (to_temp o' tmp) s = (x, s')" "tmp \<noteq> dest"
    and "unmoved (tp_store (cl_http c)) (\<lambda>d. dk_files d dest)" "unmoved (tp_store (cl_http c)) (\<lambda>d. dk_files d tmp)"
    and "dk_files (wr_store s) tmp = Some ([], 384)"
  shows "dk_files (wr_store s') dest = dk_files (wr_store s) dest"
    and "is_ok x \<Longrightarrow> \<exists>body. dk_files (wr_store s') tmp = Some (body, 384) \<and> fetched_whole c s body"
proof -
  have do: "dk_files (wr_store s1) dest = dk_files (wr_store s) dest \<and> dk_files (wr_store s1) tmp = Some ([], 384)"
    if "client_Do (cl_http c) q s = (y, s1)" for q y s1
    using client_Do_keeps [OF assms(3), of q s] client_Do_keeps [OF assms(4), of q s] that assms(5) by simp
  have "dk_files (wr_store s') dest = dk_files (wr_store s) dest \<and>
      (is_ok x \<longrightarrow> (\<exists>body. dk_files (wr_store s') tmp = Some (body, 384) \<and> fetched_whole c s body))"
    using assms(1)
  proof (cases rule: streamDownload_cases)
    case (unanswered err q y)
    then show ?thesis using do by auto
  next
    case (put q resp s1)
    have s': "wr_store s' = snd (os_write o' tmp (hp_body resp) (wr_store s1))"
      using put(3) by (simp add: to_temp_def on_store_def case_prod_beta)
    have ok: "dk_files (wr_store s') tmp = Some (hp_body resp, 384) \<and> hp_break resp = None" if "is_ok x"
    proof -
      have "fst (os_write o' tmp (hp_body resp) (wr_store s1)) = Inr ()"
        using put(4) [OF that] by (simp add: to_temp_def on_store_def case_prod_beta)
      then show ?thesis
        using do [OF put(1)] s' put(4) [OF that]
        by (auto simp: os_write_def put_data_def Let_def split: outcome.splits if_splits)
    qed
    have "dk_files (wr_store s') dest = dk_files (wr_store s) dest"
      using do [OF put(1)] s' assms(2) by (simp add: os_others(2))
    then show ?thesis using ok put(1,2) unfolding fetched_whole_def by blast
  qed simp
  then show "dk_files (wr_store s') dest = dk_files (wr_store s) dest"
    "is_ok x \<Longrightarrow> \<exists>body. dk_files (wr_store s') tmp = Some (body, 384) \<and> fetched_whole c s body" by blast+
qed

lemma os_rename_target:
  assumes "os_rename o' tmp dest d = (r, d')" "tmp \<noteq> dest"
  shows "dk_files d' dest \<in> {dk_files d dest, dk_files d tmp}" "r = Inr () \<Longrightarrow> dk_files d' dest = dk_files d tmp"
  using assms by (auto simp: os_rename_def os_call_def Let_def split: outcome.splits option.splits if_splits)

lemma dropped_temp_others: "q \<noteq> tmp \<Longrightarrow> dk_files (wr_store (dropped_temp o' tmp s)) q = dk_files (wr_store s) q"
  by (simp add: dropped_temp_def on_store_def case_prod_beta os_others(3))

lemma create_temp_new: "os_create_temp e dir p d = (Inr tmp, d') \<Longrightarrow> dk_files d' tmp = Some ([], 384)"
  by (auto simp: os_create_temp_def os_call_def Let_def split: outcome.splits if_splits)

lemma save_download_whole:
  assumes "save_download o' (streamDownload c path) fallback dest s = (r, s')"
    and "dest \<noteq> []" "\<not> is_digit (last dest)"
    and "unmoved (tp_store (cl_http c)) (\<lambda>d. dk_files d dest)"
    and "\<And>n. unmoved (tp_store (cl_http c)) (\<lambda>d. dk_files d (temp_name (path_dir dest) ''.dfms-download-'' n))"
  shows "(dk_files (wr_store s') dest = dk_files (wr_store s) dest \<and> \<not> is_ok r) \<or>
    (\<exists>body s0. dk_files (wr_store s') dest = Some (body, 384) \<and> fetched_whole c s0 body)"
proof -
  obtain x1 s1 where x1: "on_store (os_create_temp o' (path_dir dest) ''.dfms-download-'') s = (x1, s1)" by fastforce
  note c1 = on_store_result(3) [OF x1]
  let ?tmp = "temp_name (path_dir dest) ''.dfms-download-'' (os_tmp o' (Suc (dk_calls (wr_store s))))"
  have td: "?tmp \<noteq> dest" using temp_name_ne assms(2,3) by blast
  have d1: "dk_files (wr_store s1) dest = dk_files (wr_store s) dest"
    using os_create_temp_files(1) [OF td [symmetric]] c1 by (metis snd_conv)
  show ?thesis
  proof (cases x1)
    case (Inl err)
    then show ?thesis using assms(1,2) x1 d1 by (auto simp: save_download_def is_ok_def)
  next
    case (Inr tmp)
    have tmp: "tmp = ?tmp" using os_create_temp_files(2) c1 Inr by blast
    have t1: "dk_files (wr_store s1) tmp = Some ([], 384)" using create_temp_new c1 Inr by blast
    obtain info s2 where f: "streamDownload c path (to_temp o' tmp) s1 = (info, s2)" by fastforce
    note fr = streamDownload_files [OF f, of dest] 
    have d2: "dk_files (wr_store s2) dest = dk_files (wr_store s) dest"
      and b2: "is_ok info \<Longrightarrow> \<exists>body. dk_files (wr_store s2) tmp = Some (body, 384) \<and> fetched_whole c s1 body"
      using fr td tmp assms(4,5) t1 d1 by auto
    obtain x3 s3 where x3: "on_store (os_close o') s2 = (x3, s3)" by fastforce
    have d3: "dk_files (wr_store s3) = dk_files (wr_store s2)"
      using os_others(5) [of o' "wr_store s2"] on_store_result(3) [OF x3] by simp
    have drop: "dk_files (wr_store (dropped_temp o' tmp x)) dest = dk_files (wr_store x) dest" for x :: "('a desktop, 'b) wire"
      using td tmp dropped_temp_others by metis
    show ?thesis
    proof (cases "is_ok info \<and> is_ok x3")
      case False
      then have "s' = dropped_temp o' tmp s3" "\<not> is_ok r"
        using assms(1,2) x1 Inr f x3 by (auto simp: save_download_def is_ok_def split: sum.splits)
      then show ?thesis using drop td tmp d3 d2 by simp
    next
      case True
      obtain x4 s4 where x4: "on_store (os_rename o' tmp dest) s3 = (x4, s4)" by fastforce
      obtain body where body: "dk_files (wr_store s2) tmp = Some (body, 384)" "fetched_whole c s1 body" using b2 True by blast
      note rn = os_rename_target [OF on_store_result(3) [OF x4]]
      have s': "s' = (if is_ok x4 then s4 else dropped_temp o' tmp s4)" "is_ok r \<longleftrightarrow> is_ok x4"
        using assms(1,2) x1 Inr f x3 x4 True by (auto simp: save_download_def is_ok_def Let_def split: sum.splits)
      have e: "dk_files (wr_store s') dest = dk_files (wr_store s4) dest" using s' drop td tmp by simp
      show ?thesis
      proof (cases "dk_files (wr_store s4) dest = Some (body, 384)")
        case True
        then show ?thesis using e body(2) by auto
      next
        case False
        then have "dk_files (wr_store s4) dest = dk_files (wr_store s) dest" "\<not> is_ok x4"
          using rn td tmp d3 d2 body(1) by (auto elim!: is_okE)
        then show ?thesis using e s'(2) by simp
      qed
    qed
  qed
qed


lemma file_tokens_unmoved:
  assumes "dest \<noteq> []" "\<not> is_digit (last dest)" "dest \<noteq> tokens_path dir"
  shows "unmoved (contextTokens (fileStore e (tokens_path dir)) ctx) (\<lambda>d. dk_files d dest)"
    and "unmoved (contextTokens (fileStore e (tokens_path dir)) ctx) (\<lambda>d. dk_files d (temp_name x ''.dfms-download-'' n))"
proof -
  have "other_file (tokens_path dir) dest" using assms temp_name_ne unfolding other_file_def by metis
  then show "unmoved (contextTokens (fileStore e (tokens_path dir)) ctx) (\<lambda>d. dk_files d dest)" by (rule unmoved_file_tokens)
  have "other_file (tokens_path dir) (temp_name x ''.dfms-download-'' n)"
    using tokens_path_ok [of dir] by (intro download_temp_other) (simp_all add: file_path_ok_def)
  then show "unmoved (contextTokens (fileStore e (tokens_path dir)) ctx) (\<lambda>d. dk_files d (temp_name x ''.dfms-download-'' n))"
    by (rule unmoved_file_tokens)
qed


definition demo_client :: "((string \<times> string \<Rightarrow> string option) desktop, nat) client" where
  "demo_client = NewClient ''https://s'' demo_tp"


section \<open>Signing in\<close>

lemma call_json_decoded:
  assumes "call_json c m path payload (Some t) s = (Inr j, s')" "valid_type t"
  shows "valid_value j"
  using assms decode_body_valid
  by (auto simp: call_json_def doJSON_def split: sum.splits prod.splits if_splits)

lemma Login_storable:
  assumes "Login c email password s = (Inr t, s')"
  shows "storable_tokens t"
proof -
  obtain j where j: "call_json c ''POST'' pathLogin (Some (JObj [(''email'', JStr email), (''password'', JStr password)]))
      (Some authResponse_type) s = (Inr j, s')" "t = toTokens j"
    using assms by (auto simp: Login_def with_result_def apfst_def map_prod_def map_sum_def split: prod.splits sum.splits)
  show ?thesis
    using call_json_decoded [OF j(1) authResponse_valid] jget_valid jstr_valid j(2)
    by (simp add: storable_tokens_def toTokens_def tokens_of_def)
qed

text \<open>
  After a login that succeeds, the secrets file holds for the session's context the very tokens
  the server answered with.
\<close>

theorem login_keeps_session:
  assumes "keep_tokens ss out (Login c email password s) = (Inr out', s')"
    and "se_tokens ss = contextTokens (fileStore o' (tokens_path dir)) ctx" "valid_utf8 ctx"
  shows "\<exists>t s1. Login c email password s = (Inr t, s1) \<and> file_session dir ctx (wr_store s') = Some t"
proof -
  obtain t s1 where l: "Login c email password s = (Inr t, s1)" and k: "on_store (ts_save (se_tokens ss) t) s1 = (Inr (), s')"
    using assms(1) by (auto simp: keep_tokens_def split: prod.splits sum.splits)
  have "file_session dir ctx (wr_store s') = Some t"
    by (rule file_tokens.save_ok [OF assms(3) Login_storable [OF l]]) (use on_store_result(3) [OF k] assms(2) in simp)
  then show ?thesis using l by blast
qed

definition demo_session :: "(string \<times> string \<Rightarrow> string option) api_session" where
  "demo_session = \<lparr>se_url = ''https://s'', se_insecure = False, se_tokens = demo_store, se_context = ''prod'', se_threshold = 0\<rparr>"

definition fresh_wire :: "((string \<times> string \<Rightarrow> string option) desktop, nat) wire" where
  "fresh_wire = \<lparr>wr_store = new_desktop, wr_net = 0, wr_sent = [], wr_out = []\<rparr>"

lemma demo_login: "\<exists>s1. Login demo_client ''a'' ''b'' fresh_wire = (Inr \<lparr>tk_access = [], tk_refresh = []\<rparr>, s1) \<and> wr_store s1 = new_desktop"
proof -
  have p: "Parse (''https://s'' @ pathLogin) = Inr \<lparr>u_scheme = ''https'', u_host = ''s'', u_path = pathLogin, u_query = []\<rparr>" by code_simp
  have d: "map_sum id toTokens (decode_body authResponse_type demo_answer) = Inr \<lparr>tk_access = [], tk_refresh = []\<rparr>" by code_simp
  then obtain j where j: "decode_body authResponse_type demo_answer = Inr j" "toTokens j = \<lparr>tk_access = [], tk_refresh = []\<rparr>"
    by (cases "decode_body authResponse_type demo_answer") auto
  have ok: "resp_ok demo_answer" by (simp add: resp_ok_def demo_answer_def)
  have rt: "RoundTrip demo_tp q fresh_wire = (Inr demo_answer, fresh_wire\<lparr>wr_net := 1, wr_sent := [q]\<rparr>)"
    if "u_path (hq_url q) = pathLogin" for q
    using that by (simp add: RoundTrip_def isAuthEndpoint_def base_trip_def demo_tp_def fresh_wire_def)
  have b: "cl_base demo_client = ''https://s''" "cl_http demo_client = demo_tp" "tp_redirect demo_tp = (\<lambda>_ _. None)"
    by (simp_all add: demo_client_def NewClient_def trim_slashes_def trim_right_def demo_tp_def)
  show ?thesis
    using p j ok rt
    by (simp add: Login_def with_result_def call_json_def newJSONRequest_def NewRequest_def with_header_def doJSON_def client_Do_def
        eval_nat_numeral b fresh_wire_def Let_def)
qed

theorem login_keeps_session_witness:
  "file_session ''/c'' ''prod'' (wr_store (snd (keep_tokens demo_session [] (Login demo_client ''a'' ''b'' fresh_wire)))) =
     Some \<lparr>tk_access = [], tk_refresh = []\<rparr>"
proof -
  obtain s1 where l: "Login demo_client ''a'' ''b'' fresh_wire = (Inr \<lparr>tk_access = [], tk_refresh = []\<rparr>, s1)" "wr_store s1 = new_desktop"
    using demo_login by blast
  have "fst (ts_save demo_store \<lparr>tk_access = [], tk_refresh = []\<rparr> new_desktop) = Inr ()"
    using calm_save by (simp add: demo_store_def)
  then have "fst (keep_tokens demo_session [] (Login demo_client ''a'' ''b'' fresh_wire)) = Inr []"
    using l by (simp add: keep_tokens_def demo_session_def on_store_def case_prod_beta split: sum.splits)
  then have k: "keep_tokens demo_session [] (Login demo_client ''a'' ''b'' fresh_wire) =
      (Inr [], snd (keep_tokens demo_session [] (Login demo_client ''a'' ''b'' fresh_wire)))" by (metis prod.collapse)
  have "valid_utf8 ''prod''" by (simp add: valid_ascii ascii_def)
  then show ?thesis
    using login_keeps_session [OF k, of calm_env "''/c''" "''prod''"] l(1) by (simp add: demo_session_def demo_store_def)
qed

end
