(* ===== verification/ClientServer.thy ===== *)
theory ClientServer
  imports FolderApi Downloads
begin

text \<open>
  The client and the gateway together: what the client writes into a request, the handlers of the gateway
  read back; what the gateway writes into a response, the client reads back.
\<close>

section \<open>The query of a request\<close>

lemma beyond_hit: "c \<notin> set a \<Longrightarrow> beyond c (a @ c # e) = e"
  by (induction a) (auto simp: beyond_def)

lemma beyond_skip: "c \<notin> set a \<Longrightarrow> beyond c (a @ s) = beyond c s"
  by (induction a) (auto simp: beyond_def)

lemma getScheme_suffix:
  assumes "getScheme s = Inr (scheme, r)"
  shows "\<exists>p. s = p @ r \<and> CHR ''?'' \<notin> set p"
proof -
  let ?P = "\<lambda>c. is_letter c \<or> is_digit c \<or> c \<in> set ''+-.''"
  let ?p = "takeWhile ?P s"
  have "\<not> ?P CHR ''?''" by (simp add: is_letter_def is_digit_def)
  then have p: "CHR ''?'' \<notin> set ?p" using set_takeWhileD [of "CHR ''?''" ?P s] by blast
  have s: "s = ?p @ drop (length ?p) s" using takeWhile_eq_take [of ?P s] append_take_drop_id [of "length ?p" s] by simp
  have "r = s \<or> (drop (length ?p) s = CHR '':'' # r)"
    using assms by (cases "drop (length ?p) s") (auto simp: getScheme_def Let_def split: if_splits)
  then show ?thesis
  proof
    assume "drop (length ?p) s = CHR '':'' # r"
    then have "s = (?p @ '':'') @ r" using s by simp
    then show ?thesis using p by (intro exI [of _ "?p @ '':''"]) simp
  qed auto
qed

lemma finish_path_query: "finish_path u p = Inr v \<Longrightarrow> u_query v = u_query u"
  by (auto simp: finish_path_def split: option.splits)

lemma parse_url_query:
  assumes "parse_url s = Inr u" "s \<noteq> ''*''"
  shows "u_query u = beyond CHR ''?'' s"
proof -
  obtain scheme r0 where g: "getScheme s = Inr (scheme, r0)"
    using assms by (auto simp: parse_url_def Let_def split: if_splits sum.splits)
  have "u_query u = beyond CHR ''?'' r0"
    using assms g by (auto simp: parse_url_def Let_def dest!: finish_path_query split: if_splits sum.splits)
  then show ?thesis using getScheme_suffix [OF g] beyond_skip by auto
qed

lemma Encode_plain: "CHR ''#'' \<notin> set (Encode q)"
proof -
  have j: "CHR ''#'' \<notin> set (join_with ''&'' ss)" if "\<forall>s \<in> set ss. CHR ''#'' \<notin> set s" for ss
    using that by (induction "''&''" ss rule: join_with.induct) auto
  have "CHR ''#'' \<notin> set (QueryEscape s)" for s using QueryEscape_plain [of "CHR ''#''" s] by (auto simp: url_plain_def)
  then show ?thesis unfolding Encode_def by (intro j) auto
qed

lemma Parse_query:
  assumes "Parse (a @ ''?'' @ Encode q) = Inr u" "CHR ''?'' \<notin> set a" "CHR ''#'' \<notin> set a"
  shows "u_query u = Encode q"
proof -
  let ?s = "a @ ''?'' @ Encode q"
  have "until CHR ''#'' ?s = ?s"
    using assms(3) Encode_plain [of q] by (auto simp: until_def takeWhile_eq_all_conv)
  then have p: "parse_url ?s = Inr u" using assms(1) by (auto simp: Parse_def split: sum.splits if_splits)
  have "u_query u = beyond CHR ''?'' ?s" by (rule parse_url_query [OF p]) (cases a; auto)
  then show ?thesis using beyond_hit [OF assms(2), of "Encode q"] by simp
qed

lemma newJSONRequest_query:
  assumes "newJSONRequest c m (path @ ''?'' @ Encode q) payload = Inr r"
    and "CHR ''?'' \<notin> set (cl_base c @ path)" "CHR ''#'' \<notin> set (cl_base c @ path)"
  shows "u_query (hq_url r) = Encode q"
proof -
  obtain u where u: "Parse ((cl_base c @ path) @ ''?'' @ Encode q) = Inr u" "hq_url r = u"
    using assms(1) by (auto simp: newJSONRequest_def NewRequest_def with_header_def Let_def split: sum.splits if_splits)
  show ?thesis using Parse_query [OF u(1) assms(2,3)] u(2) by simp
qed

section \<open>Search\<close>

text \<open>A request the gateway gets: its query is the one of the URL, parsed.\<close>

definition carries :: "hreq \<Rightarrow> ctx \<Rightarrow> bool" where
  "carries q cx \<longleftrightarrow> rq_query (cx_req cx) = ParseQuery (u_query (hq_url q))"

definition plain_base :: "('s, 'w) client \<Rightarrow> bool" where
  "plain_base c \<longleftrightarrow> CHR ''?'' \<notin> set (cl_base c) \<and> CHR ''#'' \<notin> set (cl_base c)"

lemma map_of_sort: "distinct (map fst q) \<Longrightarrow> map_of (sort_key fst q) = map_of q"
proof (rule map_of_inject_set [THEN iffD2])
  assume d: "distinct (map fst q)"
  have "mset (map fst (sort_key fst q)) = mset (map fst q)" by simp
  then show "distinct (map fst (sort_key fst q))" using d mset_eq_imp_distinct_iff by blast
qed simp_all

lemma carried_values:
  assumes "newJSONRequest c m (path @ ''?'' @ Encode q) payload = Inr r" "carries r cx" "plain_base c"
    and "CHR ''?'' \<notin> set path" "CHR ''#'' \<notin> set path" "distinct (map fst q)"
  shows "query_get (cx_req cx) name = (case map_of q name of None \<Rightarrow> [] | Some v \<Rightarrow> v)"
    and "default_query (cx_req cx) name d = (case map_of q name of None \<Rightarrow> d | Some v \<Rightarrow> v)"
proof -
  have "rq_query (cx_req cx) = sort_key fst q"
    using newJSONRequest_query [OF assms(1)] assms(2-5) by (simp add: carries_def plain_base_def ParseQuery_Encode)
  then have "map_of (rq_query (cx_req cx)) = map_of q" using map_of_sort [OF assms(6)] by simp
  then show "query_get (cx_req cx) name = (case map_of q name of None \<Rightarrow> [] | Some v \<Rightarrow> v)"
    "default_query (cx_req cx) name d = (case map_of q name of None \<Rightarrow> d | Some v \<Rightarrow> v)"
    by (simp_all add: query_get_def default_query_def)
qed

lemma search_values_distinct: "distinct (map fst (search_values so))"
  by (simp add: search_values_def opt_pair_def split: option.splits)

definition plain_options :: "search_options \<Rightarrow> bool" where
  "plain_options so \<longleftrightarrow>
     pred_option in_i64 (so_min so) \<and> pred_option in_i64 (so_max so) \<and> so_after so \<noteq> Some [] \<and> so_before so \<noteq> Some [] \<and>
     in_i64 (so_page so) \<and> in_i64 (so_page_size so)"

definition search_request :: "('s, 'w) client \<Rightarrow> search_options \<Rightarrow> cli_error + hreq" where
  "search_request c so = newJSONRequest c ''GET'' (pathSearch @ ''?'' @ Encode (search_values so)) None"

lemma itoa_not_empty: "itoa n \<noteq> []"
  by (simp add: itoa_def)


lemma in_i64_defaults: "in_i64 1" "in_i64 20" "itoa 1 = ''1''" "itoa 20 = ''20''"
  by (simp_all add: in_i64_def) code_simp+

lemma atoi_itoa: "in_i64 n \<Longrightarrow> fst (atoi (itoa n)) = n"
  by (simp add: atoi_def parse_int_itoa)

text \<open>
  C32: the options of a search arrive as they were given: from the request the client sends, the gateway
  reads the search text, whatever characters it has, the type, the sizes and the times, absent where
  they were not given, and the page and page size or their defaults.
\<close>

theorem search_options_arrive:
  assumes "search_request c so = Inr r" "carries r cx" "plain_base c" "plain_options so"
  shows "search_args g cx =
    \<lparr>sq_query = so_query so, sq_mime = so_mime so, sq_min = so_min so, sq_max = so_max so,
     sq_after = Option.bind (so_after so) (gw_time g), sq_before = Option.bind (so_before so) (gw_time g),
     sq_page = (if 0 < so_page so then so_page so else 1),
     sq_page_size = (if 0 < so_page_size so then so_page_size so else 20)\<rparr>"
proof -
  note cv = carried_values [OF assms(1) [unfolded search_request_def] assms(2,3) _ _ search_values_distinct]
  have get: "query_get (cx_req cx) name = (case map_of (search_values so) name of None \<Rightarrow> [] | Some v \<Rightarrow> v)" for name
    by (rule cv(1)) simp_all
  have def': "default_query (cx_req cx) name d = (case map_of (search_values so) name of None \<Rightarrow> d | Some v \<Rightarrow> v)" for name d
    by (rule cv(2)) simp_all
  have num: "fst (parse_int (itoa n)) = n" if "in_i64 n" for n using parse_int_itoa [OF that] by simp
  have v: "map_of (search_values so) ''q'' = Some (so_query so)"
    "map_of (search_values so) ''type'' = (if so_mime so \<noteq> [] then Some (so_mime so) else None)"
    "map_of (search_values so) ''min_size'' = map_option itoa (so_min so)"
    "map_of (search_values so) ''max_size'' = map_option itoa (so_max so)"
    "map_of (search_values so) ''after'' = so_after so" "map_of (search_values so) ''before'' = so_before so"
    "map_of (search_values so) ''page'' = (if 0 < so_page so then Some (itoa (so_page so)) else None)"
    "map_of (search_values so) ''page_size'' = (if 0 < so_page_size so then Some (itoa (so_page_size so)) else None)"
    by (simp_all add: search_values_def opt_pair_def split: option.splits)
  have one: "fst (atoi ''1'') = 1" "fst (atoi ''20'') = 20" using atoi_itoa in_i64_defaults by metis+
  have p: "pred_option in_i64 (so_min so)" "pred_option in_i64 (so_max so)" "so_after so \<noteq> Some []" "so_before so \<noteq> Some []"
    "in_i64 (so_page so)" "in_i64 (so_page_size so)" using assms(4) by (simp_all add: plain_options_def)
  have ints: "(if q = [] then None else Some (fst (parse_int q))) = x"
    if "q = (case map_option itoa x of None \<Rightarrow> [] | Some v \<Rightarrow> v)" "pred_option in_i64 x" for q x
    using that num itoa_not_empty by (cases x) auto
  have times: "(if q = [] then None else gw_time g q) = Option.bind x (gw_time g)"
    if "q = (case x of None \<Rightarrow> [] | Some v \<Rightarrow> v)" "x \<noteq> Some []" for q x
    using that by (cases x) auto
  show ?thesis
    unfolding search_args_def Let_def query_int_def get def' v
    using ints [OF refl p(1)] ints [OF refl p(2)] times [OF refl p(3)] times [OF refl p(4)] p(5,6) one
    by (simp add: atoi_itoa)
qed

definition demo_options :: search_options where
  "demo_options = \<lparr>so_query = ''a b&c=%?#'', so_mime = [], so_min = Some 10, so_max = None, so_after = None, so_before = None,
                   so_page = 2, so_page_size = 0\<rparr>"

definition demo_search :: ctx where
  "demo_search = demo_post\<lparr>cx_req := (cx_req demo_post)\<lparr>rq_query := [(''min_size'', ''10''), (''page'', ''2''), (''q'', ''a b&c=%?#'')]\<rparr>\<rparr>"

theorem search_options_arrive_witness:
  "search_args demo_gateway demo_search =
    \<lparr>sq_query = ''a b&c=%?#'', sq_mime = [], sq_min = Some 10, sq_max = None, sq_after = None, sq_before = None,
     sq_page = 2, sq_page_size = 20\<rparr>"
proof -
  have base: "cl_base demo_client = ''https://s''" "cl_agent demo_client = ''dfmsctl''"
    by (simp_all add: demo_client_def NewClient_def trim_slashes_def trim_right_def)
  have ok: "is_ok (Parse (''https://s'' @ pathSearch @ ''?'' @ Encode (search_values demo_options)))" by code_simp
  then obtain r where r: "search_request demo_client demo_options = Inr r"
    by (auto simp: search_request_def newJSONRequest_def NewRequest_def base Let_def is_ok_def split: sum.splits)
  have "u_query (hq_url r) = Encode (search_values demo_options)"
    using newJSONRequest_query [OF r [unfolded search_request_def]] by (simp add: base)
  moreover have "sort_key fst (search_values demo_options) = [(''min_size'', ''10''), (''page'', ''2''), (''q'', ''a b&c=%?#'')]" by code_simp
  ultimately have "carries r demo_search" by (simp add: carries_def demo_search_def ParseQuery_Encode)
  moreover have "plain_options demo_options" by (simp add: plain_options_def demo_options_def in_i64_def)
  ultimately show ?thesis
    using search_options_arrive [OF r, of demo_search demo_gateway] by (simp add: plain_base_def base demo_options_def)
qed

section \<open>Names of files\<close>

definition printable :: "string \<Rightarrow> bool" where
  "printable s \<longleftrightarrow> list_all (\<lambda>c. 32 \<le> code_of c \<and> code_of c < 127) s"

lemma quote_ascii_printable:
  assumes "32 \<le> code_of c" "code_of c < 127"
  shows "quote_ascii c = (if c = quote_char \<or> c = backslash then [backslash, c] else [c])"
  using assms by (simp add: quote_ascii_def Let_def)

lemma quote_body_printable: "printable s \<Longrightarrow> quote_body s = escape_quotes s"
proof (induction s)
  case Nil
  then show ?case by (simp add: escape_quotes_def)
next
  case (Cons c s)
  then have c: "32 \<le> code_of c" "code_of c < 127" "printable s" by (simp_all add: printable_def)
  then show ?case using Cons.IH by (simp add: quote_ascii_printable escape_quotes_Cons Let_def)
qed

lemma escape_quotes_printable: "printable s \<Longrightarrow> printable (escape_quotes s)"
  by (induction s) (auto simp: printable_def escape_quotes_def)

lemma escape_quotes_plain: "quotable s \<Longrightarrow> escape_quotes s = s"
  by (induction s) (auto simp: quotable_def escape_quotes_def)

text \<open>
  C35: the name under which a printable name is uploaded, as the gateway reads it from the header of the
  part: every quote and backslash in it has got a backslash in front that nobody takes off again, since
  the client escapes the name once by itself and once with \<^verbatim>\<open>%q\<close>; a name without them arrives as it is.
\<close>

theorem upload_name_arrives:
  assumes "printable name"
  shows "param_of (part_disposition name) ''filename'' = escape_quotes name \<and>
    param_of (part_disposition name) ''name'' = ''file'' \<and>
    (quotable name \<longrightarrow> param_of (part_disposition name) ''filename'' = name)"
proof -
  let ?q = "escape_quotes (escape_quotes name) @ [quote_char]"
  have "list_all (\<lambda>c. code_of c \<noteq> 13 \<and> code_of c \<noteq> 10) (escape_quotes name)"
    using escape_quotes_printable [OF assms] by (auto simp: printable_def list_all_iff)
  then have q: "quoted ?q = Some (escape_quotes name, [])" by (rule quoted_escaped)
  have "part_disposition name = ''form-data; name='' @ [quote_char] @ ''file'' @ [quote_char] @ ''; filename='' @ quote_char # ?q"
    using quote_body_printable [OF escape_quotes_printable [OF assms]] by (simp add: part_disposition_def go_quote_def)
  then have "param_of (part_disposition name) ''filename'' = escape_quotes name" "param_of (part_disposition name) ''name'' = ''file''"
    using param_form_data [OF q] by (simp_all only:)
  then show ?thesis using escape_quotes_plain by simp
qed

theorem upload_name_arrives_witness:
  "param_of (part_disposition ''report 1.txt'') ''filename'' = ''report 1.txt'' \<and>
   param_of (part_disposition (''a'' @ [quote_char] @ ''b'')) ''filename'' = ''a'' @ [backslash, quote_char] @ ''b''"
  using upload_name_arrives [of "''report 1.txt''"] upload_name_arrives [of "''a'' @ [quote_char] @ ''b''"]
  by (simp add: printable_def quotable_def escape_quotes_def)

lemma broken_disposition:
  "param_of (''attachment; filename='' @ quote_char # ''a'' @ quote_char # ''b'' @ [quote_char]) ''filename'' = []"
proof -
  let ?s = "''a'' @ quote_char # ''b'' @ [quote_char]"
  have q: "quoted ?s = Some (''a'', ''b'' @ [quote_char])" by (rule quoted_plain) (simp add: quotable_def)
  have t: "trim_left_space (''b'' @ [quote_char]) = ''b'' @ [quote_char]" by (simp add: trim_left_ascii is_space_def)
  have e: "raw_params (''b'' @ [quote_char]) ps = Inl ''mime: invalid media parameter''" for ps
    by (subst raw_params.simps)
      (simp add: t [simplified] consumeMediaParam_def Let_def has_prefix_def trim_space_def is_space_def)
  have "raw_params (drop 10 (''attachment; filename='' @ quote_char # ?s)) [] = Inl ''mime: invalid media parameter''"
    using raw_params_quoted [OF q _ token_chars(1), of "[]"] e by (simp add: lower_names)
  moreover have "until CHR '';'' (''attachment; filename='' @ x) = ''attachment''" for x by (simp add: until_def)
  ultimately show ?thesis
    unfolding param_of_def ParseMediaType_def Let_def by (simp add: lower_names dispositions_ok)
qed

text \<open>
  The name the gateway puts into the header of a download is the one the client reads from it, as
  long as it has no quote, backslash or line break, whatever bytes it has otherwise; with a quote in
  it the client may read none, and saves the file under its id.
\<close>

theorem download_name_arrives:
  assumes "resp_header resp ''Content-Disposition'' = snd (last (download_headers name mime))"
  shows "(quotable name \<longrightarrow> filenameFromDisposition (resp_header resp ''Content-Disposition'') = name) \<and>
    (name = ''a'' @ [quote_char] @ ''b'' \<longrightarrow> filenameFromDisposition (resp_header resp ''Content-Disposition'') = [])"
proof -
  have h: "resp_header resp ''Content-Disposition'' = ''attachment; filename='' @ quote_char # name @ [quote_char]"
    using assms by (simp add: download_headers_def)
  have "filenameFromDisposition (''attachment; filename='' @ quote_char # name @ [quote_char]) = name" if "quotable name"
    using param_attachment [OF quoted_plain [OF that]] by (simp add: filenameFromDisposition_def)
  moreover have "filenameFromDisposition (''attachment; filename='' @ quote_char # (''a'' @ [quote_char] @ ''b'') @ [quote_char]) = []"
    using broken_disposition by (simp add: filenameFromDisposition_def)
  ultimately show ?thesis using h by simp
qed

theorem download_name_arrives_witness:
  "filenameFromDisposition (resp_header \<lparr>hp_status = 200, hp_headers = download_headers ''r.txt'' [], hp_length = 0, hp_body = [],
     hp_break = None\<rparr> ''Content-Disposition'') = ''r.txt''"
proof -
  have "resp_header \<lparr>hp_status = 200, hp_headers = download_headers ''r.txt'' [], hp_length = 0, hp_body = [], hp_break = None\<rparr>
      ''Content-Disposition'' = snd (last (download_headers ''r.txt'' []))" by code_simp
  then show ?thesis using download_name_arrives [of _ "''r.txt''" "[]"] by (simp add: quotable_def)
qed

end
