(* ===== verification/Settings.thy ===== *)
theory Settings
  imports Auth Urls Chunking
begin

text \<open>
  The configuration of the services (\<^verbatim>\<open>internal/config/config.go\<close>): its sections, their defaults, how a
  file and environment variables override them, and the checks a loaded configuration has passed.  The
  \<^verbatim>\<open>viper\<close> library is a parameter; what its documentation promises is \<open>viper_ok\<close>.
\<close>

section \<open>The viper library\<close>

text \<open>A value as YAML gives it.\<close>

datatype setting = SInt int | SBool bool | SText string | STexts "string list"

text \<open>
  An instance as \<^verbatim>\<open>Load\<close> prepares it: defaults in the order they were set, the leaves of the file that was
  read, under their dotted keys, the prefix of environment variables, the replaced character of their
  names, and whether they are looked up.
\<close>

record viper =
  vp_defaults :: "(string \<times> setting) list"
  vp_file :: "string \<Rightarrow> setting option"
  vp_prefix :: string
  vp_replace :: "(char \<times> char) option"
  vp_automatic :: bool

text \<open>
  The library: reading a file, the value under a key as decoding sees it, with the environment as second
  argument, the weakly typed conversions, and the error that lists the keys that did not convert.
\<close>

record viper_lib =
  vl_read :: "string \<Rightarrow> (string \<Rightarrow> setting option) result"
  vl_get :: "viper \<Rightarrow> (string \<Rightarrow> string option) \<Rightarrow> string \<Rightarrow> setting option"
  vl_int :: "setting \<Rightarrow> int option"
  vl_int32 :: "setting \<Rightarrow> int option"
  vl_text :: "setting \<Rightarrow> string option"
  vl_bool :: "setting \<Rightarrow> bool option"
  vl_texts :: "setting \<Rightarrow> string list option"
  vl_duration :: "setting \<Rightarrow> int option"
  vl_error :: "string list \<Rightarrow> go_error"

definition new_viper :: viper where
  "new_viper = \<lparr>vp_defaults = [], vp_file = (\<lambda>_. None), vp_prefix = [], vp_replace = None, vp_automatic = False\<rparr>"

definition SetDefault :: "string \<Rightarrow> setting \<Rightarrow> viper \<Rightarrow> viper" where
  "SetDefault k s v = v\<lparr>vp_defaults := vp_defaults v @ [(k, s)]\<rparr>"

section \<open>The sections\<close>

record server_config =
  sv_http_port :: int
  sv_grpc_port :: int
  sv_mode :: string

record chunk_service_config =
  cs_grpc_addr :: string

record database_config =
  db_host :: string
  db_port :: int
  db_user :: string
  db_password :: string
  db_database :: string
  db_max_connections :: int
  db_min_connections :: int
  db_ssl_mode :: string

record redis_config =
  rd_addr :: string
  rd_password :: string
  rd_db :: int
  rd_pool_size :: int

record minio_config =
  mi_endpoints :: "string list"
  mi_access_key :: string
  mi_secret_key :: string
  mi_use_ssl :: bool
  mi_chunk_bucket :: string
  mi_temp_bucket :: string

record kafka_config =
  ka_brokers :: "string list"
  ka_consumer_group :: string

text \<open>The paths of the keys, and what \<^verbatim>\<open>NewJWTService\<close> keeps of \<^verbatim>\<open>JWTConfig\<close>.\<close>

record jwt_section =
  jx_private_key_path :: string
  jx_public_key_path :: string
  jx_jwt :: jwt_config

record chunking_config =
  ck_min_size :: int
  ck_avg_size :: int
  ck_max_size :: int

record replication_config =
  rp_factor :: int
  rp_virtual_nodes :: int

record rate_limit_config =
  rl_global_rpm :: int
  rl_user_rpm :: int
  rl_upload_rpm :: int
  rl_download_rpm :: int
  rl_auth_rpm :: int

record storage_config =
  sg_default_quota :: int
  sg_max_upload_size :: int

record gc_section =
  gx_scan_interval :: int
  gx_grace_period :: int
  gx_batch_size :: int

record health_config =
  hm_check_interval :: int
  hm_timeout :: int

record service_config =
  cf_server :: server_config
  cf_chunk_service :: chunk_service_config
  cf_database :: database_config
  cf_redis :: redis_config
  cf_minio :: minio_config
  cf_kafka :: kafka_config
  cf_jwt :: jwt_section
  cf_chunking :: chunking_config
  cf_replication :: replication_config
  cf_rate_limit :: rate_limit_config
  cf_storage :: storage_config
  cf_gc :: gc_section
  cf_health_monitor :: health_config

definition DSN :: "database_config \<Rightarrow> string" where
  "DSN d =
     ''postgres://'' @ db_user d @ '':'' @ db_password d @ ''@'' @ db_host d @ '':'' @ itoa (db_port d) @ ''/'' @
     db_database d @ ''?sslmode='' @ db_ssl_mode d"


section \<open>Decoding\<close>

text \<open>A key without a value leaves its field at the zero value; a value that does not convert is an error.\<close>

definition field_value :: "(string \<Rightarrow> setting option) \<Rightarrow> (setting \<Rightarrow> 'a option) \<Rightarrow> 'a \<Rightarrow> string \<Rightarrow> 'a" where
  "field_value get conv zero k = (case Option.bind (get k) conv of None \<Rightarrow> zero | Some x \<Rightarrow> x)"

definition unreadable :: "(string \<Rightarrow> setting option) \<Rightarrow> (setting \<Rightarrow> 'a option) \<Rightarrow> string \<Rightarrow> string list" where
  "unreadable get conv k = (case get k of None \<Rightarrow> [] | Some s \<Rightarrow> if conv s = None then [k] else [])"

definition decode_server :: "viper_lib \<Rightarrow> (string \<Rightarrow> setting option) \<Rightarrow> server_config" where
  "decode_server l get =
     \<lparr>sv_http_port = field_value get (vl_int l) 0 ''server.http_port'',
      sv_grpc_port = field_value get (vl_int l) 0 ''server.grpc_port'',
      sv_mode = field_value get (vl_text l) [] ''server.mode''\<rparr>"

definition decode_chunk_service :: "viper_lib \<Rightarrow> (string \<Rightarrow> setting option) \<Rightarrow> chunk_service_config" where
  "decode_chunk_service l get = \<lparr>cs_grpc_addr = field_value get (vl_text l) [] ''chunk_service.grpc_addr''\<rparr>"

definition decode_database :: "viper_lib \<Rightarrow> (string \<Rightarrow> setting option) \<Rightarrow> database_config" where
  "decode_database l get =
     \<lparr>db_host = field_value get (vl_text l) [] ''database.host'',
      db_port = field_value get (vl_int l) 0 ''database.port'',
      db_user = field_value get (vl_text l) [] ''database.user'',
      db_password = field_value get (vl_text l) [] ''database.password'',
      db_database = field_value get (vl_text l) [] ''database.database'',
      db_max_connections = field_value get (vl_int32 l) 0 ''database.max_connections'',
      db_min_connections = field_value get (vl_int32 l) 0 ''database.min_connections'',
      db_ssl_mode = field_value get (vl_text l) [] ''database.ssl_mode''\<rparr>"

definition decode_redis :: "viper_lib \<Rightarrow> (string \<Rightarrow> setting option) \<Rightarrow> redis_config" where
  "decode_redis l get =
     \<lparr>rd_addr = field_value get (vl_text l) [] ''redis.addr'',
      rd_password = field_value get (vl_text l) [] ''redis.password'',
      rd_db = field_value get (vl_int l) 0 ''redis.db'',
      rd_pool_size = field_value get (vl_int l) 0 ''redis.pool_size''\<rparr>"

definition decode_minio :: "viper_lib \<Rightarrow> (string \<Rightarrow> setting option) \<Rightarrow> minio_config" where
  "decode_minio l get =
     \<lparr>mi_endpoints = field_value get (vl_texts l) [] ''minio.endpoints'',
      mi_access_key = field_value get (vl_text l) [] ''minio.access_key'',
      mi_secret_key = field_value get (vl_text l) [] ''minio.secret_key'',
      mi_use_ssl = field_value get (vl_bool l) False ''minio.use_ssl'',
      mi_chunk_bucket = field_value get (vl_text l) [] ''minio.chunk_bucket'',
      mi_temp_bucket = field_value get (vl_text l) [] ''minio.temp_bucket''\<rparr>"

definition decode_kafka :: "viper_lib \<Rightarrow> (string \<Rightarrow> setting option) \<Rightarrow> kafka_config" where
  "decode_kafka l get =
     \<lparr>ka_brokers = field_value get (vl_texts l) [] ''kafka.brokers'',
      ka_consumer_group = field_value get (vl_text l) [] ''kafka.consumer_group''\<rparr>"

definition decode_jwt :: "viper_lib \<Rightarrow> (string \<Rightarrow> setting option) \<Rightarrow> jwt_section" where
  "decode_jwt l get =
     \<lparr>jx_private_key_path = field_value get (vl_text l) [] ''jwt.private_key_path'',
      jx_public_key_path = field_value get (vl_text l) [] ''jwt.public_key_path'',
      jx_jwt = \<lparr>jw_issuer = field_value get (vl_text l) [] ''jwt.issuer'',
        jw_access_ttl = field_value get (vl_duration l) 0 ''jwt.access_ttl'',
        jw_refresh_ttl = field_value get (vl_duration l) 0 ''jwt.refresh_ttl''\<rparr>\<rparr>"

definition decode_chunking :: "viper_lib \<Rightarrow> (string \<Rightarrow> setting option) \<Rightarrow> chunking_config" where
  "decode_chunking l get =
     \<lparr>ck_min_size = field_value get (vl_int l) 0 ''chunking.min_size'',
      ck_avg_size = field_value get (vl_int l) 0 ''chunking.avg_size'',
      ck_max_size = field_value get (vl_int l) 0 ''chunking.max_size''\<rparr>"

definition decode_replication :: "viper_lib \<Rightarrow> (string \<Rightarrow> setting option) \<Rightarrow> replication_config" where
  "decode_replication l get =
     \<lparr>rp_factor = field_value get (vl_int l) 0 ''replication.factor'',
      rp_virtual_nodes = field_value get (vl_int l) 0 ''replication.virtual_nodes''\<rparr>"

definition decode_rate_limit :: "viper_lib \<Rightarrow> (string \<Rightarrow> setting option) \<Rightarrow> rate_limit_config" where
  "decode_rate_limit l get =
     \<lparr>rl_global_rpm = field_value get (vl_int l) 0 ''rate_limit.global_rpm'',
      rl_user_rpm = field_value get (vl_int l) 0 ''rate_limit.user_rpm'',
      rl_upload_rpm = field_value get (vl_int l) 0 ''rate_limit.upload_rpm'',
      rl_download_rpm = field_value get (vl_int l) 0 ''rate_limit.download_rpm'',
      rl_auth_rpm = field_value get (vl_int l) 0 ''rate_limit.auth_rpm''\<rparr>"

definition decode_storage :: "viper_lib \<Rightarrow> (string \<Rightarrow> setting option) \<Rightarrow> storage_config" where
  "decode_storage l get =
     \<lparr>sg_default_quota = field_value get (vl_int l) 0 ''storage.default_quota'',
      sg_max_upload_size = field_value get (vl_int l) 0 ''storage.max_upload_size''\<rparr>"

definition decode_gc :: "viper_lib \<Rightarrow> (string \<Rightarrow> setting option) \<Rightarrow> gc_section" where
  "decode_gc l get =
     \<lparr>gx_scan_interval = field_value get (vl_duration l) 0 ''gc.scan_interval'',
      gx_grace_period = field_value get (vl_duration l) 0 ''gc.grace_period'',
      gx_batch_size = field_value get (vl_int l) 0 ''gc.batch_size''\<rparr>"

definition decode_health_monitor :: "viper_lib \<Rightarrow> (string \<Rightarrow> setting option) \<Rightarrow> health_config" where
  "decode_health_monitor l get =
     \<lparr>hm_check_interval = field_value get (vl_duration l) 0 ''health_monitor.check_interval'',
      hm_timeout = field_value get (vl_duration l) 0 ''health_monitor.timeout''\<rparr>"

definition decode_config :: "viper_lib \<Rightarrow> (string \<Rightarrow> setting option) \<Rightarrow> service_config" where
  "decode_config l get =
     \<lparr>cf_server = decode_server l get, cf_chunk_service = decode_chunk_service l get,
      cf_database = decode_database l get, cf_redis = decode_redis l get, cf_minio = decode_minio l get,
      cf_kafka = decode_kafka l get, cf_jwt = decode_jwt l get, cf_chunking = decode_chunking l get,
      cf_replication = decode_replication l get, cf_rate_limit = decode_rate_limit l get,
      cf_storage = decode_storage l get, cf_gc = decode_gc l get, cf_health_monitor = decode_health_monitor l get\<rparr>"

text \<open>The keys by the type of their fields.\<close>

definition int_keys :: "string list" where
  "int_keys =
     [''server.http_port'', ''server.grpc_port'', ''database.port'', ''redis.db'', ''redis.pool_size'',
      ''chunking.min_size'', ''chunking.avg_size'', ''chunking.max_size'',
      ''replication.factor'', ''replication.virtual_nodes'',
      ''rate_limit.global_rpm'', ''rate_limit.user_rpm'', ''rate_limit.upload_rpm'', ''rate_limit.download_rpm'',
      ''rate_limit.auth_rpm'', ''storage.default_quota'', ''storage.max_upload_size'', ''gc.batch_size'']"

definition text_keys :: "string list" where
  "text_keys =
     [''server.mode'', ''chunk_service.grpc_addr'', ''database.host'', ''database.user'', ''database.password'',
      ''database.database'', ''database.ssl_mode'', ''redis.addr'', ''redis.password'', ''minio.access_key'',
      ''minio.secret_key'', ''minio.chunk_bucket'', ''minio.temp_bucket'', ''kafka.consumer_group'',
      ''jwt.private_key_path'', ''jwt.public_key_path'', ''jwt.issuer'']"

definition duration_keys :: "string list" where
  "duration_keys =
     [''jwt.access_ttl'', ''jwt.refresh_ttl'', ''gc.scan_interval'', ''gc.grace_period'',
      ''health_monitor.check_interval'', ''health_monitor.timeout'']"

definition Unmarshal :: "viper_lib \<Rightarrow> (string \<Rightarrow> setting option) \<Rightarrow> service_config result" where
  "Unmarshal l get =
     (let bad = concat (map (unreadable get (vl_int l)) int_keys)
            @ concat (map (unreadable get (vl_int32 l)) [''database.max_connections'', ''database.min_connections''])
            @ concat (map (unreadable get (vl_text l)) text_keys)
            @ unreadable get (vl_bool l) ''minio.use_ssl''
            @ concat (map (unreadable get (vl_texts l)) [''minio.endpoints'', ''kafka.brokers''])
            @ concat (map (unreadable get (vl_duration l)) duration_keys) in
      if bad = [] then Inr (decode_config l get) else Inl (vl_error l bad))"

section \<open>Load and Validate\<close>

definition setDefaults :: "viper \<Rightarrow> viper" where
  "setDefaults v =
     fold (\<lambda>(k, s). SetDefault k s)
       [(''server.http_port'', SInt 8080),
        (''server.grpc_port'', SInt 9090),
        (''server.mode'', SText ''development''),
        (''chunk_service.grpc_addr'', SText []),
        (''database.host'', SText ''localhost''),
        (''database.port'', SInt 5432),
        (''database.max_connections'', SInt 25),
        (''database.min_connections'', SInt 5),
        (''database.ssl_mode'', SText ''disable''),
        (''redis.addr'', SText ''localhost:6379''),
        (''redis.db'', SInt 0),
        (''redis.pool_size'', SInt 20),
        (''minio.use_ssl'', SBool False),
        (''minio.chunk_bucket'', SText ''chunks''),
        (''minio.temp_bucket'', SText ''temp-uploads''),
        (''kafka.consumer_group'', SText ''dfms-consumers''),
        (''jwt.access_ttl'', SText ''15m''),
        (''jwt.refresh_ttl'', SText ''168h''),
        (''jwt.issuer'', SText ''dfms-auth''),
        (''chunking.min_size'', SInt 262144),
        (''chunking.avg_size'', SInt 1048576),
        (''chunking.max_size'', SInt 4194304),
        (''replication.factor'', SInt 3),
        (''replication.virtual_nodes'', SInt 150),
        (''rate_limit.global_rpm'', SInt 10000),
        (''rate_limit.user_rpm'', SInt 200),
        (''rate_limit.upload_rpm'', SInt 20),
        (''rate_limit.download_rpm'', SInt 100),
        (''rate_limit.auth_rpm'', SInt 5),
        (''storage.default_quota'', SInt 5368709120),
        (''storage.max_upload_size'', SInt 10737418240),
        (''gc.scan_interval'', SText ''6h''),
        (''gc.grace_period'', SText ''24h''),
        (''gc.batch_size'', SInt 500),
        (''health_monitor.check_interval'', SText ''30s''),
        (''health_monitor.timeout'', SText ''5s'')] v"

definition Validate :: "service_config \<Rightarrow> unit result" where
  "Validate c =
     (if sv_http_port (cf_server c) \<le> 0 \<or> 65535 < sv_http_port (cf_server c)
      then Inl (''invalid HTTP port: '' @ itoa (sv_http_port (cf_server c)))
      else if sv_grpc_port (cf_server c) \<le> 0 \<or> 65535 < sv_grpc_port (cf_server c)
      then Inl (''invalid gRPC port: '' @ itoa (sv_grpc_port (cf_server c)))
      else if sv_mode (cf_server c) \<noteq> ''development'' \<and> sv_mode (cf_server c) \<noteq> ''production''
      then Inl (''invalid server mode: '' @ sv_mode (cf_server c) @ '' (must be development or production)'')
      else if db_host (cf_database c) = [] then Inl ''database host is required''
      else if db_max_connections (cf_database c) \<le> 0 then Inl ''database max_connections must be positive''
      else if mi_endpoints (cf_minio c) = [] then Inl ''at least one MinIO endpoint is required''
      else if ka_brokers (cf_kafka c) = [] then Inl ''at least one Kafka broker is required''
      else if jw_access_ttl (jx_jwt (cf_jwt c)) \<le> 0 then Inl ''JWT access_ttl must be positive''
      else if ck_min_size (cf_chunking c) \<le> 0 \<or> ck_avg_size (cf_chunking c) \<le> 0 \<or> ck_max_size (cf_chunking c) \<le> 0
      then Inl ''chunking sizes must be positive''
      else if ck_avg_size (cf_chunking c) \<le> ck_min_size (cf_chunking c) \<or> ck_max_size (cf_chunking c) \<le> ck_avg_size (cf_chunking c)
      then Inl ''chunking sizes must satisfy: min < avg < max''
      else if rp_factor (cf_replication c) < 1 then Inl ''replication factor must be at least 1''
      else Inr ())"

text \<open>\<open>getenv\<close> is the environment of the process.\<close>

definition Load :: "viper_lib \<Rightarrow> (string \<Rightarrow> string option) \<Rightarrow> string \<Rightarrow> service_config result" where
  "Load l getenv configPath =
     (let v = setDefaults new_viper in
      case vl_read l configPath of
        Inl err \<Rightarrow> Inl (wrapf (''failed to read config file '' @ configPath) err)
      | Inr f \<Rightarrow>
          (let v1 = v\<lparr>vp_file := f, vp_prefix := ''DFMS'', vp_replace := Some (CHR ''.'', CHR ''_''), vp_automatic := True\<rparr> in
           case Unmarshal l (vl_get l v1 getenv) of
             Inl err \<Rightarrow> Inl (wrapf ''failed to unmarshal config'' err)
           | Inr cfg \<Rightarrow>
               (let cfg1 = (if cs_grpc_addr (cf_chunk_service cfg) = []
                            then cfg\<lparr>cf_chunk_service := \<lparr>cs_grpc_addr = ''localhost:'' @ itoa (sv_grpc_port (cf_server cfg))\<rparr>\<rparr>
                            else cfg) in
                case Validate cfg1 of
                  Inl err \<Rightarrow> Inl (wrapf ''config validation failed'' err)
                | Inr _ \<Rightarrow> Inr cfg1)))"

definition IsProduction :: "service_config \<Rightarrow> bool" where
  "IsProduction c \<longleftrightarrow> sv_mode (cf_server c) = ''production''"

text \<open>The chunk service hands the chunking section to the splitter.\<close>

definition chunk_sizes :: "service_config \<Rightarrow> CDCConfig" where
  "chunk_sizes c =
     \<lparr>MinSize = ck_min_size (cf_chunking c), AvgSize = ck_avg_size (cf_chunking c), MaxSize = ck_max_size (cf_chunking c)\<rparr>"


section \<open>What viper promises\<close>

definition upper_letter :: "char \<Rightarrow> char" where
  "upper_letter c =
     (case map_of (zip ''abcdefghijklmnopqrstuvwxyz'' ''ABCDEFGHIJKLMNOPQRSTUVWXYZ'') c of None \<Rightarrow> c | Some u \<Rightarrow> u)"

lemma upper_letters:
  "map upper_letter ''abcdefghijklmnopqrstuvwxyzDFMS_.'' = ''ABCDEFGHIJKLMNOPQRSTUVWXYZDFMS_.''"
  by (simp add: upper_letter_def)

lemmas upper_letter_simps = upper_letters [simplified]

text \<open>The environment variable of a key.\<close>

definition env_name :: "viper \<Rightarrow> string \<Rightarrow> string" where
  "env_name v k =
     map (\<lambda>c. case vp_replace v of None \<Rightarrow> c | Some (a, b) \<Rightarrow> if c = a then b else c)
       (map upper_letter (if vp_prefix v = [] then k else vp_prefix v @ ''_'' @ k))"

text \<open>Only keys with a default or in the file are decoded.  A scalar in the place of a section hides its keys.\<close>

definition section_of :: "string \<Rightarrow> string" where
  "section_of k = takeWhile (\<lambda>c. c \<noteq> CHR ''.'') k"

definition known :: "viper \<Rightarrow> string \<Rightarrow> bool" where
  "known v k \<longleftrightarrow> vp_file v (section_of k) = None \<and> (k \<in> fst ` set (vp_defaults v) \<or> vp_file v k \<noteq> None)"

definition set_in :: "(string \<Rightarrow> string option) \<Rightarrow> string \<Rightarrow> bool" where
  "set_in getenv n \<longleftrightarrow> getenv n \<noteq> None \<and> getenv n \<noteq> Some []"

text \<open>The value of a key that is not in the environment: the file's, then the last default.\<close>

definition file_value :: "viper \<Rightarrow> string \<Rightarrow> setting option" where
  "file_value v k = (case vp_file v k of Some s \<Rightarrow> Some s | None \<Rightarrow> map_of (rev (vp_defaults v)) k)"

definition lookup_ok :: "viper_lib \<Rightarrow> bool" where
  "lookup_ok l \<longleftrightarrow>
     (\<forall>v getenv k x. vp_automatic v \<and> known v k \<and> getenv (env_name v k) = Some x \<and> x \<noteq> [] \<longrightarrow> vl_get l v getenv k = Some (SText x)) \<and>
     (\<forall>v getenv k. known v k \<and> \<not> set_in getenv (env_name v k) \<and> \<not> set_in getenv (env_name v (section_of k)) \<longrightarrow>
        vl_get l v getenv k = file_value v k) \<and>
     (\<forall>v getenv k. \<not> known v k \<longrightarrow> vl_get l v getenv k = None)"

definition unit_ns :: "char \<Rightarrow> int" where
  "unit_ns c = (if c = CHR ''h'' then 3600000000000 else if c = CHR ''m'' then 60000000000 else 1000000000)"

definition conversions_ok :: "viper_lib \<Rightarrow> bool" where
  "conversions_ok l \<longleftrightarrow>
     (\<forall>n. in_i64 n \<longrightarrow> vl_int l (SInt n) = Some n \<and> vl_int l (SText (itoa n)) = Some n) \<and>
     (\<forall>n. - 2147483648 \<le> n \<and> n < 2147483648 \<longrightarrow> vl_int32 l (SInt n) = Some n) \<and>
     (\<forall>s. vl_text l (SText s) = Some s) \<and>
     (\<forall>b. vl_bool l (SBool b) = Some b) \<and>
     (\<forall>ss. vl_texts l (STexts ss) = Some ss) \<and>
     (\<forall>n c. 0 \<le> n \<and> n \<le> 1000000 \<and> c \<in> {CHR ''h'', CHR ''m'', CHR ''s''} \<longrightarrow>
        vl_duration l (SText (itoa n @ [c])) = Some (n * unit_ns c))"

definition viper_ok :: "viper_lib \<Rightarrow> bool" where
  "viper_ok l \<longleftrightarrow> lookup_ok l \<and> conversions_ok l"

text \<open>A library that keeps the promises.\<close>

definition plain_get :: "viper \<Rightarrow> (string \<Rightarrow> string option) \<Rightarrow> string \<Rightarrow> setting option" where
  "plain_get v getenv k =
     (if \<not> known v k then None
      else if vp_automatic v \<and> set_in getenv (env_name v k) then map_option SText (getenv (env_name v k))
      else if vp_automatic v \<and> set_in getenv (env_name v (section_of k)) then None
      else file_value v k)"

fun plain_int :: "setting \<Rightarrow> int option" where
  "plain_int (SInt n) = Some n"
| "plain_int (SText s) = (case parse_int s of (n, None) \<Rightarrow> Some n | _ \<Rightarrow> None)"
| "plain_int _ = None"

fun plain_duration :: "setting \<Rightarrow> int option" where
  "plain_duration (SText s) = (if s = [] then None else map_option (\<lambda>n. n * unit_ns (last s)) (plain_int (SText (butlast s))))"
| "plain_duration _ = None"

definition plain_viper :: "(string \<Rightarrow> setting option) \<Rightarrow> viper_lib" where
  "plain_viper f =
     \<lparr>vl_read = (\<lambda>_. Inr f), vl_get = plain_get, vl_int = plain_int, vl_int32 = plain_int,
      vl_text = (\<lambda>s. case s of SText x \<Rightarrow> Some x | _ \<Rightarrow> None),
      vl_bool = (\<lambda>s. case s of SBool b \<Rightarrow> Some b | _ \<Rightarrow> None),
      vl_texts = (\<lambda>s. case s of STexts xs \<Rightarrow> Some xs | _ \<Rightarrow> None),
      vl_duration = plain_duration, vl_error = (\<lambda>ks. join_with '', '' ks)\<rparr>"

lemma plain_viper_ok: "viper_ok (plain_viper f)"
proof -
  have "lookup_ok (plain_viper f)"
    by (auto simp: lookup_ok_def plain_viper_def plain_get_def set_in_def)
  moreover have "in_i64 n" if "0 \<le> n" "n \<le> 1000000" for n using that by (intro in_i64I) simp_all
  then have "conversions_ok (plain_viper f)"
    by (auto simp: conversions_ok_def plain_viper_def parse_int_itoa)
  ultimately show ?thesis by (simp add: viper_ok_def)
qed

text \<open>The configuration of the services, as \<^verbatim>\<open>Load\<close> prepares it.\<close>

definition service_viper :: "(string \<Rightarrow> setting option) \<Rightarrow> viper" where
  "service_viper f =
     (setDefaults new_viper)\<lparr>vp_file := f, vp_prefix := ''DFMS'', vp_replace := Some (CHR ''.'', CHR ''_''), vp_automatic := True\<rparr>"

lemma service_viper_simps [simp]:
  "vp_file (service_viper f) = f" "vp_automatic (service_viper f)"
  "vp_defaults (service_viper f) = vp_defaults (setDefaults new_viper)"
  by (simp_all add: service_viper_def)

text \<open>A successful load, step by step.\<close>

lemma Load_cases:
  assumes "Load l getenv path = Inr cfg"
  obtains f cfg0 where "vl_read l path = Inr f"
    "Unmarshal l (vl_get l (service_viper f) getenv) = Inr cfg0" "cfg0 = decode_config l (vl_get l (service_viper f) getenv)"
    "cfg = (if cs_grpc_addr (cf_chunk_service cfg0) = []
            then cfg0\<lparr>cf_chunk_service := \<lparr>cs_grpc_addr = ''localhost:'' @ itoa (sv_grpc_port (cf_server cfg0))\<rparr>\<rparr> else cfg0)"
    "Validate cfg = Inr ()"
  using assms
  by (auto simp: Load_def Let_def service_viper_def [symmetric] Unmarshal_def split: sum.splits if_splits)

text \<open>
  C33: what a service starts with is in range: the ports are ports, the mode is one of the two, the
  lists that the start-up indexes have an element, the sizes of the splitter are in order, and the
  gateway has an address of the chunk service to dial.
\<close>

theorem Load_valid:
  assumes "Load l getenv path = Inr cfg"
  shows "sv_http_port (cf_server cfg) \<in> {1..65535} \<and> sv_grpc_port (cf_server cfg) \<in> {1..65535} \<and>
    (IsProduction cfg \<longleftrightarrow> sv_mode (cf_server cfg) \<noteq> ''development'') \<and>
    0 < db_max_connections (cf_database cfg) \<and> db_host (cf_database cfg) \<noteq> [] \<and>
    mi_endpoints (cf_minio cfg) \<noteq> [] \<and> ka_brokers (cf_kafka cfg) \<noteq> [] \<and>
    0 < jw_access_ttl (jx_jwt (cf_jwt cfg)) \<and> 1 \<le> rp_factor (cf_replication cfg) \<and>
    0 < MinSize (chunk_sizes cfg) \<and> MinSize (chunk_sizes cfg) < AvgSize (chunk_sizes cfg) \<and>
    AvgSize (chunk_sizes cfg) < MaxSize (chunk_sizes cfg) \<and> cs_grpc_addr (cf_chunk_service cfg) \<noteq> []"
proof -
  obtain cfg0 where "cfg = (if cs_grpc_addr (cf_chunk_service cfg0) = []
      then cfg0\<lparr>cf_chunk_service := \<lparr>cs_grpc_addr = ''localhost:'' @ itoa (sv_grpc_port (cf_server cfg0))\<rparr>\<rparr> else cfg0)"
    "Validate cfg = Inr ()"
    by (rule Load_cases [OF assms])
  then show ?thesis by (auto simp: Validate_def IsProduction_def chunk_sizes_def split: if_splits)
qed


section \<open>Where a value comes from\<close>

text \<open>The integer and the text settings, each with the field it is decoded into.\<close>

definition int_settings :: "(string \<times> (service_config \<Rightarrow> int)) list" where
  "int_settings =
     [(''server.http_port'', \<lambda>c. sv_http_port (cf_server c)),
      (''server.grpc_port'', \<lambda>c. sv_grpc_port (cf_server c)),
      (''database.port'', \<lambda>c. db_port (cf_database c)),
      (''redis.db'', \<lambda>c. rd_db (cf_redis c)),
      (''redis.pool_size'', \<lambda>c. rd_pool_size (cf_redis c)),
      (''chunking.min_size'', \<lambda>c. ck_min_size (cf_chunking c)),
      (''chunking.avg_size'', \<lambda>c. ck_avg_size (cf_chunking c)),
      (''chunking.max_size'', \<lambda>c. ck_max_size (cf_chunking c)),
      (''replication.factor'', \<lambda>c. rp_factor (cf_replication c)),
      (''replication.virtual_nodes'', \<lambda>c. rp_virtual_nodes (cf_replication c)),
      (''rate_limit.global_rpm'', \<lambda>c. rl_global_rpm (cf_rate_limit c)),
      (''rate_limit.user_rpm'', \<lambda>c. rl_user_rpm (cf_rate_limit c)),
      (''rate_limit.upload_rpm'', \<lambda>c. rl_upload_rpm (cf_rate_limit c)),
      (''rate_limit.download_rpm'', \<lambda>c. rl_download_rpm (cf_rate_limit c)),
      (''rate_limit.auth_rpm'', \<lambda>c. rl_auth_rpm (cf_rate_limit c)),
      (''storage.default_quota'', \<lambda>c. sg_default_quota (cf_storage c)),
      (''storage.max_upload_size'', \<lambda>c. sg_max_upload_size (cf_storage c)),
      (''gc.batch_size'', \<lambda>c. gx_batch_size (cf_gc c))]"

definition text_settings :: "(string \<times> (service_config \<Rightarrow> string)) list" where
  "text_settings =
     [(''server.mode'', \<lambda>c. sv_mode (cf_server c)),
      (''database.host'', \<lambda>c. db_host (cf_database c)),
      (''database.user'', \<lambda>c. db_user (cf_database c)),
      (''database.password'', \<lambda>c. db_password (cf_database c)),
      (''database.database'', \<lambda>c. db_database (cf_database c)),
      (''database.ssl_mode'', \<lambda>c. db_ssl_mode (cf_database c)),
      (''redis.addr'', \<lambda>c. rd_addr (cf_redis c)),
      (''redis.password'', \<lambda>c. rd_password (cf_redis c)),
      (''minio.access_key'', \<lambda>c. mi_access_key (cf_minio c)),
      (''minio.secret_key'', \<lambda>c. mi_secret_key (cf_minio c)),
      (''minio.chunk_bucket'', \<lambda>c. mi_chunk_bucket (cf_minio c)),
      (''minio.temp_bucket'', \<lambda>c. mi_temp_bucket (cf_minio c)),
      (''kafka.consumer_group'', \<lambda>c. ka_consumer_group (cf_kafka c)),
      (''jwt.private_key_path'', \<lambda>c. jx_private_key_path (cf_jwt c)),
      (''jwt.public_key_path'', \<lambda>c. jx_public_key_path (cf_jwt c)),
      (''jwt.issuer'', \<lambda>c. jw_issuer (jx_jwt (cf_jwt c)))]"

lemmas decode_defs = decode_config_def decode_server_def decode_chunk_service_def decode_database_def decode_redis_def
  decode_minio_def decode_kafka_def decode_jwt_def decode_chunking_def decode_replication_def decode_rate_limit_def
  decode_storage_def decode_gc_def decode_health_monitor_def

lemma decoded_int: "(k, r) \<in> set int_settings \<Longrightarrow> r (decode_config l g) = field_value g (vl_int l) 0 k"
  unfolding int_settings_def by (simp add: decode_defs, elim disjE, simp_all)

lemma decoded_text: "(k, r) \<in> set text_settings \<Longrightarrow> r (decode_config l g) = field_value g (vl_text l) [] k"
  unfolding text_settings_def by (simp add: decode_defs, elim disjE, simp_all)

lemma int_settings_frame: "(k, r) \<in> set int_settings \<Longrightarrow> r (c\<lparr>cf_chunk_service := x\<rparr>) = r c"
  unfolding int_settings_def by (simp, elim disjE, simp_all)

lemma text_settings_frame: "(k, r) \<in> set text_settings \<Longrightarrow> r (c\<lparr>cf_chunk_service := x\<rparr>) = r c"
  unfolding text_settings_def by (simp, elim disjE, simp_all)

text \<open>The loaded value of a setting is its converted value, or the zero value when it has none.\<close>

lemma Load_decoded:
  assumes "Load l getenv path = Inr cfg" "vl_read l path = Inr f"
  shows "(k, r) \<in> set int_settings \<Longrightarrow> r cfg = field_value (vl_get l (service_viper f) getenv) (vl_int l) 0 k"
    and "(k, t) \<in> set text_settings \<Longrightarrow> t cfg = field_value (vl_get l (service_viper f) getenv) (vl_text l) [] k"
proof -
  obtain cfg0 where c: "cfg0 = decode_config l (vl_get l (service_viper f) getenv)"
    "cfg = (if cs_grpc_addr (cf_chunk_service cfg0) = []
            then cfg0\<lparr>cf_chunk_service := \<lparr>cs_grpc_addr = ''localhost:'' @ itoa (sv_grpc_port (cf_server cfg0))\<rparr>\<rparr> else cfg0)"
    using Load_cases [OF assms(1)] assms(2) by (metis sum.inject(2))
  show "(k, r) \<in> set int_settings \<Longrightarrow> r cfg = field_value (vl_get l (service_viper f) getenv) (vl_int l) 0 k"
    using c decoded_int [of k r l] int_settings_frame [of k r _ cfg0] by (auto split: if_splits)
  show "(k, t) \<in> set text_settings \<Longrightarrow> t cfg = field_value (vl_get l (service_viper f) getenv) (vl_text l) [] k"
    using c decoded_text [of k t l] text_settings_frame [of k t _ cfg0] by (auto split: if_splits)
qed

lemma viper_laws:
  assumes "viper_ok l"
  shows "known (service_viper f) k \<Longrightarrow> getenv (env_name (service_viper f) k) = Some x \<Longrightarrow> x \<noteq> [] \<Longrightarrow>
      vl_get l (service_viper f) getenv k = Some (SText x)"
    and "known (service_viper f) k \<Longrightarrow> \<not> set_in getenv (env_name (service_viper f) k) \<Longrightarrow>
      \<not> set_in getenv (env_name (service_viper f) (section_of k)) \<Longrightarrow>
      vl_get l (service_viper f) getenv k = file_value (service_viper f) k"
    and "\<not> known (service_viper f) k \<Longrightarrow> vl_get l (service_viper f) getenv k = None"
    and "in_i64 n \<Longrightarrow> vl_int l (SInt n) = Some n" "in_i64 n \<Longrightarrow> vl_int l (SText (itoa n)) = Some n"
    and "vl_text l (SText s) = Some s"
  using assms by (auto simp: viper_ok_def lookup_ok_def conversions_ok_def)

lemma viper_conversions:
  assumes "viper_ok l"
  shows "- 2147483648 \<le> n \<and> n < 2147483648 \<Longrightarrow> vl_int32 l (SInt n) = Some n"
    and "vl_bool l (SBool b) = Some b" "vl_texts l (STexts ss) = Some ss"
  using assms by (simp_all only: viper_ok_def conversions_ok_def)

lemma itoa_nonempty: "itoa n \<noteq> []"
  by (auto simp: itoa_def)

text \<open>
  C18: where an integer setting comes from: the environment variable of its key wins over the file, the
  file over the default.
\<close>

theorem Load_sources:
  assumes "viper_ok l" "vl_read l path = Inr f" "Load l getenv path = Inr cfg"
    and "(k, r) \<in> set int_settings" "known (service_viper f) k" "in_i64 n"
    and "getenv (env_name (service_viper f) k) = Some (itoa n) \<or>
      (\<not> set_in getenv (env_name (service_viper f) k) \<and> \<not> set_in getenv (env_name (service_viper f) (section_of k)) \<and>
       (f k = Some (SInt n) \<or> f k = None \<and> map_of (rev (vp_defaults (setDefaults new_viper))) k = Some (SInt n)))"
  shows "r cfg = n"
proof -
  have "vl_get l (service_viper f) getenv k \<in> {Some (SInt n), Some (SText (itoa n))}"
    using assms(7) viper_laws(1) [OF assms(1,5) _ itoa_nonempty] viper_laws(2) [OF assms(1,5)]
    by (auto simp: file_value_def)
  then show ?thesis
    using Load_decoded(1) [OF assms(3,2,4)] viper_laws(4,5) [OF assms(1,6)] by (auto simp: field_value_def)
qed

text \<open>The same for texts; an empty environment variable counts as unset.\<close>

lemma Load_text_sources:
  assumes "viper_ok l" "vl_read l path = Inr f" "Load l getenv path = Inr cfg"
    and "(k, t) \<in> set text_settings" "known (service_viper f) k"
    and "(getenv (env_name (service_viper f) k) = Some x \<and> x \<noteq> []) \<or>
      (\<not> set_in getenv (env_name (service_viper f) k) \<and> \<not> set_in getenv (env_name (service_viper f) (section_of k)) \<and>
       (f k = Some (SText x) \<or> f k = None \<and> map_of (rev (vp_defaults (setDefaults new_viper))) k = Some (SText x)))"
  shows "t cfg = x"
proof -
  have "vl_get l (service_viper f) getenv k = Some (SText x)"
    using assms(6) viper_laws(1) [OF assms(1,5)] viper_laws(2) [OF assms(1,5)] by (auto simp: file_value_def)
  then show ?thesis using Load_decoded(2) [OF assms(3,2,4)] viper_laws(6) [OF assms(1)] by (simp add: field_value_def)
qed

text \<open>The name depends on the prefix and the replacer only.\<close>

lemma env_name_service: "env_name (service_viper f) k = env_name (service_viper (\<lambda>_. None)) k"
  by (simp add: env_name_def service_viper_def)

text \<open>
  A text without a default that the file leaves out stays empty, whatever its environment variable says:
  so \<^verbatim>\<open>DFMS_DATABASE_PASSWORD\<close>, the example in the comment of \<^verbatim>\<open>Load\<close>, needs the key in the file.
\<close>

theorem Load_ignores_unlisted:
  assumes "viper_ok l" "vl_read l path = Inr f" "Load l getenv path = Inr cfg"
    and "(k, t) \<in> set text_settings" "f k = None" "k \<notin> fst ` set (vp_defaults (setDefaults new_viper))"
  shows "t cfg = []"
  using Load_decoded(2) [OF assms(3,2,4)] viper_laws(3) [OF assms(1), of f k] assms(5,6)
  by (simp add: field_value_def known_def)

lemma Load_ignores_password:
  assumes "viper_ok l" "vl_read l path = Inr f" "Load l getenv path = Inr cfg" "f ''database.password'' = None"
  shows "db_password (cf_database cfg) = [] \<and> env_name (service_viper f) ''database.password'' = ''DFMS_DATABASE_PASSWORD''"
proof
  show "db_password (cf_database cfg) = []"
    by (rule Load_ignores_unlisted [OF assms(1-3) _ assms(4), of "\<lambda>c. db_password (cf_database c)", simplified])
      (simp_all add: text_settings_def setDefaults_def SetDefault_def new_viper_def)
  have "env_name (service_viper (\<lambda>_. None)) ''database.password'' = ''DFMS_DATABASE_PASSWORD''"
    by (simp add: env_name_def service_viper_def upper_letter_simps del: map_map)
  then show "env_name (service_viper f) ''database.password'' = ''DFMS_DATABASE_PASSWORD''" by (subst env_name_service)
qed

text \<open>No environment variable sets two keys.\<close>

lemma env_names_distinct: "distinct (map (env_name (service_viper f)) (int_keys @ text_keys @ duration_keys))"
proof -
  have "distinct (map (env_name (service_viper (\<lambda>_. None))) (int_keys @ text_keys @ duration_keys))"
    by (simp add: env_name_def service_viper_def upper_letter_simps int_keys_def text_keys_def duration_keys_def del: map_map)
  moreover have "map (env_name (service_viper f)) ks = map (env_name (service_viper (\<lambda>_. None))) ks" for ks
    by (rule map_cong [OF refl env_name_service])
  ultimately show ?thesis by (simp only:)
qed


section \<open>The smallest configuration\<close>

lemma env_name_prefix: "\<exists>n. env_name (service_viper f) k = ''DFMS_'' @ n"
  by (simp add: env_name_def service_viper_def upper_letter_simps del: map_map)

lemma no_variables:
  assumes "viper_ok l" "\<And>n. \<not> set_in getenv (''DFMS_'' @ n)"
  shows "vl_get l (service_viper f) getenv k = (if known (service_viper f) k then file_value (service_viper f) k else None)"
proof -
  have "\<not> set_in getenv (env_name (service_viper f) x)" for x using env_name_prefix [of f x] assms(2) by metis
  then show ?thesis using viper_laws(2,3) [OF assms(1)] by simp
qed

definition list_settings :: "string list \<Rightarrow> string list \<Rightarrow> string \<Rightarrow> setting option" where
  "list_settings es bs k =
     (if k = ''minio.endpoints'' then Some (STexts es) else if k = ''kafka.brokers'' then Some (STexts bs) else None)"

definition default_settings :: "string \<Rightarrow> setting option" where
  "default_settings k = map_of (rev (vp_defaults (setDefaults new_viper))) k"

lemma section_undotted: "CHR ''.'' \<notin> set (section_of k)"
  unfolding section_of_def using set_takeWhileD [of "CHR ''.''" "\<lambda>c. c \<noteq> CHR ''.''" k] by blast

lemma list_settings_get:
  assumes "viper_ok l" "\<And>n. \<not> set_in getenv (''DFMS_'' @ n)"
  shows "vl_get l (service_viper (list_settings es bs)) getenv k =
    (case list_settings es bs k of Some s \<Rightarrow> Some s | None \<Rightarrow> default_settings k)"
proof -
  have "list_settings es bs (section_of k) = None"
    using section_undotted [of k] by (auto simp: list_settings_def)
  moreover have "k \<notin> fst ` set (vp_defaults (setDefaults new_viper)) \<Longrightarrow> default_settings k = None"
    by (simp add: default_settings_def map_of_eq_None_iff)
  ultimately show ?thesis
    by (auto simp: no_variables [OF assms] known_def file_value_def default_settings_def split: option.splits)
qed

lemma default_values:
  "map default_settings int_keys = map (\<lambda>n. Some (SInt n))
     [8080, 9090, 5432, 0, 20, 262144, 1048576, 4194304, 3, 150, 10000, 200, 20, 100, 5, 5368709120, 10737418240, 500]"
  "map default_settings text_keys = map (map_option SText)
     [Some ''development'', Some [], Some ''localhost'', None, None, None, Some ''disable'', Some ''localhost:6379'', None, None,
      None, Some ''chunks'', Some ''temp-uploads'', Some ''dfms-consumers'', None, None, Some ''dfms-auth'']"
  "map default_settings duration_keys = map (\<lambda>s. Some (SText s)) [''15m'', ''168h'', ''6h'', ''24h'', ''30s'', ''5s'']"
  "map default_settings [''database.max_connections'', ''database.min_connections'', ''minio.use_ssl''] =
     [Some (SInt 25), Some (SInt 5), Some (SBool False)]"
  by code_simp+

lemma default_durations:
  assumes "viper_ok l"
  shows "map (vl_duration l) (map SText [''15m'', ''168h'', ''6h'', ''24h'', ''30s'', ''5s'']) =
    map Some [900000000000, 604800000000000, 21600000000000, 86400000000000, 30000000000, 5000000000]"
proof -
  have "map (\<lambda>n. itoa n) [15, 168, 6, 24, 30, 5] = [''15'', ''168'', ''6'', ''24'', ''30'', ''5'']" by code_simp
  then have digits: "itoa 15 = ''15''" "itoa 168 = ''168''" "itoa 6 = ''6''" "itoa 24 = ''24''" "itoa 30 = ''30''" "itoa 5 = ''5''"
    by simp_all
  have "vl_duration l (SText (itoa n @ [c])) = Some (n * unit_ns c)"
    if "0 \<le> n" "n \<le> 1000000" "c \<in> {CHR ''h'', CHR ''m'', CHR ''s''}" for n c
    using assms that by (simp add: viper_ok_def conversions_ok_def)
  from this [of 15 "CHR ''m''"] this [of 168 "CHR ''h''"] this [of 6 "CHR ''h''"] this [of 24 "CHR ''h''"]
    this [of 30 "CHR ''s''"] this [of 5 "CHR ''s''"]
  show ?thesis by (simp add: digits unit_ns_def)
qed


text \<open>With everything but the HTTP port as the defaults and the two lists have it, the services start.\<close>

lemma Load_near_defaults:
  fixes l :: viper_lib and getenv :: "string \<Rightarrow> string option" and es bs :: "string list"
  defines "g \<equiv> vl_get l (service_viper (list_settings es bs)) getenv"
  assumes "viper_ok l" "vl_read l path = Inr (list_settings es bs)" "es \<noteq> []" "bs \<noteq> []"
    and get: "\<And>k. k \<noteq> ''server.http_port'' \<Longrightarrow> g k = (case list_settings es bs k of Some s \<Rightarrow> Some s | None \<Rightarrow> default_settings k)"
    and p: "g ''server.http_port'' = Some port" "vl_int l port = Some p" "1 \<le> p" "p \<le> 65535"
  shows "\<exists>cfg. Load l getenv path = Inr cfg \<and>
    cf_server cfg = \<lparr>sv_http_port = p, sv_grpc_port = 9090, sv_mode = ''development''\<rparr> \<and>
    cs_grpc_addr (cf_chunk_service cfg) = ''localhost:9090'' \<and> chunk_sizes cfg = DefaultConfig \<and>
    rp_factor (cf_replication cfg) = 3 \<and> mi_endpoints (cf_minio cfg) = es \<and> ka_brokers (cf_kafka cfg) = bs"
proof -
  have lists: "g ''minio.endpoints'' = Some (STexts es)" "g ''kafka.brokers'' = Some (STexts bs)"
    by (simp_all add: get list_settings_def)
  have other: "g k = default_settings k" if "k \<noteq> ''minio.endpoints''" "k \<noteq> ''kafka.brokers''" "k \<noteq> ''server.http_port''" for k
    using that by (simp add: get list_settings_def)
  have ints: "map g (tl int_keys) = tl (map default_settings int_keys)" by (simp add: int_keys_def other)
  have texts: "map g text_keys = map default_settings text_keys" by (simp add: text_keys_def other)
  have durations: "map g duration_keys = map default_settings duration_keys" by (simp add: duration_keys_def other)
  have rest: "map g [''database.max_connections'', ''database.min_connections'', ''minio.use_ssl''] =
      map default_settings [''database.max_connections'', ''database.min_connections'', ''minio.use_ssl'']"
    by (simp add: other)
  note got = p(1,2) lists ints [unfolded default_values, unfolded int_keys_def, simplified]
    texts [unfolded default_values, unfolded text_keys_def, simplified]
    durations [unfolded default_values, unfolded duration_keys_def, simplified]
    rest [unfolded default_values, simplified]
  have conv: "in_i64 n \<Longrightarrow> vl_int l (SInt n) = Some n" "vl_text l (SText s) = Some s"
    "vl_int32 l (SInt 25) = Some 25" "vl_int32 l (SInt 5) = Some 5" "vl_bool l (SBool False) = Some False"
    "vl_texts l (STexts ss) = Some ss" for n s ss
    by (simp_all add: viper_laws(4,6) [OF assms(2)] viper_conversions [OF assms(2)])
  note conv = conv default_durations [OF assms(2), simplified]
  have "digit_char 9 = CHR ''9'' \<and> digit_char 0 = CHR ''0''" by code_simp
  then have port: "itoa 9090 = ''9090''"
    by (simp add: itoa_def nat_digits.simps [of 9090] nat_digits.simps [of 909] nat_digits.simps [of 90]
        nat_digits.simps [of 9])
  have un: "Unmarshal l g = Inr (decode_config l g)"
    by (simp add: Unmarshal_def int_keys_def text_keys_def duration_keys_def unreadable_def got conv in_i64_def)
  define c where "c = decode_config l g"
  have c: "cf_server c = \<lparr>sv_http_port = p, sv_grpc_port = 9090, sv_mode = ''development''\<rparr>"
    "cs_grpc_addr (cf_chunk_service c) = []" "mi_endpoints (cf_minio c) = es" "ka_brokers (cf_kafka c) = bs"
    "cf_chunking c = \<lparr>ck_min_size = 262144, ck_avg_size = 1048576, ck_max_size = 4194304\<rparr>" "rp_factor (cf_replication c) = 3"
    "db_host (cf_database c) = ''localhost''" "db_max_connections (cf_database c) = 25"
    "jw_access_ttl (jx_jwt (cf_jwt c)) = 900000000000"
    by (simp_all add: c_def decode_defs field_value_def got conv in_i64_def)
  define c1 where "c1 = c\<lparr>cf_chunk_service := \<lparr>cs_grpc_addr = ''localhost:9090''\<rparr>\<rparr>"
  have "Validate c1 = Inr ()" using assms(4,5) p(3,4) by (simp add: Validate_def c1_def c)
  then have "Load l getenv path = Inr c1"
    by (simp add: Load_def Let_def service_viper_def [symmetric] un [unfolded g_def] c_def [unfolded g_def, symmetric] c port
        c1_def [symmetric] assms(3))
  then show ?thesis by (simp add: c1_def c chunk_sizes_def DefaultConfig_def)
qed

text \<open>
  A file that only lists the endpoints and the brokers is enough: the services then listen on their
  default ports, split files with the splitter's default sizes, place three replicas, and the gateway
  dials the chunk service on this host.
\<close>

theorem Load_minimal:
  assumes "viper_ok l" "vl_read l path = Inr (list_settings es bs)" "es \<noteq> []" "bs \<noteq> []"
    and "\<And>n. \<not> set_in getenv (''DFMS_'' @ n)"
  shows "\<exists>cfg. Load l getenv path = Inr cfg \<and>
    cf_server cfg = \<lparr>sv_http_port = 8080, sv_grpc_port = 9090, sv_mode = ''development''\<rparr> \<and>
    cs_grpc_addr (cf_chunk_service cfg) = ''localhost:9090'' \<and> chunk_sizes cfg = DefaultConfig \<and>
    rp_factor (cf_replication cfg) = 3 \<and> mi_endpoints (cf_minio cfg) = es \<and> ka_brokers (cf_kafka cfg) = bs"
proof (rule Load_near_defaults [OF assms(1-4)])
  have "default_settings ''server.http_port'' = Some (SInt 8080)"
    using default_values(1) by (simp add: int_keys_def)
  then show "vl_get l (service_viper (list_settings es bs)) getenv ''server.http_port'' = Some (SInt 8080)"
    by (simp add: list_settings_get [OF assms(1,5)] list_settings_def)
qed (simp_all add: list_settings_get [OF assms(1,5)] viper_laws(4) [OF assms(1)] in_i64_def)

definition demo_env :: "string \<Rightarrow> string option" where
  "demo_env n =
     (if n = ''DFMS_SERVER_HTTP_PORT'' then Some ''84'' else None)"

lemma demo_env_names:
  "env_name (service_viper f) ''server.http_port'' = ''DFMS_SERVER_HTTP_PORT''"
  "known (service_viper (list_settings es bs)) k \<Longrightarrow> k \<noteq> ''server.http_port'' \<Longrightarrow>
     env_name (service_viper f) k \<noteq> ''DFMS_SERVER_HTTP_PORT'' \<and> env_name (service_viper f) (section_of k) \<noteq> ''DFMS_SERVER_HTTP_PORT''"
proof -
  show "env_name (service_viper f) ''server.http_port'' = ''DFMS_SERVER_HTTP_PORT''"
    by (simp add: env_name_def service_viper_def upper_letter_simps del: map_map)
  have "list_all (\<lambda>x. x \<noteq> ''server.http_port'' \<longrightarrow>
      env_name (service_viper f) x \<noteq> ''DFMS_SERVER_HTTP_PORT'' \<and> env_name (service_viper f) (section_of x) \<noteq> ''DFMS_SERVER_HTTP_PORT'')
      (''minio.endpoints'' # ''kafka.brokers'' # map fst (vp_defaults (setDefaults new_viper)))"
    by (simp add: setDefaults_def SetDefault_def new_viper_def env_name_def section_of_def service_viper_def
        upper_letter_simps del: map_map)
  moreover assume "known (service_viper (list_settings es bs)) k"
  then have "k \<in> set (''minio.endpoints'' # ''kafka.brokers'' # map fst (vp_defaults (setDefaults new_viper)))"
    by (auto simp: known_def list_settings_def split: if_splits)
  ultimately show "k \<noteq> ''server.http_port'' \<Longrightarrow> env_name (service_viper f) k \<noteq> ''DFMS_SERVER_HTTP_PORT'' \<and>
      env_name (service_viper f) (section_of k) \<noteq> ''DFMS_SERVER_HTTP_PORT''"
    by (simp only: list_all_iff) blast
qed

lemma demo_loads: "\<exists>cfg. Load (plain_viper (list_settings [''m''] [''k''])) demo_env ''c.yaml'' = Inr cfg"
proof -
  let ?f = "list_settings [''m''] [''k'']" and ?k = "''server.http_port''"
  have get: "vl_get (plain_viper ?f) = plain_get" by (simp add: plain_viper_def)
  have "known (service_viper ?f) ?k" by code_simp
  then have port: "plain_get (service_viper ?f) demo_env ?k = Some (SText ''84'')"
    by (simp add: plain_get_def set_in_def demo_env_names(1) demo_env_def)
  have "plain_get (service_viper ?f) demo_env k = (case ?f k of Some s \<Rightarrow> Some s | None \<Rightarrow> default_settings k)" if "k \<noteq> ?k" for k
    using demo_env_names(2) [of "[''m'']" "[''k'']" k ?f] that list_settings_get [OF plain_viper_ok, of "\<lambda>_. None" ?f "[''m'']" "[''k'']" k]
    by (auto simp: plain_get_def set_in_def demo_env_def plain_viper_def split: if_splits)
  moreover have "plain_int (SText ''84'') = Some 84"
  proof -
    have "itoa 84 = ''84''" by code_simp
    then show ?thesis using parse_int_itoa [of 84] by (simp add: in_i64_def)
  qed
  ultimately show ?thesis
    using Load_near_defaults [of "plain_viper ?f" "''c.yaml''" "[''m'']" "[''k'']" demo_env "SText ''84''" 84] port
    by (auto simp: plain_viper_ok get) (auto simp: plain_viper_def)
qed

lemma Load_valid_witness:
  "\<exists>cfg. Load (plain_viper (list_settings [''m''] [''k''])) demo_env ''c.yaml'' = Inr cfg \<and>
     AvgSize (chunk_sizes cfg) < MaxSize (chunk_sizes cfg)"
  using demo_loads Load_valid by blast

lemma Load_sources_witness:
  "\<exists>cfg. Load (plain_viper (list_settings [''m''] [''k''])) demo_env ''c.yaml'' = Inr cfg \<and> sv_http_port (cf_server cfg) = 84"
proof -
  let ?f = "list_settings [''m''] [''k'']"
  obtain cfg where cfg: "Load (plain_viper ?f) demo_env ''c.yaml'' = Inr cfg" using demo_loads by blast
  have "known (service_viper ?f) ''server.http_port''" by code_simp
  moreover have "demo_env (env_name (service_viper ?f) ''server.http_port'') = Some (itoa 84)"
  proof -
    have "itoa 84 = ''84''" by code_simp
    then show ?thesis by (simp add: demo_env_def demo_env_names(1))
  qed
  moreover have "vl_read (plain_viper ?f) ''c.yaml'' = Inr ?f" by (simp add: plain_viper_def)
  ultimately have "sv_http_port (cf_server cfg) = 84"
    using Load_sources [OF plain_viper_ok _ cfg, of ?f "''server.http_port''" "\<lambda>c. sv_http_port (cf_server c)" 84]
    by (simp add: int_settings_def in_i64_def)
  then show ?thesis using cfg by blast
qed


section \<open>The address of the database\<close>

text \<open>Characters that need no escape in the user part of a URL.\<close>

definition plain_text :: "string \<Rightarrow> bool" where
  "plain_text s \<longleftrightarrow> list_all unreserved s"

lemma plain_text_without:
  assumes "plain_text s"
  shows "CHR '':'' \<notin> set s" "CHR ''/'' \<notin> set s" "CHR ''?'' \<notin> set s" "CHR ''#'' \<notin> set s" "CHR ''@'' \<notin> set s"
    "CHR ''%'' \<notin> set s" "CHR ''['' \<notin> set s" "list_all (\<lambda>c. 32 \<le> code_of c \<and> code_of c < 127) s"
  using assms by (auto simp: plain_text_def list_all_iff unreserved_def is_letter_def is_digit_def)

lemma plain_text_itoa: "0 \<le> n \<Longrightarrow> plain_text (itoa n) \<and> list_all is_digit (itoa n)"
  using nat_digits_are_digits by (auto simp: plain_text_def list_all_iff itoa_def unreserved_def)

lemma until_here: "c \<notin> set a \<Longrightarrow> until c (a @ c # b) = a" "c \<notin> set a \<Longrightarrow> beyond c (a @ c # b) = b"
  "c \<notin> set a \<Longrightarrow> until c a = a" "c \<notin> set a \<Longrightarrow> beyond c a = []"
  by (induction a) (auto simp: until_def beyond_def)

lemma percent_decode_plain: "CHR ''%'' \<notin> set s \<Longrightarrow> percent_decode False s = Some s"
  by (induction s) (auto simp: percent_decode.simps)

lemma host_decode_plain: "list_all host_char s \<Longrightarrow> CHR ''%'' \<notin> set s \<Longrightarrow> host_decode False s = Some s"
  by (induction s) auto

lemma parse_url_authority:
  assumes "getScheme s = Inr (scheme, ''//'' @ a @ CHR ''/'' # p @ CHR ''?'' # q)" "scheme \<noteq> []"
    and "\<not> list_ex (\<lambda>c. code_of c < 32 \<or> code_of c = 127) s" "CHR ''/'' \<notin> set a" "CHR ''?'' \<notin> set a \<union> set p"
    and "parseAuthority a = Inr h" "percent_decode False (CHR ''/'' # p) = Some x"
  shows "parse_url s = Inr \<lparr>u_scheme = scheme, u_host = h, u_path = x, u_query = q\<rparr>"
proof -
  have "s \<noteq> ''*''"
  proof
    assume "s = ''*''"
    moreover have "getScheme ''*'' = Inr ([], ''*'')" by (simp add: getScheme_def Let_def is_letter_def is_digit_def)
    ultimately show False using assms(1) by simp
  qed
  moreover have "until CHR ''?'' (''//'' @ a @ CHR ''/'' # p @ CHR ''?'' # q) = ''//'' @ a @ CHR ''/'' # p"
    "beyond CHR ''?'' (''//'' @ a @ CHR ''/'' # p @ CHR ''?'' # q) = q"
    using until_here(1,2) [of "CHR ''?''" "''//'' @ a @ CHR ''/'' # p" q] assms(5) by simp_all
  moreover have "until CHR ''/'' (a @ CHR ''/'' # p) = a" by (rule until_here(1) [OF assms(4)])
  ultimately show ?thesis
    using assms by (simp add: parse_url_def Let_def has_prefix_def finish_path_def)
qed

lemma postgres_scheme: "getScheme (''postgres://'' @ r) = Inr (''postgres'', ''//'' @ r)"
proof -
  have "to_lower ''postgres'' = ''postgres''" by code_simp
  then show ?thesis by (simp add: getScheme_def Let_def is_letter_def is_digit_def)
qed

text \<open>
  With a user, a password, a host and a database of unreserved characters the connection string is the
  URL of that host, port and database.
\<close>

lemma DSN_parses:
  assumes "plain_text (db_user d)" "plain_text (db_password d)" "plain_text (db_host d)" "plain_text (db_database d)"
    "plain_text (db_ssl_mode d)" "0 \<le> db_port d"
  shows "Parse (DSN d) = Inr \<lparr>u_scheme = ''postgres'', u_host = db_host d @ '':'' @ itoa (db_port d),
    u_path = CHR ''/'' # db_database d, u_query = ''sslmode='' @ db_ssl_mode d\<rparr>"
proof -
  let ?user = "db_user d @ '':'' @ db_password d" and ?port = "itoa (db_port d)"
  let ?host = "db_host d @ CHR '':'' # ?port" and ?tail = "db_database d @ ''?sslmode='' @ db_ssl_mode d"
  note port = plain_text_itoa [OF assms(6)]
  note parts = plain_text_without [OF assms(1)] plain_text_without [OF assms(2)] plain_text_without [OF assms(3)]
    plain_text_without [OF assms(4)] plain_text_without [OF assms(5)] plain_text_without [OF conjunct1 [OF port]]
  have "parseHost ?host = Inr ?host"
  proof -
    have "list_all host_char ?host"
      using assms(3) port by (auto simp: plain_text_def list_all_iff host_char_def)
    then have "host_decode False ?host = Some ?host" by (rule host_decode_plain) (simp add: parts)
    moreover have "\<not> has_prefix ?host ''[''" using parts by (cases "db_host d") (auto simp: has_prefix_def)
    moreover have "until CHR '':'' (rev ?host) = rev ?port"
      using until_here(1) [of "CHR '':''" "rev ?port" "rev (db_host d)"] by (simp add: parts)
    ultimately show ?thesis using port by (simp add: parseHost_def validOptionalPort_def)
  qed
  moreover have "until CHR ''@'' (rev (?user @ CHR ''@'' # ?host)) = rev ?host"
    using until_here(1) [of "CHR ''@''" "rev ?host" "rev ?user"] by (simp add: parts)
  moreover have "list_all (\<lambda>c. unreserved c \<or> c \<in> set '':!$&()*+,;=%@'' \<or> c = CHR 0x27) ?user"
    using assms(1,2) by (auto simp: plain_text_def list_all_iff)
  moreover have "percent_decode False ?user = Some ?user"
    by (rule percent_decode_plain) (simp add: parts)
  ultimately have auth: "parseAuthority (?user @ CHR ''@'' # ?host) = Inr ?host"
    by (simp add: parseAuthority_def Let_def)
  let ?auth = "?user @ CHR ''@'' # ?host" and ?query = "''sslmode='' @ db_ssl_mode d"
  have dsn: "DSN d = ''postgres://'' @ ?auth @ CHR ''/'' # db_database d @ CHR ''?'' # ?query"
    by (simp add: DSN_def)
  have "CHR ''#'' \<notin> set (DSN d)" using parts by (simp add: dsn)
  then have frag: "until CHR ''#'' (DSN d) = DSN d" "beyond CHR ''#'' (DSN d) = []"
    by (simp_all add: until_here)
  have ctl: "\<not> list_ex (\<lambda>c. code_of c < 32 \<or> code_of c = 127) (DSN d)"
    using parts by (auto simp: dsn list_all_iff list_ex_iff)
  have "parse_url (DSN d) = Inr \<lparr>u_scheme = ''postgres'', u_host = ?host, u_path = CHR ''/'' # db_database d, u_query = ?query\<rparr>"
  proof (rule parse_url_authority [OF _ _ _ _ _ auth])
    show "getScheme (DSN d) = Inr (''postgres'', ''//'' @ ?auth @ CHR ''/'' # db_database d @ CHR ''?'' # ?query)"
      unfolding dsn by (rule postgres_scheme)
    show "percent_decode False (CHR ''/'' # db_database d) = Some (CHR ''/'' # db_database d)"
      by (rule percent_decode_plain) (simp add: parts)
  qed (use ctl parts in simp_all)
  then show ?thesis by (simp add: Parse_def frag percent_decode.simps)
qed

text \<open>
  The parts are not escaped: a slash in the password ends the host, and the port before it is not a number;
  with a digit as the password's beginning, the connection goes to another host.
\<close>

definition demo_database :: "string \<Rightarrow> database_config" where
  "demo_database password =
     \<lparr>db_host = ''db'', db_port = 5, db_user = ''u'', db_password = password, db_database = ''d'', db_max_connections = 25,
      db_min_connections = 5, db_ssl_mode = ''disable''\<rparr>"

lemma DSN_slash_password:
  "\<not> is_ok (Parse (DSN (demo_database ''p/w'')))"
  "Parse (DSN (demo_database ''1/w'')) =
     Inr \<lparr>u_scheme = ''postgres'', u_host = ''u:1'', u_path = ''/w@db:5/d'', u_query = ''sslmode=disable''\<rparr>"
  by code_simp+

end
