(* ===== verification/Spec2Isabelle.thy ===== *)
theory Spec2Isabelle
  imports Replication FolderTree ClientServer Settings
begin

text \<open>
  DFMS, a distributed file system: the services of the server and its command-line client,
  modelled from the Go source and proved correct.

  \<^bold>\<open>The program.\<close>  A gateway (\<^verbatim>\<open>cmd/api-gateway\<close>) authenticates HTTP requests and calls the file
  service (\<^verbatim>\<open>internal/metadata\<close>), which keeps files, versions, folders and manifests in PostgreSQL, caches
  them in Redis, and sends contents to the chunk service (\<^verbatim>\<open>internal/chunking\<close>).  The chunk service cuts a
  stream where its content says, names each chunk by its SHA-256 and stores it once in an object
  store (\<^verbatim>\<open>internal/storage\<close>).  Files share chunks through reference counts; the garbage collector
  (\<^verbatim>\<open>internal/gc\<close>) removes chunks nothing refers to.  Services tell each other what happened through an
  event log (\<^verbatim>\<open>internal/events\<close>); the replication manager (\<^verbatim>\<open>internal/replication\<close>) places copies of new
  chunks on a consistent hash ring and restores them when the health monitor (\<^verbatim>\<open>internal/health\<close>) reports
  a lost node.  \<^verbatim>\<open>dfmsctl\<close> (\<^verbatim>\<open>internal/cli\<close>, \<^verbatim>\<open>internal/dfmsclient\<close>, \<^verbatim>\<open>internal/cliconfig\<close>) is the client.

  \<^bold>\<open>State and failures.\<close>  \<open>World\<close> holds the shared state: the tables, the Redis keys, the buckets, the
  event log and a counter of external calls.  Every call to PostgreSQL, Redis, the object store, Kafka or
  gRPC goes through \<open>ext\<close>, whose environment decides for the \<open>n\<close>-th call whether it is done, refused or
  done with its answer lost; so a theorem for every environment covers every pattern of failures.
  Clocks, identifiers and random numbers are read from the environment too.  Go errors are their texts
  (the gateway looks into them); \<^verbatim>\<open>(T, error)\<close> is a sum.

  \<^bold>\<open>Theories.\<close>
  \<^item> \<open>Prelude\<close>, \<open>GoText\<close>, \<open>StreamIO\<close>: integers of 64 and 32 bits, texts and numbers, byte streams.
  \<^item> \<open>Fingerprint\<close>: SHA-256 and its hexadecimal form (\<^verbatim>\<open>fingerprint.go\<close>).
  \<^item> \<open>ObjectStore\<close>, \<open>Cache\<close>: \<^verbatim>\<open>internal/storage/store.go\<close> and \<^verbatim>\<open>internal/cache/client.go\<close>.
  \<^item> \<open>Chunking\<close>, \<open>ChunkServer\<close>: \<^verbatim>\<open>cdc.go\<close>, \<^verbatim>\<open>assembler.go\<close>, \<^verbatim>\<open>server.go\<close>.  The workers of an upload are
    interleaved steps; the upload stores every chunk and the download returns the bytes.
  \<^item> \<open>Database\<close>: each method of the repository as a statement on the tables.
  \<^item> \<open>Events\<close>: topics, envelope, producer and the loop of the consumer.
  \<^item> \<open>FileService\<close>, \<open>FolderService\<close>, \<open>Gc\<close>, \<open>Multipart\<close>: \<^verbatim>\<open>service.go\<close>, \<^verbatim>\<open>service_phase6.go\<close>, \<^verbatim>\<open>collector.go\<close>,
    \<^verbatim>\<open>multipart.go\<close>.  Multipart uploads refine an abstract session of numbered parts.
  \<^item> \<open>Integrity\<close>, \<open>Durability\<close>: what holds across all of them in every history of operations: reference
    counts cover the files, every chunk of a kept file has its object, what was uploaded is read back,
    and an upload that meets no failure completes.
  \<^item> \<open>FolderTree\<close>: the parent links form a forest under every operation, cycles are refused, the
    recursive queries end and return exactly the descendants; and the race of two moves.
  \<^item> \<open>HashRing\<close>, \<open>Replication\<close>: the ring, the placement of chunks, the loss of nodes, the probes.
  \<^item> \<open>Http\<close>, \<open>Auth\<close>, \<open>RateLimit\<close>: requests and the middleware chain (locale \<open>admission\<close>), API errors, JWT pairs,
    passwords, the sliding window in Lua.
  \<^item> \<open>AuthApi\<close>, \<open>FileApi\<close>, \<open>FolderApi\<close>: the handlers of the gateway and its route table \<open>serve\<close>.
  \<^item> \<open>JsonText\<close>, \<open>JsonTypes\<close>, \<open>Urls\<close>, \<open>MediaType\<close>: what the client uses of Go's library: JSON and UTF-8 as text with
    their round trips, decoding into structs, URLs and queries, header parameters.
  \<^item> \<open>Desktop\<close>, \<open>SecretStore\<close>, \<open>CliConfig\<close>: the files of the user's machine under failing calls and a crash at any
    call, the atomic write of \<^verbatim>\<open>fsutil.go\<close>, the secrets (\<^verbatim>\<open>secrets.go\<close>) and the configuration with its contexts
    (\<^verbatim>\<open>config.go\<close>, \<^verbatim>\<open>context.go\<close>), which refine a map of contexts.
  \<^item> \<open>ClientErrors\<close>, \<open>Transport\<close>, \<open>ClientApi\<close>: \<^verbatim>\<open>internal/dfmsclient\<close>.  The requests that leave the client and the
    session the store holds afterwards; every endpoint; an upload in parts is the content cut in pieces.
  \<^item> \<open>CliText\<close>, \<open>Commands\<close>, \<open>Downloads\<close>: the commands of \<^verbatim>\<open>internal/cli\<close>.  A command takes the client's state (its
    files, its store, the network, the requests sent) to what it prints or to its error; a download
    replaces its destination whole or not at all.
  \<^item> \<open>Settings\<close>: the services' configuration (\<^verbatim>\<open>internal/config/config.go\<close>): where each setting comes from, the
    bounds a loaded configuration has, and the URL of the database.
  \<^item> \<open>ClientServer\<close>: client and gateway together: what one writes into a request or a response, the other reads
    back, and where it does not.

  \<^bold>\<open>Interfaces.\<close>  Where one component relies on another, the promise is a locale, interpreted on the
  model of the provider: \<open>object_store\<close> on \<^verbatim>\<open>MinIOStore\<close>, the chunk service's steps, the middleware that
  admits or refuses (\<open>admission\<close>, composed by \<open>two_admissions\<close>), the client's secret stores
  (\<open>secret_store_laws\<close>, on the keyring and on the file), each of which gives a token store for every context
  (\<open>token_store_laws\<close>, on which the transport rests), and the others their theories name.

  \<^bold>\<open>Bounds and fuel.\<close>  Loops whose end depends on a library or on data (the recursive queries of the
  folder tree) are \<open>partial_function (option)\<close>, and that they return is a theorem.  The parser of JSON
  takes as fuel one more than the length of the text: each of its calls reads a character, and
  \<open>parse_print\<close> shows that it is enough.  The client follows ten redirects, as net/http does; the pieces of
  a continued header parameter are bounded by the number of parameters.  Integers wrap at the width the
  code declares.

  \<^bold>\<open>Parameters.\<close>  Third-party code is an argument: where restic/chunker cuts and what polynomial it draws,
  JWT signing and parsing, bcrypt, the decoding of request bodies and e-mail validation, the parsing of
  keys, viper; for the client the keyring, the YAML library, the colours, the exchange of one request for one
  response over the network and the request made for a redirect, the operating system's table of MIME types
  and local time.  What is relied on is a named hypothesis of the theorems that need it.

  \<^bold>\<open>Not modelled.\<close>  Logs, metrics and traces, which nothing reads back; start-up and shutdown of the
  services and the opening of connections; generated code; of \<^verbatim>\<open>dfmsctl\<close> the declaration of commands and
  flags for cobra, the scripts of the shells that cobra generates, the progress bars, time limits and TLS
  settings.
\<close>

end
